(* ===== verification/Prelude.thy ===== *)
theory Prelude
  imports
    Main
    "HOL-Library.List_Lexorder"
    "HOL-Library.Char_ord"
    "HOL-Library.Product_Lexorder"
begin

text \<open>
  Shared vocabulary of the development: relational tables as lists of rows, the
  result types of the storage layer, the contract of a table with a primary key,
  and the generic list facts the component theories rely on.

  A table of the database is the list of its rows in row order. The functions
  below are the statements the code issues: \<open>select_by\<close> is a point lookup by key,
  \<open>insert_row\<close> is \<^verbatim>\<open>INSERT\<close> on a table with a primary key, \<open>update_where\<close> and
  \<open>count_where\<close> are \<^verbatim>\<open>UPDATE ... WHERE\<close> and the number of rows it changed,
  \<open>delete_where\<close> is \<^verbatim>\<open>DELETE ... WHERE\<close>, and \<open>order_limit\<close> is
  \<^verbatim>\<open>ORDER BY ... LIMIT\<close>. SQL leaves the order of ties open; the model keeps row
  order there, and no theorem depends on that choice.

  Strings are lists of bytes. Their order is the lexicographic byte order, which is
  the order Rust's \<^verbatim>\<open>str\<close> and SQLite's \<^verbatim>\<open>BINARY\<close> collation use.
\<close>

named_theorems table_simps \<open>how point lookups see the statements of the storage layer\<close>

datatype sql_error =
  PrimaryKeyViolation | ForeignKeyViolation | QueryReturnedNoRows | ToSqlConversionFailure

type_synonym 'a sql_result = "sql_error + 'a"
type_synonym bytes = "char list"

text \<open>
  JSON values are a type of a third-party library; the coordination layer only
  prints them into text columns and parses them back. They are a type parameter
  \<open>'j\<close>, and the library's printer, its parser and its null value are the fields of
  a \<open>codec\<close>. \<open>codec_ok\<close> is the library's documented round trip.
\<close>

record 'j codec =
  json_to_string :: "'j \<Rightarrow> string"
  json_from_str :: "string \<Rightarrow> 'j option"
  json_null :: 'j

definition codec_ok :: "'j codec \<Rightarrow> bool" where
  "codec_ok c \<longleftrightarrow> (\<forall>v. json_from_str c (json_to_string c v) = Some v)"

definition json_column :: "'j codec \<Rightarrow> string \<Rightarrow> 'j" where
  "json_column c s = (case json_from_str c s of Some v \<Rightarrow> v | None \<Rightarrow> json_null c)"

lemma json_column_roundtrip: "codec_ok c \<Longrightarrow> json_column c (json_to_string c v) = v"
  by (simp add: codec_ok_def json_column_def)

definition text_codec :: "string codec" where
  "text_codec = \<lparr>json_to_string = (\<lambda>v. v), json_from_str = Some, json_null = ''null''\<rparr>"

lemma text_codec_ok: "codec_ok text_codec"
  by (simp add: codec_ok_def text_codec_def)

section \<open>Statements on tables\<close>

definition select_by :: "('r \<Rightarrow> 'k) \<Rightarrow> 'k \<Rightarrow> 'r list \<Rightarrow> 'r option" where
  "select_by key k t = find (\<lambda>r. key r = k) t"

definition keys_unique :: "('r \<Rightarrow> 'k) \<Rightarrow> 'r list \<Rightarrow> bool" where
  "keys_unique key t = distinct (map key t)"

definition insert_row :: "('r \<Rightarrow> 'k) \<Rightarrow> 'r \<Rightarrow> 'r list \<Rightarrow> 'r list sql_result" where
  "insert_row key r t =
     (if select_by key (key r) t = None then Inr (t @ [r]) else Inl PrimaryKeyViolation)"

definition update_where :: "('r \<Rightarrow> bool) \<Rightarrow> ('r \<Rightarrow> 'r) \<Rightarrow> 'r list \<Rightarrow> 'r list" where
  "update_where p f t = map (\<lambda>r. if p r then f r else r) t"

definition count_where :: "('r \<Rightarrow> bool) \<Rightarrow> 'r list \<Rightarrow> nat" where
  "count_where p t = length (filter p t)"

definition delete_where :: "('r \<Rightarrow> bool) \<Rightarrow> 'r list \<Rightarrow> 'r list" where
  "delete_where p t = filter (\<lambda>r. \<not> p r) t"

definition order_limit :: "('r \<Rightarrow> 'o::linorder) \<Rightarrow> nat \<Rightarrow> 'r list \<Rightarrow> 'r list" where
  "order_limit ord lim t = take lim (sort_key ord t)"

section \<open>Point lookups after statements\<close>

lemma select_by_Nil [table_simps]: "select_by key k [] = None"
  by (simp add: select_by_def)

lemma select_by_Cons [table_simps]:
  "select_by key k (r # t) = (if key r = k then Some r else select_by key k t)"
  by (simp add: select_by_def)

lemma select_by_append [table_simps]:
  "select_by key k (t @ u) =
     (case select_by key k t of None \<Rightarrow> select_by key k u | Some r \<Rightarrow> Some r)"
  by (induction t) (auto simp: table_simps)

lemma select_by_None_iff: "select_by key k t = None \<longleftrightarrow> k \<notin> key ` set t"
  by (induction t) (auto simp: table_simps)

lemma select_by_SomeD: "select_by key k t = Some r \<Longrightarrow> r \<in> set t \<and> key r = k"
  by (induction t) (auto simp: table_simps split: if_splits)

lemma select_by_unique:
  "keys_unique key t \<Longrightarrow> select_by key k t = Some r \<longleftrightarrow> r \<in> set t \<and> key r = k"
  by (induction t) (auto simp: table_simps keys_unique_def)

lemma select_by_update [table_simps]:
  assumes "\<And>r. key (f r) = key r"
  shows "select_by key k (update_where p f t) =
    map_option (\<lambda>r. if p r then f r else r) (select_by key k t)"
  by (induction t) (auto simp: table_simps update_where_def assms)

lemma select_by_delete:
  assumes "keys_unique key t"
  shows "select_by key k (delete_where p t) =
    (case select_by key k t of None \<Rightarrow> None | Some r \<Rightarrow> if p r then None else Some r)"
  using assms
proof (induction t)
  case Nil
  then show ?case by (simp add: delete_where_def table_simps)
next
  case (Cons r t)
  then have IH: "select_by key k (filter (\<lambda>r. \<not> p r) t) =
      (case select_by key k t of None \<Rightarrow> None | Some r \<Rightarrow> if p r then None else Some r)"
    by (simp add: keys_unique_def delete_where_def)
  have "key r = k \<Longrightarrow> select_by key k t = None"
    using Cons.prems by (auto simp: select_by_None_iff keys_unique_def)
  then show ?case
    using IH by (auto simp: delete_where_def table_simps)
qed

lemma insert_row_Inr:
  "insert_row key r t = Inr t' \<longleftrightarrow> select_by key (key r) t = None \<and> t' = t @ [r]"
  by (auto simp: insert_row_def)

lemma select_by_insert:
  assumes "insert_row key r t = Inr t'"
  shows "select_by key k t' = (if k = key r then Some r else select_by key k t)"
  using assms by (auto simp: insert_row_Inr table_simps split: option.splits)

section \<open>Key uniqueness is kept by every statement\<close>

lemma keys_unique_Nil [simp]: "keys_unique key []"
  by (simp add: keys_unique_def)

lemma keys_unique_insert:
  "keys_unique key t \<Longrightarrow> insert_row key r t = Inr t' \<Longrightarrow> keys_unique key t'"
  by (auto simp: insert_row_Inr keys_unique_def select_by_None_iff)

lemma keys_unique_update:
  assumes "\<And>r. key (f r) = key r"
  shows "keys_unique key (update_where p f t) = keys_unique key t"
proof -
  have "map key (update_where p f t) = map key t"
    by (simp add: update_where_def assms)
  then show ?thesis by (simp add: keys_unique_def)
qed

lemma keys_unique_delete: "keys_unique key t \<Longrightarrow> keys_unique key (delete_where p t)"
  by (induction t) (auto simp: keys_unique_def delete_where_def)

lemma keys_update_where:
  assumes "\<And>r. key (f r) = key r"
  shows "key ` set (update_where p f t) = key ` set t"
proof -
  have "map key (update_where p f t) = map key t"
    by (simp add: update_where_def assms)
  then show ?thesis by (metis list.set_map)
qed

lemma count_where_0_iff: "count_where p t = 0 \<longleftrightarrow> (\<forall>r \<in> set t. \<not> p r)"
  by (simp add: count_where_def filter_empty_conv)

lemma count_by_key:
  assumes "keys_unique key t"
  shows "count_where (\<lambda>r. key r = k \<and> q r) t = 0 \<longleftrightarrow>
    (case select_by key k t of None \<Rightarrow> True | Some r \<Rightarrow> \<not> q r)"
proof (cases "select_by key k t")
  case None
  then have "\<forall>r \<in> set t. key r \<noteq> k"
    by (auto simp: select_by_None_iff)
  then show ?thesis
    using None by (simp add: count_where_0_iff)
next
  case (Some r)
  with assms have r: "s \<in> set t \<and> key s = k \<longleftrightarrow> s = r" for s
    by (metis option.inject select_by_unique)
  have "(\<forall>s \<in> set t. key s = k \<longrightarrow> \<not> q s) \<longleftrightarrow> \<not> q r"
    using r by metis
  then show ?thesis
    using Some by (simp add: count_where_0_iff)
qed

lemma update_where_none: "count_where p t = 0 \<Longrightarrow> update_where p f t = t"
  by (simp add: count_where_0_iff update_where_def map_idI)

lemma delete_where_none: "count_where p t = 0 \<Longrightarrow> delete_where p t = t"
  by (simp add: count_where_0_iff delete_where_def)

section \<open>Ordered and limited results\<close>

lemma set_order_limit_subset: "set (order_limit ord lim t) \<subseteq> set t"
  by (metis order_limit_def set_sort set_take_subset)

lemma length_order_limit: "length (order_limit ord lim t) = min lim (length t)"
  by (simp add: order_limit_def min.commute)

lemma sorted_order_limit: "sorted (map ord (order_limit ord lim t))"
  by (metis order_limit_def sorted_sort_key sorted_wrt_take take_map)

lemma set_order_limit: "length t \<le> lim \<Longrightarrow> set (order_limit ord lim t) = set t"
  by (simp add: order_limit_def)

lemma order_limit_best:
  assumes "r \<in> set (order_limit ord lim t)" and "s \<in> set t"
    and "s \<notin> set (order_limit ord lim t)"
  shows "ord r \<le> ord s"
proof -
  let ?u = "sort_key ord t"
  have "s \<in> set ?u" using assms(2) by simp
  then have "s \<in> set (take lim ?u) \<union> set (drop lim ?u)"
    by (metis append_take_drop_id set_append)
  then have "s \<in> set (drop lim ?u)" using assms(3) by (simp add: order_limit_def)
  moreover have "sorted (map ord (take lim ?u) @ map ord (drop lim ?u))"
    by (simp only: map_append [symmetric] append_take_drop_id) (rule sorted_sort_key)
  ultimately show ?thesis
    using assms(1) unfolding order_limit_def sorted_append by simp
qed

section \<open>The contract of a keyed table\<close>

text \<open>
  What every repository of the coordination layer promises its callers: a row is
  found under its key after it was inserted, other rows are untouched, a second
  insert of the same key is refused, and the invariant is kept. Rows are inserted
  through \<open>put\<close> and read through \<open>get\<close>; \<open>stored\<close> says which rows survive the trip
  through the text columns unchanged.
\<close>

locale keyed_store =
  fixes get :: "'db \<Rightarrow> string \<Rightarrow> 'r option"
    and put :: "'db \<Rightarrow> 'r \<Rightarrow> ('db \<times> string) sql_result"
    and key :: "'r \<Rightarrow> string"
    and stored :: "'r \<Rightarrow> bool"
    and inv :: "'db \<Rightarrow> bool"
  assumes put_refused: "put db r = Inl PrimaryKeyViolation \<longleftrightarrow> get db (key r) \<noteq> None"
    and put_id: "put db r = Inr (db', k) \<Longrightarrow> k = key r"
    and get_put: "put db r = Inr (db', k) \<Longrightarrow> stored r \<Longrightarrow>
      get db' j = (if j = key r then Some r else get db j)"
    and inv_put: "inv db \<Longrightarrow> put db r = Inr (db', k) \<Longrightarrow> inv db'"
begin

lemma get_own: "put db r = Inr (db', k) \<Longrightarrow> stored r \<Longrightarrow> get db' k = Some r"
  using get_put put_id by simp

lemma get_other:
  "put db r = Inr (db', k) \<Longrightarrow> stored r \<Longrightarrow> j \<noteq> key r \<Longrightarrow> get db' j = get db j"
  using get_put by simp

lemma put_twice_refused:
  assumes "put db r = Inr (db', k)" and "stored r"
  shows "put db' r = Inl PrimaryKeyViolation"
  using get_put [OF assms, of "key r"] by (simp add: put_refused)

end

section \<open>The contract of a wire vocabulary\<close>

text \<open>
  The closed enumerations of the program are stored and sent as text. Each promises that its
  printer and its parser are inverse: the parser accepts exactly the printed words.
\<close>

locale wire_enum =
  fixes as_str :: "'e \<Rightarrow> string" and from_str :: "string \<Rightarrow> 'e option"
  assumes from_as: "from_str (as_str e) = Some e"
    and as_from: "from_str s = Some e \<Longrightarrow> s = as_str e"
begin

lemma from_str_iff: "from_str s = Some e \<longleftrightarrow> s = as_str e"
  using from_as as_from by blast

lemma as_str_inject: "as_str d = as_str e \<longleftrightarrow> d = e"
  by (metis from_as option.inject)

lemma from_str_None_iff: "from_str s = None \<longleftrightarrow> s \<notin> range as_str"
  by (metis from_as as_from not_None_eq rangeE rangeI option.distinct(1))

end

end
