(* ===== verification/Actions.thy ===== *)
theory Actions
  imports Prelude
begin

text \<open>
  The coordination actions of \<^verbatim>\<open>src/models/action.rs\<close> and \<^verbatim>\<open>src/actions/mod.rs\<close>:
  the action state machine, the typed dependency edges, the frontier queries and the
  single-holder leases, over the tables \<open>actions\<close>, \<open>action_edges\<close> and \<open>leases\<close>.

  A stored row keeps the state and the JSON columns as text (\<open>action_row\<close>), as the
  schema does; \<open>row_to_action\<close> decodes it. Timestamps and priorities are the code's
  64-bit integers: no function here computes with them, so they are unbounded here.
\<close>

section \<open>The data model\<close>

datatype action_state = Pending | Claimed | InProgress | Done | Failed | Abandoned

fun action_state_as_str :: "action_state \<Rightarrow> string" where
  "action_state_as_str Pending = ''pending''"
| "action_state_as_str Claimed = ''claimed''"
| "action_state_as_str InProgress = ''in_progress''"
| "action_state_as_str Done = ''done''"
| "action_state_as_str Failed = ''failed''"
| "action_state_as_str Abandoned = ''abandoned''"

definition action_state_from_str :: "string \<Rightarrow> action_state option" where
  "action_state_from_str s =
     (if s = ''pending'' then Some Pending
      else if s = ''claimed'' then Some Claimed
      else if s = ''in_progress'' then Some InProgress
      else if s = ''done'' then Some Done
      else if s = ''failed'' then Some Failed
      else if s = ''abandoned'' then Some Abandoned
      else None)"

fun can_transition_to :: "action_state \<Rightarrow> action_state \<Rightarrow> bool" where
  "can_transition_to Pending Claimed = True"
| "can_transition_to Pending Abandoned = True"
| "can_transition_to Claimed InProgress = True"
| "can_transition_to Claimed Pending = True"
| "can_transition_to Claimed Abandoned = True"
| "can_transition_to InProgress Done = True"
| "can_transition_to InProgress Failed = True"
| "can_transition_to InProgress Abandoned = True"
| "can_transition_to _ _ = False"

fun is_terminal :: "action_state \<Rightarrow> bool" where
  "is_terminal Done = True"
| "is_terminal Failed = True"
| "is_terminal Abandoned = True"
| "is_terminal _ = False"

record ('s, 'j) action_rec =
  act_id :: string
  act_namespace :: string
  act_kind :: string
  act_state :: 's
  act_title :: string
  act_payload :: 'j
  act_priority :: int
  act_agent_id :: "string option"
  act_claimed_by :: "string option"
  act_vector_clock :: 'j
  act_metadata :: 'j
  act_created_at :: int
  act_updated_at :: int

type_synonym 'j action = "(action_state, 'j) action_rec"
type_synonym action_row = "(string, string) action_rec"

datatype edge_type = Requires | Unlocks | Blocks | GatedBy | Sibling

fun edge_type_as_str :: "edge_type \<Rightarrow> string" where
  "edge_type_as_str Requires = ''requires''"
| "edge_type_as_str Unlocks = ''unlocks''"
| "edge_type_as_str Blocks = ''blocks''"
| "edge_type_as_str GatedBy = ''gated_by''"
| "edge_type_as_str Sibling = ''sibling''"

definition edge_type_from_str :: "string \<Rightarrow> edge_type option" where
  "edge_type_from_str s =
     (if s = ''requires'' then Some Requires
      else if s = ''unlocks'' then Some Unlocks
      else if s = ''blocks'' then Some Blocks
      else if s = ''gated_by'' then Some GatedBy
      else if s = ''sibling'' then Some Sibling
      else None)"

record 't edge_rec =
  from_action :: string
  to_action :: string
  edge_kind :: 't
  edge_created_at :: int

type_synonym action_edge = "edge_type edge_rec"
type_synonym edge_row = "string edge_rec"

record lease =
  lease_action :: string
  lease_holder :: string
  lease_acquired_at :: int
  lease_expires_at :: int
  lease_heartbeat_at :: int

record coord_db =
  actions :: "action_row list"
  action_edges :: "edge_row list"
  leases :: "lease list"

datatype 'j transition_outcome =
    TransitionNotFound
  | TransitionIllegal action_state action_state
  | TransitionUpdated "'j action"

datatype 'j cas_outcome =
    CasNotFound
  | CasStateMismatch action_state
  | CasIllegal action_state action_state
  | CasApplied "'j action"

datatype lease_acquire_outcome = LeaseConflict | LeaseAcquired lease

section \<open>Rows and point reads\<close>

text \<open>An unknown spelling in the state column reads as the default state.\<close>

definition state_column :: "string \<Rightarrow> action_state" where
  "state_column s = (case action_state_from_str s of Some st \<Rightarrow> st | None \<Rightarrow> Pending)"

definition row_to_action :: "'j codec \<Rightarrow> action_row \<Rightarrow> 'j action" where
  "row_to_action c r =
     \<lparr>act_id = act_id r, act_namespace = act_namespace r, act_kind = act_kind r,
      act_state = state_column (act_state r), act_title = act_title r,
      act_payload = json_column c (act_payload r), act_priority = act_priority r,
      act_agent_id = act_agent_id r, act_claimed_by = act_claimed_by r,
      act_vector_clock = json_column c (act_vector_clock r),
      act_metadata = json_column c (act_metadata r),
      act_created_at = act_created_at r, act_updated_at = act_updated_at r\<rparr>"

definition action_to_row :: "'j codec \<Rightarrow> 'j action \<Rightarrow> action_row" where
  "action_to_row c a =
     \<lparr>act_id = act_id a, act_namespace = act_namespace a, act_kind = act_kind a,
      act_state = action_state_as_str (act_state a), act_title = act_title a,
      act_payload = json_to_string c (act_payload a), act_priority = act_priority a,
      act_agent_id = act_agent_id a, act_claimed_by = act_claimed_by a,
      act_vector_clock = json_to_string c (act_vector_clock a),
      act_metadata = json_to_string c (act_metadata a),
      act_created_at = act_created_at a, act_updated_at = act_updated_at a\<rparr>"

definition action_create ::
  "'j codec \<Rightarrow> coord_db \<Rightarrow> 'j action \<Rightarrow> (coord_db \<times> string) sql_result" where
  "action_create c db a =
     (case insert_row act_id (action_to_row c a) (actions db) of
        Inl e \<Rightarrow> Inl e
      | Inr t \<Rightarrow> Inr (db\<lparr>actions := t\<rparr>, act_id a))"

definition action_get :: "'j codec \<Rightarrow> coord_db \<Rightarrow> string \<Rightarrow> 'j action option" where
  "action_get c db i = map_option (row_to_action c) (select_by act_id i (actions db))"

section \<open>Transitions\<close>

definition set_state ::
  "action_state \<Rightarrow> string option \<Rightarrow> int \<Rightarrow> action_row \<Rightarrow> action_row" where
  "set_state to cb now r =
     r\<lparr>act_state := action_state_as_str to, act_claimed_by := cb, act_updated_at := now\<rparr>"

definition action_transition ::
  "'j codec \<Rightarrow> coord_db \<Rightarrow> string \<Rightarrow> action_state \<Rightarrow> string option \<Rightarrow> int
    \<Rightarrow> coord_db \<times> 'j transition_outcome sql_result" where
  "action_transition c db i to cb now =
     (case select_by act_id i (actions db) of
        None \<Rightarrow> (db, Inr TransitionNotFound)
      | Some r \<Rightarrow>
          let from = state_column (act_state r) in
          if \<not> can_transition_to from to then (db, Inr (TransitionIllegal from to))
          else
            let db' = db\<lparr>actions :=
                  update_where (\<lambda>r. act_id r = i) (set_state to cb now) (actions db)\<rparr>
            in (db', case action_get c db' i of
                       Some a \<Rightarrow> Inr (TransitionUpdated a)
                     | None \<Rightarrow> Inl QueryReturnedNoRows))"

definition transition_cas ::
  "'j codec \<Rightarrow> coord_db \<Rightarrow> string \<Rightarrow> action_state \<Rightarrow> action_state \<Rightarrow> string option \<Rightarrow> int
    \<Rightarrow> coord_db \<times> 'j cas_outcome sql_result" where
  "transition_cas c db i from to cb now =
     (if \<not> can_transition_to from to then (db, Inr (CasIllegal from to))
      else
        let guard = (\<lambda>r. act_id r = i \<and> act_state r = action_state_as_str from);
            changed = count_where guard (actions db);
            db' = db\<lparr>actions := update_where guard (set_state to cb now) (actions db)\<rparr>
        in if changed = 0 then
             (db', case select_by act_id i (actions db') of
                     None \<Rightarrow> Inr CasNotFound
                   | Some r \<Rightarrow> Inr (CasStateMismatch (state_column (act_state r))))
           else
             (db', case action_get c db' i of
                     Some a \<Rightarrow> Inr (CasApplied a)
                   | None \<Rightarrow> Inl QueryReturnedNoRows))"

section \<open>Lists, edges and the frontier\<close>

definition action_list ::
  "'j codec \<Rightarrow> coord_db \<Rightarrow> string option \<Rightarrow> action_state option \<Rightarrow> nat \<Rightarrow> 'j action list" where
  "action_list c db ns st lim =
     map (row_to_action c)
       (order_limit (\<lambda>r. - act_updated_at r) lim
         (filter (\<lambda>r. (case ns of None \<Rightarrow> True | Some n \<Rightarrow> act_namespace r = n) \<and>
                      (case st of None \<Rightarrow> True | Some s \<Rightarrow> act_state r = action_state_as_str s))
           (actions db)))"

text \<open>The two sub-queries of the frontier: an open prerequisite, and a live blocker.\<close>

definition open_prerequisite :: "coord_db \<Rightarrow> action_row \<Rightarrow> bool" where
  "open_prerequisite db a =
     list_ex (\<lambda>e. from_action e = act_id a \<and>
         (edge_kind e = edge_type_as_str Requires \<or> edge_kind e = edge_type_as_str GatedBy) \<and>
         list_ex (\<lambda>b. act_id b = to_action e \<and> act_state b \<noteq> action_state_as_str Done) (actions db))
       (action_edges db)"

definition live_blocker :: "coord_db \<Rightarrow> action_row \<Rightarrow> bool" where
  "live_blocker db a =
     list_ex (\<lambda>e. to_action e = act_id a \<and> edge_kind e = edge_type_as_str Blocks \<and>
         list_ex (\<lambda>b. act_id b = from_action e \<and>
             act_state b \<notin> set (map action_state_as_str [Done, Failed, Abandoned])) (actions db))
       (action_edges db)"

definition frontier_where_tail :: "coord_db \<Rightarrow> string \<Rightarrow> action_row \<Rightarrow> bool" where
  "frontier_where_tail db ns a \<longleftrightarrow>
     act_namespace a = ns \<and> act_state a = action_state_as_str Pending \<and>
     \<not> open_prerequisite db a \<and> \<not> live_blocker db a"

definition frontier_rank :: "action_row \<Rightarrow> int \<times> int" where
  "frontier_rank a = (- act_priority a, act_created_at a)"

definition frontier :: "'j codec \<Rightarrow> coord_db \<Rightarrow> string \<Rightarrow> nat \<Rightarrow> 'j action list" where
  "frontier c db ns lim =
     map (row_to_action c)
       (order_limit frontier_rank lim (filter (frontier_where_tail db ns) (actions db)))"

text \<open>The owner narrowing the code adds when the caller names itself.\<close>

definition claimable :: "string option \<Rightarrow> action_row \<Rightarrow> bool" where
  "claimable agent a =
     (case agent of None \<Rightarrow> True
      | Some g \<Rightarrow> act_agent_id a = Some g \<or> act_agent_id a = None)"

definition next_action ::
  "'j codec \<Rightarrow> coord_db \<Rightarrow> string \<Rightarrow> string option \<Rightarrow> 'j action option" where
  "next_action c db ns agent =
     (case order_limit frontier_rank 1
         (filter (\<lambda>a. frontier_where_tail db ns a \<and> claimable agent a) (actions db)) of
        [] \<Rightarrow> None
      | r # _ \<Rightarrow> Some (row_to_action c r))"

text \<open>
  \<^verbatim>\<open>INSERT OR IGNORE\<close> skips a duplicate of the composite key; a missing endpoint is a
  foreign-key error, which \<^verbatim>\<open>OR IGNORE\<close> does not cover.
\<close>

definition edge_key :: "edge_row \<Rightarrow> string \<times> string \<times> string" where
  "edge_key e = (from_action e, to_action e, edge_kind e)"

definition has_action :: "coord_db \<Rightarrow> string \<Rightarrow> bool" where
  "has_action db i \<longleftrightarrow> select_by act_id i (actions db) \<noteq> None"

definition add_edge ::
  "coord_db \<Rightarrow> string \<Rightarrow> string \<Rightarrow> edge_type \<Rightarrow> int \<Rightarrow> coord_db sql_result" where
  "add_edge db f t k now =
     (let e = \<lparr>from_action = f, to_action = t, edge_kind = edge_type_as_str k,
               edge_created_at = now\<rparr>
      in if select_by edge_key (edge_key e) (action_edges db) \<noteq> None then Inr db
         else if \<not> has_action db f \<or> \<not> has_action db t then Inl ForeignKeyViolation
         else Inr (db\<lparr>action_edges := action_edges db @ [e]\<rparr>))"

definition row_to_edge :: "edge_row \<Rightarrow> action_edge" where
  "row_to_edge r =
     \<lparr>from_action = from_action r, to_action = to_action r,
      edge_kind = (case edge_type_from_str (edge_kind r) of Some k \<Rightarrow> k | None \<Rightarrow> Sibling),
      edge_created_at = edge_created_at r\<rparr>"

definition edges_for :: "coord_db \<Rightarrow> string \<Rightarrow> action_edge list" where
  "edges_for db i =
     map row_to_edge (sort_key edge_created_at
       (filter (\<lambda>e. from_action e = i \<or> to_action e = i) (action_edges db)))"

section \<open>Leases\<close>

definition lease_get :: "coord_db \<Rightarrow> string \<Rightarrow> lease option" where
  "lease_get db i = select_by lease_action i (leases db)"

definition lease_acquire ::
  "coord_db \<Rightarrow> string \<Rightarrow> string \<Rightarrow> int \<Rightarrow> int
    \<Rightarrow> coord_db \<times> lease_acquire_outcome sql_result" where
  "lease_acquire db i h now expiry =
     (if (case lease_get db i of None \<Rightarrow> False
          | Some l \<Rightarrow> lease_expires_at l > now \<and> lease_holder l \<noteq> h)
      then (db, Inr LeaseConflict)
      else if \<not> has_action db i then (db, Inl ForeignKeyViolation)
      else
        let l = \<lparr>lease_action = i, lease_holder = h, lease_acquired_at = now,
                 lease_expires_at = expiry, lease_heartbeat_at = now\<rparr>;
            db' = db\<lparr>leases := delete_where (\<lambda>l. lease_action l = i) (leases db) @ [l]\<rparr>
        in (db', case lease_get db' i of
                   Some l' \<Rightarrow> Inr (LeaseAcquired l')
                 | None \<Rightarrow> Inl QueryReturnedNoRows))"

definition lease_renew ::
  "coord_db \<Rightarrow> string \<Rightarrow> string \<Rightarrow> int \<Rightarrow> int \<Rightarrow> coord_db \<times> lease option" where
  "lease_renew db i h now expiry =
     (let own = (\<lambda>l. lease_action l = i \<and> lease_holder l = h);
          n = count_where own (leases db);
          db' = db\<lparr>leases := update_where own
                  (\<lambda>l. l\<lparr>lease_expires_at := expiry, lease_heartbeat_at := now\<rparr>) (leases db)\<rparr>
      in if n = 0 then (db', None) else (db', lease_get db' i))"

definition lease_release :: "coord_db \<Rightarrow> string \<Rightarrow> string \<Rightarrow> coord_db \<times> bool" where
  "lease_release db i h =
     (let own = (\<lambda>l. lease_action l = i \<and> lease_holder l = h);
          n = count_where own (leases db)
      in (db\<lparr>leases := delete_where own (leases db)\<rparr>, n > 0))"

definition sweep_expired_leases :: "coord_db \<Rightarrow> int \<Rightarrow> coord_db \<times> nat" where
  "sweep_expired_leases db now =
     (db\<lparr>leases := delete_where (\<lambda>l. lease_expires_at l \<le> now) (leases db)\<rparr>,
      count_where (\<lambda>l. lease_expires_at l \<le> now) (leases db))"

section \<open>Spellings and the state graph\<close>

lemma action_state_roundtrip [simp]:
  "action_state_from_str (action_state_as_str s) = Some s"
  by (cases s) (simp_all add: action_state_from_str_def)

lemma state_column_as_str [simp]: "state_column (action_state_as_str s) = s"
  by (simp add: state_column_def)

lemma action_state_as_str_inject [simp]:
  "action_state_as_str s = action_state_as_str t \<longleftrightarrow> s = t"
  by (metis action_state_roundtrip option.inject)

lemma edge_type_roundtrip [simp]: "edge_type_from_str (edge_type_as_str k) = Some k"
  by (cases k) (simp_all add: edge_type_from_str_def)

lemma can_transition_irrefl: "can_transition_to s t \<Longrightarrow> s \<noteq> t"
  by (cases s; cases t) auto

lemma terminal_no_transition: "is_terminal s \<Longrightarrow> \<not> can_transition_to s t"
  by (cases s; cases t) auto

lemma can_transition_iff_live: "(\<exists>t. can_transition_to s t) \<longleftrightarrow> \<not> is_terminal s"
  by (cases s) (auto intro: exI [of _ Abandoned] simp: terminal_no_transition)

lemma row_action_roundtrip: "codec_ok c \<Longrightarrow> row_to_action c (action_to_row c a) = a"
  by (simp add: row_to_action_def action_to_row_def json_column_roundtrip)

lemma act_id_set_state [simp]: "act_id (set_state to cb now r) = act_id r"
  by (simp add: set_state_def)

lemma act_id_to_row [simp]: "act_id (action_to_row c a) = act_id a"
  by (simp add: action_to_row_def)

lemma act_id_row_to_action [simp]: "act_id (row_to_action c r) = act_id r"
  by (simp add: row_to_action_def)

section \<open>The repository contract\<close>

definition actions_inv :: "coord_db \<Rightarrow> bool" where
  "actions_inv db \<longleftrightarrow> keys_unique act_id (actions db)"

lemma action_create_Inr:
  "action_create c db a = Inr (db', k) \<longleftrightarrow>
     k = act_id a \<and> (\<exists>t. insert_row act_id (action_to_row c a) (actions db) = Inr t \<and>
       db' = db\<lparr>actions := t\<rparr>)"
  by (auto simp: action_create_def split: sum.splits)

interpretation action_store: keyed_store
  "action_get c" "action_create c" act_id "\<lambda>a. codec_ok c" actions_inv
  for c :: "'j codec"
proof
  fix db :: coord_db and a :: "'j action" and db' k j
  show "action_create c db a = Inl PrimaryKeyViolation \<longleftrightarrow> action_get c db (act_id a) \<noteq> None"
    by (simp add: action_create_def action_get_def insert_row_def)
  show "action_create c db a = Inr (db', k) \<Longrightarrow> k = act_id a"
    by (simp add: action_create_Inr)
  show "action_create c db a = Inr (db', k) \<Longrightarrow> codec_ok c \<Longrightarrow>
      action_get c db' j = (if j = act_id a then Some a else action_get c db j)"
    by (auto simp: action_create_Inr action_get_def select_by_insert row_action_roundtrip)
  show "actions_inv db \<Longrightarrow> action_create c db a = Inr (db', k) \<Longrightarrow> actions_inv db'"
    by (auto simp: action_create_Inr actions_inv_def intro: keys_unique_insert)
qed

section \<open>What a transition does\<close>

lemma select_set_state [table_simps]:
  "select_by act_id j (update_where p (set_state to cb now) t) =
     map_option (\<lambda>r. if p r then set_state to cb now r else r) (select_by act_id j t)"
  by (rule select_by_update) simp

lemma action_transition_cases:
  "action_transition c db i to cb now =
     (case select_by act_id i (actions db) of
        None \<Rightarrow> (db, Inr TransitionNotFound)
      | Some r \<Rightarrow>
          if can_transition_to (state_column (act_state r)) to
          then (db\<lparr>actions := update_where (\<lambda>r. act_id r = i) (set_state to cb now) (actions db)\<rparr>,
                Inr (TransitionUpdated (row_to_action c (set_state to cb now r))))
          else (db, Inr (TransitionIllegal (state_column (act_state r)) to)))"
  by (auto simp: action_transition_def action_get_def Let_def table_simps
      split: option.splits dest: select_by_SomeD)

lemma transition_cas_cases:
  assumes "actions_inv db"
  shows "transition_cas c db i from to cb now =
     (if \<not> can_transition_to from to then (db, Inr (CasIllegal from to))
      else case select_by act_id i (actions db) of
        None \<Rightarrow> (db, Inr CasNotFound)
      | Some r \<Rightarrow>
          if act_state r = action_state_as_str from
          then (db\<lparr>actions := update_where
                  (\<lambda>r. act_id r = i \<and> act_state r = action_state_as_str from)
                  (set_state to cb now) (actions db)\<rparr>,
                Inr (CasApplied (row_to_action c (set_state to cb now r))))
          else (db, Inr (CasStateMismatch (state_column (act_state r)))))"
proof -
  let ?g = "\<lambda>r. act_id r = i \<and> act_state r = action_state_as_str from"
  have cnt: "count_where ?g (actions db) = 0 \<longleftrightarrow>
      (case select_by act_id i (actions db) of None \<Rightarrow> True
       | Some r \<Rightarrow> act_state r \<noteq> action_state_as_str from)"
    using assms by (simp add: count_by_key actions_inv_def)
  have same: "count_where ?g (actions db) = 0 \<Longrightarrow>
      db\<lparr>actions := update_where ?g (set_state to cb now) (actions db)\<rparr> = db"
    by (simp add: update_where_none)
  show ?thesis
  proof (cases "count_where ?g (actions db) = 0")
    case True
    with cnt same show ?thesis
      by (auto simp: transition_cas_def Let_def split: option.splits)
  next
    case False
    then obtain r where "select_by act_id i (actions db) = Some r"
      and "act_state r = action_state_as_str from"
      using cnt by (auto split: option.splits)
    with False show ?thesis
      by (auto simp: transition_cas_def Let_def action_get_def table_simps
          dest: select_by_SomeD)
  qed
qed

section \<open>Runs of the coordination layer\<close>

text \<open>
  One step is one call of a state-changing operation, with any arguments, by any
  caller; \<open>coord_steps\<close> is any interleaving of such calls.
\<close>

inductive coord_step :: "'j codec \<Rightarrow> coord_db \<Rightarrow> coord_db \<Rightarrow> bool" for c :: "'j codec" where
  step_create: "action_create c db a = Inr (db', k) \<Longrightarrow> coord_step c db db'"
| step_transition: "fst (action_transition c db i to cb now) = db' \<Longrightarrow> coord_step c db db'"
| step_cas: "fst (transition_cas c db i from to cb now) = db' \<Longrightarrow> coord_step c db db'"
| step_edge: "add_edge db f t k now = Inr db' \<Longrightarrow> coord_step c db db'"
| step_acquire: "fst (lease_acquire db i h now expiry) = db' \<Longrightarrow> coord_step c db db'"
| step_renew: "fst (lease_renew db i h now expiry) = db' \<Longrightarrow> coord_step c db db'"
| step_release: "fst (lease_release db i h) = db' \<Longrightarrow> coord_step c db db'"
| step_sweep: "fst (sweep_expired_leases db now) = db' \<Longrightarrow> coord_step c db db'"

abbreviation coord_steps :: "'j codec \<Rightarrow> coord_db \<Rightarrow> coord_db \<Rightarrow> bool" where
  "coord_steps c \<equiv> (coord_step c)\<^sup>*\<^sup>*"

definition empty_coord :: coord_db where
  "empty_coord = \<lparr>actions = [], action_edges = [], leases = []\<rparr>"

text \<open>Keys are unique in all three tables, and edges and leases name existing actions.\<close>

definition coord_inv :: "coord_db \<Rightarrow> bool" where
  "coord_inv db \<longleftrightarrow> actions_inv db \<and> keys_unique edge_key (action_edges db) \<and>
     keys_unique lease_action (leases db) \<and>
     (\<forall>e \<in> set (action_edges db). has_action db (from_action e) \<and> has_action db (to_action e)) \<and>
     (\<forall>l \<in> set (leases db). has_action db (lease_action l))"

lemma has_action_image: "has_action db i \<longleftrightarrow> i \<in> act_id ` set (actions db)"
  by (simp add: has_action_def select_by_None_iff)

lemma lease_frame:
  "actions (fst (lease_acquire db i h now expiry)) = actions db"
  "actions (fst (lease_renew db i h now expiry)) = actions db"
  "actions (fst (lease_release db i h)) = actions db"
  "actions (fst (sweep_expired_leases db now)) = actions db"
  "action_edges (fst (lease_acquire db i h now expiry)) = action_edges db"
  "action_edges (fst (lease_renew db i h now expiry)) = action_edges db"
  "action_edges (fst (lease_release db i h)) = action_edges db"
  "action_edges (fst (sweep_expired_leases db now)) = action_edges db"
  by (simp_all add: lease_acquire_def lease_renew_def lease_release_def
      sweep_expired_leases_def Let_def)

lemma transition_frame:
  "action_edges (fst (action_transition c db i to cb now)) = action_edges db"
  "leases (fst (action_transition c db i to cb now)) = leases db"
  "action_edges (fst (transition_cas c db i from to cb now)) = action_edges db"
  "leases (fst (transition_cas c db i from to cb now)) = leases db"
  by (simp_all add: action_transition_def transition_cas_def Let_def split: option.splits)

lemma transition_keys:
  "act_id ` set (actions (fst (action_transition c db i to cb now))) = act_id ` set (actions db)"
  "act_id ` set (actions (fst (transition_cas c db i from to cb now))) = act_id ` set (actions db)"
  "actions_inv db \<Longrightarrow> actions_inv (fst (action_transition c db i to cb now))"
  "actions_inv db \<Longrightarrow> actions_inv (fst (transition_cas c db i from to cb now))"
  by (simp_all add: action_transition_def transition_cas_def Let_def actions_inv_def
      keys_update_where keys_unique_update split: option.splits)

lemma leases_inv_acquire:
  assumes "keys_unique lease_action (leases db)"
  shows "keys_unique lease_action (leases (fst (lease_acquire db i h now expiry)))"
proof -
  have "keys_unique lease_action (delete_where (\<lambda>l. lease_action l = i) (leases db))"
    using assms by (rule keys_unique_delete)
  then show ?thesis
    using assms
    by (auto simp: lease_acquire_def Let_def keys_unique_def delete_where_def)
qed

lemma leases_inv_other:
  assumes "keys_unique lease_action (leases db)"
  shows "keys_unique lease_action (leases (fst (lease_renew db i h now expiry)))"
    and "keys_unique lease_action (leases (fst (lease_release db i h)))"
    and "keys_unique lease_action (leases (fst (sweep_expired_leases db now)))"
  using assms
  by (simp_all add: lease_renew_def lease_release_def sweep_expired_leases_def Let_def
      keys_unique_update keys_unique_delete)

lemma lease_targets:
  assumes "\<forall>l \<in> set (leases db). has_action db (lease_action l)"
  shows "\<forall>l \<in> set (leases (fst (lease_acquire db i h now expiry))). has_action db (lease_action l)"
    and "\<forall>l \<in> set (leases (fst (lease_renew db i h now expiry))). has_action db (lease_action l)"
    and "\<forall>l \<in> set (leases (fst (lease_release db i h))). has_action db (lease_action l)"
    and "\<forall>l \<in> set (leases (fst (sweep_expired_leases db now))). has_action db (lease_action l)"
  using assms
  by (auto simp: lease_acquire_def lease_renew_def lease_release_def sweep_expired_leases_def
      Let_def delete_where_def update_where_def)

lemma coord_inv_leases_only:
  assumes "coord_inv db" and "actions db' = actions db" and "action_edges db' = action_edges db"
    and "keys_unique lease_action (leases db')"
    and "\<forall>l \<in> set (leases db'). has_action db (lease_action l)"
  shows "coord_inv db'"
  using assms by (simp add: coord_inv_def actions_inv_def has_action_def)

lemma coord_inv_actions_only:
  assumes "coord_inv db" and "actions_inv db'"
    and "act_id ` set (actions db) \<subseteq> act_id ` set (actions db')"
    and "action_edges db' = action_edges db" and "leases db' = leases db"
  shows "coord_inv db'"
  using assms by (auto simp: coord_inv_def has_action_image)

lemma coord_step_inv:
  assumes "coord_step c db db'" and "coord_inv db"
  shows "coord_inv db'"
proof -
  have u: "keys_unique lease_action (leases db)"
    and t: "\<forall>l \<in> set (leases db). has_action db (lease_action l)" and "actions_inv db"
    using assms(2) by (simp_all add: coord_inv_def)
  from assms(1) show ?thesis
  proof (cases rule: coord_step.cases)
    case (step_create a k)
    have "actions_inv db'"
      using \<open>actions_inv db\<close> step_create by (rule action_store.inv_put)
    then show ?thesis
      using step_create
      by (intro coord_inv_actions_only [OF assms(2)])
        (auto simp: action_create_Inr insert_row_Inr)
  next
    case (step_edge f g k now)
    then show ?thesis
      using assms(2)
      by (auto simp: coord_inv_def actions_inv_def add_edge_def Let_def has_action_def
          keys_unique_def select_by_None_iff split: if_splits)
  next
    case (step_transition i to cb now)
    then show ?thesis
      using \<open>actions_inv db\<close>
      by (intro coord_inv_actions_only [OF assms(2)]) (auto simp: transition_frame transition_keys)
  next
    case (step_cas i fr to cb now)
    then show ?thesis
      using \<open>actions_inv db\<close>
      by (intro coord_inv_actions_only [OF assms(2)]) (auto simp: transition_frame transition_keys)
  next
    case (step_acquire i h now expiry)
    then show ?thesis
      using leases_inv_acquire [OF u] lease_targets(1) [OF t]
      by (intro coord_inv_leases_only [OF assms(2)]) (auto simp: lease_frame)
  next
    case (step_renew i h now expiry)
    then show ?thesis
      using leases_inv_other(1) [OF u] lease_targets(2) [OF t]
      by (intro coord_inv_leases_only [OF assms(2)]) (auto simp: lease_frame)
  next
    case (step_release i h)
    then show ?thesis
      using leases_inv_other(2) [OF u] lease_targets(3) [OF t]
      by (intro coord_inv_leases_only [OF assms(2)]) (auto simp: lease_frame)
  next
    case (step_sweep now)
    then show ?thesis
      using leases_inv_other(3) [OF u] lease_targets(4) [OF t]
      by (intro coord_inv_leases_only [OF assms(2)]) (auto simp: lease_frame)
  qed
qed

lemma coord_steps_inv: "coord_steps c db db' \<Longrightarrow> coord_inv db \<Longrightarrow> coord_inv db'"
  by (induction rule: rtranclp_induct) (auto intro: coord_step_inv)

lemma coord_inv_empty: "coord_inv empty_coord"
  by (simp add: coord_inv_def empty_coord_def actions_inv_def)

text \<open>
  The words the state and kind columns hold. A stored word outside the enumerations would
  silently read as the default (\<open>state_column\<close>, \<open>row_to_edge\<close>), so its absence is part
  of what the calls guarantee.
\<close>

definition known_words :: "coord_db \<Rightarrow> bool" where
  "known_words db \<longleftrightarrow>
     (\<forall>r \<in> set (actions db). action_state_from_str (act_state r) \<noteq> None) \<and>
     (\<forall>e \<in> set (action_edges db). edge_type_from_str (edge_kind e) \<noteq> None)"

lemma known_words_frame:
  "actions db' = actions db \<Longrightarrow> action_edges db' = action_edges db \<Longrightarrow>
     known_words db' = known_words db"
  by (simp add: known_words_def)

lemma known_words_update:
  assumes "known_words db"
  shows "known_words (db\<lparr>actions := update_where p (set_state to cb now) (actions db)\<rparr>)"
  using assms by (auto simp: known_words_def update_where_def set_state_def)

lemma coord_step_words:
  assumes "coord_step c db db'" and "known_words db"
  shows "known_words db'"
  using assms(1)
proof (cases rule: coord_step.cases)
  case (step_create a k)
  then show ?thesis
    using assms(2)
    by (auto simp: known_words_def action_create_Inr insert_row_Inr action_to_row_def)
next
  case (step_transition j to cb now)
  then show ?thesis
    using assms(2) known_words_update by (auto simp: action_transition_cases split: option.splits)
next
  case (step_cas j fr to cb now)
  then show ?thesis using assms(2) known_words_update by (auto simp: transition_cas_def Let_def)
next
  case (step_edge f t k now)
  then show ?thesis
    using assms(2) by (auto simp: known_words_def add_edge_def Let_def split: if_splits)
qed (auto simp: assms(2) known_words_frame [of _ db] lease_frame)

lemma coord_steps_words: "coord_steps c db db' \<Longrightarrow> known_words db \<Longrightarrow> known_words db'"
  by (induction rule: rtranclp_induct) (auto intro: coord_step_words)

text \<open>The state of one action under one step: unchanged, or one edge of the graph.\<close>

definition state_of :: "coord_db \<Rightarrow> string \<Rightarrow> string option" where
  "state_of db i = map_option act_state (select_by act_id i (actions db))"

lemma state_of_update:
  "state_of (db\<lparr>actions := update_where p (set_state to cb now) (actions db)\<rparr>) i =
     map_option (\<lambda>r. if p r then action_state_as_str to else act_state r)
       (select_by act_id i (actions db))"
  by (simp add: state_of_def table_simps option.map_comp comp_def set_state_def if_distrib
      cong: if_cong)

lemma state_of_Some: "state_of db i = Some s \<longleftrightarrow>
    (\<exists>r. select_by act_id i (actions db) = Some r \<and> act_state r = s)"
  by (auto simp: state_of_def)

lemma state_of_transition:
  assumes "state_of db i = Some s"
  shows "\<exists>s'. state_of (fst (action_transition c db j to cb now)) i = Some s' \<and>
    (s' = s \<or> can_transition_to (state_column s) (state_column s'))"
proof -
  obtain r where r: "select_by act_id i (actions db) = Some r" "act_state r = s" "act_id r = i"
    using assms by (auto simp: state_of_Some dest: select_by_SomeD)
  then show ?thesis
    using assms by (auto simp: action_transition_cases state_of_update split: option.split)
qed

lemma state_of_cas:
  assumes "state_of db i = Some s"
  shows "\<exists>s'. state_of (fst (transition_cas c db j from to cb now)) i = Some s' \<and>
    (s' = s \<or> can_transition_to (state_column s) (state_column s'))"
proof -
  obtain r where "select_by act_id i (actions db) = Some r" "act_state r = s"
    using assms by (auto simp: state_of_Some)
  then show ?thesis
    using assms by (auto simp: transition_cas_def Let_def state_of_update)
qed

lemma state_of_frame: "actions db' = actions db \<Longrightarrow> state_of db' i = state_of db i"
  by (simp add: state_of_def)

lemma add_edge_frame: "add_edge db f t k now = Inr db' \<Longrightarrow> actions db' = actions db"
  by (auto simp: add_edge_def Let_def split: if_splits)

lemma state_of_step:
  assumes "coord_step c db db'" and "state_of db i = Some s"
  shows "\<exists>s'. state_of db' i = Some s' \<and>
    (s' = s \<or> can_transition_to (state_column s) (state_column s'))"
  using assms(1)
proof (cases rule: coord_step.cases)
  case (step_create a k)
  then show ?thesis
    using assms(2) by (auto simp: state_of_def action_create_Inr insert_row_Inr table_simps)
next
  case (step_transition j to cb now)
  then show ?thesis using state_of_transition [OF assms(2)] by auto
next
  case (step_cas j fr to cb now)
  then show ?thesis using state_of_cas [OF assms(2)] by auto
next
  case (step_edge f t k now)
  then show ?thesis using assms(2) state_of_frame [OF add_edge_frame] by auto
qed (auto simp: assms(2) state_of_frame [of _ db] lease_frame)

lemma state_of_trace:
  assumes "successively (coord_step c) (db # dbs)" and "state_of db i = Some s"
  shows "\<exists>ss. map (\<lambda>d. state_of d i) (db # dbs) = map Some (s # ss) \<and>
    successively (\<lambda>a b. b = a \<or> can_transition_to (state_column a) (state_column b)) (s # ss) \<and>
    (is_terminal (state_column s) \<longrightarrow> set ss \<subseteq> {s})"
  using assms
proof (induction dbs arbitrary: db s)
  case Nil
  then show ?case by (intro exI [of _ "[]"]) simp
next
  case (Cons d ds)
  from Cons.prems have step: "coord_step c db d" and run: "successively (coord_step c) (d # ds)"
    by auto
  obtain s1 where s1: "state_of d i = Some s1"
    "s1 = s \<or> can_transition_to (state_column s) (state_column s1)"
    using state_of_step [OF step Cons.prems(2)] by blast
  obtain ss where ss: "map (\<lambda>d. state_of d i) (d # ds) = map Some (s1 # ss)"
    "successively (\<lambda>a b. b = a \<or> can_transition_to (state_column a) (state_column b)) (s1 # ss)"
    "is_terminal (state_column s1) \<longrightarrow> set ss \<subseteq> {s1}"
    using Cons.IH [OF run s1(1)] by blast
  have "is_terminal (state_column s) \<longrightarrow> s1 = s"
    using s1(2) terminal_no_transition by blast
  with ss s1 Cons.prems(2) show ?case
    by (intro exI [of _ "s1 # ss"]) auto
qed

section \<open>Lease events\<close>

datatype lease_event =
    Acquire string string int int
  | Renew string string int int
  | Release string string
  | Sweep int

fun lease_exec :: "coord_db \<Rightarrow> lease_event \<Rightarrow> coord_db" where
  "lease_exec db (Acquire i h now expiry) = fst (lease_acquire db i h now expiry)"
| "lease_exec db (Renew i h now expiry) = fst (lease_renew db i h now expiry)"
| "lease_exec db (Release i h) = fst (lease_release db i h)"
| "lease_exec db (Sweep now) = fst (sweep_expired_leases db now)"

text \<open>
  The term of a lease that \<open>h\<close> holds on \<open>i\<close> until \<open>x\<close>, after one more event: the holder's
  own acquisition or renewal sets it, no other event changes it.
\<close>

fun next_expiry :: "string \<Rightarrow> string \<Rightarrow> int \<Rightarrow> lease_event \<Rightarrow> int" where
  "next_expiry i h x (Acquire j g now y) = (if j = i \<and> g = h then y else x)"
| "next_expiry i h x (Renew j g now y) = (if j = i \<and> g = h then y else x)"
| "next_expiry i h x (Release j g) = x"
| "next_expiry i h x (Sweep now) = x"

text \<open>
  The events under which the lease runs on: anybody's, the holder's own included, except that
  the holder does not release it, and that nobody else's acquisition on the action and no
  sweep happens at or after the expiry current at that moment. Renewals and releases of
  others, and all events on other actions, are unrestricted.
\<close>

fun in_term :: "string \<Rightarrow> string \<Rightarrow> int \<Rightarrow> lease_event \<Rightarrow> bool" where
  "in_term i h x (Acquire j g now y) \<longleftrightarrow> j \<noteq> i \<or> g = h \<or> now < x"
| "in_term i h x (Renew j g now y) \<longleftrightarrow> True"
| "in_term i h x (Release j g) \<longleftrightarrow> j \<noteq> i \<or> g \<noteq> h"
| "in_term i h x (Sweep now) \<longleftrightarrow> now < x"

fun runs_on :: "string \<Rightarrow> string \<Rightarrow> int \<Rightarrow> lease_event list \<Rightarrow> bool" where
  "runs_on i h x [] \<longleftrightarrow> True"
| "runs_on i h x (ev # evs) \<longleftrightarrow> in_term i h x ev \<and> runs_on i h (next_expiry i h x ev) evs"

lemma lease_exec_unique:
  "keys_unique lease_action (leases db) \<Longrightarrow> keys_unique lease_action (leases (lease_exec db ev))"
  by (cases ev) (auto intro: leases_inv_acquire leases_inv_other)

lemma lease_get_acquire:
  assumes "keys_unique lease_action (leases db)" and "lease_get db i = Some l"
    and "j \<noteq> i \<or> lease_expires_at l > now \<and> lease_holder l \<noteq> g"
  shows "lease_get (fst (lease_acquire db j g now x)) i = Some l"
proof (cases "j = i")
  case True
  then show ?thesis using assms by (simp add: lease_acquire_def)
next
  case False
  have "lease_action l = i"
    using assms(2) by (auto simp: lease_get_def dest: select_by_SomeD)
  with False show ?thesis
    using assms
    by (simp add: lease_acquire_def lease_get_def Let_def select_by_append select_by_delete)
qed

lemma lease_get_renew:
  assumes "lease_get db i = Some l" and "j \<noteq> i \<or> lease_holder l \<noteq> g"
  shows "lease_get (fst (lease_renew db j g now x)) i = Some l"
proof -
  have "lease_action l = i"
    using assms(1) by (auto simp: lease_get_def dest: select_by_SomeD)
  then show ?thesis
    using assms by (auto simp: lease_renew_def lease_get_def Let_def select_by_update)
qed

lemma lease_get_release:
  assumes "keys_unique lease_action (leases db)" and "lease_get db i = Some l"
    and "j \<noteq> i \<or> lease_holder l \<noteq> g"
  shows "lease_get (fst (lease_release db j g)) i = Some l"
  using assms
  by (auto simp: lease_release_def lease_get_def Let_def select_by_delete dest: select_by_SomeD)

lemma lease_get_sweep:
  assumes "keys_unique lease_action (leases db)"
  shows "lease_get (fst (sweep_expired_leases db now)) i =
    (case lease_get db i of None \<Rightarrow> None | Some l \<Rightarrow> if lease_expires_at l \<le> now then None else Some l)"
  using assms
  by (simp add: sweep_expired_leases_def lease_get_def select_by_delete)

lemma lease_get_own_acquire:
  assumes "has_action db i"
    and "lease_get db i = Some l"
  shows "\<exists>l'. lease_get (fst (lease_acquire db i (lease_holder l) now x)) i = Some l' \<and>
    lease_holder l' = lease_holder l \<and> lease_expires_at l' = x"
proof -
  have none: "select_by lease_action i (delete_where (\<lambda>l. lease_action l = i) (leases db)) = None"
    by (auto simp: select_by_None_iff delete_where_def)
  show ?thesis
    using assms none
    by (auto simp: lease_acquire_def lease_get_def Let_def select_by_append select_by_Cons)
qed

lemma lease_get_own_renew:
  assumes "lease_get db i = Some l"
  shows "\<exists>l'. lease_get (fst (lease_renew db i (lease_holder l) now x)) i = Some l' \<and>
    lease_holder l' = lease_holder l \<and> lease_expires_at l' = x"
proof -
  have "lease_action l = i"
    using assms by (auto simp: lease_get_def dest: select_by_SomeD)
  then show ?thesis
    using assms by (auto simp: lease_renew_def lease_get_def Let_def select_by_update)
qed

lemma lease_event_kept:
  assumes "keys_unique lease_action (leases db)" and "has_action db i"
    and "lease_get db i = Some l"
    and "in_term i (lease_holder l) (lease_expires_at l) ev"
  shows "\<exists>l'. lease_get (lease_exec db ev) i = Some l' \<and> lease_holder l' = lease_holder l \<and>
    lease_expires_at l' = next_expiry i (lease_holder l) (lease_expires_at l) ev"
proof (cases ev)
  case (Acquire j g now y)
  then show ?thesis
    using assms lease_get_own_acquire [OF assms(2,3)] lease_get_acquire [OF assms(1,3)]
    by (cases "j = i \<and> g = lease_holder l") auto
next
  case (Renew j g now y)
  then show ?thesis
    using assms lease_get_own_renew [OF assms(3)] lease_get_renew [OF assms(3)]
    by (cases "j = i \<and> g = lease_holder l") auto
next
  case (Release j g)
  then show ?thesis using assms lease_get_release [OF assms(1,3)] by auto
next
  case (Sweep now)
  then show ?thesis using assms by (simp add: lease_get_sweep)
qed

lemma lease_exec_actions [simp]: "has_action (lease_exec db ev) i = has_action db i"
  by (cases ev) (simp_all add: has_action_def lease_frame)

lemma lease_events_kept:
  assumes "keys_unique lease_action (leases db)" and "has_action db i"
    and "lease_get db i = Some l"
    and "runs_on i (lease_holder l) (lease_expires_at l) evs"
  shows "\<exists>l'. lease_get (foldl lease_exec db evs) i = Some l' \<and> lease_holder l' = lease_holder l \<and>
    lease_expires_at l' = foldl (next_expiry i (lease_holder l)) (lease_expires_at l) evs"
  using assms
proof (induction evs arbitrary: db l)
  case (Cons ev evs)
  obtain l1 where l1: "lease_get (lease_exec db ev) i = Some l1" "lease_holder l1 = lease_holder l"
    "lease_expires_at l1 = next_expiry i (lease_holder l) (lease_expires_at l) ev"
    using lease_event_kept [OF Cons.prems(1,2,3), of ev] Cons.prems(4) by auto
  from Cons.IH [OF lease_exec_unique [OF Cons.prems(1)] _ l1(1)] Cons.prems(2,4) l1(2,3)
  show ?case by auto
qed simp

lemma lease_acquired_get:
  assumes "lease_acquire db i h now expiry = (db', Inr (LeaseAcquired l))"
  shows "lease_get db' i = Some l \<and> lease_holder l = h \<and> lease_expires_at l = expiry"
proof -
  have none: "select_by lease_action i (delete_where (\<lambda>l. lease_action l = i) (leases db)) = None"
    by (auto simp: select_by_None_iff delete_where_def)
  show ?thesis
    using assms none
    by (auto simp: lease_acquire_def lease_get_def Let_def select_by_append select_by_Cons
        split: if_splits option.splits)
qed

lemma lease_acquire_conflict:
  assumes "lease_get db i = Some l" and "now < lease_expires_at l" and "h \<noteq> lease_holder l"
  shows "lease_acquire db i h now expiry = (db, Inr LeaseConflict)"
  using assms by (simp add: lease_acquire_def)

section \<open>The frontier against its specification\<close>

text \<open>
  A pending action of the namespace whose prerequisites and gates are all done and
  whose blockers have all ended.
\<close>

definition runnable :: "coord_db \<Rightarrow> string \<Rightarrow> action_row \<Rightarrow> bool" where
  "runnable db ns a \<longleftrightarrow>
     a \<in> set (actions db) \<and> act_namespace a = ns \<and> act_state a = ''pending'' \<and>
     (\<forall>e \<in> set (action_edges db). from_action e = act_id a \<and>
        edge_kind e \<in> {''requires'', ''gated_by''} \<longrightarrow> state_of db (to_action e) = Some ''done'') \<and>
     (\<forall>e \<in> set (action_edges db). to_action e = act_id a \<and> edge_kind e = ''blocks'' \<longrightarrow>
        state_of db (from_action e) \<in> Some ` {''done'', ''failed'', ''abandoned''})"

lemma list_ex_action_state:
  assumes "actions_inv db" and "has_action db i"
  shows "list_ex (\<lambda>b. act_id b = i \<and> P (act_state b)) (actions db) \<longleftrightarrow>
    (\<exists>s. state_of db i = Some s \<and> P s)"
proof -
  obtain r where r: "select_by act_id i (actions db) = Some r"
    using assms(2) by (auto simp: has_action_def)
  have "b \<in> set (actions db) \<and> act_id b = i \<longleftrightarrow> b = r" for b
    using select_by_unique [of act_id "actions db" i b] assms(1) r by (auto simp: actions_inv_def)
  then have "(\<exists>b \<in> set (actions db). act_id b = i \<and> P (act_state b)) \<longleftrightarrow> P (act_state r)"
    by metis
  then show ?thesis
    using r by (simp add: list_ex_iff state_of_def)
qed

lemma runnable_iff:
  assumes "coord_inv db"
  shows "a \<in> set (filter (frontier_where_tail db ns) (actions db)) \<longleftrightarrow> runnable db ns a"
proof -
  have inv: "actions_inv db" using assms by (simp add: coord_inv_def)
  have fk: "e \<in> set (action_edges db) \<Longrightarrow>
      has_action db (from_action e) \<and> has_action db (to_action e)" for e
    using assms by (simp add: coord_inv_def)
  have st: "e \<in> set (action_edges db) \<Longrightarrow> \<exists>s. state_of db (to_action e) = Some s"
    "e \<in> set (action_edges db) \<Longrightarrow> \<exists>s. state_of db (from_action e) = Some s" for e
    using fk by (auto simp: has_action_def state_of_def)
  have pre: "open_prerequisite db a \<longleftrightarrow>
      (\<exists>e \<in> set (action_edges db). from_action e = act_id a \<and>
        edge_kind e \<in> {''requires'', ''gated_by''} \<and> state_of db (to_action e) \<noteq> Some ''done'')"
    unfolding open_prerequisite_def list_ex_iff [of _ "action_edges db"]
    using st(1) fk list_ex_action_state [OF inv, of _ "\<lambda>s. s \<noteq> action_state_as_str Done"]
    by (intro bex_cong) fastforce+
  have blk: "live_blocker db a \<longleftrightarrow>
      (\<exists>e \<in> set (action_edges db). to_action e = act_id a \<and> edge_kind e = ''blocks'' \<and>
        state_of db (from_action e) \<notin> Some ` {''done'', ''failed'', ''abandoned''})"
    unfolding live_blocker_def list_ex_iff [of _ "action_edges db"]
    using st(2) fk list_ex_action_state [OF inv, of _
      "\<lambda>s. s \<notin> set (map action_state_as_str [Done, Failed, Abandoned])"]
    by (intro bex_cong) fastforce+
  show ?thesis
    by (auto simp: frontier_where_tail_def runnable_def pre blk)
qed

lemma frontier_rank_row:
  "(- act_priority (row_to_action c r), act_created_at (row_to_action c r)) = frontier_rank r"
  by (simp add: row_to_action_def frontier_rank_def)

lemma cas_exact:
  assumes "coord_inv db"
  shows "(\<exists>a. snd (transition_cas c db i from to cb now) = Inr (CasApplied a)) \<longleftrightarrow>
      can_transition_to from to \<and> state_of db i = Some (action_state_as_str from)"
    and "\<not> (\<exists>a. snd (transition_cas c db i from to cb now) = Inr (CasApplied a)) \<Longrightarrow>
      fst (transition_cas c db i from to cb now) = db"
    and "snd (transition_cas c db i from to cb now) = Inr (CasApplied a) \<Longrightarrow>
      action_get c (fst (transition_cas c db i from to cb now)) j =
        (if j = i then Some a else action_get c db j) \<and>
      act_state a = to \<and> act_claimed_by a = cb \<and> act_updated_at a = now"
proof -
  have inv: "actions_inv db" using assms by (simp add: coord_inv_def)
  show iff: "(\<exists>a. snd (transition_cas c db i from to cb now) = Inr (CasApplied a)) \<longleftrightarrow>
      can_transition_to from to \<and> state_of db i = Some (action_state_as_str from)"
    by (simp add: transition_cas_cases [OF inv] state_of_def split: option.splits)
  show "fst (transition_cas c db i from to cb now) = db"
    if "\<not> (\<exists>a. snd (transition_cas c db i from to cb now) = Inr (CasApplied a))"
    using that unfolding iff
    by (cases "select_by act_id i (actions db)")
      (auto simp: transition_cas_cases [OF inv] state_of_def)
  assume "snd (transition_cas c db i from to cb now) = Inr (CasApplied a)"
  then obtain r where r: "select_by act_id i (actions db) = Some r"
      "act_state r = action_state_as_str from" "act_id r = i"
      "can_transition_to from to" "a = row_to_action c (set_state to cb now r)"
    by (auto simp: transition_cas_cases [OF inv] split: option.splits if_splits
        dest: select_by_SomeD)
  have upd: "select_by act_id j (actions (fst (transition_cas c db i from to cb now))) =
      map_option (\<lambda>r. if act_id r = i \<and> act_state r = action_state_as_str from
        then set_state to cb now r else r) (select_by act_id j (actions db))"
    using r(1-4) by (simp add: transition_cas_cases [OF inv] table_simps)
  have "action_get c (fst (transition_cas c db i from to cb now)) j =
      (if j = i then Some a else action_get c db j)"
  proof (cases "j = i")
    case True
    then show ?thesis using upd r by (simp add: action_get_def)
  next
    case False
    then have "act_id q \<noteq> i" if "select_by act_id j (actions db) = Some q" for q
      using select_by_SomeD [OF that] by simp
    with False upd show ?thesis
      by (cases "select_by act_id j (actions db)") (simp_all add: action_get_def)
  qed
  moreover have "act_state a = to \<and> act_claimed_by a = cb \<and> act_updated_at a = now"
    by (simp add: r(5) row_to_action_def set_state_def)
  ultimately show "action_get c (fst (transition_cas c db i from to cb now)) j =
        (if j = i then Some a else action_get c db j) \<and>
      act_state a = to \<and> act_claimed_by a = cb \<and> act_updated_at a = now"
    by blast
qed

section \<open>Properties\<close>

definition demo_action :: "string \<Rightarrow> action_state \<Rightarrow> string action" where
  "demo_action i st =
     \<lparr>act_id = i, act_namespace = ''ns'', act_kind = ''build'', act_state = st,
      act_title = ''t'', act_payload = ''{}'', act_priority = 5, act_agent_id = None,
      act_claimed_by = None, act_vector_clock = ''{}'', act_metadata = ''{}'',
      act_created_at = 1, act_updated_at = 1\<rparr>"

definition demo_db :: coord_db where
  "demo_db = \<lparr>actions = [action_to_row text_codec (demo_action ''a'' Pending),
                        action_to_row text_codec (demo_action ''b'' Done)],
              action_edges = [\<lparr>from_action = ''a'', to_action = ''b'',
                 edge_kind = ''requires'', edge_created_at = 1\<rparr>], leases = []\<rparr>"

lemma demo_db_inv: "coord_inv demo_db"
  by (simp add: demo_db_def coord_inv_def actions_inv_def keys_unique_def has_action_def
      select_by_def edge_key_def demo_action_def action_to_row_def)

text \<open>C1: Whatever sequence of coordination calls is made on the empty tables, by whatever
  callers: action ids, edge triples and leases stay unique, every edge and lease names an
  existing action (one lease row, hence one holder, per action at any time), and every state
  column and every edge kind holds a word of its enumeration, so no stored row is ever read
  through the decoder's default.\<close>

theorem coord_reachable_inv:
  assumes "coord_steps c empty_coord db"
  shows "coord_inv db \<and>
    (\<forall>r \<in> set (actions db). \<exists>st. action_state_from_str (act_state r) = Some st) \<and>
    (\<forall>e \<in> set (action_edges db). \<exists>k. edge_type_from_str (edge_kind e) = Some k)"
proof -
  have "known_words empty_coord" by (simp add: known_words_def empty_coord_def)
  from coord_steps_words [OF assms this] coord_steps_inv [OF assms coord_inv_empty]
  show ?thesis by (auto simp: known_words_def)
qed

theorem coord_reachable_inv_witness:
  "\<exists>db. coord_steps text_codec empty_coord db \<and> coord_inv db \<and> has_action db ''a''"
proof -
  let ?db = "empty_coord\<lparr>actions := [action_to_row text_codec (demo_action ''a'' Pending)]\<rparr>"
  have "action_create text_codec empty_coord (demo_action ''a'' Pending) = Inr (?db, ''a'')"
    by (simp add: action_create_Inr insert_row_Inr empty_coord_def demo_action_def
        action_to_row_def select_by_def)
  then have "coord_steps text_codec empty_coord ?db"
    by (blast intro: coord_step.step_create)
  moreover have "has_action ?db ''a''"
    by (simp add: has_action_def select_by_def demo_action_def action_to_row_def)
  ultimately show ?thesis
    using coord_reachable_inv by blast
qed

text \<open>C2: Take any sequence of coordination calls, by whatever callers and in whatever order,
  and read one action's state column after each: the action is never lost, each single call
  leaves the column as it is or moves it along one edge of the legal transition graph (no call
  takes two edges at once), and a state that is done, failed or abandoned stays exactly as it
  was written.\<close>

theorem action_state_history:
  assumes "successively (coord_step c) (db # dbs)" and "state_of db i = Some s"
  shows "\<exists>ss. map (\<lambda>d. state_of d i) (db # dbs) = map Some (s # ss) \<and>
    successively (\<lambda>a b. b = a \<or> can_transition_to (state_column a) (state_column b)) (s # ss) \<and>
    (is_terminal (state_column s) \<longrightarrow> set ss \<subseteq> {s})"
  using assms by (rule state_of_trace)

theorem action_state_history_witness:
  "\<exists>d. coord_step text_codec demo_db d \<and> state_of d ''a'' = Some ''claimed'' \<and>
     state_of d ''b'' = Some ''done''"
proof -
  let ?db = "fst (transition_cas text_codec demo_db ''a'' Pending Claimed (Some ''x'') 7)"
  have step: "coord_step text_codec demo_db ?db"
    by (blast intro: coord_step.step_cas)
  then have run: "successively (coord_step text_codec) (demo_db # [?db])" by simp
  have "state_of demo_db ''b'' = Some ''done''"
    by (simp add: demo_db_def state_of_def select_by_def demo_action_def action_to_row_def)
  then have "state_of ?db ''b'' = Some ''done''"
    using action_state_history [OF run, of "''b''" "''done''"]
    by (auto simp: state_column_def action_state_from_str_def)
  moreover have "state_of ?db ''a'' = Some ''claimed''"
    by (simp add: demo_db_def state_of_def select_by_def demo_action_def action_to_row_def
        transition_cas_def Let_def update_where_def set_state_def count_where_def)
  ultimately show ?thesis using step by blast
qed

text \<open>A compare-and-swap transition that applied cannot apply a second time: a replay of
  the same transition (a re-broadcast by a peer, with whatever holder and clock) is answered
  with the current state and changes nothing.\<close>

theorem cas_replay_noop:
  assumes "coord_inv db"
    and "transition_cas c db i from to cb now = (db', Inr (CasApplied a))"
  shows "transition_cas c db' i from to cb' now' = (db', Inr (CasStateMismatch to))"
proof -
  have inv: "actions_inv db" using assms(1) by (simp add: coord_inv_def)
  have legal: "can_transition_to from to"
    using assms(2) by (auto simp: transition_cas_cases [OF inv] split: if_splits option.splits)
  obtain r where r: "select_by act_id i (actions db) = Some r"
      "act_state r = action_state_as_str from" "act_id r = i"
    and db': "db' = db\<lparr>actions := update_where
        (\<lambda>r. act_id r = i \<and> act_state r = action_state_as_str from) (set_state to cb now) (actions db)\<rparr>"
    using assms(2)
    by (auto simp: transition_cas_cases [OF inv] split: if_splits option.splits
        dest: select_by_SomeD)
  have inv': "actions_inv db'"
    using transition_keys(4) [OF inv, of c i "from" to cb now] assms(2) by simp
  have "select_by act_id i (actions db') = Some (set_state to cb now r)"
    using r by (simp add: db' table_simps)
  then show ?thesis
    using legal can_transition_irrefl [OF legal]
    by (auto simp: transition_cas_cases [OF inv'] set_state_def)
qed

theorem cas_replay_noop_witness:
  "\<exists>db' a. transition_cas text_codec demo_db ''a'' Pending Claimed (Some ''x'') 7 =
       (db', Inr (CasApplied a)) \<and>
     transition_cas text_codec db' ''a'' Pending Claimed (Some ''y'') 8 =
       (db', Inr (CasStateMismatch Claimed))"
proof -
  have "\<exists>db' a. transition_cas text_codec demo_db ''a'' Pending Claimed (Some ''x'') 7 =
      (db', Inr (CasApplied a))"
    by (simp add: demo_db_def select_by_def demo_action_def action_to_row_def action_get_def
        transition_cas_def Let_def update_where_def set_state_def count_where_def)
  then show ?thesis
    using cas_replay_noop [OF demo_db_inv] by blast
qed

text \<open>The compare-and-swap applies exactly when the edge is legal and the stored row is
  still in the expected source state; it then rewrites state, holder and update time of that
  row only, and in every other case the tables are left as they were.\<close>

theorem cas_applies_exactly:
  assumes "coord_inv db"
  shows "((\<exists>a. snd (transition_cas c db i from to cb now) = Inr (CasApplied a)) \<longleftrightarrow>
      can_transition_to from to \<and> state_of db i = Some (action_state_as_str from)) \<and>
    (\<not> (\<exists>a. snd (transition_cas c db i from to cb now) = Inr (CasApplied a)) \<longrightarrow>
      fst (transition_cas c db i from to cb now) = db) \<and>
    (\<forall>a j. snd (transition_cas c db i from to cb now) = Inr (CasApplied a) \<longrightarrow>
      action_get c (fst (transition_cas c db i from to cb now)) j =
        (if j = i then Some a else action_get c db j) \<and>
      act_state a = to \<and> act_claimed_by a = cb \<and> act_updated_at a = now)"
  using cas_exact [OF assms] by blast

theorem cas_applies_exactly_witness:
  "(\<exists>a. snd (transition_cas text_codec demo_db ''a'' Pending Claimed None 7) = Inr (CasApplied a)) \<and>
   fst (transition_cas text_codec demo_db ''a'' Claimed InProgress None 7) = demo_db"
proof -
  have "state_of demo_db ''a'' = Some (action_state_as_str Pending)"
    by (simp add: demo_db_def state_of_def select_by_def demo_action_def action_to_row_def)
  then show ?thesis
    using cas_applies_exactly [OF demo_db_inv, of text_codec "''a''" Pending Claimed None 7]
      cas_applies_exactly [OF demo_db_inv, of text_codec "''a''" Claimed InProgress None 7]
    by simp
qed

text \<open>The frontier holds exactly the runnable actions of the namespace, best ranked
  (highest priority, then oldest) first: it is ordered, never exceeds the limit, contains only
  runnable actions, and a runnable action that is left out was outranked by a full page.\<close>

theorem frontier_exact:
  assumes "coord_inv db"
  shows "sorted (map (\<lambda>a. (- act_priority a, act_created_at a)) (frontier c db ns lim)) \<and>
    length (frontier c db ns lim) \<le> lim \<and>
    (\<forall>a \<in> set (frontier c db ns lim). \<exists>r. runnable db ns r \<and> a = row_to_action c r) \<and>
    (\<forall>r. runnable db ns r \<and> row_to_action c r \<notin> set (frontier c db ns lim) \<longrightarrow>
       length (frontier c db ns lim) = lim \<and>
       (\<forall>a \<in> set (frontier c db ns lim).
          (- act_priority a, act_created_at a) \<le> frontier_rank r))"
proof -
  let ?t = "filter (frontier_where_tail db ns) (actions db)"
  let ?u = "order_limit frontier_rank lim ?t"
  have f: "frontier c db ns lim = map (row_to_action c) ?u"
    by (simp add: frontier_def)
  have ranks: "map (\<lambda>a. (- act_priority a, act_created_at a)) (frontier c db ns lim) =
      map frontier_rank ?u"
    by (simp add: f frontier_rank_row)
  have run: "r \<in> set ?t \<longleftrightarrow> runnable db ns r" for r
    using runnable_iff [OF assms] .
  have left: "length ?u = lim \<and> (\<forall>s \<in> set ?u. frontier_rank s \<le> frontier_rank r)"
    if "runnable db ns r" and "row_to_action c r \<notin> set (frontier c db ns lim)" for r
  proof -
    have r: "r \<in> set ?t" "r \<notin> set ?u" using that run by (auto simp: f)
    then have "\<not> length ?t \<le> lim" using set_order_limit by blast
    then have "length ?u = lim" by (simp add: length_order_limit)
    then show ?thesis using order_limit_best [OF _ r] by simp
  qed
  have sub: "set ?u \<subseteq> {r. runnable db ns r}"
    using set_order_limit_subset [of frontier_rank lim ?t] run by blast
  show ?thesis
  proof (intro conjI)
    show "sorted (map (\<lambda>a. (- act_priority a, act_created_at a)) (frontier c db ns lim))"
      unfolding ranks by (rule sorted_order_limit)
    show "length (frontier c db ns lim) \<le> lim"
      by (simp add: f length_order_limit)
    show "\<forall>a \<in> set (frontier c db ns lim). \<exists>r. runnable db ns r \<and> a = row_to_action c r"
      using sub unfolding f by auto
    have "length (frontier c db ns lim) = lim \<and> (\<forall>a \<in> set (frontier c db ns lim).
        (- act_priority a, act_created_at a) \<le> frontier_rank r)"
      if "runnable db ns r" "row_to_action c r \<notin> set (frontier c db ns lim)" for r
      using left [OF that] unfolding f by (simp add: frontier_rank_row)
    then show "\<forall>r. runnable db ns r \<and> row_to_action c r \<notin> set (frontier c db ns lim) \<longrightarrow>
       length (frontier c db ns lim) = lim \<and>
       (\<forall>a \<in> set (frontier c db ns lim).
          (- act_priority a, act_created_at a) \<le> frontier_rank r)"
      by blast
  qed
qed

theorem frontier_exact_witness:
  "frontier text_codec demo_db ''ns'' 3 = [demo_action ''a'' Pending] \<and>
   (\<exists>r. runnable demo_db ''ns'' r \<and> demo_action ''a'' Pending = row_to_action text_codec r)"
proof -
  have "frontier text_codec demo_db ''ns'' 3 = [demo_action ''a'' Pending]"
    by (simp add: frontier_def demo_db_def frontier_where_tail_def open_prerequisite_def
        live_blocker_def order_limit_def demo_action_def action_to_row_def row_to_action_def
        state_column_def action_state_from_str_def json_column_def text_codec_def)
  then show ?thesis
    using frontier_exact [OF demo_db_inv, of text_codec "''ns''" 3] by auto
qed

text \<open>The next-action query returns the best-ranked runnable action that the asking
  agent may claim (unowned or its own), and returns nothing only when there is none.\<close>

theorem next_action_best:
  assumes "coord_inv db"
  shows "(next_action c db ns agent = None \<longleftrightarrow> (\<nexists>r. runnable db ns r \<and> claimable agent r)) \<and>
    (\<forall>a. next_action c db ns agent = Some a \<longrightarrow>
       (\<exists>r. runnable db ns r \<and> claimable agent r \<and> a = row_to_action c r \<and>
          (\<forall>s. runnable db ns s \<and> claimable agent s \<longrightarrow> frontier_rank r \<le> frontier_rank s)))"
proof -
  let ?t = "filter (\<lambda>r. frontier_where_tail db ns r \<and> claimable agent r) (actions db)"
  have mem: "r \<in> set ?t \<longleftrightarrow> runnable db ns r \<and> claimable agent r" for r
    using runnable_iff [OF assms, of r ns] by auto
  have na: "next_action c db ns agent =
      (case sort_key frontier_rank ?t of [] \<Rightarrow> None | r # _ \<Rightarrow> Some (row_to_action c r))"
    by (simp add: next_action_def order_limit_def take_Suc hd_def split: list.split)
  show ?thesis
  proof (cases "sort_key frontier_rank ?t")
    case Nil
    then have "set ?t = {}" by (metis list.set(1) set_sort)
    then show ?thesis using na Nil mem by auto
  next
    case (Cons r u)
    have set: "set ?t = set (r # u)" using Cons by (metis set_sort)
    have "sorted (map frontier_rank (r # u))"
      using Cons sorted_sort_key [of frontier_rank ?t] by simp
    then have best: "frontier_rank r \<le> frontier_rank s"
      if "runnable db ns s \<and> claimable agent s" for s
      using that set unfolding mem [symmetric] by auto
    have "runnable db ns r \<and> claimable agent r"
      using set unfolding mem [symmetric] by simp
    moreover have "next_action c db ns agent = Some (row_to_action c r)"
      using na Cons by simp
    ultimately show ?thesis using best by auto
  qed
qed

theorem next_action_best_witness:
  "next_action text_codec demo_db ''ns'' (Some ''me'') \<noteq> None"
proof -
  have "runnable demo_db ''ns'' (action_to_row text_codec (demo_action ''a'' Pending))"
    by (simp add: runnable_def demo_db_def action_to_row_def demo_action_def state_of_def
        select_by_def)
  moreover have "act_agent_id (action_to_row text_codec (demo_action ''a'' Pending)) = None"
    by (simp add: action_to_row_def demo_action_def)
  ultimately show ?thesis
    using next_action_best [OF demo_db_inv, of text_codec "''ns''" "Some ''me''"]
    by (auto simp: claimable_def)
qed

text \<open>C3: In any sequence of lease events, by anybody and on any actions, a lease excludes
  every other holder for as long as its holder keeps it: until the holder releases it, and as
  long as nobody else's acquisition and no sweep comes at or after the expiry current at that
  moment, the row stays, its holder is the same, its expiry is the one the holder's last
  acquisition or renewal set (others cannot move it), and any other holder's acquisition
  before that expiry is refused and changes nothing.\<close>

theorem lease_exclusive:
  assumes "coord_inv db" and "lease_get db i = Some l" and "h = lease_holder l"
    and "runs_on i h (lease_expires_at l) evs"
  shows "\<exists>l'. lease_get (foldl lease_exec db evs) i = Some l' \<and> lease_holder l' = h \<and>
    lease_expires_at l' = foldl (next_expiry i h) (lease_expires_at l) evs \<and>
    (\<forall>h' now' expiry'. h' \<noteq> h \<longrightarrow> now' < lease_expires_at l' \<longrightarrow>
      lease_acquire (foldl lease_exec db evs) i h' now' expiry' =
        (foldl lease_exec db evs, Inr LeaseConflict))"
proof -
  have "keys_unique lease_action (leases db)" using assms(1) by (simp add: coord_inv_def)
  moreover have "has_action db i"
    using assms(1,2) by (auto simp: coord_inv_def lease_get_def dest: select_by_SomeD)
  ultimately show ?thesis
    using lease_events_kept [of db i l evs] assms(2,3,4) lease_acquire_conflict by metis
qed

theorem lease_exclusive_witness:
  "let db = fst (lease_acquire demo_db ''a'' ''h'' 1 100) in
     snd (lease_acquire (foldl lease_exec db
        [Release ''a'' ''g'', Sweep 50, Renew ''a'' ''h'' 90 200, Acquire ''a'' ''g'' 120 900])
        ''a'' ''g'' 199 900) = Inr LeaseConflict"
proof -
  let ?db = "fst (lease_acquire demo_db ''a'' ''h'' 1 100)"
  let ?l = "\<lparr>lease_action = ''a'', lease_holder = ''h'', lease_acquired_at = 1,
              lease_expires_at = 100, lease_heartbeat_at = 1\<rparr>"
  let ?evs = "[Release ''a'' ''g'', Sweep 50, Renew ''a'' ''h'' 90 200, Acquire ''a'' ''g'' 120 900]"
  have inv: "coord_inv ?db"
    using coord_step_inv [OF coord_step.step_acquire [OF refl] demo_db_inv] .
  have l: "lease_get ?db ''a'' = Some ?l"
    by (simp add: demo_db_def lease_acquire_def lease_get_def has_action_def select_by_def
        demo_action_def action_to_row_def delete_where_def Let_def)
  have "runs_on ''a'' ''h'' (lease_expires_at ?l) ?evs" by simp
  note kept = lease_exclusive [OF inv l _ this]
  have "foldl (next_expiry ''a'' ''h'') (lease_expires_at ?l) ?evs = 200" by simp
  with kept have "lease_acquire (foldl lease_exec ?db ?evs) ''a'' ''g'' 199 900 =
      (foldl lease_exec ?db ?evs, Inr LeaseConflict)"
    by (auto simp del: foldl_Cons lease_exec.simps)
  then show ?thesis by (simp add: Let_def del: foldl_Cons lease_exec.simps)
qed

text \<open>The sweep removes exactly the expired leases and reports their number; afterwards
  any holder can take a lease on an action whose lease had expired.\<close>

theorem sweep_reclaims:
  assumes "coord_inv db"
  shows "snd (sweep_expired_leases db now) =
      length (filter (\<lambda>l. lease_expires_at l \<le> now) (leases db)) \<and>
    (\<forall>i. lease_get (fst (sweep_expired_leases db now)) i =
      (case lease_get db i of None \<Rightarrow> None
       | Some l \<Rightarrow> if lease_expires_at l \<le> now then None else Some l)) \<and>
    (\<forall>i l h expiry. lease_get db i = Some l \<and> lease_expires_at l \<le> now \<longrightarrow>
      (\<exists>db' l'. lease_acquire (fst (sweep_expired_leases db now)) i h now expiry =
          (db', Inr (LeaseAcquired l')) \<and> lease_holder l' = h))"
proof -
  have u: "keys_unique lease_action (leases db)" using assms by (simp add: coord_inv_def)
  have acq: "\<exists>db' l'. lease_acquire (fst (sweep_expired_leases db now)) i h now expiry =
      (db', Inr (LeaseAcquired l')) \<and> lease_holder l' = h"
    if "lease_get db i = Some l" "lease_expires_at l \<le> now" for i l h expiry
  proof -
    let ?db = "fst (sweep_expired_leases db now)"
    have "lease_get ?db i = None" using that by (simp add: lease_get_sweep [OF u])
    moreover have "has_action ?db i"
      using that assms select_by_SomeD [of lease_action i "leases db" l]
      by (auto simp: coord_inv_def has_action_def lease_frame lease_get_def)
    moreover have "select_by lease_action i (delete_where (\<lambda>l. lease_action l = i) (leases ?db)) = None"
      by (auto simp: select_by_None_iff delete_where_def)
    ultimately show ?thesis
      by (simp add: lease_acquire_def lease_get_def Let_def select_by_append select_by_Cons)
  qed
  show ?thesis
    using acq lease_get_sweep [OF u] by (auto simp: sweep_expired_leases_def count_where_def)
qed

theorem sweep_reclaims_witness:
  "snd (sweep_expired_leases (fst (lease_acquire demo_db ''a'' ''h'' 1 10)) 10) = 1 \<and>
   lease_get (fst (sweep_expired_leases (fst (lease_acquire demo_db ''a'' ''h'' 1 10)) 10)) ''a'' = None"
proof -
  let ?db = "fst (lease_acquire demo_db ''a'' ''h'' 1 10)"
  have inv: "coord_inv ?db"
    using coord_step_inv [OF coord_step.step_acquire [OF refl] demo_db_inv] .
  have "\<exists>l. leases ?db = [l] \<and> lease_action l = ''a'' \<and> lease_expires_at l = 10"
    by (simp add: demo_db_def lease_acquire_def lease_get_def has_action_def select_by_def
        demo_action_def action_to_row_def delete_where_def Let_def)
  then show ?thesis
    using sweep_reclaims [OF inv, of 10] by (auto simp: lease_get_def select_by_def)
qed

text \<open>An action that is created is read back unchanged, state spelling and JSON columns
  included, other actions are untouched, and a second create under the same id is refused.\<close>

theorem action_create_get:
  assumes "codec_ok c" and "action_create c db a = Inr (db', k)"
  shows "k = act_id a \<and> action_get c db' k = Some a \<and>
    (\<forall>j. j \<noteq> k \<longrightarrow> action_get c db' j = action_get c db j) \<and>
    action_create c db' a = Inl PrimaryKeyViolation"
  using action_store.put_id [OF assms(2)] action_store.get_own [OF assms(2,1)]
    action_store.get_other [OF assms(2,1)] action_store.put_twice_refused [OF assms(2,1)]
  by simp

theorem action_create_get_witness:
  "\<exists>db'. action_create text_codec demo_db (demo_action ''c'' Claimed) = Inr (db', ''c'') \<and>
     action_get text_codec db' ''c'' = Some (demo_action ''c'' Claimed)"
proof -
  have "\<exists>db'. action_create text_codec demo_db (demo_action ''c'' Claimed) = Inr (db', ''c'')"
    by (simp add: action_create_Inr insert_row_Inr demo_db_def demo_action_def
        action_to_row_def select_by_def)
  then show ?thesis using action_create_get [OF text_codec_ok] by blast
qed

end
