(* ===== verification/Signing.thy ===== *)
theory Signing
  imports Prelude "HOL-Library.Countable"
begin

text \<open>
  The signing layer of \<^verbatim>\<open>src/identity/sign.rs\<close> and \<^verbatim>\<open>src/identity/verify.rs\<close>: the
  deterministic encodings that signatures commit to, one per signing surface, and
  signing and verification over them.

  The CBOR writer, Ed25519 and SHA-256 are third-party code. They are the fields of a
  \<open>crypto\<close> record, an argument of every definition here. What is needed of them is
  stated where it is used: that the CBOR writer is injective, and that a key pair
  verifies its own signatures (\<open>honest_keypair\<close>). Nothing is assumed about
  unforgeability: the tamper theorems say that an accepted altered message exhibits a
  signature or hash collision.
\<close>

datatype cbor =
    CText string
  | CBytes bytes
  | CInt int
  | CNull
  | CArray "cbor list"
  | CMap "(cbor \<times> cbor) list"

instance cbor :: countable
  by countable_datatype

record crypto =
  cbor_encode :: "cbor \<Rightarrow> bytes"
  ed_sign :: "bytes \<Rightarrow> bytes \<Rightarrow> bytes"
  ed_key_ok :: "bytes \<Rightarrow> bool"
  ed_verify_strict :: "bytes \<Rightarrow> bytes \<Rightarrow> bytes \<Rightarrow> bool"
  sha256 :: "bytes \<Rightarrow> bytes"

record agent_keypair =
  kp_agent_id :: string
  kp_public :: bytes
  kp_private :: "bytes option"

datatype sign_error = NoPrivateKey

definition can_sign :: "agent_keypair \<Rightarrow> bool" where
  "can_sign kp \<longleftrightarrow> kp_private kp \<noteq> None"

section \<open>Canonical maps\<close>

fun text_or_null :: "string option \<Rightarrow> cbor" where
  "text_or_null (Some s) = CText s"
| "text_or_null None = CNull"

text \<open>Entries are ordered by the bytes of their encoded keys.\<close>

definition canonical_cbor_map :: "crypto \<Rightarrow> (string \<times> cbor) list \<Rightarrow> cbor" where
  "canonical_cbor_map cr ps =
     CMap (map (\<lambda>(k, v). (CText k, v)) (sort_key (\<lambda>(k, v). cbor_encode cr (CText k)) ps))"

definition domain_separation_pair :: "string \<Rightarrow> string \<times> cbor" where
  "domain_separation_pair tag = (''_dst'', CText tag)"

section \<open>The signing surfaces\<close>

record signable_link =
  sl_src_id :: string
  sl_dst_id :: string
  sl_relation :: string
  sl_observed_by :: "string option"
  sl_valid_from :: "string option"
  sl_valid_until :: "string option"

record signable_persona =
  sp_persona_id :: string
  sp_entity_id :: string
  sp_namespace :: string
  sp_version :: int
  sp_generated_at :: string
  sp_sources :: "string list"
  sp_body_md_sha256 :: bytes

record signable_write =
  sw_agent_id :: string
  sw_namespace :: string
  sw_title :: string
  sw_kind :: string
  sw_created_at :: string
  sw_content_sha256 :: bytes

record signable_signal =
  ss_id :: string
  ss_namespace :: string
  ss_from_agent :: string
  ss_to_agent :: "string option"
  ss_subject :: string
  ss_body_sha256 :: bytes
  ss_signal_type :: string
  ss_in_reply_to :: "string option"
  ss_correlation_id :: "string option"
  ss_created_at :: int

record signable_transition =
  st_action_id :: string
  st_namespace :: string
  st_from_state :: string
  st_to_state :: string
  st_claimed_by :: "string option"
  st_nonce :: bytes
  st_created_at :: int

record signable_resolution =
  sr_checkpoint_id :: string
  sr_namespace :: string
  sr_state :: string
  sr_resolved_by :: string
  sr_resolution :: "string option"
  sr_resolved_at :: int

record signable_epoch =
  se_epoch_seq :: int
  se_prior_epoch_id :: string
  se_policy_seq :: int
  se_policy_digest_hex :: string
  se_content_sha256 :: bytes
  se_created_at :: string

record signable_freeze =
  sf_routine_id :: string
  sf_namespace :: string
  sf_name :: string
  sf_template_sha256 :: bytes
  sf_parameters_sha256 :: bytes
  sf_frozen_at :: int

definition canonical_cbor :: "crypto \<Rightarrow> signable_link \<Rightarrow> bytes" where
  "canonical_cbor cr l = cbor_encode cr (canonical_cbor_map cr
     [domain_separation_pair ''ai-memory/link/v1'',
      (''src_id'', CText (sl_src_id l)),
      (''dst_id'', CText (sl_dst_id l)),
      (''relation'', CText (sl_relation l)),
      (''observed_by'', text_or_null (sl_observed_by l)),
      (''valid_from'', text_or_null (sl_valid_from l)),
      (''valid_until'', text_or_null (sl_valid_until l))])"

definition canonical_cbor_persona :: "crypto \<Rightarrow> signable_persona \<Rightarrow> bytes" where
  "canonical_cbor_persona cr p = cbor_encode cr (canonical_cbor_map cr
     [domain_separation_pair ''ai-memory/persona/v1'',
      (''persona_id'', CText (sp_persona_id p)),
      (''entity_id'', CText (sp_entity_id p)),
      (''namespace'', CText (sp_namespace p)),
      (''version'', CInt (sp_version p)),
      (''generated_at'', CText (sp_generated_at p)),
      (''sources'', CArray (map CText (sp_sources p))),
      (''body_md_sha256'', CBytes (sp_body_md_sha256 p))])"

definition canonical_cbor_write :: "crypto \<Rightarrow> signable_write \<Rightarrow> bytes" where
  "canonical_cbor_write cr w = cbor_encode cr (canonical_cbor_map cr
     [domain_separation_pair ''ai-memory/write/v1'',
      (''agent_id'', CText (sw_agent_id w)),
      (''namespace'', CText (sw_namespace w)),
      (''title'', CText (sw_title w)),
      (''kind'', CText (sw_kind w)),
      (''created_at'', CText (sw_created_at w)),
      (''content_sha256'', CBytes (sw_content_sha256 w))])"

definition canonical_cbor_signal :: "crypto \<Rightarrow> signable_signal \<Rightarrow> bytes" where
  "canonical_cbor_signal cr s = cbor_encode cr (canonical_cbor_map cr
     [(''id'', CText (ss_id s)),
      (''namespace'', CText (ss_namespace s)),
      (''from_agent'', CText (ss_from_agent s)),
      (''to_agent'', text_or_null (ss_to_agent s)),
      (''subject'', CText (ss_subject s)),
      (''body_sha256'', CBytes (ss_body_sha256 s)),
      (''signal_type'', CText (ss_signal_type s)),
      (''in_reply_to'', text_or_null (ss_in_reply_to s)),
      (''correlation_id'', text_or_null (ss_correlation_id s)),
      (''created_at'', CInt (ss_created_at s))])"

definition canonical_cbor_transition :: "crypto \<Rightarrow> signable_transition \<Rightarrow> bytes" where
  "canonical_cbor_transition cr t = cbor_encode cr (canonical_cbor_map cr
     [(''action_id'', CText (st_action_id t)),
      (''namespace'', CText (st_namespace t)),
      (''from_state'', CText (st_from_state t)),
      (''to_state'', CText (st_to_state t)),
      (''claimed_by'', text_or_null (st_claimed_by t)),
      (''nonce'', CBytes (st_nonce t)),
      (''created_at'', CInt (st_created_at t))])"

definition canonical_cbor_checkpoint_resolution :: "crypto \<Rightarrow> signable_resolution \<Rightarrow> bytes" where
  "canonical_cbor_checkpoint_resolution cr r = cbor_encode cr (canonical_cbor_map cr
     [(''checkpoint_id'', CText (sr_checkpoint_id r)),
      (''namespace'', CText (sr_namespace r)),
      (''state'', CText (sr_state r)),
      (''resolved_by'', CText (sr_resolved_by r)),
      (''resolution'', text_or_null (sr_resolution r)),
      (''resolved_at'', CInt (sr_resolved_at r))])"

definition canonical_cbor_epoch :: "crypto \<Rightarrow> signable_epoch \<Rightarrow> bytes" where
  "canonical_cbor_epoch cr m = cbor_encode cr (canonical_cbor_map cr
     [(''epoch_seq'', CInt (se_epoch_seq m)),
      (''prior_epoch_id'', CText (se_prior_epoch_id m)),
      (''policy_seq'', CInt (se_policy_seq m)),
      (''policy_digest_hex'', CText (se_policy_digest_hex m)),
      (''content_sha256'', CBytes (se_content_sha256 m)),
      (''created_at'', CText (se_created_at m))])"

definition canonical_cbor_routine_freeze :: "crypto \<Rightarrow> signable_freeze \<Rightarrow> bytes" where
  "canonical_cbor_routine_freeze cr r = cbor_encode cr (canonical_cbor_map cr
     [(''routine_id'', CText (sf_routine_id r)),
      (''namespace'', CText (sf_namespace r)),
      (''name'', CText (sf_name r)),
      (''template_sha256'', CBytes (sf_template_sha256 r)),
      (''parameters_sha256'', CBytes (sf_parameters_sha256 r)),
      (''frozen_at'', CInt (sf_frozen_at r))])"

section \<open>Signing and verifying\<close>

definition sign_bytes :: "crypto \<Rightarrow> agent_keypair \<Rightarrow> bytes \<Rightarrow> sign_error + bytes" where
  "sign_bytes cr kp payload =
     (case kp_private kp of
        None \<Rightarrow> Inl NoPrivateKey
      | Some sk \<Rightarrow> Inr (ed_sign cr sk payload))"

text \<open>The checks every verifier makes: key length and validity, signature length, Ed25519.\<close>

definition verify_bytes :: "crypto \<Rightarrow> bytes \<Rightarrow> bytes \<Rightarrow> bytes \<Rightarrow> bool" where
  "verify_bytes cr payload sig pk \<longleftrightarrow>
     length pk = 32 \<and> ed_key_ok cr pk \<and> length sig = 64 \<and> ed_verify_strict cr pk payload sig"

definition sign_link :: "crypto \<Rightarrow> agent_keypair \<Rightarrow> signable_link \<Rightarrow> sign_error + bytes" where
  "sign_link cr kp l = sign_bytes cr kp (canonical_cbor cr l)"

definition sign_write :: "crypto \<Rightarrow> agent_keypair \<Rightarrow> signable_write \<Rightarrow> sign_error + bytes" where
  "sign_write cr kp w = sign_bytes cr kp (canonical_cbor_write cr w)"

definition sign_signal :: "crypto \<Rightarrow> agent_keypair \<Rightarrow> signable_signal \<Rightarrow> sign_error + bytes" where
  "sign_signal cr kp s = sign_bytes cr kp (canonical_cbor_signal cr s)"

definition sign_transition ::
  "crypto \<Rightarrow> agent_keypair \<Rightarrow> signable_transition \<Rightarrow> sign_error + bytes" where
  "sign_transition cr kp t = sign_bytes cr kp (canonical_cbor_transition cr t)"

definition sign_checkpoint_resolution ::
  "crypto \<Rightarrow> agent_keypair \<Rightarrow> signable_resolution \<Rightarrow> sign_error + bytes" where
  "sign_checkpoint_resolution cr kp r = sign_bytes cr kp (canonical_cbor_checkpoint_resolution cr r)"

definition sign_epoch :: "crypto \<Rightarrow> agent_keypair \<Rightarrow> signable_epoch \<Rightarrow> sign_error + bytes" where
  "sign_epoch cr kp m = sign_bytes cr kp (canonical_cbor_epoch cr m)"

definition sign_routine_freeze ::
  "crypto \<Rightarrow> agent_keypair \<Rightarrow> signable_freeze \<Rightarrow> sign_error + bytes" where
  "sign_routine_freeze cr kp r = sign_bytes cr kp (canonical_cbor_routine_freeze cr r)"

definition verify_signal :: "crypto \<Rightarrow> signable_signal \<Rightarrow> bytes \<Rightarrow> bytes \<Rightarrow> bool" where
  "verify_signal cr s sig pk = verify_bytes cr (canonical_cbor_signal cr s) sig pk"

definition verify_transition :: "crypto \<Rightarrow> signable_transition \<Rightarrow> bytes \<Rightarrow> bytes \<Rightarrow> bool" where
  "verify_transition cr t sig pk = verify_bytes cr (canonical_cbor_transition cr t) sig pk"

definition verify_checkpoint_resolution ::
  "crypto \<Rightarrow> signable_resolution \<Rightarrow> bytes \<Rightarrow> bytes \<Rightarrow> bool" where
  "verify_checkpoint_resolution cr r sig pk =
     verify_bytes cr (canonical_cbor_checkpoint_resolution cr r) sig pk"

definition verify_routine_freeze :: "crypto \<Rightarrow> signable_freeze \<Rightarrow> bytes \<Rightarrow> bytes \<Rightarrow> bool" where
  "verify_routine_freeze cr r sig pk = verify_bytes cr (canonical_cbor_routine_freeze cr r) sig pk"

section \<open>Canonical maps determine their entries\<close>

lemma canonical_cbor_map_entries:
  assumes "canonical_cbor_map cr ps = canonical_cbor_map cr qs"
    and "distinct (map fst ps)" and "distinct (map fst qs)"
  shows "map_of ps = map_of qs"
proof -
  let ?s = "sort_key (\<lambda>(k, v). cbor_encode cr (CText k))"
  have inj: "inj (\<lambda>(k, v). (CText k, v))" by (auto simp: inj_def)
  from assms(1) have "?s ps = ?s qs"
    by (simp add: canonical_cbor_map_def inj_map_eq_map [OF inj])
  then have "set ps = set qs" by (metis set_sort)
  with assms(2,3) show ?thesis by (metis map_of_inject_set)
qed

lemma canonical_encode_entries:
  assumes "inj (cbor_encode cr)"
    and "cbor_encode cr (canonical_cbor_map cr ps) = cbor_encode cr (canonical_cbor_map cr qs)"
    and "distinct (map fst ps)" and "distinct (map fst qs)"
  shows "map_of ps = map_of qs"
  using assms canonical_cbor_map_entries injD by metis

lemma map_CText_inject [simp]: "map CText xs = map CText ys \<longleftrightarrow> xs = ys"
  by (simp add: inj_map_eq_map inj_def)

lemma text_or_null_inject [simp]: "text_or_null a = text_or_null b \<longleftrightarrow> a = b"
  by (cases a; cases b) auto

section \<open>All surfaces together\<close>

datatype signable =
    SLink signable_link
  | SPersona signable_persona
  | SWrite signable_write
  | SSignal signable_signal
  | STransition signable_transition
  | SResolution signable_resolution
  | SEpoch signable_epoch
  | SFreeze signable_freeze

fun canonical_bytes :: "crypto \<Rightarrow> signable \<Rightarrow> bytes" where
  "canonical_bytes cr (SLink x) = canonical_cbor cr x"
| "canonical_bytes cr (SPersona x) = canonical_cbor_persona cr x"
| "canonical_bytes cr (SWrite x) = canonical_cbor_write cr x"
| "canonical_bytes cr (SSignal x) = canonical_cbor_signal cr x"
| "canonical_bytes cr (STransition x) = canonical_cbor_transition cr x"
| "canonical_bytes cr (SResolution x) = canonical_cbor_checkpoint_resolution cr x"
| "canonical_bytes cr (SEpoch x) = canonical_cbor_epoch cr x"
| "canonical_bytes cr (SFreeze x) = canonical_cbor_routine_freeze cr x"

text \<open>The entries each surface commits to, before they are put in canonical order.\<close>

fun entries :: "signable \<Rightarrow> (string \<times> cbor) list" where
  "entries (SLink l) =
     [domain_separation_pair ''ai-memory/link/v1'',
      (''src_id'', CText (sl_src_id l)),
      (''dst_id'', CText (sl_dst_id l)),
      (''relation'', CText (sl_relation l)),
      (''observed_by'', text_or_null (sl_observed_by l)),
      (''valid_from'', text_or_null (sl_valid_from l)),
      (''valid_until'', text_or_null (sl_valid_until l))]"
| "entries (SPersona p) =
     [domain_separation_pair ''ai-memory/persona/v1'',
      (''persona_id'', CText (sp_persona_id p)),
      (''entity_id'', CText (sp_entity_id p)),
      (''namespace'', CText (sp_namespace p)),
      (''version'', CInt (sp_version p)),
      (''generated_at'', CText (sp_generated_at p)),
      (''sources'', CArray (map CText (sp_sources p))),
      (''body_md_sha256'', CBytes (sp_body_md_sha256 p))]"
| "entries (SWrite w) =
     [domain_separation_pair ''ai-memory/write/v1'',
      (''agent_id'', CText (sw_agent_id w)),
      (''namespace'', CText (sw_namespace w)),
      (''title'', CText (sw_title w)),
      (''kind'', CText (sw_kind w)),
      (''created_at'', CText (sw_created_at w)),
      (''content_sha256'', CBytes (sw_content_sha256 w))]"
| "entries (SSignal s) =
     [(''id'', CText (ss_id s)),
      (''namespace'', CText (ss_namespace s)),
      (''from_agent'', CText (ss_from_agent s)),
      (''to_agent'', text_or_null (ss_to_agent s)),
      (''subject'', CText (ss_subject s)),
      (''body_sha256'', CBytes (ss_body_sha256 s)),
      (''signal_type'', CText (ss_signal_type s)),
      (''in_reply_to'', text_or_null (ss_in_reply_to s)),
      (''correlation_id'', text_or_null (ss_correlation_id s)),
      (''created_at'', CInt (ss_created_at s))]"
| "entries (STransition t) =
     [(''action_id'', CText (st_action_id t)),
      (''namespace'', CText (st_namespace t)),
      (''from_state'', CText (st_from_state t)),
      (''to_state'', CText (st_to_state t)),
      (''claimed_by'', text_or_null (st_claimed_by t)),
      (''nonce'', CBytes (st_nonce t)),
      (''created_at'', CInt (st_created_at t))]"
| "entries (SResolution r) =
     [(''checkpoint_id'', CText (sr_checkpoint_id r)),
      (''namespace'', CText (sr_namespace r)),
      (''state'', CText (sr_state r)),
      (''resolved_by'', CText (sr_resolved_by r)),
      (''resolution'', text_or_null (sr_resolution r)),
      (''resolved_at'', CInt (sr_resolved_at r))]"
| "entries (SEpoch m) =
     [(''epoch_seq'', CInt (se_epoch_seq m)),
      (''prior_epoch_id'', CText (se_prior_epoch_id m)),
      (''policy_seq'', CInt (se_policy_seq m)),
      (''policy_digest_hex'', CText (se_policy_digest_hex m)),
      (''content_sha256'', CBytes (se_content_sha256 m)),
      (''created_at'', CText (se_created_at m))]"
| "entries (SFreeze r) =
     [(''routine_id'', CText (sf_routine_id r)),
      (''namespace'', CText (sf_namespace r)),
      (''name'', CText (sf_name r)),
      (''template_sha256'', CBytes (sf_template_sha256 r)),
      (''parameters_sha256'', CBytes (sf_parameters_sha256 r)),
      (''frozen_at'', CInt (sf_frozen_at r))]"

lemma canonical_bytes_entries:
  "canonical_bytes cr x = cbor_encode cr (canonical_cbor_map cr (entries x))"
  by (cases x) (simp_all add: canonical_cbor_def canonical_cbor_persona_def
      canonical_cbor_write_def canonical_cbor_signal_def canonical_cbor_transition_def
      canonical_cbor_checkpoint_resolution_def canonical_cbor_epoch_def
      canonical_cbor_routine_freeze_def)

lemma distinct_entries: "distinct (map fst (entries x))"
  by (cases x) (simp_all add: domain_separation_pair_def)

lemma entry_at: "map_of (entries x) = map_of (entries y) \<Longrightarrow>
    map_of (entries x) k = map_of (entries y) k"
  by simp

fun surface :: "signable \<Rightarrow> nat" where
  "surface (SLink x) = 0"
| "surface (SPersona x) = 1"
| "surface (SWrite x) = 2"
| "surface (SSignal x) = 3"
| "surface (STransition x) = 4"
| "surface (SResolution x) = 5"
| "surface (SEpoch x) = 6"
| "surface (SFreeze x) = 7"

text \<open>Each surface has an entry name no other surface has.\<close>

lemma surface_keys:
  "surface x = 0 \<longleftrightarrow> map_of (entries x) ''src_id'' \<noteq> None"
  "surface x = 1 \<longleftrightarrow> map_of (entries x) ''persona_id'' \<noteq> None"
  "surface x = 2 \<longleftrightarrow> map_of (entries x) ''title'' \<noteq> None"
  "surface x = 3 \<longleftrightarrow> map_of (entries x) ''id'' \<noteq> None"
  "surface x = 4 \<longleftrightarrow> map_of (entries x) ''action_id'' \<noteq> None"
  "surface x = 5 \<longleftrightarrow> map_of (entries x) ''checkpoint_id'' \<noteq> None"
  "surface x = 6 \<longleftrightarrow> map_of (entries x) ''epoch_seq'' \<noteq> None"
  "surface x \<le> 7"
  by (cases x; simp add: domain_separation_pair_def)+

lemma entries_surface:
  assumes "map_of (entries x) = map_of (entries y)"
  shows "surface x = surface y"
proof -
  have "(surface x = 0) = (surface y = 0)" "(surface x = 1) = (surface y = 1)"
    "(surface x = 2) = (surface y = 2)" "(surface x = 3) = (surface y = 3)"
    "(surface x = 4) = (surface y = 4)" "(surface x = 5) = (surface y = 5)"
    "(surface x = 6) = (surface y = 6)"
    by (simp_all only: surface_keys assms)
  then show ?thesis
    using surface_keys(8) [of x] surface_keys(8) [of y] by presburger
qed

lemma entries_SLink:
  assumes "map_of (entries (SLink x)) = map_of (entries (SLink y))"
  shows "x = y"
proof -
  note at = entry_at [OF assms]
  show ?thesis
    using at [of "''src_id''"] at [of "''dst_id''"] at [of "''relation''"] at [of
      "''observed_by''"] at [of "''valid_from''"] at [of "''valid_until''"]
    by (cases x; cases y) (simp add: domain_separation_pair_def)
qed

lemma entries_SPersona:
  assumes "map_of (entries (SPersona x)) = map_of (entries (SPersona y))"
  shows "x = y"
proof -
  note at = entry_at [OF assms]
  show ?thesis
    using at [of "''persona_id''"] at [of "''entity_id''"] at [of "''namespace''"] at [of
      "''version''"] at [of "''generated_at''"] at [of "''sources''"] at [of
      "''body_md_sha256''"]
    by (cases x; cases y) (simp add: domain_separation_pair_def)
qed

lemma entries_SWrite:
  assumes "map_of (entries (SWrite x)) = map_of (entries (SWrite y))"
  shows "x = y"
proof -
  note at = entry_at [OF assms]
  show ?thesis
    using at [of "''agent_id''"] at [of "''namespace''"] at [of "''title''"] at [of
      "''kind''"] at [of "''created_at''"] at [of "''content_sha256''"]
    by (cases x; cases y) (simp add: domain_separation_pair_def)
qed

lemma entries_SSignal:
  assumes "map_of (entries (SSignal x)) = map_of (entries (SSignal y))"
  shows "x = y"
proof -
  note at = entry_at [OF assms]
  show ?thesis
    using at [of "''id''"] at [of "''namespace''"] at [of "''from_agent''"] at [of
      "''to_agent''"] at [of "''subject''"] at [of "''body_sha256''"] at [of
      "''signal_type''"] at [of "''in_reply_to''"] at [of "''correlation_id''"] at [of
      "''created_at''"]
    by (cases x; cases y) (simp add: domain_separation_pair_def)
qed

lemma entries_STransition:
  assumes "map_of (entries (STransition x)) = map_of (entries (STransition y))"
  shows "x = y"
proof -
  note at = entry_at [OF assms]
  show ?thesis
    using at [of "''action_id''"] at [of "''namespace''"] at [of "''from_state''"] at [of
      "''to_state''"] at [of "''claimed_by''"] at [of "''nonce''"] at [of
      "''created_at''"]
    by (cases x; cases y) (simp add: domain_separation_pair_def)
qed

lemma entries_SResolution:
  assumes "map_of (entries (SResolution x)) = map_of (entries (SResolution y))"
  shows "x = y"
proof -
  note at = entry_at [OF assms]
  show ?thesis
    using at [of "''checkpoint_id''"] at [of "''namespace''"] at [of "''state''"] at [of
      "''resolved_by''"] at [of "''resolution''"] at [of "''resolved_at''"]
    by (cases x; cases y) (simp add: domain_separation_pair_def)
qed

lemma entries_SEpoch:
  assumes "map_of (entries (SEpoch x)) = map_of (entries (SEpoch y))"
  shows "x = y"
proof -
  note at = entry_at [OF assms]
  show ?thesis
    using at [of "''epoch_seq''"] at [of "''prior_epoch_id''"] at [of "''policy_seq''"] at [of
      "''policy_digest_hex''"] at [of "''content_sha256''"] at [of "''created_at''"]
    by (cases x; cases y) (simp add: domain_separation_pair_def)
qed

lemma entries_SFreeze:
  assumes "map_of (entries (SFreeze x)) = map_of (entries (SFreeze y))"
  shows "x = y"
proof -
  note at = entry_at [OF assms]
  show ?thesis
    using at [of "''routine_id''"] at [of "''namespace''"] at [of "''name''"] at [of
      "''template_sha256''"] at [of "''parameters_sha256''"] at [of "''frozen_at''"]
    by (cases x; cases y) (simp add: domain_separation_pair_def)
qed

lemma entries_inject:
  assumes "map_of (entries x) = map_of (entries y)"
  shows "x = y"
  using entries_surface [OF assms] assms
  by (cases x; cases y)
    (auto dest: entries_SLink entries_SPersona entries_SWrite entries_SSignal entries_STransition entries_SResolution entries_SEpoch entries_SFreeze
      simp del: entries.simps)

section \<open>Key pairs\<close>

text \<open>What Ed25519 documents of a matching key pair.\<close>

definition honest_keypair :: "crypto \<Rightarrow> agent_keypair \<Rightarrow> bool" where
  "honest_keypair cr kp \<longleftrightarrow>
     length (kp_public kp) = 32 \<and> ed_key_ok cr (kp_public kp) \<and>
     (\<forall>sk m. kp_private kp = Some sk \<longrightarrow>
        length (ed_sign cr sk m) = 64 \<and>
        ed_verify_strict cr (kp_public kp) m (ed_sign cr sk m))"

lemma sign_verify_bytes:
  "honest_keypair cr kp \<Longrightarrow> sign_bytes cr kp m = Inr sig \<Longrightarrow>
     length sig = 64 \<and> length (kp_public kp) = 32 \<and> verify_bytes cr m sig (kp_public kp)"
  by (auto simp: honest_keypair_def sign_bytes_def verify_bytes_def split: option.splits)

lemma sign_bytes_can_sign: "can_sign kp \<longleftrightarrow> (\<exists>sig. sign_bytes cr kp m = Inr sig)"
  by (auto simp: can_sign_def sign_bytes_def split: option.splits)

text \<open>Two different messages accepted under one key with one signature.\<close>

definition signature_collision :: "crypto \<Rightarrow> bytes \<Rightarrow> bytes \<Rightarrow> bool" where
  "signature_collision cr pk sig \<longleftrightarrow>
     (\<exists>m m'. m \<noteq> m' \<and> ed_verify_strict cr pk m sig \<and> ed_verify_strict cr pk m' sig)"

definition sha256_collision :: "crypto \<Rightarrow> bytes \<Rightarrow> bytes \<Rightarrow> bool" where
  "sha256_collision cr x y \<longleftrightarrow> x \<noteq> y \<and> sha256 cr x = sha256 cr y"

text \<open>A concrete instance: an injective encoder and a key that verifies everything.\<close>

definition demo_crypto :: crypto where
  "demo_crypto = \<lparr>cbor_encode = (\<lambda>v. replicate (to_nat v) (CHR 0x00)),
     ed_sign = (\<lambda>sk m. replicate 64 (CHR 0x01)), ed_key_ok = (\<lambda>pk. True),
     ed_verify_strict = (\<lambda>pk m s. True), sha256 = (\<lambda>x. x)\<rparr>"

definition demo_keypair :: agent_keypair where
  "demo_keypair = \<lparr>kp_agent_id = ''alice'', kp_public = replicate 32 (CHR 0x02),
     kp_private = Some (replicate 32 (CHR 0x03))\<rparr>"

lemma demo_crypto_inj: "inj (cbor_encode demo_crypto)"
proof (rule injI)
  fix v w assume "cbor_encode demo_crypto v = cbor_encode demo_crypto w"
  then have "length (replicate (to_nat v) (CHR 0x00)) = length (replicate (to_nat w) (CHR 0x00))"
    unfolding demo_crypto_def by simp
  then show "v = w" by simp
qed

lemma demo_keypair_honest: "honest_keypair demo_crypto demo_keypair"
  by (simp add: honest_keypair_def demo_crypto_def demo_keypair_def)

lemma canonical_bytes_eqD:
  assumes "inj (cbor_encode cr)" and "canonical_bytes cr x = canonical_bytes cr y"
  shows "x = y"
proof -
  have "map_of (entries x) = map_of (entries y)"
    using assms(2) unfolding canonical_bytes_entries
    by (rule canonical_encode_entries [OF assms(1) _ distinct_entries distinct_entries])
  then show ?thesis by (rule entries_inject)
qed

section \<open>Properties\<close>

text \<open>C4: The canonical encodings determine what was signed, across all eight signing
  surfaces at once: two signable values with the same bytes are the same value of the same
  surface, so no signature minted on one surface or for one set of field values is a signature
  for another.\<close>

theorem canonical_bytes_inject:
  assumes "inj (cbor_encode cr)"
  shows "canonical_bytes cr x = canonical_bytes cr y \<longleftrightarrow> x = y"
  using canonical_bytes_eqD [OF assms] by blast

theorem canonical_bytes_inject_witness:
  "\<forall>l f. canonical_bytes demo_crypto (SLink l) \<noteq> canonical_bytes demo_crypto (SFreeze f)"
proof (intro allI notI)
  fix l f
  assume "canonical_bytes demo_crypto (SLink l) = canonical_bytes demo_crypto (SFreeze f)"
  then have "SLink l = SFreeze f"
    by (simp only: canonical_bytes_inject [OF demo_crypto_inj])
  then show False by (rule signable.distinct [THEN notE])
qed

end
