(* ===== verification/Signals.thy ===== *)
theory Signals
  imports Signing
begin

text \<open>
  The signed inter-agent signals of \<^verbatim>\<open>src/models/signal.rs\<close> and \<^verbatim>\<open>src/signals/mod.rs\<close>:
  the \<open>signals\<close> table, signing and verification of a signal, inbox and thread queries,
  and the once-only lifecycle stamps. As in the schema, the type and the JSON columns
  are text in a stored row, and \<open>in_reply_to\<close> references the table itself.
\<close>

datatype signal_type = Authorize | Notify | Request | Response | Broadcast

fun signal_type_as_str :: "signal_type \<Rightarrow> string" where
  "signal_type_as_str Authorize = ''authorize''"
| "signal_type_as_str Notify = ''notify''"
| "signal_type_as_str Request = ''request''"
| "signal_type_as_str Response = ''response''"
| "signal_type_as_str Broadcast = ''broadcast''"

definition signal_type_from_str :: "string \<Rightarrow> signal_type option" where
  "signal_type_from_str s =
     (if s = ''authorize'' then Some Authorize
      else if s = ''notify'' then Some Notify
      else if s = ''request'' then Some Request
      else if s = ''response'' then Some Response
      else if s = ''broadcast'' then Some Broadcast
      else None)"

record ('t, 'j) signal_rec =
  sig_id :: string
  sig_namespace :: string
  sig_from_agent :: string
  sig_to_agent :: "string option"
  sig_subject :: string
  sig_body :: 'j
  sig_signal_type :: 't
  sig_in_reply_to :: "string option"
  sig_correlation_id :: "string option"
  sig_reference_ids :: 'j
  sig_created_at :: int
  sig_expires_at :: "int option"
  sig_delivered_at :: "int option"
  sig_read_at :: "int option"
  sig_acknowledged_at :: "int option"
  sig_signature :: bytes
  sig_sender_pubkey :: bytes

type_synonym 'j signal = "(signal_type, 'j) signal_rec"
type_synonym signal_row = "(string, string) signal_rec"
type_synonym signal_db = "signal_row list"

section \<open>Signing\<close>

definition body_sha256 :: "crypto \<Rightarrow> 'j codec \<Rightarrow> 'j signal \<Rightarrow> bytes" where
  "body_sha256 cr c s = sha256 cr (json_to_string c (sig_body s))"

definition signal_signable :: "'j signal \<Rightarrow> bytes \<Rightarrow> signable_signal" where
  "signal_signable s h =
     \<lparr>ss_id = sig_id s, ss_namespace = sig_namespace s, ss_from_agent = sig_from_agent s,
      ss_to_agent = sig_to_agent s, ss_subject = sig_subject s, ss_body_sha256 = h,
      ss_signal_type = signal_type_as_str (sig_signal_type s),
      ss_in_reply_to = sig_in_reply_to s, ss_correlation_id = sig_correlation_id s,
      ss_created_at = sig_created_at s\<rparr>"

definition signal_sign_into ::
  "crypto \<Rightarrow> 'j codec \<Rightarrow> agent_keypair \<Rightarrow> 'j signal \<Rightarrow> sign_error + 'j signal" where
  "signal_sign_into cr c kp s =
     (case sign_signal cr kp (signal_signable s (body_sha256 cr c s)) of
        Inl e \<Rightarrow> Inl e
      | Inr sig \<Rightarrow> Inr (s\<lparr>sig_signature := sig, sig_sender_pubkey := kp_public kp\<rparr>))"

definition signal_verify :: "crypto \<Rightarrow> 'j codec \<Rightarrow> 'j signal \<Rightarrow> bool" where
  "signal_verify cr c s =
     (if sig_signature s = [] \<or> sig_sender_pubkey s = [] then False
      else verify_signal cr (signal_signable s (body_sha256 cr c s))
             (sig_signature s) (sig_sender_pubkey s))"

definition signal_verify_with_key :: "crypto \<Rightarrow> 'j codec \<Rightarrow> 'j signal \<Rightarrow> bytes \<Rightarrow> bool" where
  "signal_verify_with_key cr c s pk =
     (if sig_signature s = [] then False
      else verify_signal cr (signal_signable s (body_sha256 cr c s)) (sig_signature s) pk)"

section \<open>The table\<close>

definition row_to_signal :: "'j codec \<Rightarrow> signal_row \<Rightarrow> 'j signal" where
  "row_to_signal c r =
     \<lparr>sig_id = sig_id r, sig_namespace = sig_namespace r, sig_from_agent = sig_from_agent r,
      sig_to_agent = sig_to_agent r, sig_subject = sig_subject r,
      sig_body = json_column c (sig_body r),
      sig_signal_type = (case signal_type_from_str (sig_signal_type r) of
         Some t \<Rightarrow> t | None \<Rightarrow> Notify),
      sig_in_reply_to = sig_in_reply_to r, sig_correlation_id = sig_correlation_id r,
      sig_reference_ids = json_column c (sig_reference_ids r),
      sig_created_at = sig_created_at r, sig_expires_at = sig_expires_at r,
      sig_delivered_at = sig_delivered_at r, sig_read_at = sig_read_at r,
      sig_acknowledged_at = sig_acknowledged_at r,
      sig_signature = sig_signature r, sig_sender_pubkey = sig_sender_pubkey r\<rparr>"

definition signal_to_row :: "'j codec \<Rightarrow> 'j signal \<Rightarrow> signal_row" where
  "signal_to_row c s =
     \<lparr>sig_id = sig_id s, sig_namespace = sig_namespace s, sig_from_agent = sig_from_agent s,
      sig_to_agent = sig_to_agent s, sig_subject = sig_subject s,
      sig_body = json_to_string c (sig_body s),
      sig_signal_type = signal_type_as_str (sig_signal_type s),
      sig_in_reply_to = sig_in_reply_to s, sig_correlation_id = sig_correlation_id s,
      sig_reference_ids = json_to_string c (sig_reference_ids s),
      sig_created_at = sig_created_at s, sig_expires_at = sig_expires_at s,
      sig_delivered_at = sig_delivered_at s, sig_read_at = sig_read_at s,
      sig_acknowledged_at = sig_acknowledged_at s,
      sig_signature = sig_signature s, sig_sender_pubkey = sig_sender_pubkey s\<rparr>"

text \<open>The reply target must exist once the row itself is in the table.\<close>

definition reply_target_ok :: "signal_db \<Rightarrow> ('t, 'j) signal_rec \<Rightarrow> bool" where
  "reply_target_ok db s =
     (case sig_in_reply_to s of None \<Rightarrow> True
      | Some i \<Rightarrow> i = sig_id s \<or> select_by sig_id i db \<noteq> None)"

definition signal_insert ::
  "'j codec \<Rightarrow> signal_db \<Rightarrow> 'j signal \<Rightarrow> (signal_db \<times> string) sql_result" where
  "signal_insert c db s =
     (case insert_row sig_id (signal_to_row c s) db of
        Inl e \<Rightarrow> Inl e
      | Inr t \<Rightarrow> if reply_target_ok db s then Inr (t, sig_id s) else Inl ForeignKeyViolation)"

definition signal_get :: "'j codec \<Rightarrow> signal_db \<Rightarrow> string \<Rightarrow> 'j signal option" where
  "signal_get c db i = map_option (row_to_signal c) (select_by sig_id i db)"

definition list_inbox ::
  "'j codec \<Rightarrow> signal_db \<Rightarrow> string \<Rightarrow> string option \<Rightarrow> nat \<Rightarrow> 'j signal list" where
  "list_inbox c db ns agent lim =
     map (row_to_signal c)
       (order_limit (\<lambda>r. - sig_created_at r) lim
         (filter (\<lambda>r. sig_namespace r = ns \<and>
             (case agent of None \<Rightarrow> True
              | Some a \<Rightarrow> sig_to_agent r = Some a \<or> sig_to_agent r = None)) db))"

definition signal_thread :: "'j codec \<Rightarrow> signal_db \<Rightarrow> string \<Rightarrow> 'j signal list" where
  "signal_thread c db corr =
     map (row_to_signal c)
       (sort_key sig_created_at (filter (\<lambda>r. sig_correlation_id r = Some corr) db))"

definition mark_delivered :: "signal_db \<Rightarrow> string \<Rightarrow> int \<Rightarrow> signal_db \<times> bool" where
  "mark_delivered db i now =
     (let p = (\<lambda>r. sig_id r = i \<and> sig_delivered_at r = None) in
      (update_where p (\<lambda>r. r\<lparr>sig_delivered_at := Some now\<rparr>) db, count_where p db > 0))"

definition mark_read :: "signal_db \<Rightarrow> string \<Rightarrow> int \<Rightarrow> signal_db \<times> bool" where
  "mark_read db i now =
     (let p = (\<lambda>r. sig_id r = i \<and> sig_read_at r = None) in
      (update_where p (\<lambda>r. r\<lparr>sig_read_at := Some now\<rparr>) db, count_where p db > 0))"

definition mark_acked :: "signal_db \<Rightarrow> string \<Rightarrow> int \<Rightarrow> signal_db \<times> bool" where
  "mark_acked db i now =
     (let p = (\<lambda>r. sig_id r = i \<and> sig_acknowledged_at r = None) in
      (update_where p (\<lambda>r. r\<lparr>sig_acknowledged_at := Some now\<rparr>) db, count_where p db > 0))"

section \<open>The repository contract\<close>

lemma signal_type_roundtrip [simp]: "signal_type_from_str (signal_type_as_str t) = Some t"
  by (cases t) (simp_all add: signal_type_from_str_def)

lemma row_signal_roundtrip: "codec_ok c \<Longrightarrow> row_to_signal c (signal_to_row c s) = s"
  by (simp add: row_to_signal_def signal_to_row_def json_column_roundtrip)

lemma sig_id_to_row [simp]: "sig_id (signal_to_row c s) = sig_id s"
  by (simp add: signal_to_row_def)

definition signals_inv :: "signal_db \<Rightarrow> bool" where
  "signals_inv db \<longleftrightarrow> keys_unique sig_id db \<and>
     (\<forall>r \<in> set db. reply_target_ok db r)"

lemma signal_insert_Inr:
  "signal_insert c db s = Inr (db', k) \<longleftrightarrow>
     k = sig_id s \<and> insert_row sig_id (signal_to_row c s) db = Inr db' \<and> reply_target_ok db s"
  by (auto simp: signal_insert_def split: sum.splits)

lemma reply_target_mono:
  assumes "reply_target_ok db s" and "sig_id ` set db \<subseteq> sig_id ` set db'"
  shows "reply_target_ok db' s"
  using assms by (auto simp: reply_target_ok_def select_by_None_iff split: option.splits)

lemma reply_target_row: "reply_target_ok db (signal_to_row c s) = reply_target_ok db s"
  by (simp add: reply_target_ok_def signal_to_row_def split: option.split)

lemma signals_inv_insert:
  assumes "signals_inv db" and "signal_insert c db s = Inr (db', k)"
  shows "signals_inv db'"
proof -
  have ins: "insert_row sig_id (signal_to_row c s) db = Inr db'"
    and ok: "reply_target_ok db s" and db': "db' = db @ [signal_to_row c s]"
    using assms(2) by (auto simp: signal_insert_Inr insert_row_Inr)
  have "\<forall>r \<in> set db'. reply_target_ok db r"
    using assms(1) ok db' by (auto simp: signals_inv_def reply_target_row)
  then have "\<forall>r \<in> set db'. reply_target_ok db' r"
    using db' by (auto intro: reply_target_mono)
  then show ?thesis
    using assms(1) ins keys_unique_insert by (auto simp: signals_inv_def)
qed

interpretation signal_store: keyed_store
  "signal_get c" "signal_insert c" sig_id "\<lambda>s. codec_ok c" signals_inv
  for c :: "'j codec"
proof
  fix db :: signal_db and s :: "'j signal" and db' k j
  show "signal_insert c db s = Inl PrimaryKeyViolation \<longleftrightarrow> signal_get c db (sig_id s) \<noteq> None"
    by (simp add: signal_insert_def signal_get_def insert_row_def)
  show "signal_insert c db s = Inr (db', k) \<Longrightarrow> k = sig_id s"
    by (simp add: signal_insert_Inr)
  show "signal_insert c db s = Inr (db', k) \<Longrightarrow> codec_ok c \<Longrightarrow>
      signal_get c db' j = (if j = sig_id s then Some s else signal_get c db j)"
    by (auto simp: signal_insert_Inr signal_get_def select_by_insert row_signal_roundtrip)
  show "signals_inv db \<Longrightarrow> signal_insert c db s = Inr (db', k) \<Longrightarrow> signals_inv db'"
    by (rule signals_inv_insert)
qed

section \<open>Signatures survive the lifecycle\<close>

text \<open>The columns a signature commits to; the lifecycle stamps are not among them.\<close>

definition signed_part :: "'j signal \<Rightarrow> 'j signal" where
  "signed_part s = s\<lparr>sig_reference_ids := sig_body s, sig_expires_at := None,
     sig_delivered_at := None, sig_read_at := None, sig_acknowledged_at := None\<rparr>"

lemma signal_verify_signed_part: "signal_verify cr c (signed_part s) = signal_verify cr c s"
  by (simp add: signal_verify_def signed_part_def signal_signable_def body_sha256_def)

datatype mark = MarkDelivered | MarkRead | MarkAcked

fun mark_exec :: "signal_db \<Rightarrow> mark \<times> string \<times> int \<Rightarrow> signal_db" where
  "mark_exec db (MarkDelivered, i, now) = fst (mark_delivered db i now)"
| "mark_exec db (MarkRead, i, now) = fst (mark_read db i now)"
| "mark_exec db (MarkAcked, i, now) = fst (mark_acked db i now)"

lemma mark_exec_get:
  assumes "signal_get c db i = Some s"
  shows "\<exists>s'. signal_get c (mark_exec db ev) i = Some s' \<and> signed_part s' = signed_part s \<and>
    sig_reference_ids s' = sig_reference_ids s \<and>
    (\<forall>t. sig_delivered_at s = Some t \<longrightarrow> sig_delivered_at s' = Some t) \<and>
    (\<forall>t. sig_read_at s = Some t \<longrightarrow> sig_read_at s' = Some t) \<and>
    (\<forall>t. sig_acknowledged_at s = Some t \<longrightarrow> sig_acknowledged_at s' = Some t)"
proof -
  obtain r where r: "select_by sig_id i db = Some r" "s = row_to_signal c r"
    using assms by (auto simp: signal_get_def)
  obtain m j now where "ev = (m, j, now)" by (cases ev) auto
  then show ?thesis
    using r
    by (cases m) (auto simp: signal_get_def mark_delivered_def mark_read_def mark_acked_def
        Let_def select_by_update row_to_signal_def signed_part_def)
qed

lemma mark_execs_get:
  assumes "signal_get c db i = Some s"
  shows "\<exists>s'. signal_get c (foldl mark_exec db evs) i = Some s' \<and> signed_part s' = signed_part s \<and>
    sig_reference_ids s' = sig_reference_ids s \<and>
    (\<forall>t. sig_delivered_at s = Some t \<longrightarrow> sig_delivered_at s' = Some t) \<and>
    (\<forall>t. sig_read_at s = Some t \<longrightarrow> sig_read_at s' = Some t) \<and>
    (\<forall>t. sig_acknowledged_at s = Some t \<longrightarrow> sig_acknowledged_at s' = Some t)"
  using assms
proof (induction evs arbitrary: db s)
  case (Cons ev evs)
  obtain s1 where s1: "signal_get c (mark_exec db ev) i = Some s1" "signed_part s1 = signed_part s"
    "sig_reference_ids s1 = sig_reference_ids s"
    "\<forall>t. sig_delivered_at s = Some t \<longrightarrow> sig_delivered_at s1 = Some t"
    "\<forall>t. sig_read_at s = Some t \<longrightarrow> sig_read_at s1 = Some t"
    "\<forall>t. sig_acknowledged_at s = Some t \<longrightarrow> sig_acknowledged_at s1 = Some t"
    using mark_exec_get [OF Cons.prems] by blast
  show ?case using Cons.IH [OF s1(1)] s1 by auto
qed simp

section \<open>Properties\<close>

definition demo_signal :: "string signal" where
  "demo_signal =
     \<lparr>sig_id = ''s1'', sig_namespace = ''ns'', sig_from_agent = ''alice'', sig_to_agent = None,
      sig_subject = ''hi'', sig_body = ''{}'', sig_signal_type = Request, sig_in_reply_to = None,
      sig_correlation_id = Some ''t'', sig_reference_ids = ''[]'', sig_created_at = 1,
      sig_expires_at = None, sig_delivered_at = None, sig_read_at = None,
      sig_acknowledged_at = None, sig_signature = [], sig_sender_pubkey = []\<rparr>"

text \<open>A signal that is signed with a working key pair and sent stays verifiable for its
  whole life: after it is stored and after any sequence of delivered, read and acknowledged
  stamps on any signals, the stored row still verifies against the embedded key and against the
  sender's enrolled key, and a stamp that was set is never overwritten.\<close>

theorem signed_signal_stays_valid:
  assumes "codec_ok c" and "honest_keypair cr kp"
    and "signal_sign_into cr c kp s0 = Inr s" and "signal_insert c db s = Inr (db', k)"
  shows "\<exists>s'. signal_get c (foldl mark_exec db' evs) k = Some s' \<and> signal_verify cr c s' \<and>
    signal_verify_with_key cr c s' (kp_public kp) \<and>
    (\<forall>t. sig_delivered_at s = Some t \<longrightarrow> sig_delivered_at s' = Some t) \<and>
    (\<forall>t. sig_read_at s = Some t \<longrightarrow> sig_read_at s' = Some t) \<and>
    (\<forall>t. sig_acknowledged_at s = Some t \<longrightarrow> sig_acknowledged_at s' = Some t)"
proof -
  obtain sig where sig: "sign_signal cr kp (signal_signable s0 (body_sha256 cr c s0)) = Inr sig"
    and s: "s = s0\<lparr>sig_signature := sig, sig_sender_pubkey := kp_public kp\<rparr>"
    using assms(3) by (auto simp: signal_sign_into_def split: sum.splits)
  have same: "signal_signable s (body_sha256 cr c s) = signal_signable s0 (body_sha256 cr c s0)"
    by (simp add: s signal_signable_def body_sha256_def)
  have ok: "length sig = 64" "length (kp_public kp) = 32"
    "verify_bytes cr (canonical_cbor_signal cr (signal_signable s (body_sha256 cr c s))) sig (kp_public kp)"
    using sign_verify_bytes [OF assms(2)] sig same by (auto simp: sign_signal_def)
  then have "sig \<noteq> []" "kp_public kp \<noteq> []" by auto
  have "signal_get c db' k = Some s"
    using signal_store.get_own [OF assms(4,1)] .
  then obtain s' where s': "signal_get c (foldl mark_exec db' evs) k = Some s'"
    "signed_part s' = signed_part s"
    "(\<forall>t. sig_delivered_at s = Some t \<longrightarrow> sig_delivered_at s' = Some t) \<and>
     (\<forall>t. sig_read_at s = Some t \<longrightarrow> sig_read_at s' = Some t) \<and>
     (\<forall>t. sig_acknowledged_at s = Some t \<longrightarrow> sig_acknowledged_at s' = Some t)"
    using mark_execs_get by blast
  have "signal_verify cr c s"
    using ok \<open>sig \<noteq> []\<close> \<open>kp_public kp \<noteq> []\<close> by (simp add: s signal_verify_def verify_signal_def)
  then have v: "signal_verify cr c s'"
    using s'(2) signal_verify_signed_part by metis
  moreover have "sig_sender_pubkey s' = kp_public kp"
    using arg_cong [OF s'(2), of sig_sender_pubkey] by (simp add: signed_part_def s)
  ultimately have "signal_verify_with_key cr c s' (kp_public kp)"
    by (auto simp: signal_verify_def signal_verify_with_key_def split: if_splits)
  with s' v show ?thesis by blast
qed

theorem signed_signal_stays_valid_witness:
  "\<exists>s db'. signal_sign_into demo_crypto text_codec demo_keypair demo_signal = Inr s \<and>
     signal_insert text_codec [] s = Inr (db', ''s1'') \<and>
     (\<exists>s'. signal_get text_codec (foldl mark_exec db' [(MarkRead, ''s1'', 5)]) ''s1'' = Some s' \<and>
       signal_verify demo_crypto text_codec s')"
proof -
  obtain s where s: "signal_sign_into demo_crypto text_codec demo_keypair demo_signal = Inr s"
    "sig_id s = ''s1''" "sig_in_reply_to s = None"
    by (auto simp: signal_sign_into_def sign_signal_def sign_bytes_def demo_keypair_def
        demo_signal_def)
  then obtain db' where "signal_insert text_codec [] s = Inr (db', ''s1'')"
    by (auto simp: signal_insert_Inr insert_row_Inr reply_target_ok_def select_by_def)
  with s(1) show ?thesis
    using signed_signal_stays_valid [OF text_codec_ok demo_keypair_honest, of demo_signal s "[]" db' "''s1''"
      "[(MarkRead, ''s1'', 5)]"] by blast
qed

text \<open>Tampering is visible: if a stored signal and an altered one both verify with the same
  signature and key, then either every signed field is the same, the body text included, or the
  pair exhibits an Ed25519 signature collision or a SHA-256 collision of the two bodies.\<close>

theorem signal_tamper_evident:
  assumes "inj (cbor_encode cr)"
    and "signal_verify cr c s" and "signal_verify cr c s'"
    and "sig_signature s' = sig_signature s" and "sig_sender_pubkey s' = sig_sender_pubkey s"
  shows "sig_id s' = sig_id s \<and> sig_namespace s' = sig_namespace s \<and>
      sig_from_agent s' = sig_from_agent s \<and> sig_to_agent s' = sig_to_agent s \<and>
      sig_subject s' = sig_subject s \<and> sig_signal_type s' = sig_signal_type s \<and>
      sig_in_reply_to s' = sig_in_reply_to s \<and> sig_correlation_id s' = sig_correlation_id s \<and>
      sig_created_at s' = sig_created_at s \<and>
      json_to_string c (sig_body s') = json_to_string c (sig_body s)
    \<or> signature_collision cr (sig_sender_pubkey s) (sig_signature s)
    \<or> sha256_collision cr (json_to_string c (sig_body s)) (json_to_string c (sig_body s'))"
proof -
  let ?x = "signal_signable s (body_sha256 cr c s)"
  let ?y = "signal_signable s' (body_sha256 cr c s')"
  have v: "ed_verify_strict cr (sig_sender_pubkey s) (canonical_cbor_signal cr ?x) (sig_signature s)"
    "ed_verify_strict cr (sig_sender_pubkey s) (canonical_cbor_signal cr ?y) (sig_signature s)"
    using assms(2-5)
    by (auto simp: signal_verify_def verify_signal_def verify_bytes_def split: if_splits)
  show ?thesis
  proof (cases "canonical_cbor_signal cr ?x = canonical_cbor_signal cr ?y")
    case False
    with v have "signature_collision cr (sig_sender_pubkey s) (sig_signature s)"
      unfolding signature_collision_def by blast
    then show ?thesis by blast
  next
    case True
    then have "canonical_bytes cr (SSignal ?x) = canonical_bytes cr (SSignal ?y)" by simp
    then have xy: "?x = ?y"
      using canonical_bytes_eqD [OF assms(1)] by blast
    have types: "sig_signal_type s' = sig_signal_type s"
      using arg_cong [OF xy, of ss_signal_type]
      by (metis option.inject signal_signable_def signable_signal.select_convs(7)
          signal_type_roundtrip)
    from xy types show ?thesis
      by (auto simp: signal_signable_def body_sha256_def sha256_collision_def)
  qed
qed

theorem signal_tamper_evident_witness:
  "\<exists>s. signal_verify demo_crypto text_codec s \<and> sig_subject s = ''hi'' \<and>
     signature_collision demo_crypto (sig_sender_pubkey s) (sig_signature s)"
proof -
  let ?s = "demo_signal\<lparr>sig_signature := replicate 64 (CHR 0x01),
      sig_sender_pubkey := replicate 32 (CHR 0x02)\<rparr>"
  have v: "signal_verify demo_crypto text_codec ?s"
    "signal_verify demo_crypto text_codec (?s\<lparr>sig_subject := ''yo''\<rparr>)"
    by (simp_all add: signal_verify_def verify_signal_def verify_bytes_def demo_crypto_def)
  then have "signature_collision demo_crypto (sig_sender_pubkey ?s) (sig_signature ?s)"
    using signal_tamper_evident [OF demo_crypto_inj v]
    by (simp add: demo_signal_def sha256_collision_def)
  with v(1) show ?thesis by (intro exI [of _ ?s]) (simp add: demo_signal_def)
qed

end
