(* ===== verification/Checkpoints.thy ===== *)
theory Checkpoints
  imports Signing
begin

text \<open>
  The attested checkpoints of \<^verbatim>\<open>src/models/checkpoint.rs\<close> and
  \<^verbatim>\<open>src/checkpoints/mod.rs\<close>: conditional gates whose resolution is signed, the local
  \<open>resolve\<close> and the federated \<open>apply_inbound_resolution\<close> with its
  first-resolution-wins rule.
\<close>

datatype condition_type =
    Approval | ExternalSignal | ConditionPredicate | Deadline | AuditHeadWitness
  | GovernanceVerdict | GovernanceEnforcement | EpochAdvance | PeerHeadEntanglement

fun condition_type_as_str :: "condition_type \<Rightarrow> string" where
  "condition_type_as_str Approval = ''approval''"
| "condition_type_as_str ExternalSignal = ''external_signal''"
| "condition_type_as_str ConditionPredicate = ''condition_predicate''"
| "condition_type_as_str Deadline = ''deadline''"
| "condition_type_as_str AuditHeadWitness = ''audit_head_witness''"
| "condition_type_as_str GovernanceVerdict = ''governance_verdict''"
| "condition_type_as_str GovernanceEnforcement = ''governance_enforcement''"
| "condition_type_as_str EpochAdvance = ''epoch_advance''"
| "condition_type_as_str PeerHeadEntanglement = ''peer_head_entanglement''"

definition condition_type_from_str :: "string \<Rightarrow> condition_type option" where
  "condition_type_from_str s =
     (if s = ''approval'' then Some Approval
      else if s = ''external_signal'' then Some ExternalSignal
      else if s = ''condition_predicate'' then Some ConditionPredicate
      else if s = ''deadline'' then Some Deadline
      else if s = ''audit_head_witness'' then Some AuditHeadWitness
      else if s = ''governance_verdict'' then Some GovernanceVerdict
      else if s = ''governance_enforcement'' then Some GovernanceEnforcement
      else if s = ''epoch_advance'' then Some EpochAdvance
      else if s = ''peer_head_entanglement'' then Some PeerHeadEntanglement
      else None)"

datatype checkpoint_state = CpPending | CpResolved | CpRejected | CpExpired

fun checkpoint_state_as_str :: "checkpoint_state \<Rightarrow> string" where
  "checkpoint_state_as_str CpPending = ''pending''"
| "checkpoint_state_as_str CpResolved = ''resolved''"
| "checkpoint_state_as_str CpRejected = ''rejected''"
| "checkpoint_state_as_str CpExpired = ''expired''"

definition checkpoint_state_from_str :: "string \<Rightarrow> checkpoint_state option" where
  "checkpoint_state_from_str s =
     (if s = ''pending'' then Some CpPending
      else if s = ''resolved'' then Some CpResolved
      else if s = ''rejected'' then Some CpRejected
      else if s = ''expired'' then Some CpExpired
      else None)"

record ('t, 's, 'j, 'b) checkpoint_rec =
  cp_id :: string
  cp_namespace :: string
  cp_title :: string
  cp_condition_type :: 't
  cp_condition :: 'j
  cp_state :: 's
  cp_created_by :: string
  cp_resolved_by :: "string option"
  cp_resolution :: "string option"
  cp_resolution_note :: "string option"
  cp_signature :: 'b
  cp_resolver_pubkey :: 'b
  cp_created_at :: int
  cp_deadline_at :: "int option"
  cp_resolved_at :: "int option"
  cp_metadata :: 'j

text \<open>The signature columns of a row are nullable.\<close>

type_synonym 'j checkpoint = "(condition_type, checkpoint_state, 'j, bytes) checkpoint_rec"
type_synonym checkpoint_row = "(string, string, string, bytes option) checkpoint_rec"
type_synonym checkpoint_db = "checkpoint_row list"

datatype inbound_outcome = InboundApplied | InboundNoop | InboundConflict

section \<open>Attested resolutions\<close>

definition resolution_signable :: "'j checkpoint \<Rightarrow> signable_resolution" where
  "resolution_signable cp =
     \<lparr>sr_checkpoint_id = cp_id cp, sr_namespace = cp_namespace cp,
      sr_state = checkpoint_state_as_str (cp_state cp),
      sr_resolved_by = (case cp_resolved_by cp of Some s \<Rightarrow> s | None \<Rightarrow> ''''),
      sr_resolution = cp_resolution cp,
      sr_resolved_at = (case cp_resolved_at cp of Some t \<Rightarrow> t | None \<Rightarrow> 0)\<rparr>"

definition sign_resolution_into ::
  "crypto \<Rightarrow> agent_keypair \<Rightarrow> 'j checkpoint \<Rightarrow> sign_error + 'j checkpoint" where
  "sign_resolution_into cr kp cp =
     (case sign_checkpoint_resolution cr kp (resolution_signable cp) of
        Inl e \<Rightarrow> Inl e
      | Inr sig \<Rightarrow> Inr (cp\<lparr>cp_signature := sig, cp_resolver_pubkey := kp_public kp\<rparr>))"

definition checkpoint_verify :: "crypto \<Rightarrow> 'j checkpoint \<Rightarrow> bool" where
  "checkpoint_verify cr cp =
     (if cp_signature cp = [] \<or> cp_resolver_pubkey cp = [] then False
      else verify_checkpoint_resolution cr (resolution_signable cp)
             (cp_signature cp) (cp_resolver_pubkey cp))"

section \<open>The table\<close>

definition blob_column :: "bytes option \<Rightarrow> bytes" where
  "blob_column b = (case b of Some x \<Rightarrow> x | None \<Rightarrow> [])"

definition row_to_checkpoint :: "'j codec \<Rightarrow> checkpoint_row \<Rightarrow> 'j checkpoint" where
  "row_to_checkpoint c r =
     \<lparr>cp_id = cp_id r, cp_namespace = cp_namespace r, cp_title = cp_title r,
      cp_condition_type = (case condition_type_from_str (cp_condition_type r) of
         Some t \<Rightarrow> t | None \<Rightarrow> Approval),
      cp_condition = json_column c (cp_condition r),
      cp_state = (case checkpoint_state_from_str (cp_state r) of
         Some s \<Rightarrow> s | None \<Rightarrow> CpPending),
      cp_created_by = cp_created_by r, cp_resolved_by = cp_resolved_by r,
      cp_resolution = cp_resolution r, cp_resolution_note = cp_resolution_note r,
      cp_signature = blob_column (cp_signature r),
      cp_resolver_pubkey = blob_column (cp_resolver_pubkey r),
      cp_created_at = cp_created_at r, cp_deadline_at = cp_deadline_at r,
      cp_resolved_at = cp_resolved_at r, cp_metadata = json_column c (cp_metadata r)\<rparr>"

definition checkpoint_to_row :: "'j codec \<Rightarrow> 'j checkpoint \<Rightarrow> checkpoint_row" where
  "checkpoint_to_row c cp =
     \<lparr>cp_id = cp_id cp, cp_namespace = cp_namespace cp, cp_title = cp_title cp,
      cp_condition_type = condition_type_as_str (cp_condition_type cp),
      cp_condition = json_to_string c (cp_condition cp),
      cp_state = checkpoint_state_as_str (cp_state cp),
      cp_created_by = cp_created_by cp, cp_resolved_by = cp_resolved_by cp,
      cp_resolution = cp_resolution cp, cp_resolution_note = cp_resolution_note cp,
      cp_signature = Some (cp_signature cp), cp_resolver_pubkey = Some (cp_resolver_pubkey cp),
      cp_created_at = cp_created_at cp, cp_deadline_at = cp_deadline_at cp,
      cp_resolved_at = cp_resolved_at cp, cp_metadata = json_to_string c (cp_metadata cp)\<rparr>"

definition checkpoint_insert ::
  "'j codec \<Rightarrow> checkpoint_db \<Rightarrow> 'j checkpoint \<Rightarrow> (checkpoint_db \<times> string) sql_result" where
  "checkpoint_insert c db cp =
     (case insert_row cp_id (checkpoint_to_row c cp) db of
        Inl e \<Rightarrow> Inl e
      | Inr t \<Rightarrow> Inr (t, cp_id cp))"

definition checkpoint_get :: "'j codec \<Rightarrow> checkpoint_db \<Rightarrow> string \<Rightarrow> 'j checkpoint option" where
  "checkpoint_get c db i = map_option (row_to_checkpoint c) (select_by cp_id i db)"

definition checkpoint_list ::
  "'j codec \<Rightarrow> checkpoint_db \<Rightarrow> string \<Rightarrow> checkpoint_state option \<Rightarrow> nat \<Rightarrow> 'j checkpoint list" where
  "checkpoint_list c db ns st lim =
     map (row_to_checkpoint c)
       (order_limit (\<lambda>r. - cp_created_at r) lim
         (filter (\<lambda>r. cp_namespace r = ns \<and>
             (case st of None \<Rightarrow> True | Some s \<Rightarrow> cp_state r = checkpoint_state_as_str s)) db))"

definition checkpoint_query ::
  "'j codec \<Rightarrow> checkpoint_db \<Rightarrow> string \<Rightarrow> condition_type option \<Rightarrow> checkpoint_state option \<Rightarrow> nat
    \<Rightarrow> 'j checkpoint list" where
  "checkpoint_query c db ns ct st lim =
     map (row_to_checkpoint c)
       (order_limit (\<lambda>r. - cp_created_at r) lim
         (filter (\<lambda>r. cp_namespace r = ns \<and>
             (case ct of None \<Rightarrow> True | Some t \<Rightarrow> cp_condition_type r = condition_type_as_str t) \<and>
             (case st of None \<Rightarrow> True | Some s \<Rightarrow> cp_state r = checkpoint_state_as_str s)) db))"

text \<open>
  The local resolution: an unconditional update of the resolution columns, then, with a
  signing key, an update of the two attestation columns.
\<close>

definition checkpoint_resolve ::
  "crypto \<Rightarrow> 'j codec \<Rightarrow> checkpoint_db \<Rightarrow> string \<Rightarrow> checkpoint_state \<Rightarrow> string \<Rightarrow> string option
    \<Rightarrow> string option \<Rightarrow> int \<Rightarrow> agent_keypair option
    \<Rightarrow> checkpoint_db \<times> 'j checkpoint option sql_result" where
  "checkpoint_resolve cr c db i st by_agent res note_text at kp =
     (let n = count_where (\<lambda>r. cp_id r = i) db;
          db1 = update_where (\<lambda>r. cp_id r = i)
            (\<lambda>r. r\<lparr>cp_state := checkpoint_state_as_str st, cp_resolved_by := Some by_agent,
                  cp_resolution := res, cp_resolution_note := note_text,
                  cp_resolved_at := Some at\<rparr>) db
      in if n = 0 then (db1, Inr None)
         else case checkpoint_get c db1 i of
           None \<Rightarrow> (db1, Inr None)
         | Some row \<Rightarrow>
             (case kp of
                Some k \<Rightarrow>
                  if can_sign k then
                    (case sign_resolution_into cr k row of
                       Inl e \<Rightarrow> (db1, Inl ToSqlConversionFailure)
                     | Inr row' \<Rightarrow>
                         (update_where (\<lambda>r. cp_id r = i)
                            (\<lambda>r. r\<lparr>cp_signature := Some (cp_signature row'),
                                  cp_resolver_pubkey := Some (cp_resolver_pubkey row')\<rparr>) db1,
                          Inr (Some row')))
                  else (db1, Inr (Some row))
              | None \<Rightarrow> (db1, Inr (Some row))))"

definition resolutions_match :: "'j checkpoint \<Rightarrow> 'j checkpoint \<Rightarrow> bool" where
  "resolutions_match l r \<longleftrightarrow>
     cp_state l = cp_state r \<and> cp_resolved_by l = cp_resolved_by r \<and>
     cp_resolution l = cp_resolution r"

definition apply_inbound_resolution ::
  "'j codec \<Rightarrow> checkpoint_db \<Rightarrow> 'j checkpoint \<Rightarrow> checkpoint_db \<times> inbound_outcome sql_result" where
  "apply_inbound_resolution c db inc =
     (case checkpoint_get c db (cp_id inc) of
        None \<Rightarrow>
          (case checkpoint_insert c db inc of
             Inl e \<Rightarrow> (db, Inl e)
           | Inr (db', _) \<Rightarrow> (db', Inr InboundApplied))
      | Some local \<Rightarrow>
          if cp_state local = CpPending then
            (update_where (\<lambda>r. cp_id r = cp_id inc)
               (\<lambda>r. r\<lparr>cp_state := checkpoint_state_as_str (cp_state inc),
                     cp_resolved_by := cp_resolved_by inc, cp_resolution := cp_resolution inc,
                     cp_resolution_note := cp_resolution_note inc,
                     cp_resolved_at := cp_resolved_at inc,
                     cp_signature := Some (cp_signature inc),
                     cp_resolver_pubkey := Some (cp_resolver_pubkey inc)\<rparr>) db,
             Inr InboundApplied)
          else if resolutions_match local inc then (db, Inr InboundNoop)
          else (db, Inr InboundConflict))"

section \<open>The repository contract\<close>

lemma condition_type_roundtrip [simp]:
  "condition_type_from_str (condition_type_as_str t) = Some t"
  by (cases t) (simp_all add: condition_type_from_str_def)

lemma checkpoint_state_roundtrip [simp]:
  "checkpoint_state_from_str (checkpoint_state_as_str s) = Some s"
  by (cases s) (simp_all add: checkpoint_state_from_str_def)

lemma checkpoint_state_as_str_inject:
  "checkpoint_state_as_str s = checkpoint_state_as_str t \<longleftrightarrow> s = t"
  by (metis checkpoint_state_roundtrip option.inject)

lemma row_checkpoint_roundtrip:
  "codec_ok c \<Longrightarrow> row_to_checkpoint c (checkpoint_to_row c cp) = cp"
  by (simp add: row_to_checkpoint_def checkpoint_to_row_def json_column_roundtrip blob_column_def)

lemma cp_id_rows [simp]:
  "cp_id (checkpoint_to_row c cp) = cp_id cp" "cp_id (row_to_checkpoint c r) = cp_id r"
  by (simp_all add: checkpoint_to_row_def row_to_checkpoint_def)

lemma checkpoint_insert_Inr:
  "checkpoint_insert c db cp = Inr (db', k) \<longleftrightarrow>
     k = cp_id cp \<and> insert_row cp_id (checkpoint_to_row c cp) db = Inr db'"
  by (auto simp: checkpoint_insert_def split: sum.splits)

interpretation checkpoint_store: keyed_store
  "checkpoint_get c" "checkpoint_insert c" cp_id "\<lambda>cp. codec_ok c" "keys_unique cp_id"
  for c :: "'j codec"
proof
  fix db :: checkpoint_db and cp :: "'j checkpoint" and db' k j
  show "checkpoint_insert c db cp = Inl PrimaryKeyViolation \<longleftrightarrow> checkpoint_get c db (cp_id cp) \<noteq> None"
    by (simp add: checkpoint_insert_def checkpoint_get_def insert_row_def)
  show "checkpoint_insert c db cp = Inr (db', k) \<Longrightarrow> k = cp_id cp"
    by (simp add: checkpoint_insert_Inr)
  show "checkpoint_insert c db cp = Inr (db', k) \<Longrightarrow> codec_ok c \<Longrightarrow>
      checkpoint_get c db' j = (if j = cp_id cp then Some cp else checkpoint_get c db j)"
    by (auto simp: checkpoint_insert_Inr checkpoint_get_def select_by_insert row_checkpoint_roundtrip)
  show "keys_unique cp_id db \<Longrightarrow> checkpoint_insert c db cp = Inr (db', k) \<Longrightarrow> keys_unique cp_id db'"
    by (auto simp: checkpoint_insert_Inr intro: keys_unique_insert)
qed

section \<open>What an inbound resolution leaves behind\<close>

lemma inbound_get:
  assumes "codec_ok c" and "cp_state inc \<noteq> CpPending"
  shows "\<exists>cp. checkpoint_get c (fst (apply_inbound_resolution c db inc)) (cp_id inc) = Some cp \<and>
    cp_state cp \<noteq> CpPending \<and>
    (snd (apply_inbound_resolution c db inc) = Inr InboundApplied \<longrightarrow>
       resolution_signable cp = (resolution_signable inc)
         \<lparr>sr_checkpoint_id := cp_id cp, sr_namespace := cp_namespace cp\<rparr> \<and>
       resolutions_match cp inc \<and> cp_signature cp = cp_signature inc \<and>
       cp_resolver_pubkey cp = cp_resolver_pubkey inc)"
proof (cases "checkpoint_get c db (cp_id inc)")
  case None
  then have "select_by cp_id (cp_id inc) db = None" by (simp add: checkpoint_get_def)
  then obtain db' where ins: "checkpoint_insert c db inc = Inr (db', cp_id inc)"
    by (auto simp: checkpoint_insert_def insert_row_def)
  have "checkpoint_get c db' (cp_id inc) = Some inc"
    using checkpoint_store.get_own [OF ins assms(1)] .
  with None ins assms(2) show ?thesis
    by (simp add: apply_inbound_resolution_def resolutions_match_def resolution_signable_def)
next
  case (Some local)
  then obtain r where r: "select_by cp_id (cp_id inc) db = Some r" "local = row_to_checkpoint c r"
    and i: "cp_id r = cp_id inc"
    by (auto simp: checkpoint_get_def dest: select_by_SomeD)
  show ?thesis
  proof (cases "cp_state local = CpPending")
    case True
    with Some r i assms(2) show ?thesis
      by (simp add: apply_inbound_resolution_def checkpoint_get_def select_by_update
          row_to_checkpoint_def resolution_signable_def resolutions_match_def blob_column_def)
  next
    case False
    with Some show ?thesis
      by (simp add: apply_inbound_resolution_def)
  qed
qed

lemma inbound_resolved_keeps:
  assumes "checkpoint_get c db (cp_id inc) = Some cp" and "cp_state cp \<noteq> CpPending"
  shows "apply_inbound_resolution c db inc =
    (db, Inr (if resolutions_match cp inc then InboundNoop else InboundConflict))"
  using assms by (simp add: apply_inbound_resolution_def)

lemma inbound_other:
  assumes "i \<noteq> cp_id inc"
  shows "checkpoint_get c (fst (apply_inbound_resolution c db inc)) i = checkpoint_get c db i"
proof -
  have "select_by cp_id i db = Some q \<Longrightarrow> cp_id q = i" for q
    by (blast dest: select_by_SomeD)
  then show ?thesis
    using assms
    by (cases "select_by cp_id i db")
      (auto simp: apply_inbound_resolution_def checkpoint_get_def select_by_update
        checkpoint_insert_def insert_row_def select_by_append select_by_Cons select_by_Nil
        split: option.splits)
qed

lemma inbounds_keep_resolved:
  assumes "checkpoint_get c db i = Some cp" and "cp_state cp \<noteq> CpPending"
  shows "checkpoint_get c (foldl (\<lambda>d x. fst (apply_inbound_resolution c d x)) db incs) i = Some cp"
  using assms(1)
proof (induction incs arbitrary: db)
  case (Cons inc incs)
  have "checkpoint_get c (fst (apply_inbound_resolution c db inc)) i = Some cp"
  proof (cases "i = cp_id inc")
    case True
    then show ?thesis using inbound_resolved_keeps Cons.prems assms(2) by fastforce
  next
    case False
    then show ?thesis using inbound_other Cons.prems by metis
  qed
  then show ?case using Cons.IH by simp
qed simp

section \<open>What a local resolution leaves behind\<close>

abbreviation resolved_row where
  "resolved_row st who res note_text at r \<equiv>
     r\<lparr>cp_state := checkpoint_state_as_str st, cp_resolved_by := Some who,
       cp_resolution := res, cp_resolution_note := note_text, cp_resolved_at := Some at\<rparr>"

lemma resolve_found:
  assumes "select_by cp_id i db = Some r"
  shows "count_where (\<lambda>r. cp_id r = i) db \<noteq> 0"
    and "select_by cp_id i (update_where (\<lambda>r. cp_id r = i)
      (\<lambda>r. resolved_row st who res note_text at r) db) = Some (resolved_row st who res note_text at r)"
  using select_by_SomeD [OF assms] assms
  by (auto simp: count_where_0_iff select_by_update)

lemma resolve_unsigned:
  assumes "select_by cp_id i db = Some r" and "kp = None \<or> (\<exists>k. kp = Some k \<and> \<not> can_sign k)"
  shows "checkpoint_resolve cr c db i st who res note_text at kp =
    (update_where (\<lambda>r. cp_id r = i) (\<lambda>r. resolved_row st who res note_text at r) db,
     Inr (Some (row_to_checkpoint c (resolved_row st who res note_text at r))))"
  using resolve_found [OF assms(1)] assms(2)
  by (auto simp: checkpoint_resolve_def checkpoint_get_def Let_def)

lemma resolve_signed:
  assumes "select_by cp_id i db = Some r" and "can_sign k"
  obtains sig where
    "sign_checkpoint_resolution cr k
       (resolution_signable (row_to_checkpoint c (resolved_row st who res note_text at r))) = Inr sig"
    and "checkpoint_resolve cr c db i st who res note_text at (Some k) =
      (update_where (\<lambda>r. cp_id r = i)
         (\<lambda>r. r\<lparr>cp_signature := Some sig, cp_resolver_pubkey := Some (kp_public k)\<rparr>)
         (update_where (\<lambda>r. cp_id r = i) (\<lambda>r. resolved_row st who res note_text at r) db),
       Inr (Some (row_to_checkpoint c (resolved_row st who res note_text at r)
         \<lparr>cp_signature := sig, cp_resolver_pubkey := kp_public k\<rparr>)))"
proof -
  let ?cp = "row_to_checkpoint c (resolved_row st who res note_text at r)"
  obtain sig where sig: "sign_checkpoint_resolution cr k (resolution_signable ?cp) = Inr sig"
    using assms(2) sign_bytes_can_sign unfolding sign_checkpoint_resolution_def by metis
  moreover from sig have "sign_resolution_into cr k ?cp =
      Inr (?cp\<lparr>cp_signature := sig, cp_resolver_pubkey := kp_public k\<rparr>)"
    by (simp add: sign_resolution_into_def)
  then have "checkpoint_resolve cr c db i st who res note_text at (Some k) =
      (update_where (\<lambda>r. cp_id r = i)
         (\<lambda>r. r\<lparr>cp_signature := Some sig, cp_resolver_pubkey := Some (kp_public k)\<rparr>)
         (update_where (\<lambda>r. cp_id r = i) (\<lambda>r. resolved_row st who res note_text at r) db),
       Inr (Some (?cp\<lparr>cp_signature := sig, cp_resolver_pubkey := kp_public k\<rparr>)))"
    using resolve_found [OF assms(1)] assms(2)
    by (simp add: checkpoint_resolve_def checkpoint_get_def Let_def)
  ultimately show thesis by (rule that)
qed

section \<open>Properties\<close>

definition demo_checkpoint :: "checkpoint_state \<Rightarrow> string \<Rightarrow> string checkpoint" where
  "demo_checkpoint st who =
     \<lparr>cp_id = ''c1'', cp_namespace = ''ns'', cp_title = ''gate'', cp_condition_type = Approval,
      cp_condition = ''{}'', cp_state = st, cp_created_by = ''alice'',
      cp_resolved_by = (if st = CpPending then None else Some who), cp_resolution = None,
      cp_resolution_note = None, cp_signature = [], cp_resolver_pubkey = [], cp_created_at = 1,
      cp_deadline_at = None, cp_resolved_at = None, cp_metadata = ''{}''\<rparr>"

text \<open>C5: The first federated resolution of a checkpoint wins: once one was applied, no sequence
  of further inbound resolutions changes the stored verdict, resolver, attestation or key; a
  replay of the same verdict is answered as a no-op and any other as a conflict, without a
  write.\<close>

theorem first_resolution_wins:
  assumes "codec_ok c" and "cp_state inc \<noteq> CpPending"
    and "snd (apply_inbound_resolution c db inc) = Inr InboundApplied"
  shows "\<exists>cp. checkpoint_get c (foldl (\<lambda>d x. fst (apply_inbound_resolution c d x))
        (fst (apply_inbound_resolution c db inc)) incs) (cp_id inc) = Some cp \<and>
    resolutions_match cp inc \<and> cp_signature cp = cp_signature inc \<and>
    cp_resolver_pubkey cp = cp_resolver_pubkey inc \<and>
    (\<forall>d inc'. checkpoint_get c d (cp_id inc) = Some cp \<and> cp_id inc' = cp_id inc \<longrightarrow>
       apply_inbound_resolution c d inc' =
         (d, Inr (if resolutions_match inc inc' then InboundNoop else InboundConflict)))"
proof -
  obtain cp where cp: "checkpoint_get c (fst (apply_inbound_resolution c db inc)) (cp_id inc) = Some cp"
    "cp_state cp \<noteq> CpPending" "resolutions_match cp inc" "cp_signature cp = cp_signature inc"
    "cp_resolver_pubkey cp = cp_resolver_pubkey inc"
    using inbound_get [OF assms(1,2), of db] assms(3) by blast
  have m: "resolutions_match cp inc' = resolutions_match inc inc'" for inc'
    using cp(3) by (auto simp: resolutions_match_def)
  have "\<forall>d inc'. checkpoint_get c d (cp_id inc) = Some cp \<and> cp_id inc' = cp_id inc \<longrightarrow>
      apply_inbound_resolution c d inc' =
        (d, Inr (if resolutions_match inc inc' then InboundNoop else InboundConflict))"
    using cp(2) by (auto simp: inbound_resolved_keeps m)
  with cp inbounds_keep_resolved [OF cp(1,2), of incs] show ?thesis by blast
qed

theorem first_resolution_wins_witness:
  "\<exists>cp. checkpoint_get text_codec (foldl (\<lambda>d x. fst (apply_inbound_resolution text_codec d x))
       (fst (apply_inbound_resolution text_codec [] (demo_checkpoint CpResolved ''bob'')))
       [demo_checkpoint CpRejected ''eve'']) ''c1'' = Some cp \<and> cp_resolved_by cp = Some ''bob''"
proof -
  have "snd (apply_inbound_resolution text_codec [] (demo_checkpoint CpResolved ''bob'')) =
      Inr InboundApplied"
    by (simp add: apply_inbound_resolution_def checkpoint_get_def checkpoint_insert_def
        insert_row_def select_by_def)
  moreover have "cp_state (demo_checkpoint CpResolved ''bob'') \<noteq> CpPending"
    "cp_id (demo_checkpoint CpResolved ''bob'') = ''c1''"
    "cp_resolved_by (demo_checkpoint CpResolved ''bob'') = Some ''bob''"
    by (simp_all add: demo_checkpoint_def)
  moreover from calculation obtain cp where
    "checkpoint_get text_codec (foldl (\<lambda>d x. fst (apply_inbound_resolution text_codec d x))
       (fst (apply_inbound_resolution text_codec [] (demo_checkpoint CpResolved ''bob'')))
       [demo_checkpoint CpRejected ''eve''])
       (cp_id (demo_checkpoint CpResolved ''bob'')) = Some cp"
    "resolutions_match cp (demo_checkpoint CpResolved ''bob'')"
    using first_resolution_wins [OF text_codec_ok, of "demo_checkpoint CpResolved ''bob''" "[]"
      "[demo_checkpoint CpRejected ''eve'']"] by blast
  ultimately show ?thesis by (simp only: resolutions_match_def) blast
qed

text \<open>Resolving an existing checkpoint with a working signing key stores exactly the given
  verdict, resolver and time together with an attestation over them, and the stored row
  verifies; the returned row is the stored one.\<close>

theorem resolve_signed_verifies:
  assumes "honest_keypair cr k" and "can_sign k" and "checkpoint_get c db i = Some cp"
  shows "\<exists>row. snd (checkpoint_resolve cr c db i st who res note_text at (Some k)) = Inr (Some row) \<and>
    checkpoint_get c (fst (checkpoint_resolve cr c db i st who res note_text at (Some k))) i = Some row \<and>
    checkpoint_verify cr row \<and> cp_state row = st \<and> cp_resolved_by row = Some who \<and>
    cp_resolution row = res \<and> cp_resolution_note row = note_text \<and> cp_resolved_at row = Some at \<and>
    cp_resolver_pubkey row = kp_public k"
proof -
  obtain r where r: "select_by cp_id i db = Some r" "cp_id r = i"
    using assms(3) by (auto simp: checkpoint_get_def dest: select_by_SomeD)
  let ?cp = "row_to_checkpoint c (resolved_row st who res note_text at r)"
  obtain sig where sig: "sign_checkpoint_resolution cr k (resolution_signable ?cp) = Inr sig"
    and eq: "checkpoint_resolve cr c db i st who res note_text at (Some k) =
      (update_where (\<lambda>r. cp_id r = i)
         (\<lambda>r. r\<lparr>cp_signature := Some sig, cp_resolver_pubkey := Some (kp_public k)\<rparr>)
         (update_where (\<lambda>r. cp_id r = i) (\<lambda>r. resolved_row st who res note_text at r) db),
       Inr (Some (?cp\<lparr>cp_signature := sig, cp_resolver_pubkey := kp_public k\<rparr>)))"
    using resolve_signed [OF r(1) assms(2)] .
  let ?row = "?cp\<lparr>cp_signature := sig, cp_resolver_pubkey := kp_public k\<rparr>"
  have "resolution_signable ?row = resolution_signable ?cp"
    by (simp add: resolution_signable_def)
  moreover have "length sig = 64" "length (kp_public k) = 32"
    "verify_bytes cr (canonical_cbor_checkpoint_resolution cr (resolution_signable ?cp)) sig (kp_public k)"
    using sign_verify_bytes [OF assms(1)] sig by (auto simp: sign_checkpoint_resolution_def)
  ultimately have "checkpoint_verify cr ?row"
    by (auto simp: checkpoint_verify_def verify_checkpoint_resolution_def)
  then show ?thesis
    using r by (simp add: eq checkpoint_get_def select_by_update row_to_checkpoint_def blob_column_def)
qed

theorem resolve_signed_verifies_witness:
  "\<exists>row. snd (checkpoint_resolve demo_crypto text_codec
        [checkpoint_to_row text_codec (demo_checkpoint CpPending ''x'')] ''c1'' CpRejected ''bob''
        (Some ''no'') None 9 (Some demo_keypair)) = Inr (Some row) \<and>
     checkpoint_verify demo_crypto row \<and> cp_state row = CpRejected"
proof -
  have "checkpoint_get text_codec [checkpoint_to_row text_codec (demo_checkpoint CpPending ''x'')] ''c1''
      = Some (demo_checkpoint CpPending ''x'')"
    by (simp add: checkpoint_get_def select_by_def row_checkpoint_roundtrip text_codec_ok)
      (simp add: demo_checkpoint_def)
  moreover have "can_sign demo_keypair" by (simp add: can_sign_def demo_keypair_def)
  ultimately show ?thesis
    using resolve_signed_verifies [OF demo_keypair_honest] by blast
qed

text \<open>Resolving without a signing key overwrites the verdict of any existing checkpoint,
  resolved ones included, and leaves the attestation columns of the previous resolution in
  place: the row is unattested afterwards only if it was before.\<close>

theorem resolve_unsigned_keeps_attestation:
  assumes "checkpoint_get c db i = Some cp"
  shows "\<exists>row. snd (checkpoint_resolve cr c db i st who res note_text at None) = Inr (Some row) \<and>
    checkpoint_get c (fst (checkpoint_resolve cr c db i st who res note_text at None)) i = Some row \<and>
    row = cp\<lparr>cp_state := st, cp_resolved_by := Some who, cp_resolution := res,
      cp_resolution_note := note_text, cp_resolved_at := Some at\<rparr>"
proof -
  obtain r where r: "select_by cp_id i db = Some r" "cp = row_to_checkpoint c r"
    using assms by (auto simp: checkpoint_get_def)
  show ?thesis
    by (simp add: resolve_unsigned [OF r(1)] resolve_found(2) [OF r(1)] checkpoint_get_def r(2))
      (simp add: row_to_checkpoint_def)
qed

theorem resolve_unsigned_keeps_attestation_witness:
  "\<exists>row. snd (checkpoint_resolve demo_crypto text_codec
        [checkpoint_to_row text_codec ((demo_checkpoint CpResolved ''bob'')\<lparr>cp_signature := ''sig''\<rparr>)]
        ''c1'' CpRejected ''eve'' None None 9 None) = Inr (Some row) \<and>
     cp_signature row = ''sig'' \<and> cp_state row = CpRejected"
proof -
  let ?cp = "(demo_checkpoint CpResolved ''bob'')\<lparr>cp_signature := ''sig''\<rparr>"
  have "checkpoint_get text_codec [checkpoint_to_row text_codec ?cp] ''c1'' = Some ?cp"
    by (simp add: checkpoint_get_def select_by_def row_checkpoint_roundtrip text_codec_ok)
      (simp add: demo_checkpoint_def)
  from resolve_unsigned_keeps_attestation [OF this] show ?thesis by fastforce
qed

end
