(* ===== verification/Routines.thy ===== *)
theory Routines
  imports Signing
begin

text \<open>
  Routines and their runs, \<^verbatim>\<open>src/models/routine.rs\<close> and \<^verbatim>\<open>src/routines/mod.rs\<close>: templates
  that are frozen under an attestation, and the runs that materialise them. The two
  tables are the record \<open>routine_db\<close>; a run references its routine.
\<close>

datatype routine_state = Draft | Frozen

fun routine_state_as_str :: "routine_state \<Rightarrow> string" where
  "routine_state_as_str Draft = ''draft''"
| "routine_state_as_str Frozen = ''frozen''"

definition routine_state_from_str :: "string \<Rightarrow> routine_state option" where
  "routine_state_from_str s =
     (if s = ''draft'' then Some Draft else if s = ''frozen'' then Some Frozen else None)"

datatype run_state = RunPending | RunRunning | RunCompleted | RunFailed

fun run_state_as_str :: "run_state \<Rightarrow> string" where
  "run_state_as_str RunPending = ''pending''"
| "run_state_as_str RunRunning = ''running''"
| "run_state_as_str RunCompleted = ''completed''"
| "run_state_as_str RunFailed = ''failed''"

definition run_state_from_str :: "string \<Rightarrow> run_state option" where
  "run_state_from_str s =
     (if s = ''pending'' then Some RunPending
      else if s = ''running'' then Some RunRunning
      else if s = ''completed'' then Some RunCompleted
      else if s = ''failed'' then Some RunFailed
      else None)"

record ('s, 'j, 'b) routine_rec =
  rt_id :: string
  rt_namespace :: string
  rt_name :: string
  rt_template :: 'j
  rt_parameters :: 'j
  rt_state :: 's
  rt_created_by :: string
  rt_created_at :: int
  rt_frozen_at :: "int option"
  rt_signature :: 'b
  rt_signer_pubkey :: 'b
  rt_metadata :: 'j

type_synonym 'j routine = "(routine_state, 'j, bytes) routine_rec"
type_synonym routine_row = "(string, string, bytes option) routine_rec"

record ('s, 'j) run_rec =
  run_id :: string
  run_routine_id :: string
  run_namespace :: string
  run_arguments :: 'j
  run_state :: 's
  run_created_action_ids :: 'j
  run_started_at :: int
  run_finished_at :: "int option"
  run_error :: "string option"
  run_metadata :: 'j

type_synonym 'j routine_run = "(run_state, 'j) run_rec"
type_synonym run_row = "(string, string) run_rec"

record routine_db =
  routines :: "routine_row list"
  routine_runs :: "run_row list"

section \<open>Freeze attestation\<close>

definition json_sha256 :: "crypto \<Rightarrow> 'j codec \<Rightarrow> 'j \<Rightarrow> bytes" where
  "json_sha256 cr c v = sha256 cr (json_to_string c v)"

definition freeze_signable :: "'j routine \<Rightarrow> bytes \<Rightarrow> bytes \<Rightarrow> signable_freeze" where
  "freeze_signable r template_hash parameters_hash =
     \<lparr>sf_routine_id = rt_id r, sf_namespace = rt_namespace r, sf_name = rt_name r,
      sf_template_sha256 = template_hash, sf_parameters_sha256 = parameters_hash,
      sf_frozen_at = (case rt_frozen_at r of Some t \<Rightarrow> t | None \<Rightarrow> 0)\<rparr>"

definition sign_freeze_into ::
  "crypto \<Rightarrow> 'j codec \<Rightarrow> agent_keypair \<Rightarrow> 'j routine \<Rightarrow> sign_error + 'j routine" where
  "sign_freeze_into cr c kp r =
     (case sign_routine_freeze cr kp (freeze_signable r
         (json_sha256 cr c (rt_template r)) (json_sha256 cr c (rt_parameters r))) of
        Inl e \<Rightarrow> Inl e
      | Inr sig \<Rightarrow> Inr (r\<lparr>rt_signature := sig, rt_signer_pubkey := kp_public kp\<rparr>))"

definition routine_verify :: "crypto \<Rightarrow> 'j codec \<Rightarrow> 'j routine \<Rightarrow> bool" where
  "routine_verify cr c r =
     (if rt_signature r = [] \<or> rt_signer_pubkey r = [] then False
      else verify_routine_freeze cr (freeze_signable r
             (json_sha256 cr c (rt_template r)) (json_sha256 cr c (rt_parameters r)))
             (rt_signature r) (rt_signer_pubkey r))"

section \<open>The tables\<close>

definition row_to_routine :: "'j codec \<Rightarrow> routine_row \<Rightarrow> 'j routine" where
  "row_to_routine c r =
     \<lparr>rt_id = rt_id r, rt_namespace = rt_namespace r, rt_name = rt_name r,
      rt_template = json_column c (rt_template r),
      rt_parameters = json_column c (rt_parameters r),
      rt_state = (case routine_state_from_str (rt_state r) of Some s \<Rightarrow> s | None \<Rightarrow> Draft),
      rt_created_by = rt_created_by r, rt_created_at = rt_created_at r,
      rt_frozen_at = rt_frozen_at r,
      rt_signature = (case rt_signature r of Some b \<Rightarrow> b | None \<Rightarrow> []),
      rt_signer_pubkey = (case rt_signer_pubkey r of Some b \<Rightarrow> b | None \<Rightarrow> []),
      rt_metadata = json_column c (rt_metadata r)\<rparr>"

definition routine_to_row :: "'j codec \<Rightarrow> 'j routine \<Rightarrow> routine_row" where
  "routine_to_row c r =
     \<lparr>rt_id = rt_id r, rt_namespace = rt_namespace r, rt_name = rt_name r,
      rt_template = json_to_string c (rt_template r),
      rt_parameters = json_to_string c (rt_parameters r),
      rt_state = routine_state_as_str (rt_state r),
      rt_created_by = rt_created_by r, rt_created_at = rt_created_at r,
      rt_frozen_at = rt_frozen_at r,
      rt_signature = Some (rt_signature r), rt_signer_pubkey = Some (rt_signer_pubkey r),
      rt_metadata = json_to_string c (rt_metadata r)\<rparr>"

definition routine_insert ::
  "'j codec \<Rightarrow> routine_db \<Rightarrow> 'j routine \<Rightarrow> (routine_db \<times> string) sql_result" where
  "routine_insert c db r =
     (case insert_row rt_id (routine_to_row c r) (routines db) of
        Inl e \<Rightarrow> Inl e
      | Inr t \<Rightarrow> Inr (db\<lparr>routines := t\<rparr>, rt_id r))"

definition routine_get :: "'j codec \<Rightarrow> routine_db \<Rightarrow> string \<Rightarrow> 'j routine option" where
  "routine_get c db i = map_option (row_to_routine c) (select_by rt_id i (routines db))"

definition routine_list ::
  "'j codec \<Rightarrow> routine_db \<Rightarrow> string \<Rightarrow> routine_state option \<Rightarrow> nat \<Rightarrow> 'j routine list" where
  "routine_list c db ns st lim =
     map (row_to_routine c)
       (order_limit (\<lambda>r. - rt_created_at r) lim
         (filter (\<lambda>r. rt_namespace r = ns \<and>
             (case st of None \<Rightarrow> True | Some s \<Rightarrow> rt_state r = routine_state_as_str s))
           (routines db)))"

definition routine_freeze ::
  "crypto \<Rightarrow> 'j codec \<Rightarrow> routine_db \<Rightarrow> string \<Rightarrow> int \<Rightarrow> agent_keypair option
    \<Rightarrow> routine_db \<times> 'j routine option sql_result" where
  "routine_freeze cr c db i at kp =
     (let db1 = db\<lparr>routines := update_where
            (\<lambda>r. rt_id r = i \<and> rt_state r = routine_state_as_str Draft)
            (\<lambda>r. r\<lparr>rt_state := routine_state_as_str Frozen, rt_frozen_at := Some at\<rparr>)
            (routines db)\<rparr>
      in case routine_get c db1 i of
           None \<Rightarrow> (db1, Inr None)
         | Some rt \<Rightarrow>
             (case kp of
                Some k \<Rightarrow>
                  if can_sign k then
                    (case sign_freeze_into cr c k rt of
                       Inl e \<Rightarrow> (db1, Inl ToSqlConversionFailure)
                     | Inr rt' \<Rightarrow>
                         (db1\<lparr>routines := update_where (\<lambda>r. rt_id r = i)
                            (\<lambda>r. r\<lparr>rt_signature := Some (rt_signature rt'),
                                  rt_signer_pubkey := Some (rt_signer_pubkey rt')\<rparr>)
                            (routines db1)\<rparr>,
                          Inr (Some rt')))
                  else (db1, Inr (Some rt))
              | None \<Rightarrow> (db1, Inr (Some rt))))"

definition row_to_routine_run :: "'j codec \<Rightarrow> run_row \<Rightarrow> 'j routine_run" where
  "row_to_routine_run c r =
     \<lparr>run_id = run_id r, run_routine_id = run_routine_id r, run_namespace = run_namespace r,
      run_arguments = json_column c (run_arguments r),
      run_state = (case run_state_from_str (run_state r) of Some s \<Rightarrow> s | None \<Rightarrow> RunPending),
      run_created_action_ids = json_column c (run_created_action_ids r),
      run_started_at = run_started_at r, run_finished_at = run_finished_at r,
      run_error = run_error r, run_metadata = json_column c (run_metadata r)\<rparr>"

definition run_to_row :: "'j codec \<Rightarrow> 'j routine_run \<Rightarrow> run_row" where
  "run_to_row c r =
     \<lparr>run_id = run_id r, run_routine_id = run_routine_id r, run_namespace = run_namespace r,
      run_arguments = json_to_string c (run_arguments r),
      run_state = run_state_as_str (run_state r),
      run_created_action_ids = json_to_string c (run_created_action_ids r),
      run_started_at = run_started_at r, run_finished_at = run_finished_at r,
      run_error = run_error r, run_metadata = json_to_string c (run_metadata r)\<rparr>"

definition run_insert ::
  "'j codec \<Rightarrow> routine_db \<Rightarrow> 'j routine_run \<Rightarrow> (routine_db \<times> string) sql_result" where
  "run_insert c db r =
     (case insert_row run_id (run_to_row c r) (routine_runs db) of
        Inl e \<Rightarrow> Inl e
      | Inr t \<Rightarrow>
          if select_by rt_id (run_routine_id r) (routines db) = None then Inl ForeignKeyViolation
          else Inr (db\<lparr>routine_runs := t\<rparr>, run_id r))"

definition run_get :: "'j codec \<Rightarrow> routine_db \<Rightarrow> string \<Rightarrow> 'j routine_run option" where
  "run_get c db i = map_option (row_to_routine_run c) (select_by run_id i (routine_runs db))"

definition runs_for :: "'j codec \<Rightarrow> routine_db \<Rightarrow> string \<Rightarrow> nat \<Rightarrow> 'j routine_run list" where
  "runs_for c db i lim =
     map (row_to_routine_run c)
       (order_limit (\<lambda>r. - run_started_at r) lim
         (filter (\<lambda>r. run_routine_id r = i) (routine_runs db)))"

definition coalesce :: "'a option \<Rightarrow> 'a option \<Rightarrow> 'a option" where
  "coalesce a b = (case a of Some x \<Rightarrow> Some x | None \<Rightarrow> b)"

definition run_set_state ::
  "'j codec \<Rightarrow> routine_db \<Rightarrow> string \<Rightarrow> run_state \<Rightarrow> int option \<Rightarrow> 'j option \<Rightarrow> string option
    \<Rightarrow> routine_db \<times> 'j routine_run option" where
  "run_set_state c db i st fin ids err =
     (let n = count_where (\<lambda>r. run_id r = i) (routine_runs db);
          db' = db\<lparr>routine_runs := update_where (\<lambda>r. run_id r = i)
            (\<lambda>r. r\<lparr>run_state := run_state_as_str st,
                  run_finished_at := coalesce fin (run_finished_at r),
                  run_created_action_ids :=
                    (case map_option (json_to_string c) ids of
                       Some t \<Rightarrow> t | None \<Rightarrow> run_created_action_ids r),
                  run_error := coalesce err (run_error r)\<rparr>) (routine_runs db)\<rparr>
      in if n = 0 then (db', None) else (db', run_get c db' i))"

section \<open>The repository contracts\<close>

lemma routine_state_roundtrip [simp]: "routine_state_from_str (routine_state_as_str s) = Some s"
  by (cases s) (simp_all add: routine_state_from_str_def)

lemma run_state_roundtrip [simp]: "run_state_from_str (run_state_as_str s) = Some s"
  by (cases s) (simp_all add: run_state_from_str_def)

lemma row_routine_roundtrip: "codec_ok c \<Longrightarrow> row_to_routine c (routine_to_row c r) = r"
  by (simp add: row_to_routine_def routine_to_row_def json_column_roundtrip)

lemma row_run_roundtrip: "codec_ok c \<Longrightarrow> row_to_routine_run c (run_to_row c r) = r"
  by (simp add: row_to_routine_run_def run_to_row_def json_column_roundtrip)

lemma routine_ids [simp]:
  "rt_id (routine_to_row c r) = rt_id r" "rt_id (row_to_routine c q) = rt_id q"
  "run_id (run_to_row c x) = run_id x" "run_id (row_to_routine_run c y) = run_id y"
  "run_routine_id (run_to_row c x) = run_routine_id x"
  by (simp_all add: routine_to_row_def row_to_routine_def run_to_row_def row_to_routine_run_def)

definition routines_inv :: "routine_db \<Rightarrow> bool" where
  "routines_inv db \<longleftrightarrow> keys_unique rt_id (routines db) \<and> keys_unique run_id (routine_runs db) \<and>
     (\<forall>r \<in> set (routine_runs db). run_routine_id r \<in> rt_id ` set (routines db)) \<and>
     (\<forall>r \<in> set (routines db). routine_state_from_str (rt_state r) \<noteq> None)"

lemma routine_insert_Inr:
  "routine_insert c db r = Inr (db', k) \<longleftrightarrow>
     k = rt_id r \<and> (\<exists>t. insert_row rt_id (routine_to_row c r) (routines db) = Inr t \<and>
       db' = db\<lparr>routines := t\<rparr>)"
  by (auto simp: routine_insert_def split: sum.splits)

lemma run_insert_Inr:
  "run_insert c db r = Inr (db', k) \<longleftrightarrow>
     k = run_id r \<and> run_routine_id r \<in> rt_id ` set (routines db) \<and>
     (\<exists>t. insert_row run_id (run_to_row c r) (routine_runs db) = Inr t \<and>
       db' = db\<lparr>routine_runs := t\<rparr>)"
  by (auto simp: run_insert_def select_by_None_iff split: sum.splits)

interpretation routine_store: keyed_store
  "routine_get c" "routine_insert c" rt_id "\<lambda>r. codec_ok c" routines_inv
  for c :: "'j codec"
proof
  fix db :: routine_db and r :: "'j routine" and db' k j
  show "routine_insert c db r = Inl PrimaryKeyViolation \<longleftrightarrow> routine_get c db (rt_id r) \<noteq> None"
    by (simp add: routine_insert_def routine_get_def insert_row_def)
  show "routine_insert c db r = Inr (db', k) \<Longrightarrow> k = rt_id r"
    by (simp add: routine_insert_Inr)
  show "routine_insert c db r = Inr (db', k) \<Longrightarrow> codec_ok c \<Longrightarrow>
      routine_get c db' j = (if j = rt_id r then Some r else routine_get c db j)"
    by (auto simp: routine_insert_Inr routine_get_def select_by_insert row_routine_roundtrip)
  show "routines_inv db \<Longrightarrow> routine_insert c db r = Inr (db', k) \<Longrightarrow> routines_inv db'"
    using keys_unique_insert [of rt_id "routines db" "routine_to_row c r"]
    by (auto simp: routine_insert_Inr routines_inv_def insert_row_Inr) (simp add: routine_to_row_def)
qed

interpretation run_store: keyed_store
  "run_get c" "run_insert c" run_id "\<lambda>r. codec_ok c" routines_inv
  for c :: "'j codec"
proof
  fix db :: routine_db and r :: "'j routine_run" and db' k j
  show "run_insert c db r = Inl PrimaryKeyViolation \<longleftrightarrow> run_get c db (run_id r) \<noteq> None"
    by (simp add: run_insert_def run_get_def insert_row_def)
  show "run_insert c db r = Inr (db', k) \<Longrightarrow> k = run_id r"
    by (simp add: run_insert_Inr)
  show "run_insert c db r = Inr (db', k) \<Longrightarrow> codec_ok c \<Longrightarrow>
      run_get c db' j = (if j = run_id r then Some r else run_get c db j)"
    by (auto simp: run_insert_Inr run_get_def select_by_insert row_run_roundtrip)
  show "routines_inv db \<Longrightarrow> run_insert c db r = Inr (db', k) \<Longrightarrow> routines_inv db'"
    using keys_unique_insert [of run_id "routine_runs db" "run_to_row c r"]
    by (auto simp: run_insert_Inr routines_inv_def insert_row_Inr)
qed

section \<open>Histories of the two tables\<close>

inductive routine_step :: "crypto \<Rightarrow> 'j codec \<Rightarrow> routine_db \<Rightarrow> routine_db \<Rightarrow> bool"
  for cr :: crypto and c :: "'j codec" where
  Insert: "routine_insert c db r = Inr (db', k) \<Longrightarrow> routine_step cr c db db'"
| Freeze: "routine_step cr c db (fst (routine_freeze cr c db i at kp))"
| RunInsert: "run_insert c db x = Inr (db', k) \<Longrightarrow> routine_step cr c db db'"
| RunSetState: "routine_step cr c db (fst (run_set_state c db i st fin ids err))"

definition routine_steps :: "crypto \<Rightarrow> 'j codec \<Rightarrow> routine_db \<Rightarrow> routine_db \<Rightarrow> bool" where
  "routine_steps cr c = rtranclp (routine_step cr c)"

definition empty_routine_db :: routine_db where
  "empty_routine_db = \<lparr>routines = [], routine_runs = []\<rparr>"

abbreviation frozen_row where
  "frozen_row i at r \<equiv>
     (if rt_id r = i \<and> rt_state r = ''draft''
      then r\<lparr>rt_state := ''frozen'', rt_frozen_at := Some at\<rparr> else r)"

text \<open>The rows a freeze leaves: at most the state, the time and the attestation of one row change.\<close>

lemma freeze_update:
  "update_where (\<lambda>r. rt_id r = i \<and> rt_state r = ''draft'')
     (\<lambda>r. r\<lparr>rt_state := ''frozen'', rt_frozen_at := Some at\<rparr>) t = map (frozen_row i at) t"
  by (simp add: update_where_def)

definition freeze_step :: "routine_db \<Rightarrow> string \<Rightarrow> int \<Rightarrow> routine_db" where
  "freeze_step db i at = db\<lparr>routines := map (frozen_row i at) (routines db)\<rparr>"

lemma freeze_unsigned:
  assumes "kp = None \<or> (\<exists>k. kp = Some k \<and> \<not> can_sign k) \<or> routine_get c (freeze_step db i at) i = None"
  shows "routine_freeze cr c db i at kp =
    (freeze_step db i at, Inr (routine_get c (freeze_step db i at) i))"
  using assms by (auto simp: routine_freeze_def Let_def freeze_update freeze_step_def split: option.split)

lemma freeze_signed:
  assumes "routine_get c (freeze_step db i at) i = Some rt" and "can_sign k"
  obtains sig where
    "sign_routine_freeze cr k (freeze_signable rt (json_sha256 cr c (rt_template rt))
       (json_sha256 cr c (rt_parameters rt))) = Inr sig"
    and "routine_freeze cr c db i at (Some k) =
      ((freeze_step db i at)\<lparr>routines := update_where (\<lambda>r. rt_id r = i)
          (\<lambda>r. r\<lparr>rt_signature := Some sig, rt_signer_pubkey := Some (kp_public k)\<rparr>)
          (routines (freeze_step db i at))\<rparr>,
       Inr (Some (rt\<lparr>rt_signature := sig, rt_signer_pubkey := kp_public k\<rparr>)))"
proof -
  let ?s = "freeze_signable rt (json_sha256 cr c (rt_template rt)) (json_sha256 cr c (rt_parameters rt))"
  obtain sig where sig: "sign_routine_freeze cr k ?s = Inr sig"
    using assms(2) sign_bytes_can_sign unfolding sign_routine_freeze_def by metis
  then have "sign_freeze_into cr c k rt =
      Inr (rt\<lparr>rt_signature := sig, rt_signer_pubkey := kp_public k\<rparr>)"
    by (simp add: sign_freeze_into_def)
  with assms sig show thesis
    by (intro that [of sig]) (simp_all add: routine_freeze_def Let_def freeze_update freeze_step_def)
qed

lemma freeze_cases:
  obtains (plain) "fst (routine_freeze cr c db i at kp) = freeze_step db i at"
  | (signed) sig key where "fst (routine_freeze cr c db i at kp) =
      (freeze_step db i at)\<lparr>routines := update_where (\<lambda>r. rt_id r = i)
        (\<lambda>r. r\<lparr>rt_signature := Some sig, rt_signer_pubkey := Some key\<rparr>)
        (routines (freeze_step db i at))\<rparr>"
proof -
  consider "kp = None \<or> (\<exists>k. kp = Some k \<and> \<not> can_sign k) \<or> routine_get c (freeze_step db i at) i = None"
    | rt k where "routine_get c (freeze_step db i at) i = Some rt" "kp = Some k" "can_sign k"
    by fastforce
  then show thesis
  proof cases
    case 1
    then show ?thesis using plain by (simp add: freeze_unsigned)
  next
    case 2
    then show ?thesis using signed freeze_signed [of c db i at rt k cr] by (metis fst_conv)
  qed
qed

lemma freeze_runs [simp]: "routine_runs (fst (routine_freeze cr c db i at kp)) = routine_runs db"
  by (rule freeze_cases [of cr c db i at kp]) (simp_all add: freeze_step_def)

lemma select_freeze_step:
  "select_by rt_id j (routines (freeze_step db i at)) =
     map_option (frozen_row i at) (select_by rt_id j (routines db))"
  using select_by_update [of rt_id "\<lambda>r. r\<lparr>rt_state := ''frozen'', rt_frozen_at := Some at\<rparr>" j
    "\<lambda>r. rt_id r = i \<and> rt_state r = ''draft''" "routines db"]
  by (simp add: freeze_step_def freeze_update)

lemma freeze_keys: "map rt_id (routines (fst (routine_freeze cr c db i at kp))) = map rt_id (routines db)"
  by (rule freeze_cases [of cr c db i at kp]) (simp_all add: freeze_step_def update_where_def)

lemma freeze_states:
  assumes "\<forall>r \<in> set (routines db). routine_state_from_str (rt_state r) \<noteq> None"
  shows "\<forall>r \<in> set (routines (fst (routine_freeze cr c db i at kp))).
    routine_state_from_str (rt_state r) \<noteq> None"
  using assms routine_state_roundtrip [of Frozen]
  by (cases rule: freeze_cases [of cr c db i at kp]) (auto simp: freeze_step_def update_where_def)

lemma run_set_state_db:
  "fst (run_set_state c db i st fin ids err) = db\<lparr>routine_runs := update_where (\<lambda>r. run_id r = i)
     (\<lambda>r. r\<lparr>run_state := run_state_as_str st, run_finished_at := coalesce fin (run_finished_at r),
           run_created_action_ids := (case map_option (json_to_string c) ids of
             Some t \<Rightarrow> t | None \<Rightarrow> run_created_action_ids r),
           run_error := coalesce err (run_error r)\<rparr>) (routine_runs db)\<rparr>"
  by (simp add: run_set_state_def Let_def)

lemma routine_step_inv:
  assumes "routine_step cr c db db'" and "routines_inv db"
  shows "routines_inv db'"
  using assms(1)
proof cases
  case (Insert r k)
  then show ?thesis using routine_store.inv_put assms(2) by blast
next
  case (Freeze i at kp)
  have "rt_id ` set (routines db') = rt_id ` set (routines db)"
    using freeze_keys [of cr c db i at kp] Freeze by (metis list.set_map)
  then show ?thesis
    using assms(2) freeze_states [of db cr c i at kp] freeze_keys [of cr c db i at kp]
    by (simp add: routines_inv_def keys_unique_def Freeze)
next
  case (RunInsert x k)
  then show ?thesis using run_store.inv_put assms(2) by blast
next
  case (RunSetState i st fin ids err)
  then show ?thesis
    using assms(2) by (auto simp: routines_inv_def run_set_state_db keys_unique_update)
      (auto simp: update_where_def split: if_splits)
qed

lemma routine_step_frozen:
  assumes "routine_step cr c db db'" and "select_by rt_id i (routines db) = Some r"
    and "rt_state r = ''frozen''"
  shows "\<exists>sig key. select_by rt_id i (routines db') =
    Some (r\<lparr>rt_signature := sig, rt_signer_pubkey := key\<rparr>)"
proof -
  have same: "r = r\<lparr>rt_signature := rt_signature r, rt_signer_pubkey := rt_signer_pubkey r\<rparr>"
    by simp
  show ?thesis
    using assms(1)
  proof cases
    case (Insert q k)
    then have "select_by rt_id i (routines db') = Some r"
      using assms(2) by (auto simp: routine_insert_Inr insert_row_Inr select_by_append)
    then show ?thesis using same by metis
  next
    case (Freeze j at kp)
    have own: "select_by rt_id i (routines (freeze_step db j at)) = Some r"
      using assms(2,3) by (simp add: select_freeze_step)
    show ?thesis
    proof (cases rule: freeze_cases [of cr c db j at kp])
      case plain
      then show ?thesis using own same Freeze by metis
    next
      case (signed sig key)
      show ?thesis
      proof (cases "rt_id r = j")
        case True
        then show ?thesis using own by (auto simp: Freeze signed select_by_update)
      next
        case False
        then have "select_by rt_id i (routines db') = Some r"
          using own by (simp add: Freeze signed select_by_update)
        then show ?thesis using same by metis
      qed
    qed
  next
    case (RunInsert x k)
    then have "routines db' = routines db" by (auto simp: run_insert_Inr)
    then show ?thesis using assms(2) same by metis
  next
    case (RunSetState j st fin ids err)
    then have "routines db' = routines db" by (simp add: run_set_state_db)
    then show ?thesis using assms(2) same by metis
  qed
qed

lemma routine_steps_frozen:
  assumes "routine_steps cr c db db'" and "select_by rt_id i (routines db) = Some r"
    and "rt_state r = ''frozen''"
  shows "\<exists>sig key. select_by rt_id i (routines db') =
    Some (r\<lparr>rt_signature := sig, rt_signer_pubkey := key\<rparr>)"
  using assms(1) unfolding routine_steps_def
proof (induction rule: rtranclp_induct)
  case base
  have "r = r\<lparr>rt_signature := rt_signature r, rt_signer_pubkey := rt_signer_pubkey r\<rparr>" by simp
  then show ?case using assms(2) by metis
next
  case (step d d')
  then obtain sig key where "select_by rt_id i (routines d) =
      Some (r\<lparr>rt_signature := sig, rt_signer_pubkey := key\<rparr>)" by blast
  from routine_step_frozen [OF step.hyps(2) this] assms(3) show ?case by auto
qed

lemma frozen_text: "rt_state (row_to_routine c r) = Frozen \<longleftrightarrow> rt_state r = ''frozen''"
  by (auto simp: row_to_routine_def routine_state_from_str_def split: if_splits)

section \<open>Properties\<close>

definition demo_routine :: "string routine" where
  "demo_routine = \<lparr>rt_id = ''r1'', rt_namespace = ''ns'', rt_name = ''deploy'',
     rt_template = ''{T}'', rt_parameters = ''{P}'', rt_state = Draft, rt_created_by = ''alice'',
     rt_created_at = 1, rt_frozen_at = None, rt_signature = [], rt_signer_pubkey = [],
     rt_metadata = ''{}''\<rparr>"

definition demo_routine_db :: "routine_db" where
  "demo_routine_db = \<lparr>routines = [routine_to_row text_codec demo_routine], routine_runs = []\<rparr>"

lemma demo_routine_get: "routine_get text_codec demo_routine_db ''r1'' = Some demo_routine"
  by (simp add: routine_get_def demo_routine_db_def select_by_def row_routine_roundtrip text_codec_ok)
    (simp add: demo_routine_def)

lemma demo_routine_row:
  "select_by rt_id ''r1'' (routines demo_routine_db) = Some (routine_to_row text_codec demo_routine)"
  by (simp add: demo_routine_db_def select_by_def) (simp add: demo_routine_def)

lemma demo_routine_inv: "routines_inv demo_routine_db"
  by (simp add: routines_inv_def demo_routine_db_def keys_unique_def routine_to_row_def)

text \<open>The content of a frozen routine never changes: whatever sequence of inserts, freezes
  (with any key or none) and run updates follows, its row keeps every field except the two
  attestation columns; in particular a second freeze keeps the original freeze time.\<close>

theorem frozen_routine_immutable:
  assumes "routine_steps cr c db db'" and "routine_get c db i = Some r" and "rt_state r = Frozen"
  shows "\<exists>sig key. routine_get c db' i = Some (r\<lparr>rt_signature := sig, rt_signer_pubkey := key\<rparr>)"
proof -
  obtain q where q: "select_by rt_id i (routines db) = Some q" "r = row_to_routine c q"
    using assms(2) by (auto simp: routine_get_def)
  then obtain sig key where "select_by rt_id i (routines db') =
      Some (q\<lparr>rt_signature := sig, rt_signer_pubkey := key\<rparr>)"
    using routine_steps_frozen [OF assms(1)] assms(3) frozen_text by blast
  then show ?thesis
    by (simp add: routine_get_def q(2)) (simp add: row_to_routine_def)
qed

theorem frozen_routine_immutable_witness:
  "\<exists>sig key. routine_get text_codec
     (fst (routine_freeze demo_crypto text_codec
        (fst (routine_freeze demo_crypto text_codec demo_routine_db ''r1'' 5 None)) ''r1'' 9 (Some demo_keypair))) ''r1''
   = Some (demo_routine\<lparr>rt_state := Frozen, rt_frozen_at := Some 5, rt_signature := sig,
       rt_signer_pubkey := key\<rparr>)"
proof -
  let ?db = "fst (routine_freeze demo_crypto text_codec demo_routine_db ''r1'' 5 None)"
  have "routine_get text_codec ?db ''r1'' = Some (demo_routine\<lparr>rt_state := Frozen, rt_frozen_at := Some 5\<rparr>)"
    by (simp add: freeze_unsigned routine_get_def select_freeze_step demo_routine_row
        del: map_option_eq_Some)
      (simp add: demo_routine_def routine_to_row_def row_to_routine_def text_codec_def
        json_column_def routine_state_from_str_def)
  moreover have "routine_steps demo_crypto text_codec ?db
      (fst (routine_freeze demo_crypto text_codec ?db ''r1'' 9 (Some demo_keypair)))"
    unfolding routine_steps_def by (blast intro: routine_step.Freeze)
  ultimately show ?thesis
    using frozen_routine_immutable by fastforce
qed

text \<open>Freezing an existing routine with a working signing key leaves it frozen with an
  attestation that verifies over the stored identity, template and parameters; the freeze time
  is the given one exactly when the routine was still a draft, and every other field is
  unchanged. The row that is returned is the stored one.\<close>

theorem freeze_signed_verifies:
  assumes "honest_keypair cr k" and "can_sign k" and "routines_inv db"
    and "routine_get c db i = Some r"
  shows "\<exists>row. snd (routine_freeze cr c db i at (Some k)) = Inr (Some row) \<and>
    routine_get c (fst (routine_freeze cr c db i at (Some k))) i = Some row \<and>
    routine_verify cr c row \<and>
    row = r\<lparr>rt_state := Frozen, rt_frozen_at := (if rt_state r = Draft then Some at else rt_frozen_at r),
      rt_signature := rt_signature row, rt_signer_pubkey := kp_public k\<rparr>"
proof -
  obtain q where q: "select_by rt_id i (routines db) = Some q" "r = row_to_routine c q" "rt_id q = i"
    "q \<in> set (routines db)"
    using assms(4) by (auto simp: routine_get_def dest: select_by_SomeD)
  let ?rt = "row_to_routine c (frozen_row i at q)"
  have get1: "routine_get c (freeze_step db i at) i = Some ?rt"
    using q(1) by (simp add: routine_get_def select_freeze_step)
  obtain sig where sig: "sign_routine_freeze cr k (freeze_signable ?rt (json_sha256 cr c (rt_template ?rt))
       (json_sha256 cr c (rt_parameters ?rt))) = Inr sig"
    and eq: "routine_freeze cr c db i at (Some k) =
      ((freeze_step db i at)\<lparr>routines := update_where (\<lambda>r. rt_id r = i)
          (\<lambda>r. r\<lparr>rt_signature := Some sig, rt_signer_pubkey := Some (kp_public k)\<rparr>)
          (routines (freeze_step db i at))\<rparr>,
       Inr (Some (?rt\<lparr>rt_signature := sig, rt_signer_pubkey := kp_public k\<rparr>)))"
    using freeze_signed [OF get1 assms(2)] .
  let ?row = "?rt\<lparr>rt_signature := sig, rt_signer_pubkey := kp_public k\<rparr>"
  have "length sig = 64" "length (kp_public k) = 32"
    "verify_bytes cr (canonical_cbor_routine_freeze cr (freeze_signable ?rt
       (json_sha256 cr c (rt_template ?rt)) (json_sha256 cr c (rt_parameters ?rt)))) sig (kp_public k)"
    using sign_verify_bytes [OF assms(1)] sig by (auto simp: sign_routine_freeze_def)
  moreover have "freeze_signable ?row h h' = freeze_signable ?rt h h'" for h h'
    by (simp add: freeze_signable_def)
  ultimately have "routine_verify cr c ?row"
    by (auto simp: routine_verify_def verify_routine_freeze_def)
  moreover have "routine_get c (fst (routine_freeze cr c db i at (Some k))) i = Some ?row"
    using q(1,3) by (simp add: eq routine_get_def select_by_update select_freeze_step)
      (simp add: row_to_routine_def)
  moreover have "rt_state q = ''draft'' \<or> rt_state q = ''frozen''"
    using assms(3) q(4) by (auto simp: routines_inv_def routine_state_from_str_def split: if_splits)
  then have "?row = r\<lparr>rt_state := Frozen, rt_frozen_at := (if rt_state r = Draft then Some at else rt_frozen_at r),
      rt_signature := rt_signature ?row, rt_signer_pubkey := kp_public k\<rparr>"
    using q(2,3) by (auto simp: row_to_routine_def routine_state_from_str_def)
  ultimately show ?thesis by (simp add: eq)
qed

theorem freeze_signed_verifies_witness:
  "\<exists>row. snd (routine_freeze demo_crypto text_codec demo_routine_db ''r1'' 5 (Some demo_keypair)) =
       Inr (Some row) \<and>
     routine_verify demo_crypto text_codec row \<and> rt_state row = Frozen \<and> rt_frozen_at row = Some 5"
proof -
  have "can_sign demo_keypair" by (simp add: can_sign_def demo_keypair_def)
  moreover have "rt_state demo_routine = Draft" by (simp add: demo_routine_def)
  ultimately obtain row where
    "snd (routine_freeze demo_crypto text_codec demo_routine_db ''r1'' 5 (Some demo_keypair)) = Inr (Some row)"
    "routine_verify demo_crypto text_codec row"
    "row = demo_routine\<lparr>rt_state := Frozen, rt_frozen_at := Some 5,
      rt_signature := rt_signature row, rt_signer_pubkey := kp_public demo_keypair\<rparr>"
    using freeze_signed_verifies [OF demo_keypair_honest _ demo_routine_inv demo_routine_get, of 5]
    by auto
  moreover from arg_cong [OF this(3), of rt_state] arg_cong [OF this(3), of rt_frozen_at]
  have "rt_state row = Frozen" "rt_frozen_at row = Some 5" by simp_all
  ultimately show ?thesis by blast
qed

text \<open>In every database reached from the empty one, routine ids and run ids are unique, every
  run belongs to a stored routine and every state column holds a known state.\<close>

theorem routine_reachable_inv:
  assumes "routine_steps cr c empty_routine_db db"
  shows "routines_inv db"
  using assms unfolding routine_steps_def
proof (induction rule: rtranclp_induct)
  case base
  then show ?case by (simp add: routines_inv_def empty_routine_db_def)
next
  case (step d d')
  then show ?case using routine_step_inv by blast
qed

theorem routine_reachable_inv_witness: "routines_inv demo_routine_db"
proof -
  have "routine_insert text_codec empty_routine_db demo_routine = Inr (demo_routine_db, ''r1'')"
    by (simp add: routine_insert_def insert_row_def select_by_def empty_routine_db_def
        demo_routine_db_def) (simp add: demo_routine_def)
  then have "routine_steps demo_crypto text_codec empty_routine_db demo_routine_db"
    unfolding routine_steps_def by (blast intro: routine_step.Insert)
  then show ?thesis by (rule routine_reachable_inv)
qed

text \<open>Advancing a run sets its state and, of the finish time, the materialised action ids and
  the error, exactly those that are given; the other fields and every other run are unchanged.
  For an unknown id nothing is written.\<close>

theorem run_set_state_exact:
  assumes "codec_ok c"
  shows "(case run_get c db i of
     None \<Rightarrow> run_set_state c db i st fin ids err = (db, None)
   | Some r \<Rightarrow>
       (let r' = r\<lparr>run_state := st, run_finished_at := coalesce fin (run_finished_at r),
              run_created_action_ids := (case ids of Some v \<Rightarrow> v | None \<Rightarrow> run_created_action_ids r),
              run_error := coalesce err (run_error r)\<rparr>
        in snd (run_set_state c db i st fin ids err) = Some r' \<and>
           (\<forall>j. run_get c (fst (run_set_state c db i st fin ids err)) j =
             (if j = i then Some r' else run_get c db j))))"
proof (cases "select_by run_id i (routine_runs db)")
  case None
  then have "count_where (\<lambda>r. run_id r = i) (routine_runs db) = 0"
    by (auto simp: count_where_0_iff select_by_None_iff)
  then show ?thesis
    using None by (simp add: run_get_def run_set_state_def update_where_none)
next
  case (Some q)
  then have i: "run_id q = i" and n: "count_where (\<lambda>r. run_id r = i) (routine_runs db) \<noteq> 0"
    by (auto simp: count_where_0_iff dest!: select_by_SomeD)
  let ?db = "fst (run_set_state c db i st fin ids err)"
  let ?r = "row_to_routine_run c q"
  let ?r' = "?r\<lparr>run_state := st, run_finished_at := coalesce fin (run_finished_at ?r),
      run_created_action_ids := (case ids of Some v \<Rightarrow> v | None \<Rightarrow> run_created_action_ids ?r),
      run_error := coalesce err (run_error ?r)\<rparr>"
  have own: "run_get c ?db i = Some ?r'"
    using i Some
    by (simp add: run_get_def run_set_state_db select_by_update del: map_option_eq_Some)
      (simp add: row_to_routine_run_def json_column_roundtrip [OF assms] split: option.split)
  have other: "run_get c ?db j = run_get c db j" if "j \<noteq> i" for j
  proof (cases "select_by run_id j (routine_runs db)")
    case (Some s)
    with that show ?thesis
      by (auto simp: run_get_def run_set_state_db select_by_update dest: select_by_SomeD)
  qed (simp add: run_get_def run_set_state_db select_by_update)
  have "snd (run_set_state c db i st fin ids err) = run_get c ?db i"
    using n by (simp add: run_set_state_def Let_def)
  with own other show ?thesis
    by (simp add: run_get_def [of c db i] Some Let_def)
qed

theorem run_set_state_exact_witness:
  "snd (run_set_state text_codec demo_routine_db ''nope'' RunFailed None None None) = None"
  using run_set_state_exact [OF text_codec_ok, of demo_routine_db "''nope''" RunFailed None None None]
  by (simp add: run_get_def demo_routine_db_def select_by_def)

end
