(* ===== verification/Json.thy ===== *)
theory Json
  imports Prelude
begin

text \<open>
  Ordered maps and JSON values. \<open>bt_insert\<close>, \<open>bt_remove\<close> and \<open>map_of\<close> are the
  operations of Rust's \<^verbatim>\<open>BTreeMap\<close> with string keys: an association list in strictly
  ascending key order (\<open>bt_wf\<close>). \<open>json\<close> is the value type of \<^verbatim>\<open>serde_json\<close>, whose objects
  are such maps; numbers keep their literal text, since the modelled code never computes
  with them. \<open>wf_json\<close> says that every object inside a value is ordered, which the
  library guarantees of every value it builds.
\<close>

section \<open>Ordered maps\<close>

type_synonym 'v btree_map = "(string \<times> 'v) list"

definition bt_wf :: "(string \<times> 'v) list \<Rightarrow> bool" where
  "bt_wf m = sorted_wrt (<) (map fst m)"

fun bt_insert :: "string \<Rightarrow> 'v \<Rightarrow> 'v btree_map \<Rightarrow> 'v btree_map" where
  "bt_insert k v [] = [(k, v)]"
| "bt_insert k v ((k', v') # m) =
     (if k < k' then (k, v) # (k', v') # m
      else if k = k' then (k, v) # m
      else (k', v') # bt_insert k v m)"

definition bt_remove :: "string \<Rightarrow> 'v btree_map \<Rightarrow> 'v btree_map" where
  "bt_remove k m = filter (\<lambda>e. fst e \<noteq> k) m"

lemma bt_wf_Nil [simp]: "bt_wf []"
  by (simp add: bt_wf_def)

lemma bt_wf_Cons: "bt_wf ((k, v) # m) \<longleftrightarrow> bt_wf m \<and> (\<forall>k' \<in> fst ` set m. k < k')"
  by (auto simp: bt_wf_def)

lemma bt_wf_distinct: "bt_wf m \<Longrightarrow> distinct (map fst m)"
  by (simp add: bt_wf_def strict_sorted_iff)

lemma keys_bt_insert [simp]: "fst ` set (bt_insert k v m) = insert k (fst ` set m)"
  by (induction k v m rule: bt_insert.induct) auto

lemma bt_wf_insert [simp]: "bt_wf m \<Longrightarrow> bt_wf (bt_insert k v m)"
  by (induction k v m rule: bt_insert.induct) (auto simp: bt_wf_Cons)

lemma map_of_bt_insert [simp]:
  "bt_wf m \<Longrightarrow> map_of (bt_insert k v m) = (map_of m)(k \<mapsto> v)"
proof (induction k v m rule: bt_insert.induct)
  case (2 k v k' v' m)
  then show ?case by (auto simp: bt_wf_Cons fun_eq_iff)
qed simp

lemma bt_wf_remove [simp]: "bt_wf m \<Longrightarrow> bt_wf (bt_remove k m)"
  by (simp add: bt_wf_def bt_remove_def sorted_wrt_filter sorted_wrt_map)

lemma map_of_bt_remove [simp]: "map_of (bt_remove k m) = (map_of m)(k := None)"
  by (induction m) (auto simp: bt_remove_def fun_eq_iff)

lemma bt_values_insert: "snd ` set (bt_insert k v m) \<subseteq> insert v (snd ` set m)"
  by (induction k v m rule: bt_insert.induct) auto

lemma bt_values_remove: "snd ` set (bt_remove k m) \<subseteq> snd ` set m"
  by (auto simp: bt_remove_def)

lemma bt_ext:
  assumes "bt_wf m" and "bt_wf n" and "map_of m = map_of n"
  shows "m = n"
proof -
  have d: "distinct (map fst m)" "distinct (map fst n)"
    using assms(1,2) by (simp_all add: bt_wf_distinct)
  then have "set m = set n"
    using assms(3) map_of_inject_set by blast
  moreover have "sorted (map fst m)" "sorted (map fst n)"
    using assms(1,2) by (simp_all add: bt_wf_def strict_sorted_imp_sorted)
  ultimately show ?thesis
    using d by (intro map_sorted_distinct_set_unique [of fst]) (auto simp: distinct_map)
qed

lemma bt_insert_same: "bt_wf m \<Longrightarrow> map_of m k = Some v \<Longrightarrow> bt_insert k v m = m"
  by (rule bt_ext) (auto simp: fun_eq_iff)

lemma bt_remove_absent: "bt_wf m \<Longrightarrow> map_of m k = None \<Longrightarrow> bt_remove k m = m"
  by (rule bt_ext) (auto simp: fun_eq_iff)

lemma bt_empty_iff: "m = [] \<longleftrightarrow> map_of m = Map.empty"
  by (cases m) auto

section \<open>JSON values\<close>

datatype json =
    JNull | JBool bool | JNum string | JStr string | JArr "json list"
  | JObj "(string \<times> json) list"

fun wf_json :: "json \<Rightarrow> bool" where
  "wf_json (JObj m) = (bt_wf m \<and> (\<forall>e \<in> set m. wf_json (snd e)))"
| "wf_json (JArr xs) = (\<forall>x \<in> set xs. wf_json x)"
| "wf_json v = True"

text \<open>\<^verbatim>\<open>Value::get\<close>, \<^verbatim>\<open>Value::as_str\<close> and \<^verbatim>\<open>Value::is_object\<close>.\<close>

fun json_get :: "string \<Rightarrow> json \<Rightarrow> json option" where
  "json_get k (JObj m) = map_of m k"
| "json_get k v = None"

fun json_as_str :: "json \<Rightarrow> string option" where
  "json_as_str (JStr s) = Some s"
| "json_as_str v = None"

fun json_is_object :: "json \<Rightarrow> bool" where
  "json_is_object (JObj m) = True"
| "json_is_object v = False"

lemma wf_json_get: "wf_json j \<Longrightarrow> json_get k j = Some v \<Longrightarrow> wf_json v"
  by (cases j) (fastforce dest: map_of_SomeD)+

lemma wf_json_insert:
  assumes "wf_json (JObj m)" and "wf_json v"
  shows "wf_json (JObj (bt_insert k v m))"
proof -
  have "snd ` set (bt_insert k v m) \<subseteq> insert v (snd ` set m)" by (rule bt_values_insert)
  then show ?thesis using assms by fastforce
qed

lemma wf_json_remove: "wf_json (JObj m) \<Longrightarrow> wf_json (JObj (bt_remove k m))"
  by (auto simp: bt_remove_def bt_wf_def sorted_wrt_filter sorted_wrt_map)

end
