(* ===== verification/Memory.thy ===== *)
theory Memory
  imports Json Complex_Main
begin

text \<open>
  The memory row of \<^verbatim>\<open>src/models/memory.rs\<close>: its closed vocabularies (kind, lifecycle state,
  confidence source, tier, edit source, confidence tier), the lifecycle transition graph with
  the fail-closed read allow-list, and the record itself.

  A floating-point number is modelled by its value: the finite values as rationals, the two
  infinities and not-a-number, with the comparisons of IEEE 754 (the two zeros, which compare
  equal, are one value). Timestamps are the text the rows hold; the date library that parses
  and prints them is the parameter \<open>chrono\<close>.
\<close>

section \<open>Floating-point values and dates\<close>

datatype f64 = NaN | NegInf | Finite rat | PosInf

fun f64_gt :: "f64 \<Rightarrow> f64 \<Rightarrow> bool" where
  "f64_gt NaN b = False"
| "f64_gt a NaN = False"
| "f64_gt (Finite x) (Finite y) = (x > y)"
| "f64_gt PosInf b = (b \<noteq> PosInf)"
| "f64_gt a NegInf = (a \<noteq> NegInf)"
| "f64_gt a b = False"

definition f64_ge :: "f64 \<Rightarrow> f64 \<Rightarrow> bool" where
  "f64_ge a b = (f64_gt a b \<or> a = b \<and> a \<noteq> NaN)"

record 't chrono =
  parse_rfc3339 :: "string \<Rightarrow> 't option"
  to_rfc3339 :: "'t \<Rightarrow> string"
  with_utc :: "'t \<Rightarrow> 't"
  add_seconds :: "'t \<Rightarrow> int \<Rightarrow> 't"
  instant :: "'t \<Rightarrow> int"

section \<open>Closed vocabularies\<close>

datatype memory_kind =
    Observation | Reflection | Persona | Concept | Entity | Claim
  | Relation | Event | Conversation | Decision | Goal | Plan
  | Step | Told | Instruction | Intervention

fun memory_kind_as_str :: "memory_kind \<Rightarrow> string" where
  "memory_kind_as_str Observation = ''observation''"
| "memory_kind_as_str Reflection = ''reflection''"
| "memory_kind_as_str Persona = ''persona''"
| "memory_kind_as_str Concept = ''concept''"
| "memory_kind_as_str Entity = ''entity''"
| "memory_kind_as_str Claim = ''claim''"
| "memory_kind_as_str Relation = ''relation''"
| "memory_kind_as_str Event = ''event''"
| "memory_kind_as_str Conversation = ''conversation''"
| "memory_kind_as_str Decision = ''decision''"
| "memory_kind_as_str Goal = ''goal''"
| "memory_kind_as_str Plan = ''plan''"
| "memory_kind_as_str Step = ''step''"
| "memory_kind_as_str Told = ''told''"
| "memory_kind_as_str Instruction = ''instruction''"
| "memory_kind_as_str Intervention = ''intervention''"

definition memory_kind_from_str :: "string \<Rightarrow> memory_kind option" where
  "memory_kind_from_str s =
     (if s = ''observation'' then Some Observation
      else if s = ''reflection'' then Some Reflection
      else if s = ''persona'' then Some Persona
      else if s = ''concept'' then Some Concept
      else if s = ''entity'' then Some Entity
      else if s = ''claim'' then Some Claim
      else if s = ''relation'' then Some Relation
      else if s = ''event'' then Some Event
      else if s = ''conversation'' then Some Conversation
      else if s = ''decision'' then Some Decision
      else if s = ''goal'' then Some Goal
      else if s = ''plan'' then Some Plan
      else if s = ''step'' then Some Step
      else if s = ''told'' then Some Told
      else if s = ''instruction'' then Some Instruction
      else if s = ''intervention'' then Some Intervention
      else None)"

definition memory_kind_all :: "memory_kind list" where
  "memory_kind_all =
     [Observation, Reflection, Persona, Concept, Entity, Claim, Relation,
      Event, Conversation, Decision, Goal, Plan, Step, Told,
      Instruction, Intervention]"

datatype lifecycle_state =
    Open | Active | Blocked | Done | Abandoned | Tombstoned
  | Quarantined

fun lifecycle_state_as_str :: "lifecycle_state \<Rightarrow> string" where
  "lifecycle_state_as_str Open = ''open''"
| "lifecycle_state_as_str Active = ''active''"
| "lifecycle_state_as_str Blocked = ''blocked''"
| "lifecycle_state_as_str Done = ''done''"
| "lifecycle_state_as_str Abandoned = ''abandoned''"
| "lifecycle_state_as_str Tombstoned = ''tombstoned''"
| "lifecycle_state_as_str Quarantined = ''quarantined''"

definition lifecycle_state_from_str :: "string \<Rightarrow> lifecycle_state option" where
  "lifecycle_state_from_str s =
     (if s = ''open'' then Some Open
      else if s = ''active'' then Some Active
      else if s = ''blocked'' then Some Blocked
      else if s = ''done'' then Some Done
      else if s = ''abandoned'' then Some Abandoned
      else if s = ''tombstoned'' then Some Tombstoned
      else if s = ''quarantined'' then Some Quarantined
      else None)"

definition lifecycle_state_all :: "lifecycle_state list" where
  "lifecycle_state_all =
     [Open, Active, Blocked, Done, Abandoned, Tombstoned, Quarantined]"

datatype confidence_source =
    CallerProvided | AutoDerived | Calibrated | Decayed | CuratorDerived | CsDefault

fun confidence_source_as_str :: "confidence_source \<Rightarrow> string" where
  "confidence_source_as_str CallerProvided = ''caller_provided''"
| "confidence_source_as_str AutoDerived = ''auto_derived''"
| "confidence_source_as_str Calibrated = ''calibrated''"
| "confidence_source_as_str Decayed = ''decayed''"
| "confidence_source_as_str CuratorDerived = ''curator_derived''"
| "confidence_source_as_str CsDefault = ''default''"

definition confidence_source_from_str :: "string \<Rightarrow> confidence_source option" where
  "confidence_source_from_str s =
     (if s = ''caller_provided'' then Some CallerProvided
      else if s = ''auto_derived'' then Some AutoDerived
      else if s = ''calibrated'' then Some Calibrated
      else if s = ''decayed'' then Some Decayed
      else if s = ''curator_derived'' then Some CuratorDerived
      else if s = ''default'' then Some CsDefault
      else None)"

datatype kind_provenance =
    Declared | ChannelDerived | Regex | KindLlm

fun kind_provenance_as_str :: "kind_provenance \<Rightarrow> string" where
  "kind_provenance_as_str Declared = ''declared''"
| "kind_provenance_as_str ChannelDerived = ''channel_derived''"
| "kind_provenance_as_str Regex = ''regex''"
| "kind_provenance_as_str KindLlm = ''llm''"

definition kind_provenance_from_str :: "string \<Rightarrow> kind_provenance option" where
  "kind_provenance_from_str s =
     (if s = ''declared'' then Some Declared
      else if s = ''channel_derived'' then Some ChannelDerived
      else if s = ''regex'' then Some Regex
      else if s = ''llm'' then Some KindLlm
      else None)"

definition kind_provenance_all :: "kind_provenance list" where
  "kind_provenance_all =
     [Declared, ChannelDerived, Regex, KindLlm]"

datatype tier =
    Short | Mid | Long

fun tier_as_str :: "tier \<Rightarrow> string" where
  "tier_as_str Short = ''short''"
| "tier_as_str Mid = ''mid''"
| "tier_as_str Long = ''long''"

definition tier_from_str :: "string \<Rightarrow> tier option" where
  "tier_from_str s =
     (if s = ''short'' then Some Short
      else if s = ''mid'' then Some Mid
      else if s = ''long'' then Some Long
      else None)"

datatype edit_source =
    Human | Llm | Hook | Agent

fun edit_source_as_str :: "edit_source \<Rightarrow> string" where
  "edit_source_as_str Human = ''human''"
| "edit_source_as_str Llm = ''llm''"
| "edit_source_as_str Hook = ''hook''"
| "edit_source_as_str Agent = ''agent''"

definition edit_source_from_str :: "string \<Rightarrow> edit_source option" where
  "edit_source_from_str s =
     (if s = ''human'' then Some Human
      else if s = ''llm'' then Some Llm
      else if s = ''hook'' then Some Hook
      else if s = ''agent'' then Some Agent
      else None)"

definition edit_source_all :: "edit_source list" where
  "edit_source_all =
     [Human, Llm, Hook, Agent]"

datatype confidence_tier =
    Confirmed | Likely | Ambiguous

fun confidence_tier_as_str :: "confidence_tier \<Rightarrow> string" where
  "confidence_tier_as_str Confirmed = ''confirmed''"
| "confidence_tier_as_str Likely = ''likely''"
| "confidence_tier_as_str Ambiguous = ''ambiguous''"

section \<open>Operations of the vocabularies\<close>

fun lifecycle_is_terminal :: "lifecycle_state \<Rightarrow> bool" where
  "lifecycle_is_terminal Done = True"
| "lifecycle_is_terminal Abandoned = True"
| "lifecycle_is_terminal Tombstoned = True"
| "lifecycle_is_terminal Quarantined = True"
| "lifecycle_is_terminal s = False"

fun is_system_only :: "lifecycle_state \<Rightarrow> bool" where
  "is_system_only Tombstoned = True"
| "is_system_only Quarantined = True"
| "is_system_only s = False"

definition recall_visible_lifecycle_states :: "lifecycle_state list" where
  "recall_visible_lifecycle_states = [Open, Active, Blocked, Done, Abandoned]"

definition is_recall_visible :: "lifecycle_state \<Rightarrow> bool" where
  "is_recall_visible s = (s \<in> set recall_visible_lifecycle_states)"

fun dequarantine_target :: "lifecycle_state \<Rightarrow> lifecycle_state option" where
  "dequarantine_target Quarantined = Some Open"
| "dequarantine_target s = None"

fun lifecycle_can_transition_to :: "lifecycle_state \<Rightarrow> lifecycle_state \<Rightarrow> bool" where
  "lifecycle_can_transition_to Open Active = True"
| "lifecycle_can_transition_to Open Abandoned = True"
| "lifecycle_can_transition_to Active Blocked = True"
| "lifecycle_can_transition_to Active Done = True"
| "lifecycle_can_transition_to Active Abandoned = True"
| "lifecycle_can_transition_to Blocked Active = True"
| "lifecycle_can_transition_to Blocked Abandoned = True"
| "lifecycle_can_transition_to s t = False"

text \<open>The text of the SQL fragment, and the rows that fragment admits: a null column or one of
  the listed words.\<close>

fun join_list :: "string \<Rightarrow> string list \<Rightarrow> string" where
  "join_list sep [] = []"
| "join_list sep [x] = x"
| "join_list sep (x # y # xs) = x @ sep @ join_list sep (y # xs)"

definition visible_words :: "string list" where
  "visible_words = map lifecycle_state_as_str recall_visible_lifecycle_states"

definition lifecycle_visible_clause :: "string \<Rightarrow> string" where
  "lifecycle_visible_clause table_alias =
     (let col = (if table_alias = [] then ''lifecycle_state''
                 else table_alias @ ''.'' @ ''lifecycle_state'');
          quote = [CHR 0x27]
      in ''AND ('' @ col @ '' IS NULL OR '' @ col @ '' IN ('' @
         join_list '', '' (map (\<lambda>w. quote @ w @ quote) visible_words) @ ''))'')"

definition clause_admits :: "string option \<Rightarrow> bool" where
  "clause_admits column = (case column of None \<Rightarrow> True | Some w \<Rightarrow> w \<in> set visible_words)"

definition default_for_agent_id :: "string \<Rightarrow> edit_source" where
  "default_for_agent_id agent_id = (if take 3 agent_id = ''ai:'' then Agent else Human)"

fun appends_and_archives :: "edit_source \<Rightarrow> bool" where
  "appends_and_archives Llm = True"
| "appends_and_archives Hook = True"
| "appends_and_archives e = False"

fun default_ttl_secs :: "tier \<Rightarrow> int option" where
  "default_ttl_secs Short = Some (6 * 3600)"
| "default_ttl_secs Mid = Some 604800"
| "default_ttl_secs Long = None"

text \<open>The two thresholds are the exact values of the double-precision literals 0.95 and 0.7.\<close>

definition confirmed_min :: f64 where
  "confirmed_min = Finite (4278419646001971 / 4503599627370496)"

definition likely_min :: f64 where
  "likely_min = Finite (3152519739159347 / 4503599627370496)"

definition from_confidence :: "f64 \<Rightarrow> confidence_tier" where
  "from_confidence c =
     (if c = NaN then Ambiguous
      else if f64_ge c confirmed_min then Confirmed
      else if f64_ge c likely_min then Likely
      else Ambiguous)"

definition stamp_kind_provenance :: "kind_provenance \<Rightarrow> json \<Rightarrow> json" where
  "stamp_kind_provenance p metadata =
     (case metadata of
        JObj m \<Rightarrow> JObj (bt_insert ''kind_provenance'' (JStr (kind_provenance_as_str p)) m)
      | _ \<Rightarrow> metadata)"

definition kind_provenance_from_metadata :: "json \<Rightarrow> kind_provenance option" where
  "kind_provenance_from_metadata metadata =
     Option.bind (Option.bind (json_get ''kind_provenance'' metadata) json_as_str)
       kind_provenance_from_str"

section \<open>The memory row\<close>

record source_span =
  sp_start :: nat
  sp_end :: nat

record citation =
  ci_uri :: string
  ci_accessed_at :: string
  ci_hash :: "string option"
  ci_span :: "source_span option"

record confidence_signals =
  cg_source_age_days :: f64
  cg_atom_derivation :: bool
  cg_prior_corroboration_count :: int
  cg_freshness_factor :: f64
  cg_baseline_per_source :: f64

record memory =
  m_id :: string
  m_tier :: tier
  m_namespace :: string
  m_title :: string
  m_content :: string
  m_tags :: "string list"
  m_priority :: int
  m_confidence :: f64
  m_source :: string
  m_access_count :: int
  m_created_at :: string
  m_updated_at :: string
  m_last_accessed_at :: "string option"
  m_expires_at :: "string option"
  m_metadata :: json
  m_reflection_depth :: int
  m_memory_kind :: memory_kind
  m_entity_id :: "string option"
  m_persona_version :: "int option"
  m_citations :: "citation list"
  m_source_uri :: "string option"
  m_source_span :: "source_span option"
  m_confidence_source :: confidence_source
  m_confidence_signals :: "confidence_signals option"
  m_confidence_decayed_at :: "string option"
  m_version :: int
  m_lifecycle_state :: lifecycle_state
  m_cid :: "string option"

definition effective_expires_at :: "'t chrono \<Rightarrow> 't \<Rightarrow> memory \<Rightarrow> string option" where
  "effective_expires_at ch now m =
     (if m_expires_at m \<noteq> None then m_expires_at m
      else case default_ttl_secs (m_tier m) of
        None \<Rightarrow> None
      | Some ttl \<Rightarrow>
          (let base = (case parse_rfc3339 ch (m_created_at m) of
                         Some t \<Rightarrow> with_utc ch t
                       | None \<Rightarrow> now)
           in Some (to_rfc3339 ch (add_seconds ch base ttl))))"

section \<open>The vocabularies as wire enumerations\<close>

interpretation memory_kind: wire_enum memory_kind_as_str memory_kind_from_str
proof
  show "memory_kind_from_str (memory_kind_as_str e) = Some e" for e
    by (cases e) (simp_all add: memory_kind_from_str_def)
  show "memory_kind_from_str s = Some e \<Longrightarrow> s = memory_kind_as_str e" for s e
    by (auto simp: memory_kind_from_str_def split: if_splits)
qed

interpretation lifecycle_state: wire_enum lifecycle_state_as_str lifecycle_state_from_str
proof
  show "lifecycle_state_from_str (lifecycle_state_as_str e) = Some e" for e
    by (cases e) (simp_all add: lifecycle_state_from_str_def)
  show "lifecycle_state_from_str s = Some e \<Longrightarrow> s = lifecycle_state_as_str e" for s e
    by (auto simp: lifecycle_state_from_str_def split: if_splits)
qed

interpretation confidence_source: wire_enum confidence_source_as_str confidence_source_from_str
proof
  show "confidence_source_from_str (confidence_source_as_str e) = Some e" for e
    by (cases e) (simp_all add: confidence_source_from_str_def)
  show "confidence_source_from_str s = Some e \<Longrightarrow> s = confidence_source_as_str e" for s e
    by (auto simp: confidence_source_from_str_def split: if_splits)
qed

interpretation kind_provenance: wire_enum kind_provenance_as_str kind_provenance_from_str
proof
  show "kind_provenance_from_str (kind_provenance_as_str e) = Some e" for e
    by (cases e) (simp_all add: kind_provenance_from_str_def)
  show "kind_provenance_from_str s = Some e \<Longrightarrow> s = kind_provenance_as_str e" for s e
    by (auto simp: kind_provenance_from_str_def split: if_splits)
qed

interpretation tier: wire_enum tier_as_str tier_from_str
proof
  show "tier_from_str (tier_as_str e) = Some e" for e
    by (cases e) (simp_all add: tier_from_str_def)
  show "tier_from_str s = Some e \<Longrightarrow> s = tier_as_str e" for s e
    by (auto simp: tier_from_str_def split: if_splits)
qed

interpretation edit_source: wire_enum edit_source_as_str edit_source_from_str
proof
  show "edit_source_from_str (edit_source_as_str e) = Some e" for e
    by (cases e) (simp_all add: edit_source_from_str_def)
  show "edit_source_from_str s = Some e \<Longrightarrow> s = edit_source_as_str e" for s e
    by (auto simp: edit_source_from_str_def split: if_splits)
qed

section \<open>Properties\<close>

lemma visible_iff: "is_recall_visible s \<longleftrightarrow> \<not> is_system_only s"
  by (cases s) (simp_all add: is_recall_visible_def recall_visible_lifecycle_states_def)

lemma visible_words_iff: "lifecycle_state_as_str s \<in> set visible_words \<longleftrightarrow> is_recall_visible s"
  by (auto simp: visible_words_def is_recall_visible_def lifecycle_state.as_str_inject)

text \<open>The read lanes are fail-closed: the SQL allow-list admits a stored word exactly when it
  is the word of a recall-visible state, a word that is no state at all is hidden, and the
  visible states are exactly those a caller may set.\<close>

theorem lifecycle_fail_closed:
  "(clause_admits (Some w) \<longleftrightarrow> (\<exists>s. lifecycle_state_from_str w = Some s \<and> is_recall_visible s)) \<and>
   (is_recall_visible s \<longleftrightarrow> \<not> is_system_only s)"
proof -
  have "w \<in> set visible_words \<longleftrightarrow> (\<exists>s. w = lifecycle_state_as_str s \<and> is_recall_visible s)"
    by (auto simp: visible_words_def is_recall_visible_def)
  then show ?thesis
    by (simp add: clause_admits_def lifecycle_state.from_str_iff visible_iff)
qed

lemma lifecycle_open_reach:
  "\<not> is_system_only s \<Longrightarrow> rtranclp lifecycle_can_transition_to Open s"
proof -
  have a: "rtranclp lifecycle_can_transition_to Open Active" by (rule r_into_rtranclp) simp
  have "rtranclp lifecycle_can_transition_to Open Blocked"
    by (rule rtranclp.rtrancl_into_rtrancl [OF a]) simp
  moreover have "rtranclp lifecycle_can_transition_to Open Done"
    by (rule rtranclp.rtrancl_into_rtrancl [OF a]) simp
  moreover have "rtranclp lifecycle_can_transition_to Open Abandoned" by (rule r_into_rtranclp) simp
  ultimately show "\<not> is_system_only s \<Longrightarrow> rtranclp lifecycle_can_transition_to Open s"
    using a by (cases s) simp_all
qed

lemma lifecycle_into_system: "is_system_only t \<Longrightarrow> \<not> lifecycle_can_transition_to s t"
  by (cases s; cases t) simp_all

lemma lifecycle_out_of_terminal:
  "(\<exists>t. lifecycle_can_transition_to s t) \<longleftrightarrow> \<not> lifecycle_is_terminal s"
proof (cases "lifecycle_is_terminal s")
  case True
  then show ?thesis by (cases s) simp_all
next
  case False
  then have "lifecycle_can_transition_to s (if s = Open then Active else Abandoned)"
    by (cases s) simp_all
  then show ?thesis using False by blast
qed

text \<open>The caller-reachable lifecycle states: along legal transitions from the initial state a
  caller reaches exactly the states that are not system-only, every terminal state is left by
  no transition, every other state is left by one, and only a quarantined row has a
  dequarantine target, which is visible again.\<close>

theorem lifecycle_reachability:
  "(rtranclp lifecycle_can_transition_to Open s \<longleftrightarrow> \<not> is_system_only s) \<and>
   ((\<exists>t. lifecycle_can_transition_to s t) \<longleftrightarrow> \<not> lifecycle_is_terminal s) \<and>
   \<not> lifecycle_can_transition_to s s \<and>
   ((\<exists>t. dequarantine_target s = Some t \<and> is_recall_visible t) \<longleftrightarrow> s = Quarantined)"
proof -
  have "\<not> is_system_only s" if "rtranclp lifecycle_can_transition_to Open s"
    using that by (cases rule: rtranclp.cases) (use lifecycle_into_system in auto)
  moreover have "\<not> lifecycle_can_transition_to s s" by (cases s) simp_all
  moreover have "(\<exists>t. dequarantine_target s = Some t \<and> is_recall_visible t) \<longleftrightarrow> s = Quarantined"
    by (cases s) (simp_all add: visible_iff)
  ultimately show ?thesis
    using lifecycle_open_reach lifecycle_out_of_terminal by blast
qed

text \<open>Every stored vocabulary of a memory row round-trips: the parser of each column accepts
  exactly the words its printer produces and returns the value that was printed.\<close>

theorem vocabularies_roundtrip:
  "(memory_kind_from_str w = Some k \<longleftrightarrow> w = memory_kind_as_str k) \<and>
   (lifecycle_state_from_str w = Some l \<longleftrightarrow> w = lifecycle_state_as_str l) \<and>
   (confidence_source_from_str w = Some c \<longleftrightarrow> w = confidence_source_as_str c) \<and>
   (kind_provenance_from_str w = Some p \<longleftrightarrow> w = kind_provenance_as_str p) \<and>
   (tier_from_str w = Some t \<longleftrightarrow> w = tier_as_str t) \<and>
   (edit_source_from_str w = Some e \<longleftrightarrow> w = edit_source_as_str e)"
  by (simp add: memory_kind.from_str_iff lifecycle_state.from_str_iff
      confidence_source.from_str_iff kind_provenance.from_str_iff tier.from_str_iff
      edit_source.from_str_iff)

end
