(* ===== verification/Clock.thy ===== *)
theory Clock
  imports Json "HOL-Library.Option_ord"
begin

text \<open>
  Vector clocks, the last part of \<^verbatim>\<open>src/models/link.rs\<close>, with the two merge primitives of
  \<^verbatim>\<open>src/models/crdt_primitives.rs\<close>, and the contract \<open>replicated\<close> of a state-based
  replicated type: a merge that is commutative, associative and idempotent on what readers
  observe makes the outcome of a set of deliveries independent of their order and number.
\<close>

section \<open>The merge primitives\<close>

text \<open>The strict comparison of the element type is an argument: integers, strings and floating
  point numbers bring their own.\<close>

definition pn_counter_merge :: "('a \<Rightarrow> 'a \<Rightarrow> bool) \<Rightarrow> 'a \<Rightarrow> 'a \<Rightarrow> 'a" where
  "pn_counter_merge gt self other = (if gt other self then other else self)"

definition or_set_push :: "'a list \<Rightarrow> 'a \<Rightarrow> 'a list" where
  "or_set_push out item = (if item \<in> set out then out else out @ [item])"

definition or_set_merge :: "'a list \<Rightarrow> 'a list \<Rightarrow> 'a list" where
  "or_set_merge self other = foldl or_set_push [] (self @ other)"

section \<open>Vector clocks\<close>

record vector_clock =
  vc_entries :: "(string \<times> string) list"

datatype causality = CEqual | HappensBefore | HappensAfter | Concurrent

definition vc_observe :: "vector_clock \<Rightarrow> string \<Rightarrow> string \<Rightarrow> vector_clock" where
  "vc_observe vc peer at =
     (case map_of (vc_entries vc) peer of
        Some existing \<Rightarrow>
          if at > existing then vc\<lparr>vc_entries := bt_insert peer at (vc_entries vc)\<rparr> else vc
      | None \<Rightarrow> vc\<lparr>vc_entries := bt_insert peer at (vc_entries vc)\<rparr>)"

definition vc_latest_from :: "vector_clock \<Rightarrow> string \<Rightarrow> string option" where
  "vc_latest_from vc peer = map_of (vc_entries vc) peer"

definition vc_at :: "vector_clock \<Rightarrow> string \<Rightarrow> string" where
  "vc_at vc peer = (case map_of (vc_entries vc) peer of None \<Rightarrow> [] | Some t \<Rightarrow> t)"

definition vc_merge :: "vector_clock \<Rightarrow> vector_clock \<Rightarrow> vector_clock" where
  "vc_merge self other = foldl (\<lambda>vc (peer, at). vc_observe vc peer at) self (vc_entries other)"

definition vc_le_step :: "vector_clock \<Rightarrow> vector_clock \<Rightarrow> bool \<times> bool \<Rightarrow> string \<Rightarrow> bool \<times> bool" where
  "vc_le_step self other flags peer =
     (fst flags \<and> \<not> vc_at self peer > vc_at other peer,
      snd flags \<and> \<not> vc_at other peer > vc_at self peer)"

definition vc_causality :: "vector_clock \<Rightarrow> vector_clock \<Rightarrow> causality" where
  "vc_causality self other =
     (if self = other then CEqual
      else case foldl (vc_le_step self other) (True, True)
             (map fst (vc_entries self) @ map fst (vc_entries other)) of
        (True, True) \<Rightarrow> CEqual
      | (True, False) \<Rightarrow> HappensBefore
      | (False, True) \<Rightarrow> HappensAfter
      | (False, False) \<Rightarrow> Concurrent)"

definition vc_happens_before :: "vector_clock \<Rightarrow> vector_clock \<Rightarrow> bool" where
  "vc_happens_before self other = (vc_causality self other = HappensBefore)"

definition vc_concurrent_with :: "vector_clock \<Rightarrow> vector_clock \<Rightarrow> bool" where
  "vc_concurrent_with self other = (vc_causality self other = Concurrent)"

section \<open>The contract of a replicated type\<close>

text \<open>
  \<open>ok\<close> are the states the contract speaks of, \<open>view\<close> is what readers observe of a state.
\<close>

locale replicated =
  fixes ok :: "'a \<Rightarrow> bool" and merge :: "'a \<Rightarrow> 'a \<Rightarrow> 'a" and view :: "'a \<Rightarrow> 'v"
  assumes ok_merge: "ok a \<Longrightarrow> ok b \<Longrightarrow> ok (merge a b)"
    and view_cong: "ok a \<Longrightarrow> ok a' \<Longrightarrow> ok b \<Longrightarrow> ok b' \<Longrightarrow> view a = view a' \<Longrightarrow> view b = view b' \<Longrightarrow>
      view (merge a b) = view (merge a' b')"
    and commute: "ok a \<Longrightarrow> ok b \<Longrightarrow> view (merge a b) = view (merge b a)"
    and assoc: "ok a \<Longrightarrow> ok b \<Longrightarrow> ok c \<Longrightarrow>
      view (merge (merge a b) c) = view (merge a (merge b c))"
    and idem: "ok a \<Longrightarrow> view (merge a a) = view a"
begin

text \<open>A state is below another when merging it in changes nothing.\<close>

definition below :: "'a \<Rightarrow> 'a \<Rightarrow> bool" where
  "below a b \<longleftrightarrow> view (merge b a) = view b"

lemma below_refl: "ok a \<Longrightarrow> below a a"
  by (simp add: below_def idem)

lemma below_antisym:
  assumes "ok a" "ok b" "below a b" "below b a"
  shows "view a = view b"
  using assms commute unfolding below_def by metis

lemma absorb_right:
  assumes "ok a" "ok b"
  shows "view (merge (merge a b) b) = view (merge a b)"
proof -
  have "view (merge (merge a b) b) = view (merge a (merge b b))"
    using assms by (simp add: assoc)
  also have "\<dots> = view (merge a b)"
    by (rule view_cong) (auto simp: assms ok_merge idem)
  finally show ?thesis .
qed

lemma absorb_left:
  assumes "ok a" "ok b"
  shows "view (merge (merge a b) a) = view (merge a b)"
proof -
  have "view (merge (merge a b) a) = view (merge (merge b a) a)"
    by (rule view_cong) (auto simp: assms ok_merge commute)
  also have "\<dots> = view (merge a b)"
    using assms by (simp add: absorb_right commute)
  finally show ?thesis .
qed

lemma below_part:
  assumes "ok c" "ok u" "ok d" "below c u" "view (merge c d) = view c"
  shows "below d u"
proof -
  have "view (merge u d) = view (merge (merge u c) d)"
    by (rule view_cong) (use assms in \<open>auto simp: ok_merge below_def\<close>)
  also have "\<dots> = view (merge u (merge c d))"
    using assms by (simp add: assoc)
  also have "\<dots> = view (merge u c)"
    by (rule view_cong) (use assms in \<open>auto simp: ok_merge\<close>)
  finally show ?thesis using assms(4) by (simp add: below_def)
qed

lemma below_merge_iff:
  assumes "ok a" "ok b" "ok u"
  shows "below (merge a b) u \<longleftrightarrow> below a u \<and> below b u"
proof
  assume "below (merge a b) u"
  then show "below a u \<and> below b u"
    using assms absorb_left absorb_right below_part ok_merge by metis
next
  assume r: "below a u \<and> below b u"
  have "view (merge u (merge a b)) = view (merge (merge u a) b)"
    using assms by (simp add: assoc)
  also have "\<dots> = view (merge u b)"
    by (rule view_cong) (use assms r in \<open>auto simp: ok_merge below_def\<close>)
  finally show "below (merge a b) u" using r by (simp add: below_def)
qed

lemma ok_foldl: "ok s \<Longrightarrow> \<forall>x \<in> set xs. ok x \<Longrightarrow> ok (foldl merge s xs)"
  by (induction xs arbitrary: s) (auto simp: ok_merge)

lemma below_foldl_iff:
  "ok s \<Longrightarrow> ok u \<Longrightarrow> \<forall>x \<in> set xs. ok x \<Longrightarrow>
    below (foldl merge s xs) u \<longleftrightarrow> below s u \<and> (\<forall>x \<in> set xs. below x u)"
  by (induction xs arbitrary: s) (auto simp: ok_merge below_merge_iff)

lemma ok_replica:
  assumes "\<forall>x \<in> insert s (set xs). ok x"
  shows "ok (foldl merge s xs)"
  using assms ok_foldl by simp

lemma below_replica:
  assumes "\<forall>x \<in> insert s (set xs). ok x" and "ok u"
  shows "below (foldl merge s xs) u \<longleftrightarrow> (\<forall>x \<in> insert s (set xs). below x u)"
  using assms below_foldl_iff [of s u xs] by simp

text \<open>Two replicas that started from different states but have met the same ones agree.\<close>

lemma replicas_agree:
  assumes "\<forall>x \<in> insert s (set xs). ok x" and "insert s (set xs) = insert t (set ys)"
  shows "view (foldl merge s xs) = view (foldl merge t ys)"
proof (rule below_antisym)
  have ok': "\<forall>x \<in> insert t (set ys). ok x" using assms by simp
  show ok: "ok (foldl merge s xs)" "ok (foldl merge t ys)"
    using assms(1) ok' by (auto intro: ok_replica)
  show "below (foldl merge s xs) (foldl merge t ys)" "below (foldl merge t ys) (foldl merge s xs)"
    using below_replica [OF assms(1)] below_replica [OF ok'] ok below_refl assms(2) by metis+
qed

lemma converge:
  assumes "ok s" and "\<forall>x \<in> set xs. ok x" and "set xs = set ys"
  shows "view (foldl merge s xs) = view (foldl merge s ys)"
  using assms by (intro replicas_agree) auto

end

section \<open>Lookups after clock operations\<close>

definition vc_ok :: "vector_clock \<Rightarrow> bool" where
  "vc_ok vc = bt_wf (vc_entries vc)"

lemma vc_ok_observe: "vc_ok vc \<Longrightarrow> vc_ok (vc_observe vc p t)"
  by (simp add: vc_ok_def vc_observe_def split: option.split)

lemma latest_observe:
  "vc_ok vc \<Longrightarrow> vc_latest_from (vc_observe vc p t) q =
     (if q = p then max (vc_latest_from vc p) (Some t) else vc_latest_from vc q)"
  by (auto simp: vc_ok_def vc_observe_def vc_latest_from_def max_def split: option.split)

lemma max_None [simp]: "max x None = (x :: 'a::linorder option)" "max None x = x"
  by (cases x; simp add: max_def)+

lemma observe_all:
  assumes "vc_ok vc" and "distinct (map fst es)"
  shows "vc_ok (foldl (\<lambda>vc (p, t). vc_observe vc p t) vc es) \<and>
    (\<forall>q. vc_latest_from (foldl (\<lambda>vc (p, t). vc_observe vc p t) vc es) q =
       max (vc_latest_from vc q) (map_of es q))"
  using assms
proof (induction es arbitrary: vc)
  case Nil
  then show ?case by simp
next
  case (Cons e es)
  obtain p t where e: "e = (p, t)" by (cases e)
  have "map_of es p = None" using Cons.prems(2) e by (auto simp: map_of_eq_None_iff)
  then show ?case
    using Cons.IH [of "vc_observe vc p t"] Cons.prems
    by (auto simp: e vc_ok_observe latest_observe)
qed

lemma vc_ok_merge: "vc_ok a \<Longrightarrow> vc_ok b \<Longrightarrow> vc_ok (vc_merge a b)"
  using observe_all [of a "vc_entries b"] by (simp add: vc_merge_def vc_ok_def bt_wf_distinct)

lemma latest_merge:
  "vc_ok a \<Longrightarrow> vc_ok b \<Longrightarrow>
    vc_latest_from (vc_merge a b) q = max (vc_latest_from a q) (vc_latest_from b q)"
  using observe_all [of a "vc_entries b"]
  by (simp add: vc_merge_def vc_ok_def bt_wf_distinct vc_latest_from_def)

lemma vc_ext:
  assumes "vc_ok a" and "vc_ok b" and "\<And>q. vc_latest_from a q = vc_latest_from b q"
  shows "a = b"
proof -
  have "vc_entries a = vc_entries b"
    by (rule bt_ext) (use assms in \<open>auto simp: vc_ok_def vc_latest_from_def\<close>)
  then show ?thesis by simp
qed

interpretation clock: replicated vc_ok vc_merge "\<lambda>vc. vc"
proof
  fix a b c :: vector_clock
  assume ok: "vc_ok a" "vc_ok b"
  then show "vc_ok (vc_merge a b)" by (rule vc_ok_merge)
  show "vc_merge a b = vc_merge b a"
    by (rule vc_ext) (simp_all add: ok vc_ok_merge latest_merge max.commute)
  assume "vc_ok c"
  with ok show "vc_merge (vc_merge a b) c = vc_merge a (vc_merge b c)"
    by (intro vc_ext) (simp_all add: vc_ok_merge latest_merge max.assoc)
next
  fix a assume "vc_ok a"
  then show "vc_merge a a = a" by (intro vc_ext) (simp_all add: vc_ok_merge latest_merge)
qed simp_all

section \<open>Causality\<close>

lemma le_step_foldl:
  "foldl (vc_le_step a b) flags ps =
     (fst flags \<and> (\<forall>p \<in> set ps. vc_at a p \<le> vc_at b p),
      snd flags \<and> (\<forall>p \<in> set ps. vc_at b p \<le> vc_at a p))"
  by (induction ps arbitrary: flags) (auto simp: vc_le_step_def not_less)

lemma vc_at_unknown: "p \<notin> fst ` set (vc_entries vc) \<Longrightarrow> vc_at vc p = []"
  by (simp add: vc_at_def map_of_eq_None_iff split: option.split)
    (metis map_of_eq_None_iff option.distinct(1))

lemma le_on_keys:
  "(\<forall>p \<in> set (map fst (vc_entries a) @ map fst (vc_entries b)). vc_at a p \<le> vc_at b p) \<longleftrightarrow>
   (\<forall>p. vc_at a p \<le> vc_at b p)"
proof -
  have "vc_at a p \<le> vc_at b p" if "p \<notin> fst ` set (vc_entries a)" for p
    using vc_at_unknown [OF that] by simp
  then show ?thesis by auto
qed

lemma le_on_keys':
  "(\<forall>p \<in> set (map fst (vc_entries a) @ map fst (vc_entries b)). vc_at b p \<le> vc_at a p) \<longleftrightarrow>
   (\<forall>p. vc_at b p \<le> vc_at a p)"
  using le_on_keys [of b a] by auto

lemma causality_flags:
  "vc_causality a b =
     (if \<forall>p. vc_at a p \<le> vc_at b p
      then if \<forall>p. vc_at b p \<le> vc_at a p then CEqual else HappensBefore
      else if \<forall>p. vc_at b p \<le> vc_at a p then HappensAfter else Concurrent)"
  unfolding vc_causality_def le_step_foldl le_on_keys le_on_keys' by (simp split: bool.split)

lemma vc_at_latest: "vc_at vc p = (case vc_latest_from vc p of None \<Rightarrow> [] | Some t \<Rightarrow> t)"
  by (simp add: vc_at_def vc_latest_from_def)

lemma vc_at_merge: "vc_ok a \<Longrightarrow> vc_ok b \<Longrightarrow> vc_at (vc_merge a b) p = max (vc_at a p) (vc_at b p)"
  by (simp add: vc_at_latest latest_merge max_def split: option.split)

section \<open>Properties\<close>

text \<open>Clock replication converges: whatever the order and the number of times the clocks of a
  set of peers are merged into a clock, the outcome is the same clock, and its entry for a peer
  is an upper bound of every merged entry of that peer.\<close>

theorem clock_converges:
  assumes "vc_ok s" and "\<forall>x \<in> set xs. vc_ok x" and "set xs = set ys"
  shows "foldl vc_merge s xs = foldl vc_merge s ys \<and>
    (\<forall>x \<in> insert s (set xs). \<forall>p. vc_latest_from x p \<le> vc_latest_from (foldl vc_merge s xs) p)"
proof -
  have ok: "vc_ok (foldl vc_merge s xs)" using clock.ok_foldl assms by blast
  have "clock.below x (foldl vc_merge s xs)" if "x \<in> insert s (set xs)" for x
    using clock.below_foldl_iff [OF assms(1) ok assms(2)] clock.below_refl [OF ok] that by auto
  moreover have "vc_latest_from x p \<le> vc_latest_from y p" if "clock.below x y" "vc_ok x" "vc_ok y" for x y p
    using that latest_merge [of y x p] by (simp add: clock.below_def) (metis max.cobounded2)
  ultimately show ?thesis
    using clock.converge [OF assms] ok assms by blast
qed

theorem clock_converges_witness:
  "foldl vc_merge \<lparr>vc_entries = []\<rparr>
     [\<lparr>vc_entries = [(''a'', ''2'')]\<rparr>, \<lparr>vc_entries = [(''a'', ''1''), (''b'', ''7'')]\<rparr>] =
   foldl vc_merge \<lparr>vc_entries = []\<rparr>
     [\<lparr>vc_entries = [(''a'', ''1''), (''b'', ''7'')]\<rparr>, \<lparr>vc_entries = [(''a'', ''2'')]\<rparr>,
      \<lparr>vc_entries = [(''a'', ''2'')]\<rparr>]"
  by (rule conjunct1 [OF clock_converges]) (auto simp: vc_ok_def bt_wf_def)

text \<open>The causality verdict is the pointwise order of the clocks, an absent peer counting as the
  empty timestamp: equal when all entries agree, before or after when one side is pointwise at
  most the other and smaller somewhere, concurrent when each side is ahead on some peer.\<close>

theorem causality_exact:
  "(vc_causality a b = CEqual \<longleftrightarrow> (\<forall>p. vc_at a p = vc_at b p)) \<and>
   (vc_causality a b = HappensBefore \<longleftrightarrow>
      (\<forall>p. vc_at a p \<le> vc_at b p) \<and> (\<exists>p. vc_at a p < vc_at b p)) \<and>
   (vc_causality a b = HappensAfter \<longleftrightarrow>
      (\<forall>p. vc_at b p \<le> vc_at a p) \<and> (\<exists>p. vc_at b p < vc_at a p)) \<and>
   (vc_causality a b = Concurrent \<longleftrightarrow>
      (\<exists>p. vc_at a p < vc_at b p) \<and> (\<exists>p. vc_at b p < vc_at a p))"
proof -
  let ?l = "\<forall>p. vc_at a p \<le> vc_at b p" and ?g = "\<forall>p. vc_at b p \<le> vc_at a p"
  have "(\<forall>p. vc_at a p = vc_at b p) \<longleftrightarrow> ?l \<and> ?g" by (auto intro: order.antisym)
  moreover have "(\<exists>p. vc_at a p < vc_at b p) \<longleftrightarrow> \<not> ?g" "(\<exists>p. vc_at b p < vc_at a p) \<longleftrightarrow> \<not> ?l"
    by (auto simp: not_le)
  ultimately show ?thesis
    unfolding causality_flags by simp
qed

text \<open>A merged clock dominates both inputs: neither input is after it or concurrent with it,
  and an input that is already at least the other is the merge itself, up to empty entries.\<close>

theorem merge_dominates:
  assumes "vc_ok a" and "vc_ok b"
  shows "vc_causality a (vc_merge a b) \<in> {CEqual, HappensBefore} \<and>
    vc_causality b (vc_merge a b) \<in> {CEqual, HappensBefore} \<and>
    (vc_causality b a \<in> {CEqual, HappensBefore} \<longleftrightarrow> vc_causality a (vc_merge a b) = CEqual)"
proof -
  have m: "vc_at (vc_merge a b) p = max (vc_at a p) (vc_at b p)" for p
    using assms by (rule vc_at_merge)
  have "(\<forall>p. max (vc_at a p) (vc_at b p) \<le> vc_at a p) \<longleftrightarrow> (\<forall>p. vc_at b p \<le> vc_at a p)"
    by auto
  then show ?thesis
    unfolding causality_flags m by auto
qed

theorem merge_dominates_witness:
  "vc_causality \<lparr>vc_entries = [(''a'', ''1'')]\<rparr>
     (vc_merge \<lparr>vc_entries = [(''a'', ''1'')]\<rparr> \<lparr>vc_entries = [(''b'', ''2'')]\<rparr>) \<in> {CEqual, HappensBefore}"
  by (rule conjunct1 [OF merge_dominates]) (simp_all add: vc_ok_def bt_wf_def)

end
