(* ===== verification/Crdt.thy ===== *)
theory Crdt
  imports Clock Memory
begin

text \<open>
  The field-wise merge of two replicas of a memory row, \<^verbatim>\<open>src/models/crdt_merge.rs\<close>, with the
  preparation of an untrusted inbound row. The tiebreak of the last-writer-wins fields is the
  order on (update time, attestation rank, id).
\<close>

section \<open>Attestation levels\<close>

datatype attest_level = Claimed | AgentAttested

fun attest_level_as_str :: "attest_level \<Rightarrow> string" where
  "attest_level_as_str Claimed = ''claimed''"
| "attest_level_as_str AgentAttested = ''agent_attested''"

fun attest_level_rank :: "attest_level \<Rightarrow> nat" where
  "attest_level_rank Claimed = 0"
| "attest_level_rank AgentAttested = 1"

section \<open>The clock inside the metadata\<close>

text \<open>
  The derived deserialiser of the clock: an object with an optional \<^verbatim>\<open>entries\<close> object of strings,
  or the same field in an array of at most one element.
\<close>

fun string_entries :: "(string \<times> json) list \<Rightarrow> (string \<times> string) list option" where
  "string_entries [] = Some []"
| "string_entries ((k, v) # m) =
     (case (json_as_str v, string_entries m) of
        (Some s, Some es) \<Rightarrow> Some ((k, s) # es)
      | _ \<Rightarrow> None)"

fun entries_from_value :: "json \<Rightarrow> (string \<times> string) list option" where
  "entries_from_value (JObj e) = string_entries e"
| "entries_from_value v = None"

fun vector_clock_from_value :: "json \<Rightarrow> vector_clock option" where
  "vector_clock_from_value (JObj m) =
     (case map_of m ''entries'' of
        None \<Rightarrow> Some \<lparr>vc_entries = []\<rparr>
      | Some e \<Rightarrow> map_option (\<lambda>es. \<lparr>vc_entries = es\<rparr>) (entries_from_value e))"
| "vector_clock_from_value (JArr []) = Some \<lparr>vc_entries = []\<rparr>"
| "vector_clock_from_value (JArr [e]) =
     map_option (\<lambda>es. \<lparr>vc_entries = es\<rparr>) (entries_from_value e)"
| "vector_clock_from_value v = None"

definition vector_clock_to_value :: "vector_clock \<Rightarrow> json" where
  "vector_clock_to_value vc =
     JObj [(''entries'', JObj (map (\<lambda>e. (fst e, JStr (snd e))) (vc_entries vc)))]"

definition parse_version_vector :: "json \<Rightarrow> vector_clock" where
  "parse_version_vector metadata =
     (case Option.bind (json_get ''version_vector'' metadata) vector_clock_from_value of
        Some vc \<Rightarrow> vc | None \<Rightarrow> \<lparr>vc_entries = []\<rparr>)"

definition stamp_version_vector :: "json \<Rightarrow> string \<Rightarrow> string \<Rightarrow> json" where
  "stamp_version_vector metadata node_id stamp =
     (if node_id = [] then metadata
      else let clock = vc_observe (parse_version_vector metadata) node_id stamp
           in case metadata of
                JObj obj \<Rightarrow> JObj (bt_insert ''version_vector'' (vector_clock_to_value clock) obj)
              | _ \<Rightarrow> metadata)"

section \<open>Preparing an inbound row\<close>

definition attest_rank :: "memory \<Rightarrow> nat" where
  "attest_rank m = attest_level_rank
     (if Option.bind (json_get ''attest_level'' (m_metadata m)) json_as_str =
          Some (attest_level_as_str AgentAttested)
      then AgentAttested else Claimed)"

definition sanitize_inbound_attestation :: "memory \<Rightarrow> memory" where
  "sanitize_inbound_attestation inbound =
     (case m_metadata inbound of
        JObj obj \<Rightarrow>
          if map_of obj ''attest_level'' \<noteq> None
          then inbound\<lparr>m_metadata :=
            JObj (bt_insert ''attest_level'' (JStr (attest_level_as_str Claimed)) obj)\<rparr>
          else inbound
      | _ \<Rightarrow> inbound)"

definition clamp_inbound_updated_at :: "'t chrono \<Rightarrow> memory \<Rightarrow> string \<Rightarrow> int \<Rightarrow> memory" where
  "clamp_inbound_updated_at ch inbound now_rfc3339 skew_secs =
     (case (parse_rfc3339 ch now_rfc3339, parse_rfc3339 ch (m_updated_at inbound)) of
        (Some now, Some updated) \<Rightarrow>
          (let ceiling = add_seconds ch now skew_secs
           in if instant ch updated > instant ch ceiling
              then inbound\<lparr>m_updated_at := to_rfc3339 ch ceiling\<rparr> else inbound)
      | _ \<Rightarrow> inbound)"

section \<open>Field rules\<close>

definition merge_counter :: "('a \<Rightarrow> 'a \<Rightarrow> bool) \<Rightarrow> 'a \<Rightarrow> 'a \<Rightarrow> 'a" where
  "merge_counter gt local remote = pn_counter_merge gt local remote"

definition lww_key :: "memory \<Rightarrow> string \<times> nat \<times> string" where
  "lww_key m = (m_updated_at m, attest_rank m, m_id m)"

definition remote_wins_lww :: "memory \<Rightarrow> memory \<Rightarrow> bool" where
  "remote_wins_lww local remote \<longleftrightarrow> lww_key remote > lww_key local"

definition lww :: "memory \<Rightarrow> memory \<Rightarrow> 'a \<Rightarrow> 'a \<Rightarrow> 'a" where
  "lww local remote local_val remote_val =
     (if remote_wins_lww local remote then remote_val else local_val)"

definition prefer_non_null_else_lww ::
  "memory \<Rightarrow> memory \<Rightarrow> 'a option \<Rightarrow> 'a option \<Rightarrow> 'a option" where
  "prefer_non_null_else_lww local remote local_val remote_val =
     (case (local_val, remote_val) of
        (Some _, Some _) \<Rightarrow> lww local remote local_val remote_val
      | (Some _, None) \<Rightarrow> local_val
      | (None, Some _) \<Rightarrow> remote_val
      | (None, None) \<Rightarrow> None)"

definition merge_tags :: "string list \<Rightarrow> string list \<Rightarrow> string list" where
  "merge_tags local remote = or_set_merge local remote"

fun tier_rank :: "tier \<Rightarrow> nat" where
  "tier_rank Short = 0"
| "tier_rank Mid = 1"
| "tier_rank Long = 2"

definition merge_tier :: "tier \<Rightarrow> tier \<Rightarrow> tier" where
  "merge_tier local remote = (if tier_rank remote > tier_rank local then remote else local)"

fun merge_expires_at :: "string option \<Rightarrow> string option \<Rightarrow> string option" where
  "merge_expires_at None remote = None"
| "merge_expires_at local None = None"
| "merge_expires_at (Some l) (Some r) = (if r > l then Some r else Some l)"

fun max_opt_string :: "string option \<Rightarrow> string option \<Rightarrow> string option" where
  "max_opt_string (Some l) (Some r) = (if r > l then Some r else Some l)"
| "max_opt_string (Some l) None = Some l"
| "max_opt_string None (Some r) = Some r"
| "max_opt_string None None = None"

text \<open>The loop over the remote object reads and writes the map being built.\<close>

fun deep_merge_json :: "json \<Rightarrow> json \<Rightarrow> bool \<Rightarrow> json"
  and deep_merge_entries :: "(string \<times> json) list \<Rightarrow> (string \<times> json) list \<Rightarrow> bool \<Rightarrow> (string \<times> json) list"
  where
  "deep_merge_json (JObj lmap) (JObj rmap) remote_wins =
     JObj (deep_merge_entries lmap rmap remote_wins)"
| "deep_merge_json local remote remote_wins = (if remote_wins then remote else local)"
| "deep_merge_entries merged [] remote_wins = merged"
| "deep_merge_entries merged ((key, rval) # rmap) remote_wins =
     (case map_of merged key of
        Some lval \<Rightarrow>
          deep_merge_entries (bt_insert key (deep_merge_json lval rval remote_wins) merged) rmap remote_wins
      | None \<Rightarrow> deep_merge_entries (bt_insert key rval merged) rmap remote_wins)"

definition put_or_remove :: "string \<Rightarrow> json option \<Rightarrow> (string \<times> json) list \<Rightarrow> (string \<times> json) list" where
  "put_or_remove key v obj =
     (case v of Some x \<Rightarrow> bt_insert key x obj | None \<Rightarrow> bt_remove key obj)"

definition scope_winner :: "json \<Rightarrow> json \<Rightarrow> bool \<Rightarrow> json option" where
  "scope_winner lmeta rmeta remote_wins =
     (let local_scope = json_get ''scope'' lmeta; remote_scope = json_get ''scope'' rmeta
      in case (local_scope, remote_scope) of
           (Some _, Some _) \<Rightarrow> if remote_wins then remote_scope else local_scope
         | (Some _, None) \<Rightarrow> local_scope
         | (None, Some _) \<Rightarrow> remote_scope
         | (None, None) \<Rightarrow> None)"

definition merged_version_vector :: "json \<Rightarrow> json \<Rightarrow> json option" where
  "merged_version_vector lmeta rmeta =
     (let merged_vc = vc_merge (parse_version_vector lmeta) (parse_version_vector rmeta)
      in if vc_entries merged_vc = [] then None else Some (vector_clock_to_value merged_vc))"

definition merge_metadata :: "memory \<Rightarrow> memory \<Rightarrow> json" where
  "merge_metadata local remote =
     (let lmeta = m_metadata local; rmeta = m_metadata remote;
          remote_wins = remote_wins_lww local remote
      in case deep_merge_json lmeta rmeta remote_wins of
           JObj obj \<Rightarrow>
             (let m1 = put_or_remove ''agent_id'' (json_get ''agent_id'' lmeta) obj;
                  m2 = put_or_remove ''scope'' (scope_winner lmeta rmeta remote_wins) m1;
                  m3 = put_or_remove ''governance'' (json_get ''governance'' lmeta) m2;
                  m4 = put_or_remove ''version_vector'' (merged_version_vector lmeta rmeta) m3
              in JObj (foldl (\<lambda>m key. put_or_remove key (json_get key lmeta) m) m4
                   [''contradiction_conserved'', ''contradiction_soft_loser'', ''contradiction_winner_id'']))
         | merged \<Rightarrow> merged)"

section \<open>The row\<close>

definition merge_memory :: "memory \<Rightarrow> memory \<Rightarrow> memory" where
  "merge_memory local remote =
     \<lparr>m_id = m_id local,
      m_tier = merge_tier (m_tier local) (m_tier remote),
      m_namespace = lww local remote (m_namespace local) (m_namespace remote),
      m_title = lww local remote (m_title local) (m_title remote),
      m_content = lww local remote (m_content local) (m_content remote),
      m_tags = merge_tags (m_tags local) (m_tags remote),
      m_priority = merge_counter (>) (m_priority local) (m_priority remote),
      m_confidence = merge_counter f64_gt (m_confidence local) (m_confidence remote),
      m_source = lww local remote (m_source local) (m_source remote),
      m_access_count = merge_counter (>) (m_access_count local) (m_access_count remote),
      m_created_at =
        (if m_created_at remote < m_created_at local then m_created_at remote else m_created_at local),
      m_updated_at =
        (if m_updated_at remote > m_updated_at local then m_updated_at remote else m_updated_at local),
      m_last_accessed_at = max_opt_string (m_last_accessed_at local) (m_last_accessed_at remote),
      m_expires_at = merge_expires_at (m_expires_at local) (m_expires_at remote),
      m_metadata = merge_metadata local remote,
      m_reflection_depth = merge_counter (>) (m_reflection_depth local) (m_reflection_depth remote),
      m_memory_kind = lww local remote (m_memory_kind local) (m_memory_kind remote),
      m_entity_id = prefer_non_null_else_lww local remote (m_entity_id local) (m_entity_id remote),
      m_persona_version =
        prefer_non_null_else_lww local remote (m_persona_version local) (m_persona_version remote),
      m_citations =
        (if m_citations local = [] then m_citations remote
         else if m_citations remote = [] then m_citations local
         else lww local remote (m_citations local) (m_citations remote)),
      m_source_uri = prefer_non_null_else_lww local remote (m_source_uri local) (m_source_uri remote),
      m_source_span =
        prefer_non_null_else_lww local remote (m_source_span local) (m_source_span remote),
      m_confidence_source = lww local remote (m_confidence_source local) (m_confidence_source remote),
      m_confidence_signals = prefer_non_null_else_lww local remote
        (m_confidence_signals local) (m_confidence_signals remote),
      m_confidence_decayed_at = prefer_non_null_else_lww local remote
        (m_confidence_decayed_at local) (m_confidence_decayed_at remote),
      m_version = merge_counter (>) (m_version local) (m_version remote),
      m_lifecycle_state = lww local remote (m_lifecycle_state local) (m_lifecycle_state remote),
      m_cid = m_cid local\<rparr>"

section \<open>Deep merge of objects\<close>

definition combine :: "bool \<Rightarrow> json option \<Rightarrow> json option \<Rightarrow> json option" where
  "combine w l r =
     (case (l, r) of
        (Some a, Some b) \<Rightarrow> Some (deep_merge_json a b w)
      | (Some a, None) \<Rightarrow> Some a
      | (None, b) \<Rightarrow> b)"

lemma deep_merge_entries_wf: "bt_wf m \<Longrightarrow> bt_wf (deep_merge_entries m r w)"
  by (induction r arbitrary: m) (auto split: option.split)

lemma deep_merge_entries_get:
  "bt_wf m \<Longrightarrow> distinct (map fst r) \<Longrightarrow>
    map_of (deep_merge_entries m r w) k = combine w (map_of m k) (map_of r k)"
proof (induction r arbitrary: m)
  case Nil
  then show ?case by (simp add: combine_def split: option.split)
next
  case (Cons e r)
  obtain q v where e: "e = (q, v)" by (cases e)
  have q: "map_of r q = None" using Cons.prems(2) e by (simp add: map_of_eq_None_iff)
  show ?case
  proof (cases "map_of m q")
    case None
    then show ?thesis using Cons q by (auto simp: e combine_def split: option.split)
  next
    case (Some l)
    then show ?thesis using Cons q by (auto simp: e combine_def split: option.split)
  qed
qed

lemma deep_merge_wf:
  "wf_json a \<Longrightarrow> wf_json b \<Longrightarrow> wf_json (deep_merge_json a b w)"
  "wf_json (JObj m) \<Longrightarrow> (\<forall>e \<in> set r. wf_json (snd e)) \<Longrightarrow> wf_json (JObj (deep_merge_entries m r w))"
proof (induction a b w and m r w rule: deep_merge_json_deep_merge_entries.induct)
  case (4 m key rval r w)
  show ?case
  proof (cases "map_of m key")
    case None
    then show ?thesis
      using 4 wf_json_insert [of m rval key] by simp
  next
    case (Some l)
    then have "wf_json l" using wf_json_get [OF 4(4)] by simp
    then have "wf_json (deep_merge_json l rval w)" using 4 Some by simp
    then show ?thesis
      using 4 Some wf_json_insert [of m _ key] by simp
  qed
qed auto

lemma deep_merge_object:
  "json_is_object l \<Longrightarrow> json_is_object r \<Longrightarrow> json_is_object (deep_merge_json l r w)"
  by (cases l; cases r) simp_all

lemma deep_merge_get:
  assumes "wf_json l" and "wf_json r" and "json_is_object l" and "json_is_object r"
  shows "json_get k (deep_merge_json l r w) = combine w (json_get k l) (json_get k r)"
  using assms by (cases l; cases r) (simp_all add: deep_merge_entries_get bt_wf_distinct)

lemma deep_merge_idem: "wf_json j \<Longrightarrow> deep_merge_json j j w = j"
proof (induction j)
  case (JObj m)
  have "deep_merge_entries m m w = m"
  proof (rule bt_ext)
    show "map_of (deep_merge_entries m m w) = map_of m"
    proof
      fix k
      show "map_of (deep_merge_entries m m w) k = map_of m k"
        using JObj by (cases "map_of m k")
          (fastforce simp: deep_merge_entries_get bt_wf_distinct combine_def dest: map_of_SomeD)+
    qed
  qed (use JObj in \<open>simp_all add: deep_merge_entries_wf\<close>)
  then show ?case by simp
qed simp_all

lemma deep_merge_commute:
  "wf_json a \<Longrightarrow> wf_json b \<Longrightarrow> deep_merge_json a b w = deep_merge_json b a (\<not> w)"
proof (induction a arbitrary: b)
  case (JObj m)
  show ?case
  proof (cases b)
    case b: (JObj n)
    have "deep_merge_entries m n w = deep_merge_entries n m (\<not> w)"
    proof (rule bt_ext)
      show "map_of (deep_merge_entries m n w) = map_of (deep_merge_entries n m (\<not> w))"
      proof
        fix k
        have IH: "deep_merge_json x y w = deep_merge_json y x (\<not> w)"
          if "map_of m k = Some x" "map_of n k = Some y" for x y
          using that JObj b by (fastforce dest!: map_of_SomeD)
        have "combine w (map_of m k) (map_of n k) = combine (\<not> w) (map_of n k) (map_of m k)"
          using IH by (cases "map_of m k"; cases "map_of n k") (simp_all add: combine_def)
        then show "map_of (deep_merge_entries m n w) k = map_of (deep_merge_entries n m (\<not> w)) k"
          using JObj.prems b by (simp add: deep_merge_entries_get bt_wf_distinct)
      qed
    qed (use JObj.prems b in \<open>simp_all add: deep_merge_entries_wf\<close>)
    then show ?thesis using b by simp
  qed simp_all
qed simp_all

section \<open>The clock in the metadata\<close>

lemma string_entries_keys: "string_entries m = Some es \<Longrightarrow> map fst es = map fst m"
  by (induction m arbitrary: es) (auto split: option.splits)

lemma string_entries_print: "string_entries (map (\<lambda>e. (fst e, JStr (snd e))) es) = Some es"
  by (induction es) auto

lemma entries_from_value_ok: "wf_json e \<Longrightarrow> entries_from_value e = Some es \<Longrightarrow> bt_wf es"
  by (cases e) (auto simp: bt_wf_def dest: string_entries_keys)

lemma clock_from_value_ok: "wf_json v \<Longrightarrow> vector_clock_from_value v = Some vc \<Longrightarrow> vc_ok vc"
proof (cases v rule: vector_clock_from_value.cases)
  case (1 m)
  assume v: "wf_json v" "vector_clock_from_value v = Some vc"
  show ?thesis
  proof (cases "map_of m ''entries''")
    case None
    then show ?thesis using v 1 by (auto simp: vc_ok_def)
  next
    case (Some e)
    then have "wf_json e" using v(1) 1 wf_json_get [of v "''entries''" e] by simp
    then show ?thesis using v(2) 1 Some by (auto simp: vc_ok_def intro: entries_from_value_ok)
  qed
qed (auto simp: vc_ok_def intro: entries_from_value_ok)

lemma clock_roundtrip: "vector_clock_from_value (vector_clock_to_value vc) = Some vc"
  by (simp add: vector_clock_to_value_def string_entries_print)

lemma wf_clock_value: "vc_ok vc \<Longrightarrow> wf_json (vector_clock_to_value vc)"
  by (auto simp: vector_clock_to_value_def vc_ok_def bt_wf_def comp_def)

lemma parse_clock_ok: "wf_json meta \<Longrightarrow> vc_ok (parse_version_vector meta)"
  by (auto simp: parse_version_vector_def bind_eq_Some_conv vc_ok_def [of "\<lparr>vc_entries = []\<rparr>"]
      split: option.split intro: clock_from_value_ok wf_json_get)

lemma parse_merged_clock:
  assumes "json_get ''version_vector'' meta = merged_version_vector l r"
  shows "parse_version_vector meta = vc_merge (parse_version_vector l) (parse_version_vector r)"
proof (cases "vc_entries (vc_merge (parse_version_vector l) (parse_version_vector r)) = []")
  case True
  then show ?thesis
    by (simp add: parse_version_vector_def [of meta] assms merged_version_vector_def)
next
  case False
  then show ?thesis
    by (simp add: parse_version_vector_def [of meta] assms merged_version_vector_def clock_roundtrip)
qed

section \<open>Lookups in merged metadata\<close>

lemma wf_put_or_remove:
  "wf_json (JObj m) \<Longrightarrow> (\<And>x. v = Some x \<Longrightarrow> wf_json x) \<Longrightarrow> wf_json (JObj (put_or_remove k v m))"
  using wf_json_insert wf_json_remove by (cases v) (simp_all only: put_or_remove_def option.case)

lemma map_of_put_or_remove:
  "wf_json (JObj m) \<Longrightarrow> map_of (put_or_remove k v m) = (map_of m)(k := v)"
  by (simp add: put_or_remove_def split: option.split)

definition local_keys :: "string list" where
  "local_keys = [''agent_id'', ''governance'', ''contradiction_conserved'', ''contradiction_soft_loser'',
     ''contradiction_winner_id'']"

definition merged_key :: "json \<Rightarrow> json \<Rightarrow> bool \<Rightarrow> string \<Rightarrow> json option" where
  "merged_key l r w k =
     (if k \<in> set local_keys then json_get k l
      else if k = ''scope'' then scope_winner l r w
      else if k = ''version_vector'' then merged_version_vector l r
      else combine w (json_get k l) (json_get k r))"

definition plain_meta :: "json \<Rightarrow> bool" where
  "plain_meta j \<longleftrightarrow> wf_json j \<and> json_is_object j"

lemma merge_metadata_get:
  assumes "plain_meta (m_metadata l)" and "plain_meta (m_metadata r)"
  shows "plain_meta (merge_metadata l r)"
    and "json_get k (merge_metadata l r) =
      merged_key (m_metadata l) (m_metadata r) (remote_wins_lww l r) k"
proof -
  let ?w = "remote_wins_lww l r" and ?l = "m_metadata l" and ?r = "m_metadata r"
  have wf: "wf_json ?l" "wf_json ?r" "json_is_object ?l" "json_is_object ?r"
    using assms by (simp_all add: plain_meta_def)
  obtain m where m: "deep_merge_json ?l ?r ?w = JObj m"
    using deep_merge_object [OF wf(3,4), of ?w] by (cases "deep_merge_json ?l ?r ?w") simp_all
  have wm: "wf_json (JObj m)" using deep_merge_wf(1) [OF wf(1,2), of ?w] m by simp
  have get_m: "map_of m = (\<lambda>k. combine ?w (json_get k ?l) (json_get k ?r))"
    using deep_merge_get [OF wf, of _ ?w] m by (auto simp: fun_eq_iff)
  have v: "wf_json x" if "json_get k ?l = Some x" for k x
    using wf_json_get [OF wf(1) that] .
  have sc: "wf_json x" if "scope_winner ?l ?r ?w = Some x" for x
    using that wf_json_get [OF wf(1)] wf_json_get [OF wf(2)]
    by (auto simp: scope_winner_def Let_def split: option.splits if_splits)
  have vv: "wf_json x" if "merged_version_vector ?l ?r = Some x" for x
    using that wf by (auto simp: merged_version_vector_def Let_def parse_clock_ok vc_ok_merge
        intro!: wf_clock_value split: if_splits)
  note steps = wf_put_or_remove map_of_put_or_remove wm v sc vv
  have "merge_metadata l r = JObj
      (put_or_remove ''contradiction_winner_id'' (json_get ''contradiction_winner_id'' ?l)
      (put_or_remove ''contradiction_soft_loser'' (json_get ''contradiction_soft_loser'' ?l)
      (put_or_remove ''contradiction_conserved'' (json_get ''contradiction_conserved'' ?l)
      (put_or_remove ''version_vector'' (merged_version_vector ?l ?r)
      (put_or_remove ''governance'' (json_get ''governance'' ?l)
      (put_or_remove ''scope'' (scope_winner ?l ?r ?w)
      (put_or_remove ''agent_id'' (json_get ''agent_id'' ?l) m)))))))" (is "_ = JObj ?obj")
    by (simp add: merge_metadata_def m Let_def)
  moreover have "wf_json (JObj ?obj)"
    by (intro wf_put_or_remove wm) (auto dest: v sc vv)
  ultimately show "plain_meta (merge_metadata l r)"
    and "json_get k (merge_metadata l r) = merged_key ?l ?r ?w k"
    by (simp_all add: plain_meta_def steps get_m merged_key_def local_keys_def del: wf_json.simps)
qed

section \<open>The lattice fields\<close>

lemma or_set_foldl: "set (foldl or_set_push out xs) = set out \<union> set xs"
  by (induction xs arbitrary: out) (auto simp: or_set_push_def)

lemma set_merge_tags [simp]: "set (merge_tags l r) = set l \<union> set r"
  by (simp add: merge_tags_def or_set_merge_def or_set_foldl)

lemma or_set_foldl_distinct: "distinct out \<Longrightarrow> distinct (foldl or_set_push out xs)"
  by (induction xs arbitrary: out) (auto simp: or_set_push_def)

lemma distinct_merge_tags: "distinct (merge_tags l r)"
  by (simp add: merge_tags_def or_set_merge_def or_set_foldl_distinct)

lemma or_set_foldl_fresh: "distinct (out @ xs) \<Longrightarrow> foldl or_set_push out xs = out @ xs"
  by (induction xs arbitrary: out) (auto simp: or_set_push_def)

lemma or_set_foldl_seen: "set xs \<subseteq> set out \<Longrightarrow> foldl or_set_push out xs = out"
  by (induction xs arbitrary: out) (auto simp: or_set_push_def)

lemma merge_tags_idem: "distinct ts \<Longrightarrow> merge_tags ts ts = ts"
  using or_set_foldl_fresh [of "[]" ts] by (simp add: merge_tags_def or_set_merge_def or_set_foldl_seen)

lemma merge_counter_max: "merge_counter (>) a b = max a (b :: int)"
  by (simp add: merge_counter_def pn_counter_merge_def)

lemma max_opt_string_max: "max_opt_string a b = max a b"
  by (cases a; cases b) (auto simp: max_def)

lemma merge_tier_semilattice:
  "merge_tier a b = merge_tier b a" "merge_tier (merge_tier a b) c = merge_tier a (merge_tier b c)"
  "merge_tier a a = a"
  by (cases a; cases b; cases c; simp add: merge_tier_def)+

lemma merge_expires_semilattice:
  "merge_expires_at a b = merge_expires_at b a"
  "merge_expires_at (merge_expires_at a b) c = merge_expires_at a (merge_expires_at b c)"
  "merge_expires_at a a = a"
  by (cases a; cases b; cases c; auto)+

lemma f64_merge_semilattice:
  "a \<noteq> NaN \<Longrightarrow> b \<noteq> NaN \<Longrightarrow> merge_counter f64_gt a b = merge_counter f64_gt b a"
  "a \<noteq> NaN \<Longrightarrow> b \<noteq> NaN \<Longrightarrow> c \<noteq> NaN \<Longrightarrow>
    merge_counter f64_gt (merge_counter f64_gt a b) c = merge_counter f64_gt a (merge_counter f64_gt b c)"
  "merge_counter f64_gt a a = a"
  "a \<noteq> NaN \<Longrightarrow> b \<noteq> NaN \<Longrightarrow> merge_counter f64_gt a b \<noteq> NaN"
  by (cases a; cases b; cases c; auto simp: merge_counter_def pn_counter_merge_def)+

record lattice_fields =
  lf_id :: string
  lf_tier :: tier
  lf_tags :: "string set"
  lf_priority :: int
  lf_confidence :: f64
  lf_access_count :: int
  lf_created_at :: string
  lf_updated_at :: string
  lf_last_accessed_at :: "string option"
  lf_expires_at :: "string option"
  lf_reflection_depth :: int
  lf_version :: int
  lf_clock :: vector_clock

definition lattice_view :: "memory \<Rightarrow> lattice_fields" where
  "lattice_view m =
     \<lparr>lf_id = m_id m, lf_tier = m_tier m, lf_tags = set (m_tags m), lf_priority = m_priority m,
      lf_confidence = m_confidence m, lf_access_count = m_access_count m,
      lf_created_at = m_created_at m, lf_updated_at = m_updated_at m,
      lf_last_accessed_at = m_last_accessed_at m, lf_expires_at = m_expires_at m,
      lf_reflection_depth = m_reflection_depth m, lf_version = m_version m,
      lf_clock = parse_version_vector (m_metadata m)\<rparr>"

text \<open>A row of the id \<open>i\<close> as validated writes produce it: the metadata is an object and the
  confidence is a number.\<close>

definition valid_row :: "string \<Rightarrow> memory \<Rightarrow> bool" where
  "valid_row i m \<longleftrightarrow> m_id m = i \<and> plain_meta (m_metadata m) \<and> m_confidence m \<noteq> NaN"

definition lattice_join :: "lattice_fields \<Rightarrow> lattice_fields \<Rightarrow> lattice_fields" where
  "lattice_join f g =
    \<lparr>lf_id = lf_id f, lf_tier = merge_tier (lf_tier f) (lf_tier g),
     lf_tags = lf_tags f \<union> lf_tags g, lf_priority = max (lf_priority f) (lf_priority g),
     lf_confidence = merge_counter f64_gt (lf_confidence f) (lf_confidence g),
     lf_access_count = max (lf_access_count f) (lf_access_count g),
     lf_created_at = min (lf_created_at f) (lf_created_at g),
     lf_updated_at = max (lf_updated_at f) (lf_updated_at g),
     lf_last_accessed_at = max (lf_last_accessed_at f) (lf_last_accessed_at g),
     lf_expires_at = merge_expires_at (lf_expires_at f) (lf_expires_at g),
     lf_reflection_depth = max (lf_reflection_depth f) (lf_reflection_depth g),
     lf_version = max (lf_version f) (lf_version g),
     lf_clock = vc_merge (lf_clock f) (lf_clock g)\<rparr>"

definition lattice_ok :: "string \<Rightarrow> lattice_fields \<Rightarrow> bool" where
  "lattice_ok i f \<longleftrightarrow> lf_id f = i \<and> lf_confidence f \<noteq> NaN \<and> vc_ok (lf_clock f)"

lemma lattice_join_commute:
  "lattice_ok i f \<Longrightarrow> lattice_ok i g \<Longrightarrow> lattice_join f g = lattice_join g f"
  by (simp add: lattice_join_def lattice_ok_def merge_tier_semilattice(1)
      merge_expires_semilattice(1) f64_merge_semilattice(1) clock.commute max.commute min.commute
      Un_commute)

lemma lattice_join_assoc:
  "lattice_ok i f \<Longrightarrow> lattice_ok i g \<Longrightarrow> lattice_ok i h \<Longrightarrow>
    lattice_join (lattice_join f g) h = lattice_join f (lattice_join g h)"
  by (simp add: lattice_join_def lattice_ok_def merge_tier_semilattice(2)
      merge_expires_semilattice(2) f64_merge_semilattice(2) clock.assoc max.assoc min.assoc Un_assoc)

lemma lattice_join_idem: "lattice_ok i f \<Longrightarrow> lattice_join f f = f"
  by (simp add: lattice_join_def lattice_ok_def merge_tier_semilattice(3)
      merge_expires_semilattice(3) f64_merge_semilattice(3) clock.idem)

lemmas lattice_join_laws = lattice_join_commute lattice_join_assoc lattice_join_idem

lemma lattice_view_merge:
  assumes "valid_row i a" and "valid_row i b"
  shows "lattice_view (merge_memory a b) = lattice_join (lattice_view a) (lattice_view b)"
proof -
  have "parse_version_vector (merge_metadata a b) =
      vc_merge (parse_version_vector (m_metadata a)) (parse_version_vector (m_metadata b))"
    by (rule parse_merged_clock)
      (use assms in \<open>simp add: merge_metadata_get valid_row_def merged_key_def local_keys_def\<close>)
  then show ?thesis
    by (auto simp: lattice_view_def lattice_join_def merge_memory_def merge_counter_max
        max_opt_string_max max_def min_def)
qed

lemma valid_row_merge: "valid_row i a \<Longrightarrow> valid_row i b \<Longrightarrow> valid_row i (merge_memory a b)"
  by (simp add: valid_row_def merge_memory_def merge_metadata_get f64_merge_semilattice)

lemma valid_row_ok: "valid_row i a \<Longrightarrow> lattice_ok i (lattice_view a)"
  by (simp add: valid_row_def plain_meta_def parse_clock_ok lattice_ok_def lattice_view_def)

interpretation rows: replicated "valid_row i" merge_memory lattice_view for i
proof
  fix a b c
  assume v: "valid_row i a" "valid_row i b"
  then show "valid_row i (merge_memory a b)" by (rule valid_row_merge)
  show "lattice_view (merge_memory a b) = lattice_view (merge_memory b a)"
    using v by (simp add: lattice_view_merge lattice_join_laws(1) [of i] valid_row_ok)
  assume "valid_row i c"
  with v show "lattice_view (merge_memory (merge_memory a b) c) =
      lattice_view (merge_memory a (merge_memory b c))"
    by (simp add: lattice_view_merge [of i] valid_row_merge lattice_join_laws(2) [of i] valid_row_ok)
next
  fix a assume "valid_row i a"
  then show "lattice_view (merge_memory a a) = lattice_view a"
    by (simp add: lattice_view_merge lattice_join_laws(3) [of i] valid_row_ok)
qed (simp add: lattice_view_merge [of i])

section \<open>Last writer wins\<close>

lemma merge_memory_sel:
  "m_namespace (merge_memory l r) = lww l r (m_namespace l) (m_namespace r)"
  "m_title (merge_memory l r) = lww l r (m_title l) (m_title r)"
  "m_content (merge_memory l r) = lww l r (m_content l) (m_content r)"
  "m_source (merge_memory l r) = lww l r (m_source l) (m_source r)"
  "m_memory_kind (merge_memory l r) = lww l r (m_memory_kind l) (m_memory_kind r)"
  "m_confidence_source (merge_memory l r) = lww l r (m_confidence_source l) (m_confidence_source r)"
  "m_lifecycle_state (merge_memory l r) = lww l r (m_lifecycle_state l) (m_lifecycle_state r)"
  "m_entity_id (merge_memory l r) = prefer_non_null_else_lww l r (m_entity_id l) (m_entity_id r)"
  "m_persona_version (merge_memory l r) = prefer_non_null_else_lww l r (m_persona_version l) (m_persona_version r)"
  "m_source_uri (merge_memory l r) = prefer_non_null_else_lww l r (m_source_uri l) (m_source_uri r)"
  "m_source_span (merge_memory l r) = prefer_non_null_else_lww l r (m_source_span l) (m_source_span r)"
  "m_confidence_signals (merge_memory l r) = prefer_non_null_else_lww l r (m_confidence_signals l) (m_confidence_signals r)"
  "m_confidence_decayed_at (merge_memory l r) = prefer_non_null_else_lww l r (m_confidence_decayed_at l) (m_confidence_decayed_at r)"
  "m_citations (merge_memory l r) =
     (if m_citations l = [] then m_citations r
      else if m_citations r = [] then m_citations l
      else lww l r (m_citations l) (m_citations r))"
  "m_id (merge_memory l r) = m_id l" "m_cid (merge_memory l r) = m_cid l"
  "m_metadata (merge_memory l r) = merge_metadata l r"
  unfolding merge_memory_def memory.select_convs by (rule refl)+

definition lww_fields :: "memory \<Rightarrow> string \<times> string \<times> string \<times> string \<times> memory_kind \<times>
    confidence_source \<times> lifecycle_state" where
  "lww_fields m = (m_namespace m, m_title m, m_content m, m_source m, m_memory_kind m,
     m_confidence_source m, m_lifecycle_state m)"

lemma lww_fields_merge:
  "lww_fields (merge_memory l r) = (if remote_wins_lww l r then lww_fields r else lww_fields l)"
  by (simp add: lww_fields_def merge_memory_def lww_def)

lemma updated_merge: "m_updated_at (merge_memory l r) = max (m_updated_at l) (m_updated_at r)"
  by (auto simp: merge_memory_def max_def)

lemma newer_wins: "m_updated_at l < m_updated_at r \<Longrightarrow> remote_wins_lww l r"
  by (simp add: remote_wins_lww_def lww_key_def less_prod_def)

lemma older_loses: "m_updated_at r < m_updated_at l \<Longrightarrow> \<not> remote_wins_lww l r"
  using newer_wins [of r l] by (auto simp: remote_wins_lww_def)

lemma after_newest:
  assumes "lww_fields s = lww_fields x" and "m_updated_at s = m_updated_at x"
    and "\<forall>y \<in> set ys. y = x \<or> m_updated_at y < m_updated_at x"
  shows "lww_fields (foldl merge_memory s ys) = lww_fields x"
  using assms
proof (induction ys arbitrary: s)
  case (Cons y ys)
  have "lww_fields (merge_memory s y) = lww_fields x"
    using Cons.prems older_loses [of y s] by (auto simp: lww_fields_merge)
  moreover have "m_updated_at (merge_memory s y) = m_updated_at x"
    using Cons.prems by (auto simp: updated_merge max_def)
  ultimately show ?case using Cons by simp
qed simp

lemma reach_newest:
  assumes "m_updated_at s < m_updated_at x" and "x \<in> set ys"
    and "\<forall>y \<in> set ys. y = x \<or> m_updated_at y < m_updated_at x"
  shows "lww_fields (foldl merge_memory s ys) = lww_fields x"
  using assms
proof (induction ys arbitrary: s)
  case (Cons y ys)
  show ?case
  proof (cases "y = x")
    case True
    have "lww_fields (merge_memory s x) = lww_fields x" "m_updated_at (merge_memory s x) = m_updated_at x"
      using Cons.prems(1) newer_wins [of s x] by (auto simp: lww_fields_merge updated_merge max_def)
    then show ?thesis using after_newest True Cons.prems(3) by simp
  next
    case False
    then have "m_updated_at (merge_memory s y) < m_updated_at x"
      using Cons.prems by (simp add: updated_merge)
    then show ?thesis using Cons False by simp
  qed
qed simp

section \<open>Properties\<close>

definition demo_row :: "string \<Rightarrow> string \<Rightarrow> string list \<Rightarrow> (string \<times> json) list \<Rightarrow> memory" where
  "demo_row title updated tags meta =
     \<lparr>m_id = ''m1'', m_tier = Mid, m_namespace = ''ns'', m_title = title, m_content = ''c'',
      m_tags = tags, m_priority = 5, m_confidence = Finite 1, m_source = ''user'',
      m_access_count = 0, m_created_at = ''2026'', m_updated_at = updated,
      m_last_accessed_at = None, m_expires_at = None, m_metadata = JObj meta,
      m_reflection_depth = 0, m_memory_kind = Observation, m_entity_id = None,
      m_persona_version = None, m_citations = [], m_source_uri = None, m_source_span = None,
      m_confidence_source = CallerProvided, m_confidence_signals = None,
      m_confidence_decayed_at = None, m_version = 1, m_lifecycle_state = Open, m_cid = None\<rparr>"

lemma demo_row_valid: "wf_json (JObj meta) \<Longrightarrow> valid_row ''m1'' (demo_row t u ts meta)"
  by (simp add: valid_row_def plain_meta_def demo_row_def)

lemma demo_row_simps [simp]:
  "m_id (demo_row t u ts meta) = ''m1''" "m_updated_at (demo_row t u ts meta) = u"
  "m_title (demo_row t u ts meta) = t" "m_tags (demo_row t u ts meta) = ts"
  "m_metadata (demo_row t u ts meta) = JObj meta"
  by (simp_all add: demo_row_def)

lemma fold_is_join:
  assumes "\<forall>x \<in> insert s (set xs). valid_row i x"
  shows "lattice_view (foldl merge_memory s xs) =
    foldl lattice_join (lattice_view s) (map lattice_view xs)"
  using assms
proof (induction xs rule: rev_induct)
  case (snoc x xs)
  moreover have "valid_row i (foldl merge_memory s xs)"
    using snoc.prems by (intro rows.ok_foldl) auto
  ultimately show ?case by (simp add: lattice_view_merge [of i])
qed simp

text \<open>C6: Replicas of a row converge on every lattice field, with the joined content. Take a
  replica that starts from its own row and merges in other replicas' rows, in any order and
  with any repetitions. Its durability tier, tag set, priority, counters, confidence, creation,
  update, access and expiry times, version and version vector are the field by field joins
  (union, maximum, minimum, merge of the clocks) of all the rows it has met; and any other
  replica, started from another of these rows, that has met the same rows agrees with it on all
  of them.\<close>

theorem merge_memory_converges:
  assumes "\<forall>x \<in> insert s (set xs). valid_row i x"
    and "insert s (set xs) = insert t (set ys)"
  shows "lattice_view (foldl merge_memory s xs) =
      foldl lattice_join (lattice_view s) (map lattice_view xs) \<and>
    lattice_view (foldl merge_memory s xs) = lattice_view (foldl merge_memory t ys)"
  using fold_is_join [OF assms(1)] rows.replicas_agree [OF assms] by simp

theorem merge_memory_converges_witness:
  "set (m_tags (foldl merge_memory (demo_row ''a'' ''2'' [''x''] []) [demo_row ''b'' ''3'' [''y''] []])) =
     {''x'', ''y''} \<and>
   set (m_tags (foldl merge_memory (demo_row ''b'' ''3'' [''y''] [])
     [demo_row ''a'' ''2'' [''x''] [], demo_row ''b'' ''3'' [''y''] []])) = {''x'', ''y''}"
proof -
  let ?a = "demo_row ''a'' ''2'' [''x''] []" and ?b = "demo_row ''b'' ''3'' [''y''] []"
  have m: "lattice_view (foldl merge_memory ?a [?b]) =
      foldl lattice_join (lattice_view ?a) (map lattice_view [?b]) \<and>
    lattice_view (foldl merge_memory ?a [?b]) = lattice_view (foldl merge_memory ?b [?a, ?b])"
    by (rule merge_memory_converges [of _ _ "''m1''"]) (auto intro: demo_row_valid)
  have "lf_tags (lattice_join (lattice_view ?a) (lattice_view ?b)) = {''x'', ''y''}"
    by (auto simp: lattice_view_def lattice_join_def)
  then have "lf_tags (lattice_view (foldl merge_memory ?a [?b])) = {''x'', ''y''}"
    using conjunct1 [OF m] by simp
  moreover from this have "lf_tags (lattice_view (foldl merge_memory ?b [?a, ?b])) = {''x'', ''y''}"
    unfolding conjunct2 [OF m] .
  ultimately show ?thesis by (simp add: lattice_view_def)
qed

text \<open>The newest replica wins the last-writer fields: if one replica of a set has the strictly
  latest update time, its namespace, title, content, source, kind, confidence source and
  lifecycle state are the merged ones, whatever the order and repetition of the merges.\<close>

theorem newest_replica_wins:
  assumes "x \<in> set xs" and "m_updated_at s < m_updated_at x"
    and "\<forall>y \<in> set xs. y = x \<or> m_updated_at y < m_updated_at x"
  shows "lww_fields (foldl merge_memory s xs) = lww_fields x"
  using reach_newest [OF assms(2,1,3)] .

theorem newest_replica_wins_witness:
  "lww_fields (foldl merge_memory (demo_row ''a'' ''1'' [] [])
     [demo_row ''b'' ''3'' [] [], demo_row ''c'' ''2'' [] []]) = lww_fields (demo_row ''b'' ''3'' [] [])"
  by (rule newest_replica_wins) (simp_all add: list_less_def)

text \<open>A peer never rewrites what the local row owns: whatever the peer sends in an object of
  metadata, and however late its update time, the merged row keeps the local id, content id,
  author, governance and contradiction markers, and drops such keys the local row never had.\<close>

theorem local_owned_immutable:
  assumes "plain_meta (m_metadata l)" and "plain_meta (m_metadata r)" and "k \<in> set local_keys"
  shows "json_get k (m_metadata (merge_memory l r)) = json_get k (m_metadata l) \<and>
    m_cid (merge_memory l r) = m_cid l \<and> m_id (merge_memory l r) = m_id l"
proof -
  have "m_metadata (merge_memory l r) = merge_metadata l r" by (simp add: merge_memory_def)
  then have "json_get k (m_metadata (merge_memory l r)) = json_get k (m_metadata l)"
    using merge_metadata_get(2) [OF assms(1,2)] assms(3) by (simp add: merged_key_def)
  then show ?thesis by (simp add: merge_memory_def)
qed

theorem local_owned_immutable_witness:
  "json_get ''agent_id'' (m_metadata (merge_memory (demo_row ''a'' ''1'' [] [(''agent_id'', JStr ''alice'')])
     (demo_row ''b'' ''9'' [] [(''agent_id'', JStr ''mallory'')]))) = Some (JStr ''alice'')"
proof -
  have "plain_meta (m_metadata (demo_row t u [] [(''agent_id'', JStr who)]))" for t u who
    by (simp add: plain_meta_def bt_wf_def)
  from local_owned_immutable [OF this this, of "''agent_id''"] show ?thesis
    by (simp add: local_keys_def)
qed

lemma meta_ext:
  assumes "plain_meta a" and "plain_meta b" and "\<And>k. json_get k a = json_get k b"
  shows "a = b"
proof -
  obtain m n where mn: "a = JObj m" "b = JObj n"
    using assms(1,2) by (cases a; cases b) (auto simp: plain_meta_def)
  have "m = n"
    by (rule bt_ext) (use assms mn in \<open>auto simp: plain_meta_def fun_eq_iff\<close>)
  then show ?thesis using mn by simp
qed

definition normal_row :: "memory \<Rightarrow> bool" where
  "normal_row m \<longleftrightarrow> plain_meta (m_metadata m) \<and> distinct (m_tags m) \<and>
     json_get ''version_vector'' (m_metadata m) =
       merged_version_vector (m_metadata m) (m_metadata m)"

lemma merged_key_same:
  assumes "normal_row m"
  shows "merged_key (m_metadata m) (m_metadata m) w k = json_get k (m_metadata m)"
proof -
  have "deep_merge_json x x w = x" if "json_get k (m_metadata m) = Some x" for x
    using deep_merge_idem wf_json_get assms that by (auto simp: normal_row_def plain_meta_def)
  then have "combine w (json_get k (m_metadata m)) (json_get k (m_metadata m)) = json_get k (m_metadata m)"
    by (cases "json_get k (m_metadata m)") (simp_all add: combine_def)
  moreover have "scope_winner (m_metadata m) (m_metadata m) w = json_get ''scope'' (m_metadata m)"
    by (simp add: scope_winner_def Let_def split: option.split)
  ultimately show ?thesis
    using assms by (simp add: merged_key_def normal_row_def)
qed

lemma normal_row_merge:
  assumes "plain_meta (m_metadata a)" and "plain_meta (m_metadata b)"
  shows "normal_row (merge_memory a b)"
proof -
  let ?m = "merge_metadata a b"
  have vv: "json_get ''version_vector'' ?m = merged_version_vector (m_metadata a) (m_metadata b)"
    using merge_metadata_get(2) [OF assms] by (simp add: merged_key_def local_keys_def)
  have plain: "plain_meta ?m" using merge_metadata_get(1) [OF assms] .
  have "vc_ok (parse_version_vector ?m)" using plain by (simp add: plain_meta_def parse_clock_ok)
  then have "vc_merge (parse_version_vector ?m) (parse_version_vector ?m) =
      vc_merge (parse_version_vector (m_metadata a)) (parse_version_vector (m_metadata b))"
    by (simp add: clock.idem parse_merged_clock [OF vv])
  then have "merged_version_vector ?m ?m = merged_version_vector (m_metadata a) (m_metadata b)"
    by (simp add: merged_version_vector_def)
  with vv plain show ?thesis
    by (simp add: normal_row_def merge_memory_def distinct_merge_tags)
qed

lemma lww_same: "lww_key l = lww_key r \<Longrightarrow> \<not> remote_wins_lww l r"
  by (simp add: remote_wins_lww_def)

lemma prefer_same: "prefer_non_null_else_lww m n v v = v"
  by (simp add: prefer_non_null_else_lww_def lww_def split: option.split)

text \<open>Merging is idempotent on normal rows, and every merge of object metadata yields a normal
  row: a row with distinct tags and a version vector in canonical form merges with itself to
  itself, so redelivering a merge result to a replica that holds it changes nothing.\<close>

theorem merge_idempotent:
  "(normal_row m \<longrightarrow> merge_memory m m = m) \<and>
   (plain_meta (m_metadata a) \<and> plain_meta (m_metadata b) \<longrightarrow> normal_row (merge_memory a b))"
proof -
  have "merge_memory m m = m" if n: "normal_row m"
  proof -
    have p: "plain_meta (m_metadata m)" using n by (simp add: normal_row_def)
    have "merge_metadata m m = m_metadata m"
      by (rule meta_ext) (simp_all add: p merge_metadata_get [OF p p] merged_key_same [OF n])
    moreover have "merge_tags (m_tags m) (m_tags m) = m_tags m"
      using n by (simp add: normal_row_def merge_tags_idem)
    ultimately show ?thesis
      by (intro memory.equality) (simp_all add: merge_memory_def lww_def prefer_same
          merge_tier_semilattice(3) merge_counter_max f64_merge_semilattice(3) max_opt_string_max
          merge_expires_semilattice(3))
  qed
  then show ?thesis using normal_row_merge by blast
qed

theorem merge_idempotent_witness:
  "merge_memory (demo_row ''a'' ''1'' [''x''] []) (demo_row ''a'' ''1'' [''x''] []) = demo_row ''a'' ''1'' [''x''] []"
proof -
  have "normal_row (demo_row ''a'' ''1'' [''x''] [])"
    by (simp add: normal_row_def plain_meta_def merged_version_vector_def parse_version_vector_def
        vc_merge_def)
  then show ?thesis using merge_idempotent by blast
qed

text \<open>On a tie of update time and attestation rank the two argument orders disagree: each keeps
  the last-writer fields of its own first argument, so the merge is not commutative there.\<close>

theorem merge_tie_keeps_local:
  assumes "lww_key a = lww_key b"
  shows "lww_fields (merge_memory a b) = lww_fields a \<and> lww_fields (merge_memory b a) = lww_fields b"
  using assms by (simp add: lww_fields_merge lww_same)

theorem merge_tie_keeps_local_witness:
  "lww_fields (merge_memory (demo_row ''a'' ''1'' [] []) (demo_row ''b'' ''1'' [] [])) \<noteq>
   lww_fields (merge_memory (demo_row ''b'' ''1'' [] []) (demo_row ''a'' ''1'' [] []))"
proof -
  have "lww_key (demo_row ''a'' ''1'' [] []) = lww_key (demo_row ''b'' ''1'' [] [])"
    by (simp add: lww_key_def attest_rank_def)
  from merge_tie_keeps_local [OF this] show ?thesis by (simp add: lww_fields_def)
qed

lemma remote_wins_swap: "lww_key a \<noteq> lww_key b \<Longrightarrow> remote_wins_lww b a = (\<not> remote_wins_lww a b)"
  by (auto simp: remote_wins_lww_def)

lemma lww_swap:
  assumes "lww_key a \<noteq> lww_key b"
  shows "lww b a w v = lww a b v w"
  by (simp add: lww_def remote_wins_swap [OF assms])

lemma prefer_swap:
  assumes "lww_key a \<noteq> lww_key b"
  shows "prefer_non_null_else_lww b a w v = prefer_non_null_else_lww a b v w"
  by (simp add: prefer_non_null_else_lww_def lww_swap [OF assms] split: option.split)

lemma merge_metadata_swap:
  assumes "plain_meta (m_metadata a)" and "plain_meta (m_metadata b)" and "lww_key a \<noteq> lww_key b"
    and "\<forall>k \<in> set local_keys. json_get k (m_metadata a) = json_get k (m_metadata b)"
  shows "merge_metadata a b = merge_metadata b a"
proof (rule meta_ext)
  show "plain_meta (merge_metadata a b)" "plain_meta (merge_metadata b a)"
    using assms merge_metadata_get(1) by auto
  fix k
  let ?a = "m_metadata a" and ?b = "m_metadata b" and ?w = "remote_wins_lww a b"
  have vv: "merged_version_vector ?a ?b = merged_version_vector ?b ?a"
    using assms(1,2) clock.commute [of "parse_version_vector ?a" "parse_version_vector ?b"]
    by (simp add: merged_version_vector_def plain_meta_def parse_clock_ok)
  have sc: "scope_winner ?a ?b ?w = scope_winner ?b ?a (\<not> ?w)"
    by (simp add: scope_winner_def Let_def split: option.split)
  have "deep_merge_json x y ?w = deep_merge_json y x (\<not> ?w)"
    if "json_get k ?a = Some x" "json_get k ?b = Some y" for x y
  proof (rule deep_merge_commute)
    show "wf_json x" "wf_json y"
      using that assms(1,2) wf_json_get unfolding plain_meta_def by blast+
  qed
  then have "combine ?w (json_get k ?a) (json_get k ?b) = combine (\<not> ?w) (json_get k ?b) (json_get k ?a)"
    by (cases "json_get k ?a"; cases "json_get k ?b") (simp_all add: combine_def)
  then show "json_get k (merge_metadata a b) = json_get k (merge_metadata b a)"
    unfolding merge_metadata_get(2) [OF assms(1,2)] merge_metadata_get(2) [OF assms(2,1)]
      remote_wins_swap [OF assms(3)] merged_key_def
    using vv sc assms(4) by simp
qed

text \<open>Off a tie the merge is commutative: for two valid replicas whose update time or
  attestation rank differ, and which agree on the keys a row owns locally, both argument orders
  give the same row up to the order of its tags.\<close>

theorem merge_commutes_off_ties:
  assumes "valid_row i a" and "valid_row i b" and "lww_key a \<noteq> lww_key b" and "m_cid a = m_cid b"
    and "\<forall>k \<in> set local_keys. json_get k (m_metadata a) = json_get k (m_metadata b)"
  shows "(merge_memory a b)\<lparr>m_tags := []\<rparr> = (merge_memory b a)\<lparr>m_tags := []\<rparr> \<and>
    set (m_tags (merge_memory a b)) = set (m_tags (merge_memory b a))"
proof -
  note v = rows.commute [OF assms(1,2)]
  have lat: "m_tier (merge_memory a b) = m_tier (merge_memory b a)"
    "set (m_tags (merge_memory a b)) = set (m_tags (merge_memory b a))"
    "m_priority (merge_memory a b) = m_priority (merge_memory b a)"
    "m_confidence (merge_memory a b) = m_confidence (merge_memory b a)"
    "m_access_count (merge_memory a b) = m_access_count (merge_memory b a)"
    "m_created_at (merge_memory a b) = m_created_at (merge_memory b a)"
    "m_updated_at (merge_memory a b) = m_updated_at (merge_memory b a)"
    "m_last_accessed_at (merge_memory a b) = m_last_accessed_at (merge_memory b a)"
    "m_expires_at (merge_memory a b) = m_expires_at (merge_memory b a)"
    "m_reflection_depth (merge_memory a b) = m_reflection_depth (merge_memory b a)"
    "m_version (merge_memory a b) = m_version (merge_memory b a)"
    using v by (simp_all add: lattice_view_def)
  have meta: "merge_metadata b a = merge_metadata a b" and ids: "m_id b = m_id a" "m_cid b = m_cid a"
    using assms(1,2,4) merge_metadata_swap [OF _ _ assms(3,5)] by (auto simp: valid_row_def)
  note k = lww_swap [OF assms(3)] prefer_swap [OF assms(3)]
  have rest: "m_id (merge_memory a b) = m_id (merge_memory b a)"
    "m_namespace (merge_memory a b) = m_namespace (merge_memory b a)"
    "m_title (merge_memory a b) = m_title (merge_memory b a)"
    "m_content (merge_memory a b) = m_content (merge_memory b a)"
    "m_source (merge_memory a b) = m_source (merge_memory b a)"
    "m_metadata (merge_memory a b) = m_metadata (merge_memory b a)"
    "m_memory_kind (merge_memory a b) = m_memory_kind (merge_memory b a)"
    "m_entity_id (merge_memory a b) = m_entity_id (merge_memory b a)"
    "m_persona_version (merge_memory a b) = m_persona_version (merge_memory b a)"
    "m_citations (merge_memory a b) = m_citations (merge_memory b a)"
    "m_source_uri (merge_memory a b) = m_source_uri (merge_memory b a)"
    "m_source_span (merge_memory a b) = m_source_span (merge_memory b a)"
    "m_confidence_source (merge_memory a b) = m_confidence_source (merge_memory b a)"
    "m_confidence_signals (merge_memory a b) = m_confidence_signals (merge_memory b a)"
    "m_confidence_decayed_at (merge_memory a b) = m_confidence_decayed_at (merge_memory b a)"
    "m_lifecycle_state (merge_memory a b) = m_lifecycle_state (merge_memory b a)"
    "m_cid (merge_memory a b) = m_cid (merge_memory b a)"
    unfolding merge_memory_sel k by (simp_all add: ids meta)
  show ?thesis
    by (intro conjI memory.equality) (simp_all add: lat rest)
qed

theorem merge_commutes_off_ties_witness:
  "(merge_memory (demo_row ''a'' ''1'' [''x''] []) (demo_row ''b'' ''2'' [''y''] []))\<lparr>m_tags := []\<rparr> =
   (merge_memory (demo_row ''b'' ''2'' [''y''] []) (demo_row ''a'' ''1'' [''x''] []))\<lparr>m_tags := []\<rparr>"
proof (rule conjunct1 [OF merge_commutes_off_ties [of "''m1''"]])
  show "valid_row ''m1'' (demo_row ''a'' ''1'' [''x''] [])" "valid_row ''m1'' (demo_row ''b'' ''2'' [''y''] [])"
    by (simp_all add: demo_row_valid)
  show "m_cid (demo_row ''a'' ''1'' [''x''] []) = m_cid (demo_row ''b'' ''2'' [''y''] [])"
    by (simp add: demo_row_def)
qed (simp_all add: lww_key_def)

section \<open>Inbound rows of untrusted peers\<close>

lemma sanitize_rank: "attest_rank (sanitize_inbound_attestation r) = 0"
proof (cases "m_metadata r")
  case (JObj m)
  show ?thesis
  proof (cases "map_of m ''attest_level''")
    case None
    then show ?thesis using JObj by (simp add: sanitize_inbound_attestation_def attest_rank_def)
  next
    case (Some v)
    have "map_of (bt_insert k x m) k = Some x" for k x
      by (induction k x m rule: bt_insert.induct) auto
    then show ?thesis
      using Some JObj by (simp add: sanitize_inbound_attestation_def attest_rank_def)
  qed
qed (simp_all add: sanitize_inbound_attestation_def attest_rank_def)

lemma sanitize_frame [simp]:
  "m_updated_at (sanitize_inbound_attestation r) = m_updated_at r"
  "m_id (sanitize_inbound_attestation r) = m_id r"
  by (simp_all add: sanitize_inbound_attestation_def split: json.split)

lemma clamp_frame [simp]:
  "m_id (clamp_inbound_updated_at ch r now skew) = m_id r"
  "attest_rank (clamp_inbound_updated_at ch r now skew) = attest_rank r"
  by (simp_all add: clamp_inbound_updated_at_def attest_rank_def Let_def split: option.split)

text \<open>The preparation of an inbound row in \<^verbatim>\<open>merge_inbound\<close>, and the documented round trip of the
  date library: printing an instant and parsing it back gives the same instant.\<close>

definition prepare_inbound :: "'t chrono \<Rightarrow> memory \<Rightarrow> string \<Rightarrow> int \<Rightarrow> memory" where
  "prepare_inbound ch inbound now skew =
     clamp_inbound_updated_at ch (sanitize_inbound_attestation inbound) now skew"

definition chrono_ok :: "'t chrono \<Rightarrow> bool" where
  "chrono_ok ch \<longleftrightarrow> (\<forall>t. \<exists>u. parse_rfc3339 ch (to_rfc3339 ch t) = Some u \<and> instant ch u = instant ch t)"

definition unary_chrono :: "nat chrono" where
  "unary_chrono = \<lparr>parse_rfc3339 = (\<lambda>s. Some (length s)), to_rfc3339 = (\<lambda>t. replicate t CHR ''x''),
     with_utc = (\<lambda>t. t), add_seconds = (\<lambda>t n. nat (int t + n)), instant = int\<rparr>"

lemma unary_chrono_ok: "chrono_ok unary_chrono"
  by (simp add: chrono_ok_def unary_chrono_def)

text \<open>C7: An inbound row cannot buy its way past a local one: after the receive-side preparation it
  never wins a tie of update times, whatever attestation level it claims, and its update time,
  when it parses, is at most the receiver's clock plus the skew window.\<close>

theorem inbound_cannot_clobber:
  assumes "chrono_ok ch" and "m_id r = m_id l" and "parse_rfc3339 ch now = Some n"
  shows "(m_updated_at (prepare_inbound ch r now skew) = m_updated_at l \<longrightarrow>
      lww_fields (merge_memory l (prepare_inbound ch r now skew)) = lww_fields l) \<and>
    (\<forall>t. parse_rfc3339 ch (m_updated_at (prepare_inbound ch r now skew)) = Some t \<longrightarrow>
      instant ch t \<le> instant ch (add_seconds ch n skew))"
proof -
  let ?p = "prepare_inbound ch r now skew"
  have "\<not> remote_wins_lww l ?p" if "m_updated_at ?p = m_updated_at l"
    using that assms(2)
    by (simp add: remote_wins_lww_def lww_key_def prepare_inbound_def sanitize_rank less_prod_def)
  moreover have "instant ch t \<le> instant ch (add_seconds ch n skew)"
    if "parse_rfc3339 ch (m_updated_at ?p) = Some t" for t
  proof (cases "parse_rfc3339 ch (m_updated_at r)")
    case None
    then show ?thesis
      using that assms(3) by (simp add: prepare_inbound_def clamp_inbound_updated_at_def)
  next
    case (Some u)
    obtain c where "parse_rfc3339 ch (to_rfc3339 ch (add_seconds ch n skew)) = Some c"
      "instant ch c = instant ch (add_seconds ch n skew)"
      using assms(1) unfolding chrono_ok_def by blast
    then show ?thesis
      using that Some assms(3)
      by (auto simp: prepare_inbound_def clamp_inbound_updated_at_def Let_def split: if_splits)
  qed
  ultimately show ?thesis by (simp add: lww_fields_merge)
qed

theorem inbound_cannot_clobber_witness:
  "lww_fields (merge_memory (demo_row ''a'' ''xx'' [] [])
     (prepare_inbound unary_chrono
        (demo_row ''b'' ''xx'' [] [(''attest_level'', JStr ''agent_attested'')]) ''xxx'' 300)) =
   lww_fields (demo_row ''a'' ''xx'' [] [])"
proof -
  let ?r = "demo_row ''b'' ''xx'' [] [(''attest_level'', JStr ''agent_attested'')]"
  have "parse_rfc3339 unary_chrono ''xxx'' = Some 3" by (simp add: unary_chrono_def)
  moreover have "m_updated_at (prepare_inbound unary_chrono ?r ''xxx'' 300) = ''xx''"
    by (simp add: prepare_inbound_def clamp_inbound_updated_at_def unary_chrono_def Let_def)
  ultimately show ?thesis
    using inbound_cannot_clobber [OF unary_chrono_ok, of ?r "demo_row ''a'' ''xx'' [] []" "''xxx''" 3 300]
    by simp
qed

end
