(* ===== verification/Cycle.thy ===== *)
theory Cycle
  imports Prelude
begin

text \<open>
  The gate against reflection cycles, \<^verbatim>\<open>src/kg/cycle_check.rs\<close>: a breadth-first walk along the
  existing edges from the target of a proposed edge, bounded by a hop ceiling, that answers
  whether the source is reached and on which path. The lookup of a node's neighbours may fail;
  its errors are the left values of the walk. Recording predecessors and following them back
  is a loop the code does not bound, so it is an option-valued partial function, and that it
  always returns is proved.
\<close>

section \<open>The walk\<close>

record cycle_check_result =
  would_cycle :: bool
  cycle_path :: "string list"

definition u32_max :: nat where
  "u32_max = 4294967295"

definition walk_bound :: "nat \<Rightarrow> nat" where
  "walk_bound max_depth = (let base = (if max_depth = 0 then 16 else max_depth) in min (base * 2) u32_max)"

partial_function (option) segment_loop ::
  "(string \<Rightarrow> string option) \<Rightarrow> string \<Rightarrow> string list \<Rightarrow> string \<Rightarrow> string list option" where
  "segment_loop predecessor target segment cur =
     (case predecessor cur of
        None \<Rightarrow> Some segment
      | Some pred \<Rightarrow>
          if pred = target then Some (segment @ [pred])
          else segment_loop predecessor target (segment @ [pred]) pred)"

definition reconstruct_path ::
  "string \<Rightarrow> string \<Rightarrow> string \<Rightarrow> (string \<Rightarrow> string option) \<Rightarrow> string list option" where
  "reconstruct_path source target found_at predecessor =
     map_option (\<lambda>segment. source # rev segment @ [source])
       (segment_loop predecessor target [found_at] found_at)"

text \<open>The state of the walk: the visited set, the predecessor map and the next frontier. A step
  ends with the node whose edge reaches the source, or with the updated state.\<close>

type_synonym walk_state = "string set \<times> (string \<Rightarrow> string option) \<times> string list"

fun visit_neighbors :: "string \<Rightarrow> string \<Rightarrow> string list \<Rightarrow> walk_state \<Rightarrow> walk_state + walk_state" where
  "visit_neighbors source current [] st = Inr st"
| "visit_neighbors source current (neighbor # step) (visited, predecessor, next) =
     (if neighbor = source then Inl (visited, predecessor, next)
      else if neighbor \<in> visited then visit_neighbors source current step (visited, predecessor, next)
      else visit_neighbors source current step
             (insert neighbor visited, predecessor(neighbor \<mapsto> current), next @ [neighbor]))"

datatype 'e level_outcome = LookupError 'e | SourceFound string walk_state | LevelDone walk_state

fun visit_frontier ::
  "string \<Rightarrow> (string \<Rightarrow> 'e + string list) \<Rightarrow> string list \<Rightarrow> walk_state \<Rightarrow> 'e level_outcome" where
  "visit_frontier source neighbors [] st = LevelDone st"
| "visit_frontier source neighbors (current # frontier) st =
     (case neighbors current of
        Inl e \<Rightarrow> LookupError e
      | Inr step \<Rightarrow>
          (case visit_neighbors source current step st of
             Inl st' \<Rightarrow> SourceFound current st'
           | Inr st' \<Rightarrow> visit_frontier source neighbors frontier st'))"

text \<open>The loop over levels; \<open>left\<close> is the number of levels below the ceiling.\<close>

fun walk_levels ::
  "string \<Rightarrow> string \<Rightarrow> (string \<Rightarrow> 'e + string list) \<Rightarrow> nat \<Rightarrow> string list \<Rightarrow> walk_state
    \<Rightarrow> ('e + cycle_check_result) option" where
  "walk_levels source target neighbors left [] st =
     Some (Inr \<lparr>would_cycle = False, cycle_path = []\<rparr>)"
| "walk_levels source target neighbors 0 (f # frontier) st =
     Some (Inr \<lparr>would_cycle = True, cycle_path = [source, target]\<rparr>)"
| "walk_levels source target neighbors (Suc left) (f # frontier) (visited, predecessor, _) =
     (case visit_frontier source neighbors (f # frontier) (visited, predecessor, []) of
        LookupError e \<Rightarrow> Some (Inl e)
      | SourceFound current (_, predecessor', _) \<Rightarrow>
          map_option (\<lambda>path. Inr \<lparr>would_cycle = True, cycle_path = path\<rparr>)
            (reconstruct_path source target current predecessor')
      | LevelDone (visited', predecessor', next) \<Rightarrow>
          walk_levels source target neighbors left next (visited', predecessor', []))"

definition would_create_reflection_cycle_with ::
  "string \<Rightarrow> string \<Rightarrow> nat \<Rightarrow> (string \<Rightarrow> 'e + string list) \<Rightarrow> ('e + cycle_check_result) option" where
  "would_create_reflection_cycle_with source target max_depth neighbors =
     (if source = target
      then Some (Inr \<lparr>would_cycle = True, cycle_path = [source, target]\<rparr>)
      else walk_levels source target neighbors (walk_bound max_depth) [target]
             ({target}, Map.empty, []))"

text \<open>The links table and the lookup of the sqlite backend.\<close>

record link_row =
  lk_source :: string
  lk_target :: string
  lk_relation :: string
  lk_created_at :: string
  lk_valid_from :: "string option"
  lk_valid_until :: "string option"
  lk_observed_by :: "string option"
  lk_signature :: "bytes option"
  lk_attest_level :: "string option"
  lk_source_cid :: "string option"
  lk_target_cid :: "string option"

definition forward_neighbors :: "link_row list \<Rightarrow> string \<Rightarrow> 'e + string list" where
  "forward_neighbors links node =
     Inr (map lk_target (filter (\<lambda>l. lk_source l = node \<and> lk_relation l = ''reflects_on'') links))"

definition would_create_reflection_cycle ::
  "link_row list \<Rightarrow> string \<Rightarrow> string \<Rightarrow> nat \<Rightarrow> (sql_error + cycle_check_result) option" where
  "would_create_reflection_cycle links source target max_depth =
     would_create_reflection_cycle_with source target max_depth (forward_neighbors links)"

section \<open>Predecessor chains\<close>

text \<open>\<open>trail pred t n xs\<close>: following predecessors back from \<open>n\<close> reaches \<open>t\<close>; \<open>xs\<close> are the nodes
  from \<open>t\<close> to \<open>n\<close>.\<close>

inductive trail :: "(string \<Rightarrow> string option) \<Rightarrow> string \<Rightarrow> string \<Rightarrow> string list \<Rightarrow> bool"
  for pred :: "string \<Rightarrow> string option" and t :: string where
  root: "trail pred t t [t]"
| step: "trail pred t p xs \<Longrightarrow> pred n = Some p \<Longrightarrow> n \<notin> set xs \<Longrightarrow> trail pred t n (xs @ [n])"

lemma trail_ends: "trail pred t n xs \<Longrightarrow> xs \<noteq> [] \<and> hd xs = t \<and> last xs = n \<and> distinct xs"
  by (induction rule: trail.induct) auto

lemma trail_fresh:
  assumes "trail pred t n xs" and "m \<notin> set xs"
  shows "trail (pred(m \<mapsto> p)) t n xs"
  using assms by (induction rule: trail.induct) (auto intro: trail.intros)

lemma segment_loop_trail:
  assumes "trail pred t n xs" and "pred t = None"
  shows "segment_loop pred t seg n = Some (seg @ tl (rev xs))"
  using assms
proof (induction arbitrary: seg rule: trail.induct)
  case root
  then show ?case by (simp add: segment_loop.simps)
next
  case (step p xs n)
  show ?case
  proof (cases "p = t")
    case True
    then have "xs = [t]"
      using step.hyps(1) step.prems by (auto elim: trail.cases)
    then show ?thesis using True step.hyps by (simp add: segment_loop.simps)
  next
    case False
    have "rev xs \<noteq> []" "hd (rev xs) = p"
      using trail_ends [OF step.hyps(1)] by (simp_all add: hd_rev)
    then have "[p] @ tl (rev xs) = rev xs" by (cases "rev xs") auto
    then show ?thesis
      using step.IH [of "seg @ [p]"] step.hyps(2) step.prems False
      by (simp add: segment_loop.simps [of pred t seg n])
  qed
qed

lemma reconstruct_trail:
  assumes "trail pred t n xs" and "pred t = None"
  shows "reconstruct_path s t n pred = Some (s # xs @ [s])"
proof -
  have "rev xs \<noteq> []" "hd (rev xs) = n"
    using trail_ends [OF assms(1)] by (simp_all add: hd_rev)
  then have "n # tl (rev xs) = rev xs" by (cases "rev xs") auto
  then show ?thesis
    using segment_loop_trail [OF assms, of "[n]"]
    by (simp add: reconstruct_path_def)
qed

section \<open>The invariant of the walk\<close>

definition edge :: "(string \<Rightarrow> 'e + string list) \<Rightarrow> string \<Rightarrow> string \<Rightarrow> bool" where
  "edge neighbors a b \<longleftrightarrow> (\<exists>step. neighbors a = Inr step \<and> b \<in> set step)"

text \<open>\<open>found nb t (vis, pred) n k\<close>: the recorded chain from \<open>t\<close> to \<open>n\<close> is a path of \<open>k\<close> visited nodes.\<close>

definition found :: "(string \<Rightarrow> 'e + string list) \<Rightarrow> string \<Rightarrow> string set \<Rightarrow> (string \<Rightarrow> string option)
    \<Rightarrow> string \<Rightarrow> nat \<Rightarrow> bool" where
  "found nb t vis pred n k \<longleftrightarrow>
     (\<exists>xs. trail pred t n xs \<and> set xs \<subseteq> vis \<and> successively (edge nb) xs \<and> length xs = k)"

definition walk_inv :: "(string \<Rightarrow> 'e + string list) \<Rightarrow> string \<Rightarrow> string \<Rightarrow> string set
    \<Rightarrow> (string \<Rightarrow> string option) \<Rightarrow> bool" where
  "walk_inv nb s t vis pred \<longleftrightarrow>
     pred t = None \<and> t \<in> vis \<and> s \<notin> vis \<and> (\<forall>n \<in> vis. \<exists>k. found nb t vis pred n k)"

lemma found_keep:
  assumes "found nb t vis pred n k" and "m \<notin> vis"
  shows "found nb t (insert m vis) (pred(m \<mapsto> p)) n k"
  using assms trail_fresh unfolding found_def by (metis insert_subset subset_insertI2 subsetD)

lemma found_next:
  assumes "found nb t vis pred p k" and "edge nb p m" and "m \<notin> vis"
  shows "found nb t (insert m vis) (pred(m \<mapsto> p)) m (Suc k)"
proof -
  obtain xs where xs: "trail pred t p xs" "set xs \<subseteq> vis" "successively (edge nb) xs" "length xs = k"
    using assms(1) by (auto simp: found_def)
  have "trail (pred(m \<mapsto> p)) t m (xs @ [m])"
    by (rule trail.step [OF trail_fresh [OF xs(1)]]) (use xs(2) assms(3) in auto)
  moreover have "successively (edge nb) (xs @ [m])"
    using xs(3) assms(2) trail_ends [OF xs(1)] by (simp add: successively_append_iff)
  ultimately show ?thesis
    using xs(2,4) unfolding found_def by (intro exI [of _ "xs @ [m]"]) auto
qed

lemma walk_inv_insert:
  assumes "walk_inv nb s t vis pred" and "found nb t vis pred p k" and "edge nb p m"
    and "m \<notin> vis" and "m \<noteq> s"
  shows "walk_inv nb s t (insert m vis) (pred(m \<mapsto> p))"
  using assms found_keep [of nb t vis pred] found_next [OF assms(2-4)]
  unfolding walk_inv_def by auto blast+

text \<open>What one expansion keeps: chains stay, and new nodes are in the next frontier.\<close>

definition grows :: "(string \<Rightarrow> 'e + string list) \<Rightarrow> string \<Rightarrow> walk_state \<Rightarrow> walk_state \<Rightarrow> bool" where
  "grows nb t st st' \<longleftrightarrow>
     (case (st, st') of ((vis, pred, next), (vis', pred', next')) \<Rightarrow>
        vis \<subseteq> vis' \<and> set next \<subseteq> set next' \<and> vis' - vis \<subseteq> set next' \<and>
        (\<forall>n k. found nb t vis pred n k \<longrightarrow> found nb t vis' pred' n k))"

lemma grows_refl [simp]: "grows nb t st st"
  by (simp add: grows_def split: prod.split)

lemma grows_trans: "grows nb t a b \<Longrightarrow> grows nb t b c \<Longrightarrow> grows nb t a c"
  by (cases a; cases b; cases c) (auto simp: grows_def)

lemma grows_visited: "grows nb t a b \<Longrightarrow> fst a \<subseteq> fst b"
  by (cases a; cases b) (auto simp: grows_def)

lemma grows_insert:
  "m \<notin> vis \<Longrightarrow> grows nb t (vis, pred, next) (insert m vis, pred(m \<mapsto> p), next @ [m])"
  by (auto simp: grows_def intro: found_keep)

definition level_inv :: "(string \<Rightarrow> 'e + string list) \<Rightarrow> string \<Rightarrow> string \<Rightarrow> nat \<Rightarrow> walk_state \<Rightarrow> bool" where
  "level_inv nb s t k st \<longleftrightarrow>
     (case st of (vis, pred, next) \<Rightarrow>
        walk_inv nb s t vis pred \<and> set next \<subseteq> vis \<and> (\<forall>n \<in> set next. found nb t vis pred n (Suc k)))"

lemma visit_neighbors_inv:
  assumes "level_inv nb s t k (vis, pred, next)" and "found nb t vis pred cur k"
    and "\<forall>m \<in> set ns. edge nb cur m"
  shows "(case visit_neighbors s cur ns (vis, pred, next) of
      Inl st \<Rightarrow> grows nb t (vis, pred, next) st \<and> level_inv nb s t k st \<and> s \<in> set ns
    | Inr st \<Rightarrow> grows nb t (vis, pred, next) st \<and> level_inv nb s t k st \<and> set ns \<subseteq> fst st)"
  using assms
proof (induction ns arbitrary: vis pred "next")
  case (Cons m ns)
  consider "m = s" | "m \<noteq> s" "m \<in> vis" | "m \<noteq> s" "m \<notin> vis" by blast
  then show ?case
  proof cases
    case 2
    from Cons.IH [of vis pred "next"] Cons.prems
    have "case visit_neighbors s cur ns (vis, pred, next) of
        Inl st \<Rightarrow> grows nb t (vis, pred, next) st \<and> level_inv nb s t k st \<and> s \<in> set ns
      | Inr st \<Rightarrow> grows nb t (vis, pred, next) st \<and> level_inv nb s t k st \<and> set ns \<subseteq> fst st"
      by simp
    then show ?thesis using 2 by (auto simp: grows_def split: sum.splits)
  next
    case 3
    let ?st = "(insert m vis, pred(m \<mapsto> cur), next @ [m])"
    have e: "edge nb cur m" using Cons.prems(3) by simp
    have lev: "level_inv nb s t k ?st"
      using Cons.prems(1) walk_inv_insert [OF _ Cons.prems(2) e 3(2,1)] found_next [OF Cons.prems(2) e 3(2)]
        found_keep [OF _ 3(2), of nb t pred _ "Suc k" cur] by (auto simp: level_inv_def)
    have IH: "case visit_neighbors s cur ns ?st of
        Inl st \<Rightarrow> grows nb t ?st st \<and> level_inv nb s t k st \<and> s \<in> set ns
      | Inr st \<Rightarrow> grows nb t ?st st \<and> level_inv nb s t k st \<and> set ns \<subseteq> fst st"
      by (rule Cons.IH [OF lev found_keep [OF Cons.prems(2) 3(2)]]) (use Cons.prems(3) in auto)
    have g: "grows nb t (vis, pred, next) ?st" using 3(2) by (rule grows_insert)
    have "grows nb t ?st st \<Longrightarrow> m \<in> fst st" for st by (cases st) (auto simp: grows_def)
    then show ?thesis
      using IH 3 grows_trans [OF g] by (auto split: sum.splits)
  qed (use Cons.prems in simp)
qed simp

lemma visit_frontier_inv:
  assumes "level_inv nb s t k (vis, pred, next)" and "\<forall>c \<in> set fr. found nb t vis pred c k"
  shows "(case visit_frontier s nb fr (vis, pred, next) of
      LookupError e \<Rightarrow> \<exists>c \<in> set fr. nb c = Inl e
    | SourceFound c (vis', pred', _) \<Rightarrow>
        walk_inv nb s t vis' pred' \<and> found nb t vis' pred' c k \<and> edge nb c s
    | LevelDone st \<Rightarrow> grows nb t (vis, pred, next) st \<and> level_inv nb s t k st \<and>
        (\<forall>c \<in> set fr. \<forall>m. edge nb c m \<longrightarrow> m \<in> fst st))"
  using assms
proof (induction fr arbitrary: vis pred "next")
  case (Cons c fr)
  show ?case
  proof (cases "nb c")
    case (Inr ns)
    have e: "edge nb c m \<longleftrightarrow> m \<in> set ns" for m by (simp add: edge_def Inr)
    have V: "case visit_neighbors s c ns (vis, pred, next) of
        Inl st \<Rightarrow> grows nb t (vis, pred, next) st \<and> level_inv nb s t k st \<and> s \<in> set ns
      | Inr st \<Rightarrow> grows nb t (vis, pred, next) st \<and> level_inv nb s t k st \<and> set ns \<subseteq> fst st"
      by (rule visit_neighbors_inv [OF Cons.prems(1)]) (use Cons.prems(2) e in auto)
    show ?thesis
    proof (cases "visit_neighbors s c ns (vis, pred, next)")
      case (Inl st)
      then show ?thesis
        using V Cons.prems(2) e by (cases st) (auto simp: \<open>nb c = Inr ns\<close> grows_def level_inv_def)
    next
      case (Inr st)
      obtain vis' pred' next' where st: "st = (vis', pred', next')" by (cases st)
      have g: "grows nb t (vis, pred, next) st" and l: "level_inv nb s t k st" and n: "set ns \<subseteq> fst st"
        using V Inr by auto
      have "\<forall>c \<in> set fr. found nb t vis' pred' c k"
        using g Cons.prems(2) by (simp add: grows_def st)
      note IH = Cons.IH [OF l [unfolded st] this]
      have eq: "visit_frontier s nb (c # fr) (vis, pred, next) = visit_frontier s nb fr st"
        using Inr \<open>nb c = Inr ns\<close> by simp
      show ?thesis
      proof (cases "visit_frontier s nb fr st")
        case (LookupError x)
        then show ?thesis unfolding eq using IH by (auto simp: st)
      next
        case (SourceFound x y)
        then show ?thesis unfolding eq using IH by (auto simp: st)
      next
        case (LevelDone st2)
        with IH have st2: "grows nb t st st2" "level_inv nb s t k st2"
          "\<forall>c \<in> set fr. \<forall>m. edge nb c m \<longrightarrow> m \<in> fst st2" by (simp_all add: st)
        then have "set ns \<subseteq> fst st2" using n grows_visited by blast
        then have "\<forall>x \<in> set (c # fr). \<forall>m. edge nb x m \<longrightarrow> m \<in> fst st2" using st2(3) e by auto
        then show ?thesis
          unfolding eq using LevelDone grows_trans [OF g st2(1)] st2(2) by simp
      qed
    qed
  qed auto
qed simp

definition walk_verdict :: "(string \<Rightarrow> 'e + string list) \<Rightarrow> string \<Rightarrow> string \<Rightarrow> nat
    \<Rightarrow> 'e + cycle_check_result \<Rightarrow> bool" where
  "walk_verdict nb s t n r \<longleftrightarrow>
     (case r of
        Inl e \<Rightarrow> (\<exists>c. nb c = Inl e)
      | Inr res \<Rightarrow>
          if would_cycle res
          then (\<exists>xs. cycle_path res = s # xs @ [s] \<and> xs \<noteq> [] \<and> hd xs = t \<and>
                  successively (edge nb) (xs @ [s])) \<or>
               (cycle_path res = [s, t] \<and>
                 (\<exists>xs. hd xs = t \<and> distinct xs \<and> successively (edge nb) xs \<and> length xs = n))
          else cycle_path res = [] \<and> (\<exists>V. t \<in> V \<and> s \<notin> V \<and> (\<forall>a \<in> V. \<forall>b. edge nb a b \<longrightarrow> b \<in> V)))"

lemma walk_verdict_pos:
  "walk_verdict nb s t n (Inr res) \<Longrightarrow> would_cycle res \<Longrightarrow>
    (\<exists>xs. xs \<noteq> [] \<and> hd xs = t \<and> successively (edge nb) (xs @ [s])) \<or>
    (\<exists>xs. hd xs = t \<and> distinct xs \<and> successively (edge nb) xs \<and> length xs = n)"
  unfolding walk_verdict_def by auto

lemma closed_set_blocks:
  assumes "rtranclp (edge nb) a b" and "a \<in> V" and "\<forall>a \<in> V. \<forall>b. edge nb a b \<longrightarrow> b \<in> V"
  shows "b \<in> V"
  using assms by (induction rule: rtranclp_induct) auto

lemma walk_verdict_neg:
  assumes "walk_verdict nb s t n (Inr res)" and "\<not> would_cycle res"
  shows "\<not> rtranclp (edge nb) t s"
proof -
  obtain V where "t \<in> V" "s \<notin> V" "\<forall>a \<in> V. \<forall>b. edge nb a b \<longrightarrow> b \<in> V"
    using assms unfolding walk_verdict_def by auto
  then show ?thesis using closed_set_blocks [of nb t s V] by blast
qed

lemma walk_levels_verdict:
  assumes "walk_inv nb s t vis pred" and "\<forall>c \<in> set fr. found nb t vis pred c k"
    and "\<forall>a \<in> vis - set fr. \<forall>b. edge nb a b \<longrightarrow> b \<in> vis" and "set fr \<subseteq> vis"
  shows "\<exists>r. walk_levels s t nb left fr (vis, pred, junk) = Some r \<and> walk_verdict nb s t (left + k) r"
  using assms
proof (induction left arbitrary: fr vis pred junk k)
  case 0
  show ?case
  proof (cases fr)
    case Nil
    then show ?thesis using 0 by (auto simp: walk_verdict_def walk_inv_def)
  next
    case (Cons f fr')
    then have "found nb t vis pred f k" using bspec [OF 0(2), of f] by simp
    then obtain xs where "trail pred t f xs" "successively (edge nb) xs" "length xs = k"
      unfolding found_def by blast
    moreover have "hd xs = t" "distinct xs" using trail_ends [OF calculation(1)] by simp_all
    ultimately have "\<exists>xs. hd xs = t \<and> distinct xs \<and> successively (edge nb) xs \<and> length xs = 0 + k" by auto
    then show ?thesis using Cons by (simp add: walk_verdict_def)
  qed
next
  case (Suc left)
  show ?case
  proof (cases fr)
    case Nil
    then show ?thesis using Suc by (auto simp: walk_verdict_def walk_inv_def)
  next
    case (Cons f fr')
    have "level_inv nb s t k (vis, pred, [])" using Suc.prems by (simp add: level_inv_def)
    note V = visit_frontier_inv [OF this Suc.prems(2)]
    show ?thesis
    proof (cases "visit_frontier s nb fr (vis, pred, [])")
      case (LookupError e)
      then show ?thesis using V Cons by (auto simp: walk_verdict_def)
    next
      case (SourceFound c st)
      obtain vis' pred' next' where st: "st = (vis', pred', next')" by (cases st)
      have w: "walk_inv nb s t vis' pred'" "found nb t vis' pred' c k" "edge nb c s"
        using V SourceFound by (simp_all add: st)
      then obtain xs where xs: "trail pred' t c xs" "successively (edge nb) xs"
        unfolding found_def by blast
      have "successively (edge nb) (xs @ [s])" "xs \<noteq> []" "hd xs = t"
        using xs(2) w(3) trail_ends [OF xs(1)] by (auto simp: successively_append_iff)
      then show ?thesis
        using SourceFound Cons reconstruct_trail [OF xs(1)] w(1)
        by (auto simp: st walk_inv_def walk_verdict_def)
    next
      case (LevelDone st)
      obtain vis' pred' next' where st: "st = (vis', pred', next')" by (cases st)
      have g: "vis \<subseteq> vis'" "vis' - vis \<subseteq> set next'" and l: "level_inv nb s t k (vis', pred', next')"
        and x: "\<forall>c \<in> set fr. \<forall>m. edge nb c m \<longrightarrow> m \<in> vis'"
        using V LevelDone by (simp_all add: st grows_def)
      have "\<forall>a \<in> vis' - set next'. \<forall>b. edge nb a b \<longrightarrow> b \<in> vis'"
        using g x Suc.prems(3) by blast
      then have "\<exists>r. walk_levels s t nb left next' (vis', pred', []) = Some r \<and>
          walk_verdict nb s t (left + Suc k) r"
        using l by (intro Suc.IH) (auto simp: level_inv_def)
      then show ?thesis using LevelDone Cons by (simp add: st)
    qed
  qed
qed

lemma cycle_check_verdict:
  assumes "s \<noteq> t"
  shows "\<exists>r. would_create_reflection_cycle_with s t d nb = Some r \<and>
    walk_verdict nb s t (Suc (walk_bound d)) r"
proof -
  have "trail Map.empty t t [t]" by (rule trail.root)
  then have f: "found nb t {t} Map.empty t 1"
    by (auto simp: found_def intro!: exI [of _ "[t]"])
  have "\<exists>r. walk_levels s t nb (walk_bound d) [t] ({t}, Map.empty, []) = Some r \<and>
      walk_verdict nb s t (walk_bound d + 1) r"
    by (rule walk_levels_verdict) (use assms f in \<open>auto simp: walk_inv_def\<close>)
  then show ?thesis using assms by (simp add: would_create_reflection_cycle_with_def)
qed

section \<open>Properties\<close>

lemma successively_reach:
  "successively r (x # xs) \<Longrightarrow> rtranclp r x (last (x # xs))"
proof (induction xs arbitrary: x)
  case (Cons y ys)
  then have "r x y" "rtranclp r y (last (y # ys))" by auto
  then show ?case by (simp add: converse_rtranclp_into_rtranclp)
qed simp

definition demo_neighbors :: "string \<Rightarrow> sql_error + string list" where
  "demo_neighbors n = Inr (if n = ''a'' then [''b''] else if n = ''b'' then [''c''] else [])"

text \<open>The walk always returns. Its negative verdict is sound: it is given only when no path of
  existing edges leads from the target to the source. Its positive verdict carries either a real
  closed path from the source through the target back to the source, or the pair of ends when a
  simple path of more nodes than the hop ceiling starts at the target; and it fails only when
  the lookup of some node failed.\<close>

theorem cycle_check_verdict_exact:
  "\<exists>r. would_create_reflection_cycle_with s t d nb = Some r \<and>
     (case r of
        Inl e \<Rightarrow> (\<exists>c. nb c = Inl e)
      | Inr res \<Rightarrow>
          if would_cycle res
          then (\<exists>xs. cycle_path res = s # xs @ [s] \<and> xs \<noteq> [] \<and> hd xs = t \<and>
                  successively (edge nb) (xs @ [s])) \<or>
               (cycle_path res = [s, t] \<and> (s = t \<or>
                 (\<exists>xs. hd xs = t \<and> distinct xs \<and> successively (edge nb) xs \<and>
                    length xs = Suc (walk_bound d))))
          else cycle_path res = [] \<and> \<not> rtranclp (edge nb) t s)"
proof (cases "s = t")
  case True
  then show ?thesis by (simp add: would_create_reflection_cycle_with_def)
next
  case False
  then obtain r where r: "would_create_reflection_cycle_with s t d nb = Some r"
    "walk_verdict nb s t (Suc (walk_bound d)) r"
    using cycle_check_verdict by blast
  show ?thesis
  proof (cases r)
    case (Inr res)
    then show ?thesis
      using r walk_verdict_neg [OF r(2) [unfolded Inr]] False
      by (auto simp: walk_verdict_def split: if_splits)
  qed (use r in \<open>auto simp: walk_verdict_def\<close>)
qed

text \<open>C8: On a graph whose simple paths from the target have at most as many nodes as the hop ceiling,
  and whose lookups succeed, the verdict is exactly reachability of the source from the target.\<close>

theorem cycle_check_decides:
  assumes "\<forall>c. \<exists>ns. nb c = Inr ns"
    and "\<forall>xs. hd xs = t \<and> distinct xs \<and> successively (edge nb) xs \<longrightarrow> length xs \<le> walk_bound d"
  shows "\<exists>res. would_create_reflection_cycle_with s t d nb = Some (Inr res) \<and>
    (would_cycle res \<longleftrightarrow> rtranclp (edge nb) t s)"
proof (cases "s = t")
  case True
  then show ?thesis by (simp add: would_create_reflection_cycle_with_def)
next
  case False
  then obtain r where r: "would_create_reflection_cycle_with s t d nb = Some r"
    "walk_verdict nb s t (Suc (walk_bound d)) r"
    using cycle_check_verdict by blast
  obtain res where res: "r = Inr res"
    using r(2) assms(1) by (cases r) (auto simp: walk_verdict_def, metis Inl_Inr_False)
  have short: "\<not> (hd xs = t \<and> distinct xs \<and> successively (edge nb) xs \<and> length xs = Suc (walk_bound d))" for xs
    using assms(2) by fastforce
  have "rtranclp (edge nb) t s" if pos: "would_cycle res"
  proof -
    obtain xs where xs: "xs \<noteq> []" "hd xs = t" "successively (edge nb) (xs @ [s])"
      using walk_verdict_pos [OF r(2) [unfolded res] pos] short by blast
    then obtain ys where "xs @ [s] = t # ys @ [s]" by (cases xs) auto
    with xs(3) successively_reach [of "edge nb" t "ys @ [s]"] show ?thesis by simp
  qed
  moreover have "\<not> rtranclp (edge nb) t s" if "\<not> would_cycle res"
    using walk_verdict_neg [OF r(2) [unfolded res] that] .
  ultimately show ?thesis using r(1) res by blast
qed

theorem cycle_check_decides_witness:
  "\<exists>res. would_create_reflection_cycle_with ''c'' ''a'' 8 demo_neighbors = Some (Inr res) \<and>
     (would_cycle res \<longleftrightarrow> rtranclp (edge demo_neighbors) ''a'' ''c'')"
proof (rule cycle_check_decides)
  show "\<forall>c. \<exists>ns. demo_neighbors c = Inr ns" by (simp add: demo_neighbors_def)
  have sub: "set xs \<subseteq> {hd xs, ''b'', ''c''}" if "successively (edge demo_neighbors) xs" for xs
    using that
  proof (induction xs rule: induct_list012)
    case (3 x y zs)
    then show ?case by (auto simp: edge_def demo_neighbors_def split: if_splits)
  qed auto
  have "length xs \<le> walk_bound 8"
    if "hd xs = ''a''" "distinct xs" "successively (edge demo_neighbors) xs" for xs
  proof -
    have "card (set xs) \<le> card {''a'', ''b'', ''c''}"
      by (rule card_mono) (use sub [OF that(3)] that(1) in auto)
    then show ?thesis
      using that(2) by (simp add: distinct_card walk_bound_def u32_max_def)
  qed
  then show "\<forall>xs. hd xs = ''a'' \<and> distinct xs \<and> successively (edge demo_neighbors) xs \<longrightarrow>
      length xs \<le> walk_bound 8" by blast
qed

end
