(* ===== verification/Links.thy ===== *)
theory Links
  imports Cycle Signing Memory
begin

text \<open>
  The link store of \<^verbatim>\<open>src/storage/mod.rs\<close> with the relation vocabulary of
  \<^verbatim>\<open>src/models/link.rs\<close>: the shared validation of a link write, the local and the inbound
  write, deletion, and the snapshot and restore of the edges of an archived memory.
  Of the memories table only the columns the link code reads are modelled. The append of an
  audit row after a successful write, which never changes the outcome, is left out.

  The code the writes consult but that belongs to other components is the record \<open>link_env\<close>:
  the record-stop switch, the lineage flag, the reflection depth of a namespace, the permission
  evaluator (whether it allows the write), the pre-write governance hook of a restored row and
  the date parser.
\<close>

section \<open>Relations and attestation levels\<close>

datatype link_relation =
    RelatedTo | Supersedes | Contradicts | DerivedFrom | ReflectsOn | DerivesFrom
  | DecomposesInto | DependsOn | Advances

fun link_relation_as_str :: "link_relation \<Rightarrow> string" where
  "link_relation_as_str RelatedTo = ''related_to''"
| "link_relation_as_str Supersedes = ''supersedes''"
| "link_relation_as_str Contradicts = ''contradicts''"
| "link_relation_as_str DerivedFrom = ''derived_from''"
| "link_relation_as_str ReflectsOn = ''reflects_on''"
| "link_relation_as_str DerivesFrom = ''derives_from''"
| "link_relation_as_str DecomposesInto = ''decomposes_into''"
| "link_relation_as_str DependsOn = ''depends_on''"
| "link_relation_as_str Advances = ''advances''"

definition link_relation_from_str :: "string \<Rightarrow> link_relation option" where
  "link_relation_from_str s =
     (if s = ''related_to'' then Some RelatedTo
      else if s = ''supersedes'' then Some Supersedes
      else if s = ''contradicts'' then Some Contradicts
      else if s = ''derived_from'' then Some DerivedFrom
      else if s = ''reflects_on'' then Some ReflectsOn
      else if s = ''derives_from'' then Some DerivesFrom
      else if s = ''decomposes_into'' then Some DecomposesInto
      else if s = ''depends_on'' then Some DependsOn
      else if s = ''advances'' then Some Advances
      else None)"

definition link_relation_all :: "link_relation list" where
  "link_relation_all =
     [RelatedTo, Supersedes, Contradicts, DerivedFrom, ReflectsOn, DerivesFrom, DecomposesInto,
      DependsOn, Advances]"

fun is_lineage :: "link_relation \<Rightarrow> bool" where
  "is_lineage DerivedFrom = True"
| "is_lineage ReflectsOn = True"
| "is_lineage DerivesFrom = True"
| "is_lineage r = False"

datatype link_attest = Unsigned | SelfSigned | PeerAttested | SignedByPeer | DaemonSigned
  | RecorderSigned | LineageSigned

fun link_attest_as_str :: "link_attest \<Rightarrow> string" where
  "link_attest_as_str Unsigned = ''unsigned''"
| "link_attest_as_str SelfSigned = ''self_signed''"
| "link_attest_as_str PeerAttested = ''peer_attested''"
| "link_attest_as_str SignedByPeer = ''signed_by_peer''"
| "link_attest_as_str DaemonSigned = ''daemon_signed''"
| "link_attest_as_str RecorderSigned = ''recorder_signed''"
| "link_attest_as_str LineageSigned = ''lineage_signed''"

definition link_attest_from_str :: "string \<Rightarrow> link_attest option" where
  "link_attest_from_str s =
     (if s = ''unsigned'' then Some Unsigned
      else if s = ''self_signed'' then Some SelfSigned
      else if s = ''peer_attested'' then Some PeerAttested
      else if s = ''signed_by_peer'' then Some SignedByPeer
      else if s = ''daemon_signed'' then Some DaemonSigned
      else if s = ''recorder_signed'' then Some RecorderSigned
      else if s = ''lineage_signed'' then Some LineageSigned
      else None)"

interpretation link_relation: wire_enum link_relation_as_str link_relation_from_str
proof
  show "link_relation_from_str (link_relation_as_str e) = Some e" for e
    by (cases e) (simp_all add: link_relation_from_str_def)
  show "link_relation_from_str s = Some e \<Longrightarrow> s = link_relation_as_str e" for s e
    by (auto simp: link_relation_from_str_def split: if_splits)
qed

interpretation link_attest: wire_enum link_attest_as_str link_attest_from_str
proof
  show "link_attest_from_str (link_attest_as_str e) = Some e" for e
    by (cases e) (simp_all add: link_attest_from_str_def)
  show "link_attest_from_str s = Some e \<Longrightarrow> s = link_attest_as_str e" for s e
    by (auto simp: link_attest_from_str_def split: if_splits)
qed

section \<open>State and environment\<close>

record memory_node =
  mn_id :: string
  mn_namespace :: string
  mn_created_at :: string
  mn_cid :: "string option"

record link_db =
  memories :: "memory_node list"
  memory_links :: "link_row list"
  archived_memories :: "memory_node list"
  archived_memory_links :: "link_row list"

record 't link_env =
  le_record_stopped :: bool
  le_lineage_dag :: bool
  le_max_depth :: "string \<Rightarrow> nat"
  le_permit :: "string \<Rightarrow> string \<Rightarrow> string \<Rightarrow> string \<Rightarrow> string \<Rightarrow> bool"
  le_pre_write :: "string \<Rightarrow> bool"
  le_chrono :: "'t chrono"

datatype link_end = Source | Target

datatype link_error =
    RecordStopped
  | LinkReflectionCycle string string
  | LinkPermissionDenied
  | MemoryNotFound string link_end
  | LinkSignError sign_error
  | CycleLookupError sql_error
  | CycleWalkDiverged
  | ArchiveRestoreCollision string
  | GovernanceRefused

definition memory_exists :: "link_db \<Rightarrow> string \<Rightarrow> bool" where
  "memory_exists db i = (select_by mn_id i (memories db) \<noteq> None)"

definition read_memory_cid :: "link_db \<Rightarrow> string \<Rightarrow> string option" where
  "read_memory_cid db i = Option.bind (select_by mn_id i (memories db)) mn_cid"

section \<open>Validation before a write\<close>

definition lineage_edge_is_forward :: "'t link_env \<Rightarrow> link_db \<Rightarrow> string \<Rightarrow> string \<Rightarrow> bool" where
  "lineage_edge_is_forward env db source_id target_id =
     (case (select_by mn_id source_id (memories db), select_by mn_id target_id (memories db)) of
        (Some s, Some t) \<Rightarrow>
          (case (parse_rfc3339 (le_chrono env) (mn_created_at s),
                 parse_rfc3339 (le_chrono env) (mn_created_at t)) of
             (Some source_t, Some target_t) \<Rightarrow>
               instant (le_chrono env) target_t > instant (le_chrono env) source_t
           | _ \<Rightarrow> False)
      | _ \<Rightarrow> False)"

definition link_namespace :: "link_db \<Rightarrow> string \<Rightarrow> string" where
  "link_namespace db source_id =
     (case select_by mn_id source_id (memories db) of
        Some m \<Rightarrow> mn_namespace m
      | None \<Rightarrow> ''global'')"

definition validate_link_pre_create ::
  "'t link_env \<Rightarrow> link_db \<Rightarrow> string \<Rightarrow> string \<Rightarrow> string \<Rightarrow> string \<Rightarrow> bool \<Rightarrow> bool \<Rightarrow> link_error option" where
  "validate_link_pre_create env db source_id target_id relation agent_id skip_governance
       is_federation_import =
     (let cycle_error =
        (if relation = link_relation_as_str ReflectsOn then
           (case would_create_reflection_cycle (memory_links db) source_id target_id
                   (le_max_depth env (link_namespace db source_id)) of
              None \<Rightarrow> Some CycleWalkDiverged
            | Some (Inl e) \<Rightarrow> Some (CycleLookupError e)
            | Some (Inr res) \<Rightarrow>
                if would_cycle res then Some (LinkReflectionCycle source_id target_id) else None)
         else None)
      in if \<not> is_federation_import \<and> le_lineage_dag env \<and>
            (case link_relation_from_str relation of Some r \<Rightarrow> is_lineage r | None \<Rightarrow> False) \<and>
            lineage_edge_is_forward env db source_id target_id
         then Some (LinkReflectionCycle source_id target_id)
         else if cycle_error \<noteq> None then cycle_error
         else if \<not> skip_governance \<and>
            \<not> le_permit env (link_namespace db source_id) source_id target_id relation agent_id
         then Some LinkPermissionDenied
         else None)"

section \<open>Writes\<close>

definition link_key :: "link_row \<Rightarrow> string \<times> string \<times> string" where
  "link_key l = (lk_source l, lk_target l, lk_relation l)"

text \<open>\<^verbatim>\<open>INSERT OR IGNORE\<close>: a row whose primary key is taken, or whose relation is outside the
  table's check constraint, is skipped.\<close>

definition link_insert_or_ignore :: "link_row \<Rightarrow> link_row list \<Rightarrow> link_row list" where
  "link_insert_or_ignore l t =
     (if select_by link_key (link_key l) t \<noteq> None \<or> link_relation_from_str (lk_relation l) = None
      then t else t @ [l])"

definition missing_end :: "link_db \<Rightarrow> string \<Rightarrow> string \<Rightarrow> link_error option" where
  "missing_end db source_id target_id =
     (if \<not> memory_exists db source_id then Some (MemoryNotFound source_id Source)
      else if \<not> memory_exists db target_id then Some (MemoryNotFound target_id Target)
      else None)"

text \<open>\<open>now\<close> is the clock's text, already truncated to microseconds.\<close>

definition create_link_signed ::
  "'t link_env \<Rightarrow> crypto \<Rightarrow> string \<Rightarrow> link_db \<Rightarrow> string \<Rightarrow> string \<Rightarrow> string \<Rightarrow> agent_keypair option
    \<Rightarrow> link_db \<times> (link_error + string)" where
  "create_link_signed env cr now db source_id target_id relation keypair =
     (let agent = (case keypair of Some kp \<Rightarrow> kp_agent_id kp | None \<Rightarrow> ''system'')
      in if le_record_stopped env then (db, Inl RecordStopped)
         else case validate_link_pre_create env db source_id target_id relation agent False False of
           Some e \<Rightarrow> (db, Inl e)
         | None \<Rightarrow>
           (case missing_end db source_id target_id of
              Some e \<Rightarrow> (db, Inl e)
            | None \<Rightarrow>
              (let signed = (case keypair of
                   Some kp \<Rightarrow>
                     if can_sign kp then
                       (case sign_link cr kp \<lparr>sl_src_id = source_id, sl_dst_id = target_id,
                            sl_relation = relation, sl_observed_by = Some (kp_agent_id kp),
                            sl_valid_from = Some now, sl_valid_until = None\<rparr> of
                          Inl e \<Rightarrow> Inl e
                        | Inr sig \<Rightarrow> Inr (Some sig, SelfSigned, Some (kp_agent_id kp)))
                     else Inr (None, Unsigned, None)
                 | None \<Rightarrow> Inr (None, Unsigned, None));
                   cid = (\<lambda>i. if le_lineage_dag env then read_memory_cid db i else None)
               in case signed of
                    Inl e \<Rightarrow> (db, Inl (LinkSignError e))
                  | Inr (sig, attest, observed) \<Rightarrow>
                      (db\<lparr>memory_links := link_insert_or_ignore
                         \<lparr>lk_source = source_id, lk_target = target_id, lk_relation = relation,
                          lk_created_at = now, lk_valid_from = Some now, lk_valid_until = None,
                          lk_observed_by = observed, lk_signature = sig,
                          lk_attest_level = Some (link_attest_as_str attest),
                          lk_source_cid = cid source_id, lk_target_cid = cid target_id\<rparr>
                         (memory_links db)\<rparr>,
                       Inr (link_attest_as_str attest)))))"

record memory_link =
  ml_source_id :: string
  ml_target_id :: string
  ml_relation :: link_relation
  ml_created_at :: string
  ml_signature :: "bytes option"
  ml_observed_by :: "string option"
  ml_valid_from :: "string option"
  ml_valid_until :: "string option"
  ml_attest_level :: "string option"

definition create_link_inbound ::
  "'t link_env \<Rightarrow> string \<Rightarrow> link_db \<Rightarrow> memory_link \<Rightarrow> string \<Rightarrow> link_db \<times> (link_error + unit)" where
  "create_link_inbound env now db link attest_level =
     (let relation = link_relation_as_str (ml_relation link);
          agent = (case ml_observed_by link of Some a \<Rightarrow> a | None \<Rightarrow> ''system'')
      in case validate_link_pre_create env db (ml_source_id link) (ml_target_id link) relation agent
             (attest_level = link_attest_as_str PeerAttested) True of
           Some e \<Rightarrow> (db, Inl e)
         | None \<Rightarrow>
           (case missing_end db (ml_source_id link) (ml_target_id link) of
              Some e \<Rightarrow> (db, Inl e)
            | None \<Rightarrow>
              (db\<lparr>memory_links := link_insert_or_ignore
                 \<lparr>lk_source = ml_source_id link, lk_target = ml_target_id link, lk_relation = relation,
                  lk_created_at = (if ml_created_at link = [] then now else ml_created_at link),
                  lk_valid_from = Some (case ml_valid_from link of Some v \<Rightarrow> v | None \<Rightarrow> now),
                  lk_valid_until = ml_valid_until link, lk_observed_by = ml_observed_by link,
                  lk_signature = ml_signature link, lk_attest_level = Some attest_level,
                  lk_source_cid = None, lk_target_cid = None\<rparr>
                 (memory_links db)\<rparr>,
               Inr ())))"

definition delete_link :: "link_db \<Rightarrow> string \<Rightarrow> string \<Rightarrow> link_db \<times> bool" where
  "delete_link db source_id target_id =
     (let p = (\<lambda>l. lk_source l = source_id \<and> lk_target l = target_id)
      in (db\<lparr>memory_links := delete_where p (memory_links db)\<rparr>, count_where p (memory_links db) > 0))"

definition row_to_link :: "link_row \<Rightarrow> memory_link" where
  "row_to_link l =
     \<lparr>ml_source_id = lk_source l, ml_target_id = lk_target l,
      ml_relation = (case link_relation_from_str (lk_relation l) of Some r \<Rightarrow> r | None \<Rightarrow> RelatedTo),
      ml_created_at = lk_created_at l, ml_signature = None, ml_observed_by = lk_observed_by l,
      ml_valid_from = lk_valid_from l, ml_valid_until = lk_valid_until l,
      ml_attest_level = lk_attest_level l\<rparr>"

definition touches :: "string \<Rightarrow> link_row \<Rightarrow> bool" where
  "touches i l \<longleftrightarrow> lk_source l = i \<or> lk_target l = i"

definition get_links :: "link_db \<Rightarrow> string \<Rightarrow> memory_link list" where
  "get_links db i = map row_to_link (filter (touches i) (memory_links db))"

section \<open>Archive and restore of edges\<close>

text \<open>The archive table has no content-id columns, and the restored row has none either.\<close>

definition plain_link :: "link_row \<Rightarrow> link_row" where
  "plain_link l = l\<lparr>lk_source_cid := None, lk_target_cid := None\<rparr>"

definition archive_links_for_memory :: "link_db \<Rightarrow> string \<Rightarrow> link_db" where
  "archive_links_for_memory db i =
     db\<lparr>archived_memory_links :=
       foldl (\<lambda>t l. if select_by link_key (link_key l) t = None then t @ [plain_link l] else t)
         (archived_memory_links db) (filter (touches i) (memory_links db))\<rparr>"

definition restore_links_for_memory :: "link_db \<Rightarrow> string \<Rightarrow> link_db" where
  "restore_links_for_memory db i =
     db\<lparr>memory_links :=
       foldl (\<lambda>t l. link_insert_or_ignore l t) (memory_links db)
         (filter (\<lambda>l. touches i l \<and> memory_exists db (lk_source l) \<and> memory_exists db (lk_target l))
           (archived_memory_links db))\<rparr>"

text \<open>Deleting a memory cascades to its edges. Archiving copies the row, snapshots the edges and
  deletes; restoring re-inserts the row and then the snapshot.\<close>

definition delete_memory_cascade :: "link_db \<Rightarrow> string \<Rightarrow> link_db" where
  "delete_memory_cascade db i =
     db\<lparr>memories := delete_where (\<lambda>m. mn_id m = i) (memories db),
        memory_links := delete_where (touches i) (memory_links db)\<rparr>"

definition archive_memory_no_tx :: "link_db \<Rightarrow> string \<Rightarrow> link_db \<times> bool" where
  "archive_memory_no_tx db i =
     (case select_by mn_id i (memories db) of
        None \<Rightarrow> (db, False)
      | Some m \<Rightarrow>
          (let db1 = db\<lparr>archived_memories := delete_where (\<lambda>a. mn_id a = i) (archived_memories db) @ [m]\<rparr>
           in (delete_memory_cascade (archive_links_for_memory db1 i) i, True)))"

definition restore_archived :: "'t link_env \<Rightarrow> link_db \<Rightarrow> string \<Rightarrow> link_db \<times> (link_error + bool)" where
  "restore_archived env db i =
     (case select_by mn_id i (archived_memories db) of
        None \<Rightarrow> (db, Inr False)
      | Some m \<Rightarrow>
          if memory_exists db i then (db, Inl (ArchiveRestoreCollision i))
          else if \<not> le_pre_write env i then (db, Inl GovernanceRefused)
          else
            (let db1 = restore_links_for_memory (db\<lparr>memories := memories db @ [m]\<rparr>) i
             in (db1\<lparr>archived_memories := delete_where (\<lambda>a. mn_id a = i) (archived_memories db1)\<rparr>,
                 Inr True)))"

section \<open>The reflection graph\<close>

definition reflects :: "link_row list \<Rightarrow> (string \<times> string) set" where
  "reflects t = {(lk_source l, lk_target l) | l. l \<in> set t \<and> lk_relation l = ''reflects_on''}"

lemma edge_reflects: "edge (forward_neighbors t) a b \<longleftrightarrow> (a, b) \<in> reflects t"
  by (auto simp: edge_def forward_neighbors_def reflects_def)

lemma reach_reflects:
  "rtranclp (edge (forward_neighbors t :: string \<Rightarrow> 'e + string list)) a b \<longleftrightarrow> (a, b) \<in> (reflects t)\<^sup>*"
proof -
  have "edge (forward_neighbors t :: string \<Rightarrow> 'e + string list) = (\<lambda>a b. (a, b) \<in> reflects t)"
    by (simp add: fun_eq_iff edge_reflects)
  moreover have "rtranclp (\<lambda>a b. (a, b) \<in> reflects t) a b \<longleftrightarrow> (a, b) \<in> (reflects t)\<^sup>*"
    by (simp add: rtranclp_rtrancl_eq)
  ultimately show ?thesis by (simp only:)
qed

lemma reflects_mono: "set t \<subseteq> set u \<Longrightarrow> reflects t \<subseteq> reflects u"
  by (auto simp: reflects_def)

lemma reflects_append:
  "reflects (t @ [l]) = (if lk_relation l = ''reflects_on''
     then insert (lk_source l, lk_target l) (reflects t) else reflects t)"
  by (auto simp: reflects_def)

lemma reflects_Cons: "reflects (l # t) = (if lk_relation l = ''reflects_on''
     then insert (lk_source l, lk_target l) (reflects t) else reflects t)"
  using reflects_append [of t l] by (auto simp: reflects_def)

lemma reflects_Nil: "reflects [] = {}"
  by (simp add: reflects_def)

lemma negative_check:
  assumes "would_create_reflection_cycle t s d n = Some (Inr res)" and "\<not> would_cycle res"
  shows "(d, s) \<notin> (reflects t)\<^sup>*"
proof -
  let ?nb = "forward_neighbors t :: string \<Rightarrow> sql_error + string list"
  have eq: "would_create_reflection_cycle_with s d n ?nb = Some (Inr res)"
    using assms(1) by (simp add: would_create_reflection_cycle_def)
  have "s \<noteq> d" using eq assms(2) by (auto simp: would_create_reflection_cycle_with_def)
  from cycle_check_verdict [OF this, of n ?nb]
  obtain r where "would_create_reflection_cycle_with s d n ?nb = Some r"
    "walk_verdict ?nb s d (Suc (walk_bound n)) r" by blast
  moreover from this(1) eq have "r = Inr res" by simp
  ultimately have "walk_verdict ?nb s d (Suc (walk_bound n)) (Inr res)" by (simp only:)
  then have "\<not> rtranclp (edge ?nb) d s"
    using assms(2) by (rule walk_verdict_neg)
  then show ?thesis by (simp only: reach_reflects not_False_eq_True)
qed

lemma validated_acyclic:
  assumes "validate_link_pre_create env db (lk_source l) (lk_target l) (lk_relation l) agent skip fed = None"
    and "acyclic (reflects (memory_links db))"
  shows "acyclic (reflects (link_insert_or_ignore l (memory_links db)))"
proof (cases "lk_relation l = ''reflects_on''")
  case True
  then obtain res where
    "would_create_reflection_cycle (memory_links db) (lk_source l) (lk_target l)
       (le_max_depth env (link_namespace db (lk_source l))) = Some (Inr res)" "\<not> would_cycle res"
    using assms(1) by (auto simp: validate_link_pre_create_def Let_def split: if_splits option.splits sum.splits)
  then have "(lk_target l, lk_source l) \<notin> (reflects (memory_links db))\<^sup>*" by (rule negative_check)
  then show ?thesis
    using assms(2) True by (simp add: link_insert_or_ignore_def reflects_append acyclic_insert)
qed (use assms(2) in \<open>simp add: link_insert_or_ignore_def reflects_append\<close>)

lemma create_signed_links:
  obtains (same) "fst (create_link_signed env cr now db s t r kp) = db"
  | (new) l agent where "lk_source l = s" "lk_target l = t" "lk_relation l = r"
      "validate_link_pre_create env db s t r agent False False = None"
      "missing_end db s t = None"
      "fst (create_link_signed env cr now db s t r kp) =
        db\<lparr>memory_links := link_insert_or_ignore l (memory_links db)\<rparr>"
proof -
  let ?agent = "case kp of Some k \<Rightarrow> kp_agent_id k | None \<Rightarrow> ''system''"
  let ?d = "fst (create_link_signed env cr now db s t r kp)"
  let ?new = "\<exists>l. ?d = db\<lparr>memory_links := link_insert_or_ignore l (memory_links db)\<rparr> \<and>
      lk_source l = s \<and> lk_target l = t \<and> lk_relation l = r"
  have *: "?d = db \<or> ?new"
    if "\<not> le_record_stopped env" "validate_link_pre_create env db s t r ?agent False False = None"
      "missing_end db s t = None"
  proof (cases kp)
    case None
    then have ?new
      using that unfolding create_link_signed_def Let_def
      by simp ((intro conjI impI)?; (rule exI, rule conjI, rule refl, simp))
    then show ?thesis ..
  next
    case (Some k)
    note unf = Some that [unfolded Some, simplified] create_link_signed_def Let_def
    show ?thesis
    proof (cases "can_sign k")
      case False
      then have ?new
        unfolding unf(1) by (simp add: unf) ((intro conjI impI)?; (rule exI, rule conjI, rule refl, simp))
      then show ?thesis ..
    next
      case True
      show ?thesis
      proof (cases "sign_link cr k \<lparr>sl_src_id = s, sl_dst_id = t, sl_relation = r,
          sl_observed_by = Some (kp_agent_id k), sl_valid_from = Some now, sl_valid_until = None\<rparr>")
        case (Inl e)
        then show ?thesis using True by (simp add: unf)
      next
        case (Inr sig)
        then have ?new using True
          by (simp add: unf) ((intro conjI impI)?; (rule exI, rule conjI, rule refl, simp))
        then show ?thesis ..
      qed
    qed
  qed
  have same_db: "?d = db"
    if "le_record_stopped env \<or> validate_link_pre_create env db s t r ?agent False False \<noteq> None \<or>
      missing_end db s t \<noteq> None"
    using that unfolding create_link_signed_def Let_def by (auto split: option.split)
  show thesis
  proof (cases "le_record_stopped env \<or> validate_link_pre_create env db s t r ?agent False False \<noteq> None \<or>
      missing_end db s t \<noteq> None")
    case True
    then show ?thesis using same [OF same_db] by blast
  next
    case False
    then have v: "validate_link_pre_create env db s t r ?agent False False = None"
      "missing_end db s t = None" "\<not> le_record_stopped env" by blast+
    show ?thesis using * [OF v(3,1,2)] same new [OF _ _ _ v(1,2)] by blast
  qed
qed

section \<open>Histories\<close>

datatype 't link_op =
    CreateSigned "'t link_env" crypto string string string string "agent_keypair option"
  | CreateInbound "'t link_env" string memory_link string
  | DeleteLink string string
  | InsertNode memory_node
  | DeleteNode string
  | ArchiveNode string
  | RestoreNode "'t link_env" string

fun link_apply :: "'t link_op \<Rightarrow> link_db \<Rightarrow> link_db" where
  "link_apply (CreateSigned env cr now s t r kp) db = fst (create_link_signed env cr now db s t r kp)"
| "link_apply (CreateInbound env now l a) db = fst (create_link_inbound env now db l a)"
| "link_apply (DeleteLink s t) db = fst (delete_link db s t)"
| "link_apply (InsertNode m) db =
     (if memory_exists db (mn_id m) then db else db\<lparr>memories := memories db @ [m]\<rparr>)"
| "link_apply (DeleteNode i) db = delete_memory_cascade db i"
| "link_apply (ArchiveNode i) db = fst (archive_memory_no_tx db i)"
| "link_apply (RestoreNode env i) db = fst (restore_archived env db i)"

definition link_run :: "'t link_op list \<Rightarrow> link_db \<Rightarrow> link_db" where
  "link_run ops db = foldl (\<lambda>d op. link_apply op d) db ops"

definition empty_links :: link_db where
  "empty_links = \<lparr>memories = [], memory_links = [], archived_memories = [], archived_memory_links = []\<rparr>"

fun is_restore :: "'t link_op \<Rightarrow> bool" where
  "is_restore (RestoreNode env i) = True"
| "is_restore op = False"

lemma link_run_simps [simp]:
  "link_run [] db = db"
  "link_run (op # ops) db = link_run ops (link_apply op db)"
  by (simp_all add: link_run_def)

lemma link_run_invariant:
  assumes step: "\<And>op d. op \<in> set ops \<Longrightarrow> P d \<Longrightarrow> P (link_apply op d)" and "P db"
  shows "P (link_run ops db)"
  using assms by (induction ops arbitrary: db) auto

lemma create_inbound_links:
  obtains (same) "fst (create_link_inbound env now db link a) = db"
  | (new) l agent skip where
      "validate_link_pre_create env db (lk_source l) (lk_target l) (lk_relation l) agent skip True = None"
      "missing_end db (lk_source l) (lk_target l) = None"
      "link_relation_from_str (lk_relation l) \<noteq> None"
      "fst (create_link_inbound env now db link a) =
        db\<lparr>memory_links := link_insert_or_ignore l (memory_links db)\<rparr>"
proof -
  let ?s = "ml_source_id link" let ?t = "ml_target_id link"
  let ?r = "link_relation_as_str (ml_relation link)"
  let ?agent = "case ml_observed_by link of Some a \<Rightarrow> a | None \<Rightarrow> ''system''"
  let ?d = "fst (create_link_inbound env now db link a)"
  let ?skip = "a = link_attest_as_str PeerAttested"
  show thesis
  proof (cases "validate_link_pre_create env db ?s ?t ?r ?agent ?skip True = None \<and> missing_end db ?s ?t = None")
    case True
    then have "\<exists>l. ?d = db\<lparr>memory_links := link_insert_or_ignore l (memory_links db)\<rparr> \<and>
        lk_source l = ?s \<and> lk_target l = ?t \<and> lk_relation l = ?r"
      unfolding create_link_inbound_def Let_def
      by simp (intro conjI impI; (rule exI, rule conjI, rule refl, simp))
    then show ?thesis using True new link_relation.from_as by (metis option.distinct(1))
  next
    case False
    then show ?thesis
      by (intro same) (auto simp: create_link_inbound_def Let_def split: option.split)
  qed
qed

lemma acyclic_delete:
  "acyclic (reflects t) \<Longrightarrow> acyclic (reflects (delete_where p t))"
  by (erule acyclic_subset) (auto simp: reflects_def delete_where_def)

lemma archive_links_memory_links [simp]:
  "memory_links (archive_links_for_memory db i) = memory_links db"
  "memories (archive_links_for_memory db i) = memories db"
  "archived_memories (archive_links_for_memory db i) = archived_memories db"
  by (simp_all add: archive_links_for_memory_def)

lemma link_apply_acyclic:
  assumes "\<not> is_restore op" and "acyclic (reflects (memory_links db))"
  shows "acyclic (reflects (memory_links (link_apply op db)))"
proof (cases op)
  case (CreateSigned env cr now s t r kp)
  show ?thesis
    by (rule create_signed_links [of env cr now db s t r kp])
      (use assms(2) validated_acyclic CreateSigned in auto)
next
  case (CreateInbound env now link a)
  show ?thesis
    by (rule create_inbound_links [of env now db link a])
      (use assms(2) validated_acyclic CreateInbound in auto)
next
  case (ArchiveNode i)
  then show ?thesis
    using assms(2) acyclic_delete
    by (simp add: archive_memory_no_tx_def delete_memory_cascade_def split: option.split)
qed (use assms acyclic_delete in \<open>simp_all add: delete_link_def Let_def delete_memory_cascade_def\<close>)

section \<open>Well-formed tables\<close>

text \<open>The constraints of the link table: its primary key, its check on the relation and its two
  foreign keys.\<close>

definition links_wf :: "link_db \<Rightarrow> bool" where
  "links_wf db \<longleftrightarrow>
     keys_unique mn_id (memories db) \<and> keys_unique link_key (memory_links db) \<and>
     (\<forall>l \<in> set (memory_links db). memory_exists db (lk_source l) \<and> memory_exists db (lk_target l) \<and>
        link_relation_from_str (lk_relation l) \<noteq> None)"

lemma memory_exists_iff: "memory_exists db i \<longleftrightarrow> i \<in> mn_id ` set (memories db)"
  by (simp add: memory_exists_def select_by_None_iff)

lemma missing_end_links [simp]:
  "missing_end (db\<lparr>memory_links := x\<rparr>) s t = missing_end db s t"
  by (simp add: missing_end_def memory_exists_def)

lemma keys_unique_snoc:
  "keys_unique key t \<Longrightarrow> select_by key (key r) t = None \<Longrightarrow> keys_unique key (t @ [r])"
  by (auto simp: keys_unique_def select_by_None_iff)

lemma links_wf_insert:
  assumes "links_wf db" and "missing_end db (lk_source l) (lk_target l) = None"
  shows "links_wf (db\<lparr>memory_links := link_insert_or_ignore l (memory_links db)\<rparr>)"
  using assms keys_unique_snoc [of link_key "memory_links db" l]
  by (auto simp: links_wf_def link_insert_or_ignore_def missing_end_def memory_exists_iff split: if_splits)

lemma links_wf_delete:
  "links_wf db \<Longrightarrow> links_wf (db\<lparr>memory_links := delete_where p (memory_links db)\<rparr>)"
  using keys_unique_delete [of link_key "memory_links db" p]
  by (auto simp: links_wf_def memory_exists_iff delete_where_def)

lemma links_wf_cascade: "links_wf db \<Longrightarrow> links_wf (delete_memory_cascade db i)"
  using keys_unique_delete [of link_key "memory_links db" "touches i"]
    keys_unique_delete [of mn_id "memories db" "\<lambda>m. mn_id m = i"]
  by (auto simp: links_wf_def memory_exists_iff delete_where_def delete_memory_cascade_def touches_def image_iff)

lemma links_wf_archived [simp]:
  "links_wf (db\<lparr>archived_memories := a\<rparr>) = links_wf db"
  "links_wf (db\<lparr>archived_memory_links := b\<rparr>) = links_wf db"
  by (simp_all add: links_wf_def memory_exists_iff)

lemma links_wf_add_node:
  "links_wf db \<Longrightarrow> \<not> memory_exists db (mn_id m) \<Longrightarrow> links_wf (db\<lparr>memories := memories db @ [m]\<rparr>)"
  using keys_unique_snoc [of mn_id "memories db" m]
  by (auto simp: links_wf_def memory_exists_iff memory_exists_def select_by_None_iff)

lemma links_wf_insert_all:
  assumes "links_wf db" and "\<forall>l \<in> set ls. missing_end db (lk_source l) (lk_target l) = None"
  shows "links_wf (db\<lparr>memory_links := foldl (\<lambda>t l. link_insert_or_ignore l t) (memory_links db) ls\<rparr>)"
  using assms
proof (induction ls arbitrary: db)
  case (Cons l ls)
  have "links_wf (db\<lparr>memory_links := link_insert_or_ignore l (memory_links db)\<rparr>)"
    using Cons.prems by (intro links_wf_insert) auto
  then show ?case
    using Cons.prems(2) Cons.IH [of "db\<lparr>memory_links := link_insert_or_ignore l (memory_links db)\<rparr>"]
    by simp
qed simp

lemma links_wf_restore_links: "links_wf db \<Longrightarrow> links_wf (restore_links_for_memory db i)"
  unfolding restore_links_for_memory_def by (rule links_wf_insert_all) (auto simp: missing_end_def)

lemma link_apply_wf:
  assumes "links_wf db"
  shows "links_wf (link_apply op db)"
proof (cases op)
  case (CreateSigned env cr now s t r kp)
  show ?thesis
    by (rule create_signed_links [of env cr now db s t r kp])
      (use assms links_wf_insert CreateSigned in auto)
next
  case (CreateInbound env now link a)
  show ?thesis
    by (rule create_inbound_links [of env now db link a])
      (use assms links_wf_insert CreateInbound in auto)
next
  case (ArchiveNode i)
  have "links_wf (archive_links_for_memory (db\<lparr>archived_memories := a\<rparr>) i)" for a
    using assms by (simp add: archive_links_for_memory_def)
  then show ?thesis
    using ArchiveNode assms links_wf_cascade
    by (simp add: archive_memory_no_tx_def Let_def split: option.split)
next
  case (RestoreNode env i)
  have "links_wf (restore_links_for_memory (db\<lparr>memories := memories db @ [m]\<rparr>) i)"
    if "select_by mn_id i (archived_memories db) = Some m" "\<not> memory_exists db i" for m
    using assms that select_by_SomeD [OF that(1)] by (intro links_wf_restore_links links_wf_add_node) auto
  then show ?thesis
    using RestoreNode assms by (simp add: restore_archived_def Let_def split: option.split)
qed (use assms links_wf_delete links_wf_cascade links_wf_add_node in \<open>simp_all add: delete_link_def Let_def\<close>)

section \<open>Archive and restore\<close>

lemma foldl_insert_keeps:
  "set t \<subseteq> set (foldl (\<lambda>t l. link_insert_or_ignore l t) t ls)"
proof (induction ls arbitrary: t)
  case (Cons l ls)
  have "set t \<subseteq> set (link_insert_or_ignore l t)" by (auto simp: link_insert_or_ignore_def)
  also have "\<dots> \<subseteq> set (foldl (\<lambda>t l. link_insert_or_ignore l t) t (l # ls))" using Cons.IH by simp
  finally show ?case .
qed simp

lemma foldl_insert_adds:
  assumes "l \<in> set ls" and "link_relation_from_str (lk_relation l) \<noteq> None"
  shows "link_key l \<in> link_key ` set (foldl (\<lambda>t l. link_insert_or_ignore l t) t ls)"
  using assms(1)
proof (induction ls arbitrary: t)
  case (Cons x ls)
  show ?case
  proof (cases "l = x")
    case True
    then have "link_key l \<in> link_key ` set (link_insert_or_ignore x t)"
      using assms(2) by (auto simp: link_insert_or_ignore_def select_by_None_iff)
    then show ?thesis using foldl_insert_keeps [of "link_insert_or_ignore x t" ls] by auto
  qed (use Cons in auto)
qed simp

lemma link_key_plain [simp]: "link_key (plain_link l) = link_key l"
  by (simp add: plain_link_def link_key_def)

lemma foldl_snapshot_adds:
  "l \<in> set ls \<or> link_key l \<in> link_key ` set t \<Longrightarrow> link_key l \<in> link_key ` set
     (foldl (\<lambda>t l. if select_by link_key (link_key l) t = None then t @ [plain_link l] else t) t ls)"
proof (induction ls arbitrary: t)
  case (Cons x ls)
  show ?case
    unfolding foldl_Cons by (rule Cons.IH) (use Cons.prems in \<open>auto simp: select_by_None_iff\<close>)
qed simp

lemma link_key_eqD: "link_key a = link_key b \<Longrightarrow>
    lk_source a = lk_source b \<and> lk_target a = lk_target b \<and> lk_relation a = lk_relation b"
  by (simp add: link_key_def)

text \<open>An edge of a memory that was archived, of any time, is back after the memory is restored
  beside the other end.\<close>

lemma restore_reinserts:
  assumes "a \<in> set (archived_memory_links db)" and "touches i a"
    and "link_relation_from_str (lk_relation a) \<noteq> None"
    and "select_by mn_id i (archived_memories db) = Some m" and "\<not> memory_exists db i"
    and "\<forall>e \<in> {lk_source a, lk_target a} - {i}. memory_exists db e" and "le_pre_write env i"
  shows "link_key a \<in> link_key ` set (memory_links (fst (restore_archived env db i)))"
proof -
  let ?d = "db\<lparr>memories := memories db @ [m]\<rparr>"
  have "mn_id m = i" using select_by_SomeD [OF assms(4)] by simp
  then have "memory_exists ?d (lk_source a) \<and> memory_exists ?d (lk_target a)"
    using assms(6) by (auto simp: memory_exists_iff)
  then have "link_key a \<in> link_key ` set (memory_links (restore_links_for_memory ?d i))"
    unfolding restore_links_for_memory_def using assms(1-3) by (auto intro!: foldl_insert_adds)
  then show ?thesis using assms(4,5,7) by (simp add: restore_archived_def Let_def)
qed

lemma archive_effect:
  assumes "select_by mn_id i (memories db) = Some m"
  shows "archive_memory_no_tx db i =
    (delete_memory_cascade (archive_links_for_memory
       (db\<lparr>archived_memories := delete_where (\<lambda>a. mn_id a = i) (archived_memories db) @ [m]\<rparr>) i) i, True)"
  using assms by (simp add: archive_memory_no_tx_def Let_def)

lemma select_last:
  "mn_id m = i \<Longrightarrow> select_by mn_id i (delete_where (\<lambda>a. mn_id a = i) t @ [m]) = Some m"
  by (simp add: select_by_append)
    (auto simp: delete_where_def select_by_Cons split: option.split dest!: select_by_SomeD)

lemma archived_state:
  assumes "memory_exists db i"
  obtains m where "mn_id m = i" "select_by mn_id i (memories db) = Some m"
    "select_by mn_id i (archived_memories (fst (archive_memory_no_tx db i))) = Some m"
    "memories (fst (archive_memory_no_tx db i)) = delete_where (\<lambda>m. mn_id m = i) (memories db)"
    "memory_links (fst (archive_memory_no_tx db i)) = delete_where (touches i) (memory_links db)"
    "archived_memory_links (fst (archive_memory_no_tx db i)) =
      archived_memory_links (archive_links_for_memory db i)"
proof -
  obtain m where m: "select_by mn_id i (memories db) = Some m"
    using assms by (auto simp: memory_exists_def)
  then have i: "mn_id m = i" using select_by_SomeD by fast
  let ?t = "delete_where (\<lambda>a. mn_id a = i) (archived_memories db) @ [m]"
  have "archived_memories (fst (archive_memory_no_tx db i)) = ?t"
    by (simp add: archive_effect [OF m] delete_memory_cascade_def)
  then have a: "select_by mn_id i (archived_memories (fst (archive_memory_no_tx db i))) = Some m"
    by (simp only: select_last [OF i])
  show thesis
    by (rule that [OF i m a])
      (simp_all add: archive_effect [OF m] delete_memory_cascade_def archive_links_for_memory_def)
qed

lemma foldl_snapshot_fresh:
  assumes "keys_unique link_key ls" and "link_key ` set t \<inter> link_key ` set ls = {}"
  shows "foldl (\<lambda>t l. if select_by link_key (link_key l) t = None then t @ [plain_link l] else t) t ls =
    t @ map plain_link ls"
  using assms
proof (induction ls arbitrary: t)
  case (Cons l ls)
  have "select_by link_key (link_key l) t = None" using Cons.prems(2) by (auto simp: select_by_None_iff)
  moreover have "keys_unique link_key ls" and "link_key ` set (t @ [plain_link l]) \<inter> link_key ` set ls = {}"
    using Cons.prems by (auto simp: keys_unique_def)
  ultimately show ?case using Cons.IH [of "t @ [plain_link l]"] by simp
qed simp

lemma foldl_insert_fresh:
  assumes "keys_unique link_key ls" and "link_key ` set t \<inter> link_key ` set ls = {}"
    and "\<forall>l \<in> set ls. link_relation_from_str (lk_relation l) \<noteq> None"
  shows "foldl (\<lambda>t l. link_insert_or_ignore l t) t ls = t @ ls"
  using assms
proof (induction ls arbitrary: t)
  case (Cons l ls)
  have "link_insert_or_ignore l t = t @ [l]"
    using Cons.prems(2,3) by (auto simp: link_insert_or_ignore_def select_by_None_iff)
  moreover have "keys_unique link_key ls" and "link_key ` set (t @ [l]) \<inter> link_key ` set ls = {}"
    using Cons.prems by (auto simp: keys_unique_def)
  ultimately show ?case using Cons.IH [of "t @ [l]"] Cons.prems(3) by simp
qed simp

lemma plain_link_simps [simp]:
  "lk_source (plain_link l) = lk_source l" "lk_target (plain_link l) = lk_target l"
  "lk_relation (plain_link l) = lk_relation l" "touches i (plain_link l) = touches i l"
  "plain_link (plain_link l) = plain_link l"
  by (simp_all add: plain_link_def touches_def)

lemma touches_key: "link_key a = link_key b \<Longrightarrow> touches i a = touches i b"
  by (simp add: link_key_def touches_def)

lemma touches_disjoint:
  assumes "\<forall>a \<in> A. \<not> touches i a" and "\<forall>b \<in> B. touches i b"
  shows "link_key ` A \<inter> link_key ` B = {}"
proof -
  have "False" if "a \<in> A" "b \<in> B" "link_key a = link_key b" for a b
    using assms that touches_key [OF that(3), of i] by simp
  then show ?thesis by blast
qed

lemma archived_links_fresh:
  assumes "links_wf db" and "\<forall>a \<in> set (archived_memory_links db). \<not> touches i a"
  shows "archived_memory_links (archive_links_for_memory db i) =
    archived_memory_links db @ map plain_link (filter (touches i) (memory_links db))"
proof -
  have "keys_unique link_key (filter (touches i) (memory_links db))"
    using assms(1) keys_unique_delete [of link_key _ "\<lambda>l. \<not> touches i l"]
    by (simp add: links_wf_def delete_where_def)
  moreover have "link_key ` set (archived_memory_links db) \<inter>
      link_key ` set (filter (touches i) (memory_links db)) = {}"
    using assms(2) by (intro touches_disjoint [of _ i]) auto
  ultimately show ?thesis by (simp add: archive_links_for_memory_def foldl_snapshot_fresh)
qed

lemma restored_links_fresh:
  assumes "links_wf db" and "\<forall>a \<in> set (archived_memory_links db). \<not> touches i a"
    and "memory_links d = delete_where (touches i) (memory_links db)"
    and "archived_memory_links d = archived_memory_links db @ map plain_link (filter (touches i) (memory_links db))"
    and "mn_id ` set (memories d) = mn_id ` set (memories db)"
  shows "memory_links (restore_links_for_memory d i) =
    delete_where (touches i) (memory_links db) @ map plain_link (filter (touches i) (memory_links db))"
proof -
  let ?new = "map plain_link (filter (touches i) (memory_links db))"
  have ex: "memory_exists d = memory_exists db" using assms(5) by (simp add: fun_eq_iff memory_exists_iff)
  have "filter (\<lambda>l. touches i l \<and> memory_exists d (lk_source l) \<and> memory_exists d (lk_target l))
      (archived_memory_links db) = []"
    using assms(2) by (simp add: filter_empty_conv)
  moreover have "filter (\<lambda>l. touches i l \<and> memory_exists d (lk_source l) \<and> memory_exists d (lk_target l)) ?new = ?new"
    using assms(1) unfolding ex by (intro filter_True) (auto simp: links_wf_def)
  moreover have "keys_unique link_key ?new"
    using assms(1) keys_unique_delete [of link_key "memory_links db" "\<lambda>l. \<not> touches i l"]
    by (simp add: links_wf_def delete_where_def keys_unique_def comp_def)
  moreover have "link_key ` set (delete_where (touches i) (memory_links db)) \<inter> link_key ` set ?new = {}"
    by (intro touches_disjoint [of _ i]) (auto simp: delete_where_def)
  moreover have "\<forall>l \<in> set ?new. link_relation_from_str (lk_relation l) \<noteq> None"
    using assms(1) by (auto simp: links_wf_def)
  ultimately show ?thesis
    by (simp add: restore_links_for_memory_def assms(3,4) foldl_insert_fresh)
qed

lemma restored_state:
  assumes "select_by mn_id i (archived_memories db) = Some m" and "\<not> memory_exists db i" and "le_pre_write env i"
  shows "memories (fst (restore_archived env db i)) = memories db @ [m]"
    "archived_memory_links (fst (restore_archived env db i)) = archived_memory_links db"
    "memory_links (fst (restore_archived env db i)) =
      memory_links (restore_links_for_memory (db\<lparr>memories := memories db @ [m]\<rparr>) i)"
  using assms by (simp_all add: restore_archived_def restore_links_for_memory_def Let_def)

text \<open>An archive followed by a restore: the row and the identifiers it names are back, and the snapshot
  of its edges stays.\<close>

lemma cycle_state:
  assumes "memory_exists db i" and "le_pre_write env i"
  defines "d \<equiv> fst (archive_memory_no_tx db i)"
  defines "e \<equiv> fst (restore_archived env d i)"
  shows "mn_id ` set (memories e) = mn_id ` set (memories db)"
    and "archived_memory_links e = archived_memory_links (archive_links_for_memory db i)"
    and "\<not> memory_exists d i" and "\<exists>m. select_by mn_id i (archived_memories d) = Some m"
    and "memories d = delete_where (\<lambda>m. mn_id m = i) (memories db)"
    and "archived_memory_links d = archived_memory_links (archive_links_for_memory db i)"
proof -
  obtain m where m: "mn_id m = i" "select_by mn_id i (memories db) = Some m"
    "select_by mn_id i (archived_memories d) = Some m"
    "memories d = delete_where (\<lambda>m. mn_id m = i) (memories db)"
    "archived_memory_links d = archived_memory_links (archive_links_for_memory db i)"
    using archived_state [OF assms(1)] unfolding d_def by metis
  then show gone: "\<not> memory_exists d i" "\<exists>m. select_by mn_id i (archived_memories d) = Some m"
    "memories d = delete_where (\<lambda>m. mn_id m = i) (memories db)"
    "archived_memory_links d = archived_memory_links (archive_links_for_memory db i)"
    by (auto simp: memory_exists_iff delete_where_def)
  note r = restored_state [OF m(3) gone(1) assms(2), folded e_def]
  show "archived_memory_links e = archived_memory_links (archive_links_for_memory db i)"
    using r(2) m(5) by simp
  have "i \<in> mn_id ` set (memories db)" using assms(1) by (simp add: memory_exists_iff)
  then show "mn_id ` set (memories e) = mn_id ` set (memories db)"
    unfolding r(1) m(4) using m(1) by (auto simp: delete_where_def)
qed

section \<open>Properties\<close>

definition demo_env :: "string link_env" where
  "demo_env =
     \<lparr>le_record_stopped = False, le_lineage_dag = False, le_max_depth = (\<lambda>_. 0),
      le_permit = (\<lambda>_ _ _ _ _. True), le_pre_write = (\<lambda>_. True),
      le_chrono = \<lparr>parse_rfc3339 = (\<lambda>_. None), to_rfc3339 = id, with_utc = id,
        add_seconds = (\<lambda>t _. t), instant = (\<lambda>_. 0)\<rparr>\<rparr>"

definition demo_node :: "string \<Rightarrow> memory_node" where
  "demo_node i = \<lparr>mn_id = i, mn_namespace = ''n'', mn_created_at = [], mn_cid = None\<rparr>"

definition demo_reflection :: "string \<Rightarrow> string \<Rightarrow> string link_op" where
  "demo_reflection s t = CreateInbound demo_env ''now''
     \<lparr>ml_source_id = s, ml_target_id = t, ml_relation = ReflectsOn, ml_created_at = [],
      ml_signature = None, ml_observed_by = None, ml_valid_from = None, ml_valid_until = None,
      ml_attest_level = None\<rparr> ''unsigned''"

definition demo_graph :: "string link_op list" where
  "demo_graph =
     [InsertNode (demo_node ''a''), InsertNode (demo_node ''b''), InsertNode (demo_node ''c''),
      demo_reflection ''a'' ''b'', demo_reflection ''b'' ''c'']"

definition demo_bypass :: "string link_op list" where
  "demo_bypass = [ArchiveNode ''b'', demo_reflection ''c'' ''a'', RestoreNode demo_env ''b'']"

text \<open>C9: Whatever sequence of local and federated link writes, deletions, and insertions, deletions
  and archivals of memories runs, under whatever environments, the reflection graph stays acyclic.\<close>

theorem reflection_graph_acyclic:
  assumes "acyclic (reflects (memory_links db))" and "\<forall>op \<in> set ops. \<not> is_restore op"
  shows "acyclic (reflects (memory_links (link_run ops db)))"
  by (rule link_run_invariant [of ops "\<lambda>d. acyclic (reflects (memory_links d))"])
    (use assms link_apply_acyclic in auto)

theorem reflection_graph_acyclic_witness:
  "acyclic (reflects (memory_links (link_run (demo_graph @ [demo_reflection ''c'' ''a'']) empty_links)))"
  by (rule reflection_graph_acyclic)
    (simp_all add: empty_links_def reflects_def demo_graph_def demo_reflection_def acyclic_def)

text \<open>In every history, restores included, the link table keeps its primary key, its known relations
  and ends that exist.\<close>

theorem links_reachable_wf: "links_wf (link_run ops empty_links)"
  by (rule link_run_invariant [of ops links_wf])
    (auto simp: link_apply_wf, simp add: empty_links_def links_wf_def keys_unique_def)

lemma demo_bound: "walk_bound 0 = 32"
  by (simp add: walk_bound_def u32_max_def)

definition demo_edge :: "string \<Rightarrow> string \<Rightarrow> link_row" where
  "demo_edge s t = \<lparr>lk_source = s, lk_target = t, lk_relation = ''reflects_on'',
     lk_created_at = ''now'', lk_valid_from = Some ''now'', lk_valid_until = None,
     lk_observed_by = None, lk_signature = None, lk_attest_level = Some ''unsigned'',
     lk_source_cid = None, lk_target_cid = None\<rparr>"

definition demo_db :: "link_row list \<Rightarrow> link_db" where
  "demo_db t = \<lparr>memories = [demo_node ''a'', demo_node ''b'', demo_node ''c''],
     memory_links = t, archived_memories = [], archived_memory_links = []\<rparr>"

lemma demo_reflection_apply:
  assumes "would_create_reflection_cycle (memory_links db) s t 0 =
      Some (Inr \<lparr>would_cycle = False, cycle_path = []\<rparr>)"
    and "missing_end db s t = None" and "select_by link_key (s, t, ''reflects_on'') (memory_links db) = None"
  shows "link_apply (demo_reflection s t) db = db\<lparr>memory_links := memory_links db @ [demo_edge s t]\<rparr>"
  using assms
  by (simp add: demo_reflection_def demo_env_def create_link_inbound_def validate_link_pre_create_def
      link_insert_or_ignore_def link_key_def demo_edge_def link_relation_from_str_def)

lemma demo_nodes:
  "link_run [InsertNode (demo_node ''a''), InsertNode (demo_node ''b''), InsertNode (demo_node ''c'')]
     empty_links = demo_db []"
  by (simp add: memory_exists_def select_by_Nil select_by_Cons empty_links_def demo_db_def demo_node_def)

lemmas gate_eval = would_create_reflection_cycle_def would_create_reflection_cycle_with_def demo_bound
  forward_neighbors_def numeral_eq_Suc

lemmas row_eval = missing_end_def memory_exists_def select_by_Nil select_by_Cons demo_node_def
  demo_edge_def link_key_def

lemma demo_edge_ab:
  "link_apply (demo_reflection ''a'' ''b'') (demo_db []) = demo_db [demo_edge ''a'' ''b'']"
  by (subst demo_reflection_apply) (simp_all add: demo_db_def gate_eval row_eval)

lemma demo_edge_bc:
  "link_apply (demo_reflection ''b'' ''c'') (demo_db [demo_edge ''a'' ''b'']) =
     demo_db [demo_edge ''a'' ''b'', demo_edge ''b'' ''c'']"
  by (subst demo_reflection_apply) (simp_all add: demo_db_def gate_eval row_eval)

lemma demo_graph_run: "link_run demo_graph empty_links = demo_db [demo_edge ''a'' ''b'', demo_edge ''b'' ''c'']"
proof -
  have "demo_graph = [InsertNode (demo_node ''a''), InsertNode (demo_node ''b''), InsertNode (demo_node ''c'')]
      @ [demo_reflection ''a'' ''b'', demo_reflection ''b'' ''c'']"
    by (simp add: demo_graph_def)
  moreover have "link_run (xs @ ys) db = link_run ys (link_run xs db)" for xs ys :: "string link_op list" and db
    by (simp add: link_run_def)
  ultimately have "link_run demo_graph empty_links =
      link_run [demo_reflection ''a'' ''b'', demo_reflection ''b'' ''c''] (demo_db [])"
    by (metis demo_nodes)
  then show ?thesis by (simp only: demo_edge_ab demo_edge_bc link_run_simps)
qed

definition demo_archived :: "link_row list \<Rightarrow> link_db" where
  "demo_archived t = \<lparr>memories = [demo_node ''a'', demo_node ''c''],
     memory_links = t, archived_memories = [demo_node ''b''],
     archived_memory_links = [demo_edge ''a'' ''b'', demo_edge ''b'' ''c'']\<rparr>"

lemma demo_archive_b:
  "link_apply (ArchiveNode ''b'') (demo_db [demo_edge ''a'' ''b'', demo_edge ''b'' ''c'']) = demo_archived []"
  by (simp add: demo_db_def demo_archived_def archive_memory_no_tx_def archive_links_for_memory_def
      delete_memory_cascade_def delete_where_def row_eval touches_def plain_link_def)

lemma demo_edge_ca:
  "link_apply (demo_reflection ''c'' ''a'') (demo_archived []) = demo_archived [demo_edge ''c'' ''a'']"
  by (subst demo_reflection_apply) (simp_all add: demo_archived_def gate_eval row_eval)

lemma demo_restore_b:
  "memory_links (link_apply (RestoreNode demo_env ''b'') (demo_archived [demo_edge ''c'' ''a''])) =
     [demo_edge ''c'' ''a'', demo_edge ''a'' ''b'', demo_edge ''b'' ''c'']"
  by (simp add: demo_archived_def restore_archived_def restore_links_for_memory_def demo_env_def
      row_eval touches_def link_insert_or_ignore_def link_relation_from_str_def)

text \<open>Restores are not covered by that gate: archiving the middle of a reflection chain, adding the
  edge back to its start and restoring the middle leaves a cycle, each step accepted.\<close>

theorem restore_bypasses_cycle_gate:
  "map link_key (memory_links (link_run (demo_graph @ demo_bypass) empty_links)) =
     [(''c'', ''a'', ''reflects_on''), (''a'', ''b'', ''reflects_on''), (''b'', ''c'', ''reflects_on'')] \<and>
   \<not> acyclic (reflects (memory_links (link_run (demo_graph @ demo_bypass) empty_links)))"
proof -
  have "link_run (demo_graph @ demo_bypass) empty_links =
      link_run demo_bypass (demo_db [demo_edge ''a'' ''b'', demo_edge ''b'' ''c''])"
    by (simp only: link_run_def foldl_append demo_graph_run [unfolded link_run_def])
  then have t: "memory_links (link_run (demo_graph @ demo_bypass) empty_links) =
      [demo_edge ''c'' ''a'', demo_edge ''a'' ''b'', demo_edge ''b'' ''c'']"
    by (simp only: demo_bypass_def link_run_simps demo_archive_b demo_edge_ca demo_restore_b)
  have "(''a'', ''a'') \<in> {(''c'', ''a''), (''a'', ''b''), (''b'', ''c'')}\<^sup>+"
    by (meson insertI1 insertI2 trancl.simps)
  moreover have "reflects (memory_links (link_run (demo_graph @ demo_bypass) empty_links)) =
      {(''c'', ''a''), (''a'', ''b''), (''b'', ''c'')}"
    unfolding t by (simp add: reflects_Cons reflects_Nil demo_edge_def)
  ultimately show ?thesis by (auto simp: t acyclic_def demo_edge_def link_key_def)
qed

text \<open>Archiving a memory and restoring it brings back the row and exactly its edges, content-id mirrors
  aside, when no older snapshot of its edges is left in the archive.\<close>

theorem archive_restore_roundtrip:
  assumes "links_wf db" and "memory_exists db i" and "le_pre_write env i"
    and "\<forall>a \<in> set (archived_memory_links db). \<not> touches i a"
  shows "set (memories (link_run [ArchiveNode i, RestoreNode env i] db)) = set (memories db) \<and>
    plain_link ` set (memory_links (link_run [ArchiveNode i, RestoreNode env i] db)) =
      plain_link ` set (memory_links db)"
proof -
  let ?d = "fst (archive_memory_no_tx db i)"
  obtain m where m: "mn_id m = i" "select_by mn_id i (memories db) = Some m"
    "select_by mn_id i (archived_memories ?d) = Some m"
    "memories ?d = delete_where (\<lambda>m. mn_id m = i) (memories db)"
    "memory_links ?d = delete_where (touches i) (memory_links db)"
    "archived_memory_links ?d = archived_memory_links (archive_links_for_memory db i)"
    by (rule archived_state [OF assms(2)])
  have gone: "\<not> memory_exists ?d i" using m(4) by (auto simp: memory_exists_iff delete_where_def)
  note r = restored_state [OF m(3) gone assms(3)]
  have m_in: "m \<in> set (memories db)" using select_by_SomeD [OF m(2)] by simp
  have one: "x = m" if "x \<in> set (memories db)" "mn_id x = i" for x
    using select_by_unique [of mn_id "memories db" i x] assms(1) m(2) that by (auto simp: links_wf_def)
  have nodes: "set (memories (fst (restore_archived env ?d i))) = set (memories db)"
    unfolding r(1) m(4) delete_where_def set_append set_filter list.set using m_in one by blast
  let ?e = "?d\<lparr>memories := memories ?d @ [m]\<rparr>"
  have "memory_links (restore_links_for_memory ?e i) =
      delete_where (touches i) (memory_links db) @ map plain_link (filter (touches i) (memory_links db))"
  proof (rule restored_links_fresh [OF assms(1,4)])
    show "archived_memory_links ?e =
        archived_memory_links db @ map plain_link (filter (touches i) (memory_links db))"
      using archived_links_fresh [OF assms(1,4)] m(6) by simp
    show "mn_id ` set (memories ?e) = mn_id ` set (memories db)"
      using nodes unfolding r(1) by simp
  qed (use m(5) in simp)
  moreover have "plain_link ` set (delete_where (touches i) (memory_links db)) \<union>
      plain_link ` set (filter (touches i) (memory_links db)) = plain_link ` set (memory_links db)"
    by (auto simp: delete_where_def)
  ultimately have "plain_link ` set (memory_links (fst (restore_archived env ?d i))) =
      plain_link ` set (memory_links db)"
    unfolding r(3) by (simp add: image_Un image_image)
  with nodes show ?thesis by simp
qed

theorem archive_restore_roundtrip_witness:
  "plain_link ` set (memory_links (link_run [ArchiveNode ''b'', RestoreNode demo_env ''b'']
       (link_run demo_graph empty_links))) = plain_link ` {demo_edge ''a'' ''b'', demo_edge ''b'' ''c''}"
  using archive_restore_roundtrip [of "link_run demo_graph empty_links" "''b''" demo_env]
    link_run_invariant [of demo_graph links_wf empty_links]
  by (simp add: demo_graph_run demo_db_def memory_exists_def row_eval demo_env_def links_wf_def
      keys_unique_def link_relation_from_str_def del: link_run_simps)

text \<open>A link snapshot is never removed from the archive: a link that was deleted after one of its ends
  had been archived and restored is back after the next archive and restore of that end.\<close>

theorem deleted_link_resurrected:
  assumes "links_wf db" and "l \<in> set (memory_links db)" and "touches i l" and "le_pre_write env i"
  shows "link_key l \<in> link_key ` set (memory_links (link_run
    [ArchiveNode i, RestoreNode env i, DeleteLink (lk_source l) (lk_target l),
     ArchiveNode i, RestoreNode env i] db))"
proof -
  have ends: "memory_exists db (lk_source l)" "memory_exists db (lk_target l)"
    and rel: "link_relation_from_str (lk_relation l) \<noteq> None"
    using assms(1,2) by (auto simp: links_wf_def)
  have i: "memory_exists db i" using ends assms(3) by (auto simp: touches_def)
  define d1 where "d1 = fst (archive_memory_no_tx db i)"
  define d2 where "d2 = fst (restore_archived env d1 i)"
  define d3 where "d3 = fst (delete_link d2 (lk_source l) (lk_target l))"
  define d4 where "d4 = fst (archive_memory_no_tx d3 i)"
  note c1 = cycle_state [OF i assms(4), folded d1_def, folded d2_def]
  have d3: "memories d3 = memories d2" "archived_memory_links d3 = archived_memory_links d2"
    by (simp_all add: d3_def delete_link_def Let_def)
  have live: "memory_exists d3 = memory_exists db"
    using c1(1) by (simp add: fun_eq_iff memory_exists_iff d3)
  note c2 = cycle_state [of d3 i env, unfolded live, OF i assms(4), folded d4_def]
  have "link_key l \<in> link_key ` set (archived_memory_links d3)"
    unfolding d3(2) c1(2) archive_links_for_memory_def
    by simp (rule foldl_snapshot_adds, use assms(2,3) in simp)
  then have "link_key l \<in> link_key ` set (archived_memory_links d4)"
    unfolding c2(6) archive_links_for_memory_def by simp (rule foldl_snapshot_adds, simp)
  then obtain a where a: "a \<in> set (archived_memory_links d4)" "link_key a = link_key l"
    by auto
  note same = link_key_eqD [OF a(2)]
  obtain m where m: "select_by mn_id i (archived_memories d4) = Some m" using c2(4) by blast
  have "\<forall>e \<in> {lk_source a, lk_target a} - {i}. memory_exists d4 e"
    using same ends live unfolding memory_exists_iff c2(5) by (auto simp: delete_where_def fun_eq_iff memory_exists_iff)
  then have "link_key a \<in> link_key ` set (memory_links (fst (restore_archived env d4 i)))"
    using a(1) same rel assms(3,4) m c2(3) by (intro restore_reinserts) (auto simp: touches_def)
  then show ?thesis
    using a(2) by (simp add: d1_def d2_def d3_def d4_def)
qed

theorem deleted_link_resurrected_witness:
  "(''a'', ''b'', ''reflects_on'') \<in> link_key ` set (memory_links (link_run
     [ArchiveNode ''b'', RestoreNode demo_env ''b'', DeleteLink ''a'' ''b'', ArchiveNode ''b'',
      RestoreNode demo_env ''b''] (demo_db [demo_edge ''a'' ''b''])))"
  using deleted_link_resurrected [of "demo_db [demo_edge ''a'' ''b'']" "demo_edge ''a'' ''b''" "''b''" demo_env]
  by (simp add: demo_db_def memory_exists_def row_eval demo_env_def links_wf_def touches_def
      keys_unique_def link_relation_from_str_def del: link_run_simps)

text \<open>An engaged record stop refuses the local link write and leaves the tables; the federated write
  and the restore take the same course whether it is engaged or not.\<close>

theorem record_stop_link_fence:
  "create_link_signed (env\<lparr>le_record_stopped := True\<rparr>) cr now db s t r kp = (db, Inl RecordStopped) \<and>
   create_link_inbound (env\<lparr>le_record_stopped := b\<rparr>) now db link a = create_link_inbound env now db link a \<and>
   restore_archived (env\<lparr>le_record_stopped := b\<rparr>) db i = restore_archived env db i"
proof (intro conjI)
  have c: "le_chrono (env\<lparr>le_record_stopped := b\<rparr>) = le_chrono env"
    and d: "le_lineage_dag (env\<lparr>le_record_stopped := b\<rparr>) = le_lineage_dag env"
    and e: "le_max_depth (env\<lparr>le_record_stopped := b\<rparr>) = le_max_depth env"
    and f: "le_permit (env\<lparr>le_record_stopped := b\<rparr>) = le_permit env"
    and g: "le_pre_write (env\<lparr>le_record_stopped := b\<rparr>) = le_pre_write env"
    by simp_all
  show "create_link_inbound (env\<lparr>le_record_stopped := b\<rparr>) now db link a = create_link_inbound env now db link a"
    unfolding create_link_inbound_def validate_link_pre_create_def lineage_edge_is_forward_def c d e f ..
  show "restore_archived (env\<lparr>le_record_stopped := b\<rparr>) db i = restore_archived env db i"
    unfolding restore_archived_def g ..
qed (simp add: create_link_signed_def)

end
