(* ===== verification/Quorum.thy ===== *)
theory Quorum
  imports Prelude
begin

text \<open>
  The write quorum of \<^verbatim>\<open>src/replication.rs\<close> with the store round of \<^verbatim>\<open>src/federation/sync.rs\<close> and
  \<^verbatim>\<open>src/federation/quorum.rs\<close>.
  Instants and durations are natural numbers of one unit (milliseconds in the policy defaults).
  The acknowledgement loop is driven by the list of events it sees, each with the clock readings
  around it; a loop that is still waiting at the end of the list has no result. Detached
  stragglers and log lines are left out.
\<close>

section \<open>Policy and acknowledgement tracker\<close>

record quorum_policy =
  qp_n :: nat
  qp_w :: nat
  qp_ack_timeout :: nat
  qp_clock_skew_warn :: nat

datatype quorum_failure_reason = Unreachable | Timeout | IdDriftReason | InFlight

datatype quorum_error =
    QuorumNotMet nat nat quorum_failure_reason
  | InvalidPolicy string
  | LocalWriteFailed string

definition quorum_policy_new :: "nat \<Rightarrow> nat \<Rightarrow> nat \<Rightarrow> nat \<Rightarrow> quorum_error + quorum_policy" where
  "quorum_policy_new n w ack_timeout clock_skew_warn =
     (if n = 0 then Inl (InvalidPolicy ''n must be >= 1'')
      else Inr \<lparr>qp_n = n, qp_w = max 1 (min w n), qp_ack_timeout = ack_timeout,
                qp_clock_skew_warn = clock_skew_warn\<rparr>)"

definition quorum_majority :: "nat \<Rightarrow> quorum_error + quorum_policy" where
  "quorum_majority n = quorum_policy_new n (n div 2 + 1) 2000 30000"

record ack_tracker =
  at_policy :: quorum_policy
  at_deadline :: nat
  at_local_committed :: bool
  at_acks :: "string set"
  at_id_drifts :: "string list"

definition ack_tracker_new :: "quorum_policy \<Rightarrow> nat \<Rightarrow> ack_tracker" where
  "ack_tracker_new policy now =
     \<lparr>at_policy = policy, at_deadline = now + qp_ack_timeout policy, at_local_committed = False,
      at_acks = {}, at_id_drifts = []\<rparr>"

definition record_local :: "ack_tracker \<Rightarrow> ack_tracker" where
  "record_local t = t\<lparr>at_local_committed := True\<rparr>"

definition record_peer_ack :: "string \<Rightarrow> ack_tracker \<Rightarrow> ack_tracker" where
  "record_peer_ack peer_id t = t\<lparr>at_acks := insert peer_id (at_acks t)\<rparr>"

definition record_id_drift :: "string \<Rightarrow> ack_tracker \<Rightarrow> ack_tracker" where
  "record_id_drift peer_id t = t\<lparr>at_id_drifts := at_id_drifts t @ [peer_id]\<rparr>"

definition is_quorum_met :: "ack_tracker \<Rightarrow> nat \<Rightarrow> bool" where
  "is_quorum_met t now =
     (if \<not> at_local_committed t \<or> now > at_deadline t then False
      else card (at_acks t) + 1 \<ge> qp_w (at_policy t))"

definition ack_finalise :: "ack_tracker \<Rightarrow> nat \<Rightarrow> quorum_error + nat" where
  "ack_finalise t now =
     (if \<not> at_local_committed t
      then Inl (LocalWriteFailed ''local commit not recorded before finalise'')
      else
        (let got = card (at_acks t) + 1
         in if got \<ge> qp_w (at_policy t) then Inr got
            else
              (let reason =
                 (if now > at_deadline t
                  then (if at_acks t = {} then Unreachable else Timeout)
                  else InFlight)
               in Inl (QuorumNotMet got (qp_w (at_policy t)) reason))))"

record quorum_payload =
  pl_got :: nat
  pl_needed :: nat
  pl_reason :: string

fun payload_from_err :: "quorum_error \<Rightarrow> quorum_payload" where
  "payload_from_err (QuorumNotMet got needed reason) =
     \<lparr>pl_got = got, pl_needed = needed,
      pl_reason = (case reason of
          Unreachable \<Rightarrow> ''unreachable''
        | Timeout \<Rightarrow> ''timeout''
        | InFlight \<Rightarrow> ''timeout''
        | IdDriftReason \<Rightarrow> ''id_drift'')\<rparr>"
| "payload_from_err (InvalidPolicy detail) =
     \<lparr>pl_got = 0, pl_needed = 0, pl_reason = ''invalid_policy:'' @ detail\<rparr>"
| "payload_from_err (LocalWriteFailed detail) =
     \<lparr>pl_got = 0, pl_needed = 0, pl_reason = ''local_write_failed:'' @ detail\<rparr>"

section \<open>The store round\<close>

datatype ack_outcome = AckOk | AckIdDrift | AckFail string | AckThrottled string

text \<open>What waiting on the fan-out tasks yields: a finished task, a task that panicked, no task left,
  or the timeout.\<close>

datatype join_event = Joined string ack_outcome | JoinError | Drained | Elapsed

type_synonym timed_event = "nat \<times> join_event \<times> nat"

text \<open>\<open>(head, event, met)\<close>: the clock at the head of the loop, the event, and the clock at the early exit.\<close>

fun ack_loop :: "nat \<Rightarrow> timed_event list \<Rightarrow> ack_tracker \<times> (string \<times> string) list
    \<Rightarrow> (ack_tracker \<times> (string \<times> string) list) option" where
  "ack_loop deadline [] st = None"
| "ack_loop deadline ((head, event, met) # events) (tracker, failures) =
     (if deadline - head = 0 then Some (tracker, failures)
      else
        (case event of
           Drained \<Rightarrow> Some (tracker, failures)
         | Elapsed \<Rightarrow> Some (tracker, failures)
         | _ \<Rightarrow>
           (let st' = (case event of
                  Joined peer_id AckOk \<Rightarrow> (record_peer_ack peer_id tracker, failures)
                | Joined peer_id AckIdDrift \<Rightarrow> (record_id_drift peer_id tracker, failures)
                | Joined peer_id (AckFail reason) \<Rightarrow> (tracker, failures @ [(peer_id, reason)])
                | Joined peer_id (AckThrottled reason) \<Rightarrow> (tracker, failures @ [(peer_id, reason)])
                | _ \<Rightarrow> (tracker, failures))
            in if is_quorum_met (fst st') met then Some st' else ack_loop deadline events st')))"

text \<open>
  The rows the round adds to the push dead-letter queue. The queue's sink is not part of the
  module: \<open>None\<close> is a build without the storage feature or a configuration without a sink, and
  \<open>Some enqueue\<close> answers, for a peer and a reason, whether the insert succeeded. A failed insert
  is logged and dropped. Every dispatched peer without an ack is offered, with the last explicit
  failure seen from it.
\<close>

type_synonym dlq_sink = "(string \<Rightarrow> string \<Rightarrow> bool) option"

definition failure_reason :: "(string \<times> string) list \<Rightarrow> string \<Rightarrow> string" where
  "failure_reason failures p =
     (case map_of (rev failures) p of Some r \<Rightarrow> r | None \<Rightarrow> ''deadline_exceeded'')"

definition dlq_landing ::
  "dlq_sink \<Rightarrow> string list \<Rightarrow> ack_tracker \<Rightarrow> (string \<times> string) list \<Rightarrow> (string \<times> string) list" where
  "dlq_landing sink peers tracker failures =
     (case sink of
        None \<Rightarrow> []
      | Some enqueue \<Rightarrow>
          filter (\<lambda>(p, reason). enqueue p reason)
            (map (\<lambda>p. (p, failure_reason failures p)) (filter (\<lambda>p. p \<notin> at_acks tracker) peers)))"

definition broadcast_store_quorum ::
  "quorum_policy \<Rightarrow> dlq_sink \<Rightarrow> string list \<Rightarrow> nat \<Rightarrow> timed_event list
    \<Rightarrow> (ack_tracker \<times> (string \<times> string) list) option" where
  "broadcast_store_quorum policy sink peers now events =
     map_option (\<lambda>(tracker, failures). (tracker, dlq_landing sink peers tracker failures))
       (ack_loop (now + qp_ack_timeout policy) events
         (record_local (ack_tracker_new policy now), []))"

section \<open>The loop\<close>

definition stops :: "nat \<Rightarrow> timed_event \<Rightarrow> bool" where
  "stops deadline e \<longleftrightarrow> (case e of (head, ev, _) \<Rightarrow> head \<ge> deadline \<or> ev = Drained \<or> ev = Elapsed)"

definition seen_events :: "nat \<Rightarrow> timed_event list \<Rightarrow> timed_event list" where
  "seen_events deadline events = takeWhile (\<lambda>e. \<not> stops deadline e) events"

definition acked_by :: "timed_event list \<Rightarrow> string set" where
  "acked_by events = {p. \<exists>h m. (h, Joined p AckOk, m) \<in> set events}"

lemma acked_by_simps [simp]:
  "acked_by [] = {}"
  "acked_by ((h, Joined p AckOk, m) # es) = insert p (acked_by es)"
  "acked_by ((h, Joined p AckIdDrift, m) # es) = acked_by es"
  "acked_by ((h, Joined p (AckFail r), m) # es) = acked_by es"
  "acked_by ((h, Joined p (AckThrottled r), m) # es) = acked_by es"
  "acked_by ((h, JoinError, m) # es) = acked_by es"
  by (auto simp: acked_by_def)

lemma finite_acked_by [simp]: "finite (acked_by events)"
proof (rule finite_subset)
  show "acked_by events \<subseteq>
      (\<lambda>(h, e, m). case e of Joined p out \<Rightarrow> p | _ \<Rightarrow> '''') ` set events"
    by (force simp: acked_by_def)
qed simp

lemma seen_events_simps:
  "seen_events d [] = []"
  "seen_events d (e # es) = (if stops d e then [] else e # seen_events d es)"
  by (simp_all add: seen_events_def)

lemma quorum_met_count:
  "is_quorum_met t now \<Longrightarrow> card (at_acks t) + 1 \<ge> qp_w (at_policy t)"
  by (simp add: is_quorum_met_def split: if_splits)

text \<open>What the loop keeps and what it collects.\<close>

definition loop_post :: "timed_event list \<Rightarrow> ack_tracker \<Rightarrow> ack_tracker \<Rightarrow> bool" where
  "loop_post seen t t' \<longleftrightarrow>
     at_policy t' = at_policy t \<and> at_deadline t' = at_deadline t \<and>
     at_local_committed t' = at_local_committed t \<and>
     at_acks t \<subseteq> at_acks t' \<and> at_acks t' \<subseteq> at_acks t \<union> acked_by seen \<and>
     (card (at_acks t') + 1 < qp_w (at_policy t) \<longrightarrow> at_acks t' = at_acks t \<union> acked_by seen)"

lemma ack_loop_post:
  assumes "\<exists>e \<in> set events. stops deadline e"
  shows "\<exists>t' f'. ack_loop deadline events (t, f) = Some (t', f') \<and>
    loop_post (seen_events deadline events) t t'"
  using assms
proof (induction events arbitrary: t f)
  case (Cons e events)
  obtain h ev m where e: "e = (h, ev, m)" by (cases e)
  show ?case
  proof (cases "stops deadline e")
    case True
    then show ?thesis
      by (auto simp: e stops_def seen_events_simps loop_post_def)
  next
    case False
    then have ex: "\<exists>e \<in> set events. stops deadline e" using Cons.prems by simp
    define A where "A = acked_by [e]"
    define st' where "st' = (case ev of
        Joined p AckOk \<Rightarrow> (record_peer_ack p t, f)
      | Joined p AckIdDrift \<Rightarrow> (record_id_drift p t, f)
      | Joined p (AckFail reason) \<Rightarrow> (t, f @ [(p, reason)])
      | Joined p (AckThrottled reason) \<Rightarrow> (t, f @ [(p, reason)])
      | _ \<Rightarrow> (t, f))"
    have st': "at_policy (fst st') = at_policy t" "at_deadline (fst st') = at_deadline t"
      "at_local_committed (fst st') = at_local_committed t"
      "at_acks (fst st') = at_acks t \<union> A"
      unfolding st'_def A_def e
      by (auto simp: record_peer_ack_def record_id_drift_def acked_by_def
          split: join_event.split ack_outcome.split)
    have acked: "acked_by (e # es) = A \<union> acked_by es" for es
      unfolding A_def by (auto simp: acked_by_def)
    have unf: "ack_loop deadline (e # events) (t, f) =
        (if is_quorum_met (fst st') m then Some st' else ack_loop deadline events st')"
      using False unfolding e st'_def stops_def
      by (cases ev) (auto simp: Let_def split: ack_outcome.split)
    show ?thesis
    proof (cases "is_quorum_met (fst st') m")
      case True
      then show ?thesis
        using st' quorum_met_count [OF True] unfolding unf
        by (cases st') (auto simp: loop_post_def seen_events_simps False acked)
    next
      case met: False
      obtain t' f' where IH: "ack_loop deadline events st' = Some (t', f')"
        "loop_post (seen_events deadline events) (fst st') t'"
        using Cons.IH [OF ex, of "fst st'" "snd st'"] by auto
      have "loop_post (seen_events deadline (e # events)) t t'"
        using IH(2) st' unfolding loop_post_def seen_events_simps acked by (auto simp: False acked)
      then show ?thesis using IH(1) met unfolding unf by simp
    qed
  qed
qed simp

lemma finalise_committed:
  assumes "at_local_committed t"
  shows "ack_finalise t now =
    (if card (at_acks t) + 1 \<ge> qp_w (at_policy t) then Inr (card (at_acks t) + 1)
     else Inl (QuorumNotMet (card (at_acks t) + 1) (qp_w (at_policy t))
       (if now \<le> at_deadline t then InFlight else if at_acks t = {} then Unreachable else Timeout)))"
  using assms by (simp add: ack_finalise_def Let_def)

section \<open>Majorities\<close>

text \<open>What a client of a write quorum needs: two quorums share a member.\<close>

locale quorum_system =
  fixes is_quorum :: "nat set \<Rightarrow> bool"
  assumes intersect: "is_quorum Q \<Longrightarrow> is_quorum Q' \<Longrightarrow> Q \<inter> Q' \<noteq> {}"
begin

lemma not_both: "is_quorum Q \<Longrightarrow> \<not> is_quorum (- Q)"
  using intersect [of Q "- Q"] by blast

lemma witness_blocks:
  assumes "is_quorum Q" and "\<forall>i \<in> Q. i \<notin> B"
  shows "\<not> is_quorum B"
  using intersect [OF assms(1), of B] assms(2) by blast

end

definition majority_set :: "nat \<Rightarrow> nat set \<Rightarrow> bool" where
  "majority_set n Q \<longleftrightarrow> Q \<subseteq> {..<n} \<and> n div 2 + 1 \<le> card Q"

interpretation majority: quorum_system "majority_set n" for n
proof
  fix Q Q' assume "majority_set n Q" "majority_set n Q'"
  then have Q: "Q \<subseteq> {..<n}" "Q' \<subseteq> {..<n}" "n div 2 + 1 \<le> card Q" "n div 2 + 1 \<le> card Q'"
    by (simp_all add: majority_set_def)
  show "Q \<inter> Q' \<noteq> {}"
  proof
    assume "Q \<inter> Q' = {}"
    then have "card Q + card Q' = card (Q \<union> Q')"
      using Q(1,2) by (simp add: card_Un_disjoint finite_subset)
    also have "\<dots> \<le> card {..<n}" using Q(1,2) by (intro card_mono) auto
    finally show False using Q(3,4) by simp
  qed
qed

section \<open>Properties\<close>

lemma dlq_landing_rows:
  "set (dlq_landing sink peers t failures) =
    {(p, r). \<exists>enqueue. sink = Some enqueue \<and> p \<in> set peers \<and> p \<notin> at_acks t \<and>
       r = failure_reason failures p \<and> enqueue p r}"
  by (cases sink) (auto simp: dlq_landing_def)

text \<open>C11: A store round whose event stream ends (a drained fan-out, a timeout or a clock past the
  deadline) returns, and its verdict is exact: it succeeds exactly when the local commit and the
  distinct peers whose acknowledgement came before that end reach the policy's threshold. On
  success only such peers are counted; on failure all of them are. The round adds a row to the
  push dead-letter queue for exactly the dispatched peers that are not counted and whose insert
  the configured sink takes; without a sink it adds none, and whatever the sink does the verdict
  is the same.\<close>

theorem store_round_exact:
  assumes "\<exists>e \<in> set events. stops (now + qp_ack_timeout policy) e"
    and "acked = acked_by (seen_events (now + qp_ack_timeout policy) events)"
  shows "\<exists>t failures. broadcast_store_quorum policy sink peers now events =
      Some (t, dlq_landing sink peers t failures) \<and>
    (case ack_finalise t later of
       Inr got \<Rightarrow> qp_w policy \<le> card acked + 1 \<and> at_acks t \<subseteq> acked \<and>
         got = card (at_acks t) + 1 \<and> qp_w policy \<le> got
     | Inl e \<Rightarrow> card acked + 1 < qp_w policy \<and> at_acks t = acked) \<and>
    (\<forall>p. p \<in> fst ` set (dlq_landing sink peers t failures) \<longleftrightarrow>
       p \<in> set peers \<and> p \<notin> at_acks t \<and>
       (\<exists>enqueue. sink = Some enqueue \<and> enqueue p (failure_reason failures p)))"
proof -
  let ?t0 = "record_local (ack_tracker_new policy now)"
  obtain t f where r: "ack_loop (now + qp_ack_timeout policy) events (?t0, []) = Some (t, f)"
    "loop_post (seen_events (now + qp_ack_timeout policy) events) ?t0 t"
    using ack_loop_post [OF assms(1)] by blast
  then have t: "at_policy t = policy" "at_local_committed t" "at_acks t \<subseteq> acked"
    "card (at_acks t) + 1 < qp_w policy \<Longrightarrow> at_acks t = acked"
    by (auto simp: loop_post_def record_local_def ack_tracker_new_def assms(2))
  have "card (at_acks t) \<le> card acked"
    using t(3) by (simp add: assms(2) card_mono)
  then have "case ack_finalise t later of
       Inr got \<Rightarrow> qp_w policy \<le> card acked + 1 \<and> at_acks t \<subseteq> acked \<and>
         got = card (at_acks t) + 1 \<and> qp_w policy \<le> got
     | Inl e \<Rightarrow> card acked + 1 < qp_w policy \<and> at_acks t = acked"
    using t finalise_committed [OF t(2), of later] by auto
  moreover have "broadcast_store_quorum policy sink peers now events =
      Some (t, dlq_landing sink peers t f)"
    using r(1) by (simp add: broadcast_store_quorum_def)
  moreover have "\<forall>p. p \<in> fst ` set (dlq_landing sink peers t f) \<longleftrightarrow>
       p \<in> set peers \<and> p \<notin> at_acks t \<and>
       (\<exists>enqueue. sink = Some enqueue \<and> enqueue p (failure_reason f p))"
    by (force simp: dlq_landing_rows image_iff)
  ultimately show ?thesis by blast
qed

definition demo_policy :: quorum_policy where
  "demo_policy = \<lparr>qp_n = 3, qp_w = 2, qp_ack_timeout = 100, qp_clock_skew_warn = 30\<rparr>"

theorem store_round_exact_witness:
  "\<exists>t dlq. broadcast_store_quorum demo_policy (Some (\<lambda>p r. p \<noteq> ''r'')) [''p'', ''q'', ''r''] 0
       [(1, Joined ''q'' (AckFail ''http 500''), 2), (3, Drained, 3)] = Some (t, dlq) \<and>
     at_acks t = {} \<and> fst ` set dlq = {''p'', ''q''}"
proof -
  let ?es = "[(1, Joined ''q'' (AckFail ''http 500''), 2), (3, Drained, 3)]"
  have "\<exists>e \<in> set ?es. stops (0 + qp_ack_timeout demo_policy) e"
    by (simp add: stops_def demo_policy_def)
  from store_round_exact [OF this refl, of "Some (\<lambda>p r. p \<noteq> ''r'')" "[''p'', ''q'', ''r'']" 0]
  obtain t f where b: "broadcast_store_quorum demo_policy (Some (\<lambda>p r. p \<noteq> ''r''))
        [''p'', ''q'', ''r''] 0 ?es =
      Some (t, dlq_landing (Some (\<lambda>p r. p \<noteq> ''r'')) [''p'', ''q'', ''r''] t f)"
    "at_acks t = {}"
    "\<forall>p. p \<in> fst ` set (dlq_landing (Some (\<lambda>p r. p \<noteq> ''r'')) [''p'', ''q'', ''r''] t f) \<longleftrightarrow>
       p \<in> set [''p'', ''q'', ''r''] \<and> p \<notin> at_acks t \<and> p \<noteq> ''r''"
    by (auto simp: seen_events_def stops_def demo_policy_def split: sum.splits) (metis sum.exhaust)
  from b(3) have "fst ` set (dlq_landing (Some (\<lambda>p r. p \<noteq> ''r'')) [''p'', ''q'', ''r''] t f) =
      {''p'', ''q''}"
    unfolding b(2) by (intro set_eqI) auto
  with b(1,2) show ?thesis by blast
qed

text \<open>When every peer fails or drifts quickly, the drained round is classified before the deadline:
  no peer acknowledged, yet the error reported is the in-flight one and its payload says timeout,
  never unreachable.\<close>

theorem drained_round_reports_timeout:
  assumes "\<forall>e \<in> set events. \<exists>h p out m. e = (h, Joined p out, m) \<and> out \<noteq> AckOk \<and> h < now + qp_ack_timeout policy"
    and "head < now + qp_ack_timeout policy" and "later \<le> now + qp_ack_timeout policy" and "2 \<le> qp_w policy"
  shows "\<exists>t dlq. broadcast_store_quorum policy sink peers now (events @ [(head, Drained, head)]) = Some (t, dlq) \<and>
    at_acks t = {} \<and> ack_finalise t later = Inl (QuorumNotMet 1 (qp_w policy) InFlight) \<and>
    pl_reason (payload_from_err (QuorumNotMet 1 (qp_w policy) InFlight)) = ''timeout''"
proof -
  let ?es = "events @ [(head, Drained, head)]" and ?t0 = "record_local (ack_tracker_new policy now)"
  have "\<exists>e \<in> set ?es. stops (now + qp_ack_timeout policy) e" by (auto simp: stops_def)
  from ack_loop_post [OF this] obtain t f where
    r: "ack_loop (now + qp_ack_timeout policy) ?es (?t0, []) = Some (t, f)"
      "loop_post (seen_events (now + qp_ack_timeout policy) ?es) ?t0 t" by blast
  have "acked_by (seen_events (now + qp_ack_timeout policy) ?es) = {}"
    using assms(1) unfolding acked_by_def seen_events_def by (fastforce dest: set_takeWhileD)
  with r(2) have t: "at_acks t = {}" "at_policy t = policy" "at_local_committed t"
    "at_deadline t = now + qp_ack_timeout policy"
    by (auto simp: loop_post_def record_local_def ack_tracker_new_def)
  have "ack_finalise t later = Inl (QuorumNotMet 1 (qp_w policy) InFlight)"
    using finalise_committed [OF t(3), of later] assms(3,4) t by simp
  then show ?thesis using r(1) t(1) by (simp add: broadcast_store_quorum_def)
qed

theorem drained_round_reports_timeout_witness:
  "\<exists>t dlq. broadcast_store_quorum demo_policy None [''p''] 0
       ([(1, Joined ''p'' (AckFail ''refused''), 2)] @ [(3, Drained, 3)]) = Some (t, dlq) \<and>
     at_acks t = {} \<and> ack_finalise t 4 = Inl (QuorumNotMet 1 (qp_w demo_policy) InFlight) \<and>
     pl_reason (payload_from_err (QuorumNotMet 1 (qp_w demo_policy) InFlight)) = ''timeout''"
  by (rule drained_round_reports_timeout) (simp_all add: demo_policy_def)

text \<open>The majority policy of any positive cluster size is split-brain safe: two sets of nodes that
  both reach its threshold share a node.\<close>

theorem majority_quorums_intersect:
  assumes "quorum_majority n = Inr policy"
    and "Q \<subseteq> {..<n}" and "qp_w policy \<le> card Q" and "Q' \<subseteq> {..<n}" and "qp_w policy \<le> card Q'"
  shows "Q \<inter> Q' \<noteq> {}"
proof (rule majority.intersect)
  have "qp_w policy = n div 2 + 1"
    using assms(1) by (auto simp: quorum_majority_def quorum_policy_new_def split: if_splits)
  then show "majority_set n Q" and "majority_set n Q'"
    using assms by (simp_all add: majority_set_def)
qed

theorem majority_quorums_intersect_witness:
  "{0, 1, 2} \<inter> {1, 2, 3} \<noteq> ({} :: nat set)"
  by (rule majority_quorums_intersect [of 4 "\<lparr>qp_n = 4, qp_w = 3, qp_ack_timeout = 2000,
      qp_clock_skew_warn = 30000\<rparr>"])
    (auto simp: quorum_majority_def quorum_policy_new_def)

end
