(* ===== verification/Sequencer.thy ===== *)
theory Sequencer
  imports Actions Quorum
begin

text \<open>
  The quorum-elected sequencer of \<^verbatim>\<open>src/sequencer.rs\<close>: the leadership state machine over a lease, the
  acceptors that fence stale terms, and the round that assigns and commits the next slot. Terms and
  slots are integers; \<open>term_bound\<close> shows that a term never exceeds the number of rounds, so
  the width of the code's counters is not reached.
\<close>

section \<open>The sequencer\<close>

record sequencer_state =
  sq_term :: int
  sq_leader :: "string option"

datatype leadership_outcome = Acquired int | Renewed int | Conflict string

definition sequencer_evaluate :: "sequencer_state \<Rightarrow> lease option \<Rightarrow> string \<Rightarrow> int \<Rightarrow> leadership_outcome" where
  "sequencer_evaluate st existing candidate now =
     (case existing of
        Some l \<Rightarrow>
          if lease_expires_at l > now \<and> lease_holder l \<noteq> candidate then Conflict (lease_holder l)
          else if sq_leader st = Some candidate then Renewed (sq_term st) else Acquired (sq_term st + 1)
      | None \<Rightarrow> if sq_leader st = Some candidate then Renewed (sq_term st) else Acquired (sq_term st + 1))"

fun sequencer_apply :: "leadership_outcome \<Rightarrow> string \<Rightarrow> sequencer_state \<Rightarrow> sequencer_state" where
  "sequencer_apply (Acquired t) candidate st = st\<lparr>sq_term := t, sq_leader := Some candidate\<rparr>"
| "sequencer_apply _ candidate st = st"

definition sequencer_acquire :: "lease option \<Rightarrow> string \<Rightarrow> int \<Rightarrow> sequencer_state \<Rightarrow>
    sequencer_state \<times> leadership_outcome" where
  "sequencer_acquire existing candidate now st =
     (let outcome = sequencer_evaluate st existing candidate now
      in (sequencer_apply outcome candidate st, outcome))"

record acceptor_state =
  max_term_seen :: int

datatype vote_answer = Ack | RejectStaleTerm int

definition acceptor_vote :: "int \<Rightarrow> acceptor_state \<Rightarrow> acceptor_state \<times> vote_answer" where
  "acceptor_vote proposed_term a =
     (if proposed_term \<ge> max_term_seen a then (a\<lparr>max_term_seen := proposed_term\<rparr>, Ack)
      else (a, RejectStaleTerm (max_term_seen a)))"

datatype assignment_outcome = Committed int int nat | Rejected int nat nat

definition commit_assignment ::
  "acceptor_state list \<Rightarrow> int \<Rightarrow> int \<Rightarrow> nat \<Rightarrow> acceptor_state list \<times> assignment_outcome" where
  "commit_assignment quorum term seq w =
     (let votes = map (acceptor_vote term) quorum;
          acks = length (filter (\<lambda>v. snd v = Ack) votes)
      in (map fst votes, if acks \<ge> w then Committed term seq acks else Rejected term acks w))"

record committed_assignment =
  ca_term :: int
  ca_seq :: int
  ca_op :: string

record sequencer =
  sr_state :: sequencer_state
  sr_next_seq :: int

definition sequencer_new :: sequencer where
  "sequencer_new = \<lparr>sr_state = \<lparr>sq_term = 0, sq_leader = None\<rparr>, sr_next_seq = 0\<rparr>"

definition commit_op ::
  "sequencer \<Rightarrow> acceptor_state list \<Rightarrow> lease option \<Rightarrow> string \<Rightarrow> string \<Rightarrow> nat \<Rightarrow> int
    \<Rightarrow> sequencer \<times> acceptor_state list \<times> committed_assignment option" where
  "commit_op s quorum lease candidate op w now =
     (let led = (case sequencer_evaluate (sr_state s) lease candidate now of
          Conflict _ \<Rightarrow> None
        | Acquired _ \<Rightarrow>
            (let quorum_max = (if quorum = [] then 0 else Max (set (map max_term_seen quorum)));
                 new_term = max quorum_max (sq_term (sr_state s)) + 1
             in Some \<lparr>sr_state = \<lparr>sq_term = new_term, sq_leader = Some candidate\<rparr>, sr_next_seq = 0\<rparr>)
        | Renewed _ \<Rightarrow> Some s)
      in case led of
           None \<Rightarrow> (s, quorum, None)
         | Some s1 \<Rightarrow>
             (let term = sq_term (sr_state s1); seq = sr_next_seq s1
              in case commit_assignment quorum term seq w of
                   (quorum', Committed _ _ _) \<Rightarrow>
                     (s1\<lparr>sr_next_seq := seq + 1\<rparr>, quorum',
                      Some \<lparr>ca_term = term, ca_seq = seq, ca_op = op\<rparr>)
                 | (quorum', Rejected _ _ _) \<Rightarrow> (s1, quorum', None)))"

section \<open>Histories of rounds\<close>

text \<open>Every node runs its own sequencer against the shared acceptors; a round is one call of \<open>commit_op\<close>
  on the full set of them, under any lease snapshot and clock.\<close>

record seq_world =
  sw_nodes :: "nat \<Rightarrow> sequencer"
  sw_acceptors :: "acceptor_state list"
  sw_log :: "committed_assignment list"

record seq_round =
  rd_node :: nat
  rd_lease :: "lease option"
  rd_candidate :: string
  rd_op :: string
  rd_w :: nat
  rd_now :: int

definition world_round :: "seq_world \<Rightarrow> seq_round \<Rightarrow> seq_world" where
  "world_round W r =
     (case commit_op (sw_nodes W (rd_node r)) (sw_acceptors W) (rd_lease r) (rd_candidate r)
             (rd_op r) (rd_w r) (rd_now r) of
        (s, q, c) \<Rightarrow>
          \<lparr>sw_nodes = (sw_nodes W)(rd_node r := s), sw_acceptors = q,
           sw_log = sw_log W @ (case c of Some a \<Rightarrow> [a] | None \<Rightarrow> [])\<rparr>)"

definition world_new :: "nat \<Rightarrow> seq_world" where
  "world_new n = \<lparr>sw_nodes = (\<lambda>_. sequencer_new), sw_acceptors = replicate n \<lparr>max_term_seen = 0\<rparr>, sw_log = []\<rparr>"

definition world_run :: "seq_round list \<Rightarrow> seq_world \<Rightarrow> seq_world" where
  "world_run rs W = foldl world_round W rs"

definition assignment_less :: "committed_assignment \<Rightarrow> committed_assignment \<Rightarrow> bool" where
  "assignment_less c d \<longleftrightarrow> ca_term c < ca_term d \<or> (ca_term c = ca_term d \<and> ca_seq c < ca_seq d)"

abbreviation node_term :: "seq_world \<Rightarrow> nat \<Rightarrow> int" where
  "node_term W i \<equiv> sq_term (sr_state (sw_nodes W i))"

abbreviation leads :: "seq_world \<Rightarrow> nat \<Rightarrow> bool" where
  "leads W i \<equiv> sq_leader (sr_state (sw_nodes W i)) \<noteq> None"

definition slots :: "int \<Rightarrow> committed_assignment list \<Rightarrow> int list" where
  "slots t log = map ca_seq (filter (\<lambda>c. ca_term c = t) log)"

lemma slots_append [simp]:
  "slots t (xs @ ys) = slots t xs @ slots t ys" "slots t [] = []"
  "slots t [c] = (if ca_term c = t then [ca_seq c] else [])"
  by (simp_all add: slots_def)

text \<open>All acceptors stand at the term of the last election; only its winner stands there too, and its
  next slot is the number of assignments committed in that term.\<close>

definition seq_inv :: "nat \<Rightarrow> int \<Rightarrow> seq_world \<Rightarrow> bool" where
  "seq_inv k M W \<longleftrightarrow>
     0 \<le> M \<and> M \<le> int k \<and> sw_acceptors W \<noteq> [] \<and>
     (\<forall>a \<in> set (sw_acceptors W). max_term_seen a = M) \<and>
     (\<forall>i. 0 \<le> node_term W i \<and> node_term W i \<le> M) \<and>
     (\<forall>i j. leads W i \<and> leads W j \<and> node_term W i = M \<and> node_term W j = M \<longrightarrow> i = j) \<and>
     (\<forall>i. leads W i \<and> node_term W i = M \<longrightarrow>
        sr_next_seq (sw_nodes W i) = int (length (slots M (sw_log W)))) \<and>
     (\<forall>c \<in> set (sw_log W). ca_term c \<le> M) \<and>
     (\<forall>t. slots t (sw_log W) = map int [0..<length (slots t (sw_log W))]) \<and>
     sorted_wrt assignment_less (sw_log W)"

lemma commit_current:
  assumes "\<forall>a \<in> set q. max_term_seen a \<le> t"
  shows "commit_assignment q t s w =
    (map (\<lambda>a. a\<lparr>max_term_seen := t\<rparr>) q, if length q \<ge> w then Committed t s (length q) else Rejected t (length q) w)"
proof -
  have "map (acceptor_vote t) q = map (\<lambda>a. (a\<lparr>max_term_seen := t\<rparr>, Ack)) q"
    using assms by (auto simp: acceptor_vote_def)
  then show ?thesis by (simp add: commit_assignment_def comp_def)
qed

lemma commit_stale:
  assumes "\<forall>a \<in> set q. t < max_term_seen a" and "1 \<le> w"
  shows "commit_assignment q t s w = (q, Rejected t 0 w)"
proof -
  have "map (acceptor_vote t) q = map (\<lambda>a. (a, RejectStaleTerm (max_term_seen a))) q"
    using assms(1) by (auto simp: acceptor_vote_def)
  then show ?thesis using assms(2) by (simp add: commit_assignment_def comp_def map_idI)
qed

lemma slots_mono_less:
  assumes "slots t log = map int [0..<length (slots t log)]" and "c \<in> set log" and "ca_term c = t"
  shows "ca_seq c < int (length (slots t log))"
proof -
  have "ca_seq c \<in> set (slots t log)" using assms(2,3) by (auto simp: slots_def)
  then show ?thesis by (subst (asm) assms(1)) auto
qed

lemma sorted_snoc:
  "sorted_wrt assignment_less xs \<Longrightarrow> \<forall>c \<in> set xs. assignment_less c d \<Longrightarrow>
    sorted_wrt assignment_less (xs @ [d])"
  by (simp add: sorted_wrt_append)

text \<open>An election: the winner stands alone at the new term, with an empty slot space.\<close>

lemma seq_inv_elect:
  assumes inv: "seq_inv k M W" and t: "t = M + 1"
    and s: "sq_term (sr_state s) = t" "sq_leader (sr_state s) \<noteq> None"
    and ls: "(ls = [] \<and> sr_next_seq s = 0) \<or> (ls = [\<lparr>ca_term = t, ca_seq = 0, ca_op = op\<rparr>] \<and> sr_next_seq s = 1)"
  shows "seq_inv (Suc k) t
    \<lparr>sw_nodes = (sw_nodes W)(i := s),
     sw_acceptors = map (\<lambda>a. a\<lparr>max_term_seen := t\<rparr>) (sw_acceptors W), sw_log = sw_log W @ ls\<rparr>"
proof -
  have old: "ca_term c < t" if "c \<in> set (sw_log W)" for c
    using inv that t unfolding seq_inv_def by force
  then have new_slots: "slots t (sw_log W) = []" by (force simp: slots_def filter_empty_conv)
  have below: "node_term W j < t" for j using inv t unfolding seq_inv_def by (simp add: zle_add1_eq_le)
  have shape: "slots u (sw_log W) = map int [0..<length (slots u (sw_log W))]" for u
    using inv unfolding seq_inv_def by blast
  have slots: "slots u (sw_log W @ ls) = map int [0..<length (slots u (sw_log W @ ls))]" for u
    using ls new_slots shape [of u] by (auto split: if_splits)
  have sorted: "sorted_wrt assignment_less (sw_log W @ ls)"
    using inv ls old sorted_snoc [of "sw_log W"] unfolding seq_inv_def assignment_less_def by auto
  have next_s: "sr_next_seq s = int (length (slots t (sw_log W @ ls)))" using ls new_slots by auto
  show ?thesis
    using inv t s slots sorted next_s below old ls unfolding seq_inv_def by (auto simp: less_le)
qed

text \<open>A round of the current leader fills its next slot.\<close>

lemma seq_inv_extend:
  assumes inv: "seq_inv k M W" and lead: "leads W i" "node_term W i = M"
  shows "seq_inv (Suc k) M
    \<lparr>sw_nodes = (sw_nodes W)(i := (sw_nodes W i)\<lparr>sr_next_seq := sr_next_seq (sw_nodes W i) + 1\<rparr>),
     sw_acceptors = sw_acceptors W,
     sw_log = sw_log W @ [\<lparr>ca_term = M, ca_seq = sr_next_seq (sw_nodes W i), ca_op = op\<rparr>]\<rparr>"
proof -
  let ?n = "sr_next_seq (sw_nodes W i)"
  let ?c = "\<lparr>ca_term = M, ca_seq = ?n, ca_op = op\<rparr>"
  have n: "?n = int (length (slots M (sw_log W)))" using inv lead unfolding seq_inv_def by blast
  have shape: "slots u (sw_log W) = map int [0..<length (slots u (sw_log W))]" for u
    using inv unfolding seq_inv_def by blast
  have slots: "slots u (sw_log W @ [?c]) = map int [0..<length (slots u (sw_log W @ [?c]))]" for u
    using shape [of u] n by auto
  have "assignment_less c ?c" if "c \<in> set (sw_log W)" for c
    using inv that slots_mono_less [OF shape that] n unfolding seq_inv_def assignment_less_def
    by (force simp: order_le_less)
  then have "sorted_wrt assignment_less (sw_log W @ [?c])"
    using inv sorted_snoc [of "sw_log W" ?c] unfolding seq_inv_def by blast
  then show ?thesis
    using inv lead n slots unfolding seq_inv_def by auto
qed

lemma seq_inv_weaken: "seq_inv k M W \<Longrightarrow> seq_inv (Suc k) M W"
  by (simp add: seq_inv_def)

lemma acceptors_kept:
  "\<forall>a \<in> set q. max_term_seen a = t \<Longrightarrow> map (\<lambda>a. a\<lparr>max_term_seen := t\<rparr>) q = q"
  by (rule map_idI) simp

lemma world_round_inv:
  assumes inv: "seq_inv k M W" and w: "1 \<le> rd_w r"
  shows "\<exists>M'. seq_inv (Suc k) M' (world_round W r)"
proof -
  let ?i = "rd_node r"
  let ?s = "sw_nodes W ?i"
  let ?q = "sw_acceptors W"
  let ?v = "sequencer_evaluate (sr_state ?s) (rd_lease r) (rd_candidate r) (rd_now r)"
  have q: "\<forall>a \<in> set ?q. max_term_seen a = M" "?q \<noteq> []" and le: "node_term W ?i \<le> M"
    using inv unfolding seq_inv_def by blast+
  show ?thesis
  proof (cases ?v)
    case (Conflict l)
    then have "world_round W r = W" by (simp add: world_round_def commit_op_def)
    then show ?thesis using seq_inv_weaken [OF inv] by auto
  next
    case (Acquired u)
    let ?s1 = "\<lparr>sr_state = \<lparr>sq_term = M + 1, sq_leader = Some (rd_candidate r)\<rparr>, sr_next_seq = 0\<rparr>"
    have "Max (set (map max_term_seen ?q)) = M" using q by (intro Max_eqI) (auto simp: image_constant_conv)
    then have "max (Max (set (map max_term_seen ?q))) (node_term W ?i) + 1 = M + 1" using le by simp
    then have "world_round W r =
        (if rd_w r \<le> length ?q
         then \<lparr>sw_nodes = (sw_nodes W)(?i := ?s1\<lparr>sr_next_seq := 1\<rparr>),
               sw_acceptors = map (\<lambda>a. a\<lparr>max_term_seen := M + 1\<rparr>) ?q,
               sw_log = sw_log W @ [\<lparr>ca_term = M + 1, ca_seq = 0, ca_op = rd_op r\<rparr>]\<rparr>
         else \<lparr>sw_nodes = (sw_nodes W)(?i := ?s1),
               sw_acceptors = map (\<lambda>a. a\<lparr>max_term_seen := M + 1\<rparr>) ?q, sw_log = sw_log W @ []\<rparr>)"
      using Acquired q commit_current [of ?q "M + 1" 0 "rd_w r"]
      by (simp add: world_round_def commit_op_def Let_def)
    then show ?thesis
      using seq_inv_elect [OF inv refl, of "?s1\<lparr>sr_next_seq := 1\<rparr>"
          "[\<lparr>ca_term = M + 1, ca_seq = 0, ca_op = rd_op r\<rparr>]" "rd_op r" ?i]
        seq_inv_elect [OF inv refl, of ?s1 "[]" "rd_op r" ?i]
      by (cases "rd_w r \<le> length ?q") auto
  next
    case (Renewed u)
    then have lead: "leads W ?i"
      by (auto simp: sequencer_evaluate_def split: option.splits if_splits)
    show ?thesis
    proof (cases "node_term W ?i = M")
      case True
      have c: "commit_assignment ?q M (sr_next_seq ?s) (rd_w r) =
          (?q, if rd_w r \<le> length ?q then Committed M (sr_next_seq ?s) (length ?q)
               else Rejected M (length ?q) (rd_w r))"
        using commit_current [of ?q M "sr_next_seq ?s" "rd_w r"] q(1) by (simp add: acceptors_kept)
      show ?thesis
      proof (cases "rd_w r \<le> length ?q")
        case True
        then have "world_round W r =
            \<lparr>sw_nodes = (sw_nodes W)(?i := ?s\<lparr>sr_next_seq := sr_next_seq ?s + 1\<rparr>), sw_acceptors = ?q,
             sw_log = sw_log W @ [\<lparr>ca_term = M, ca_seq = sr_next_seq ?s, ca_op = rd_op r\<rparr>]\<rparr>"
          using Renewed c \<open>node_term W ?i = M\<close> by (simp add: world_round_def commit_op_def Let_def)
        then show ?thesis using seq_inv_extend [OF inv lead \<open>node_term W ?i = M\<close>] by auto
      next
        case False
        then have "world_round W r = W"
          using Renewed c \<open>node_term W ?i = M\<close> by (simp add: world_round_def commit_op_def Let_def)
        then show ?thesis using seq_inv_weaken [OF inv] by auto
      qed
    next
      case False
      then have "world_round W r = W"
        using Renewed q le w commit_stale [of ?q "node_term W ?i" "rd_w r" "sr_next_seq ?s"]
        by (simp add: world_round_def commit_op_def Let_def)
      then show ?thesis using seq_inv_weaken [OF inv] by auto
    qed
  qed
qed

lemma world_run_inv:
  assumes "seq_inv k M W" and "\<forall>r \<in> set rs. 1 \<le> rd_w r"
  shows "\<exists>M'. seq_inv (k + length rs) M' (world_run rs W)"
  using assms
proof (induction rs arbitrary: k M W)
  case (Cons r rs)
  obtain M' where "seq_inv (Suc k) M' (world_round W r)"
    using world_round_inv [OF Cons.prems(1), of r] Cons.prems(2) by auto
  from Cons.IH [OF this] Cons.prems(2) show ?case by (simp add: world_run_def)
qed (auto simp: world_run_def)

lemma world_new_inv: "0 < n \<Longrightarrow> seq_inv 0 0 (world_new n)"
  by (auto simp: seq_inv_def world_new_def sequencer_new_def)

lemma empty_round:
  assumes "sw_acceptors W = []" and "1 \<le> rd_w r"
  shows "sw_acceptors (world_round W r) = [] \<and> sw_log (world_round W r) = sw_log W"
  using assms by (auto simp: world_round_def commit_op_def commit_assignment_def Let_def
      split: leadership_outcome.split)

lemma empty_run:
  "sw_acceptors W = [] \<Longrightarrow> \<forall>r \<in> set rs. 1 \<le> rd_w r \<Longrightarrow> sw_log (world_run rs W) = sw_log W"
  by (induction rs arbitrary: W) (auto simp: world_run_def empty_round)

section \<open>Properties\<close>

text \<open>C10: Whatever nodes propose under whatever leases, clocks and quorum sizes of at least one, as long as
  every round reaches the full set of acceptors, the committed assignments form one total order:
  their (term, slot) pairs strictly increase in the order of commitment, so no slot is committed
  twice, and the slots of each term are 0, 1, 2 and so on without a gap.\<close>

theorem committed_total_order:
  assumes "\<forall>r \<in> set rs. 1 \<le> rd_w r"
  shows "sorted_wrt assignment_less (sw_log (world_run rs (world_new n))) \<and>
    slots t (sw_log (world_run rs (world_new n))) =
      map int [0..<length (slots t (sw_log (world_run rs (world_new n))))]"
proof (cases n)
  case 0
  then have "sw_log (world_run rs (world_new n)) = []"
    using empty_run [OF _ assms, of "world_new n"] by (simp add: world_new_def)
  then show ?thesis by simp
next
  case (Suc m)
  then obtain M' where "seq_inv (0 + length rs) M' (world_run rs (world_new n))"
    using world_run_inv [OF world_new_inv assms, of n] by blast
  then show ?thesis unfolding seq_inv_def by blast
qed

text \<open>A term never exceeds the number of rounds, far below the range of the code's 64-bit counters.\<close>

lemma term_bound:
  assumes "\<forall>r \<in> set rs. 1 \<le> rd_w r" and "0 < n"
  shows "node_term (world_run rs (world_new n)) i \<le> int (length rs)"
proof -
  obtain M' where M': "seq_inv (0 + length rs) M' (world_run rs (world_new n))"
    using world_run_inv [OF world_new_inv [OF assms(2)] assms(1)] by blast
  then have "node_term (world_run rs (world_new n)) i \<le> M'" unfolding seq_inv_def by blast
  also have "M' \<le> int (0 + length rs)" using M' unfolding seq_inv_def by blast
  finally show ?thesis by simp
qed

definition demo_round :: "nat \<Rightarrow> string \<Rightarrow> seq_round" where
  "demo_round i op = \<lparr>rd_node = i, rd_lease = None, rd_candidate = (if i = 0 then ''alpha'' else ''beta''),
     rd_op = op, rd_w = 2, rd_now = 0\<rparr>"

theorem committed_total_order_witness:
  "sorted_wrt assignment_less
     (sw_log (world_run [demo_round 0 ''x'', demo_round 1 ''y'', demo_round 0 ''z'', demo_round 1 ''u'']
       (world_new 3)))"
  by (rule committed_total_order [THEN conjunct1]) (simp add: demo_round_def)

text \<open>Under the majority policy the fence holds for any reached set: once a majority of the acceptors
  has seen a higher term, a proposal of a lower term is rejected whatever the other acceptors
  hold, and no acceptor moves back.\<close>

theorem stale_term_fenced:
  assumes "quorum_majority (length q) = Inr policy"
    and "qp_w policy \<le> length (filter (\<lambda>a. t < max_term_seen a) q)"
  shows "(\<exists>acks. snd (commit_assignment q t s (qp_w policy)) = Rejected t acks (qp_w policy)) \<and>
    list_all2 (\<lambda>a b. max_term_seen a \<le> max_term_seen b) q (fst (commit_assignment q t s (qp_w policy)))"
proof -
  let ?Q = "{i. i < length q \<and> t < max_term_seen (q ! i)}"
  let ?A = "{i. i < length q \<and> max_term_seen (q ! i) \<le> t}"
  have w: "qp_w policy = length q div 2 + 1"
    using assms(1) by (auto simp: quorum_majority_def quorum_policy_new_def split: if_splits)
  have "majority_set (length q) ?Q"
    using assms(2) by (auto simp: majority_set_def w length_filter_conv_card)
  then have "\<not> majority_set (length q) ?A" by (rule majority.witness_blocks) auto
  then have few: "card ?A < qp_w policy" by (auto simp: majority_set_def w)
  have "length (filter (\<lambda>v. snd v = Ack) (map (acceptor_vote t) q)) = card ?A"
    by (simp add: length_filter_conv_card acceptor_vote_def cong: conj_cong if_cong)
      (rule arg_cong [of _ _ card], auto)
  then have rejected: "\<exists>acks. snd (commit_assignment q t s (qp_w policy)) = Rejected t acks (qp_w policy)"
    using few by (simp add: commit_assignment_def Let_def)
  have "list_all2 (\<lambda>a b. max_term_seen a \<le> max_term_seen b) q (fst (commit_assignment q t s (qp_w policy)))"
    by (auto simp: commit_assignment_def Let_def list_all2_conv_all_nth acceptor_vote_def)
  with rejected show ?thesis ..
qed

definition at_term :: "int \<Rightarrow> acceptor_state" where
  "at_term t = \<lparr>max_term_seen = t\<rparr>"

theorem stale_term_fenced_witness:
  "\<exists>acks. snd (commit_assignment [at_term 3, at_term 1, at_term 4] 2 0 2) = Rejected 2 acks 2"
  using stale_term_fenced [of "[at_term 3, at_term 1, at_term 4]"
      "\<lparr>qp_n = 3, qp_w = 2, qp_ack_timeout = 2000, qp_clock_skew_warn = 30000\<rparr>" 2 0]
  by (simp add: quorum_majority_def quorum_policy_new_def at_term_def)

text \<open>When rounds reach different acceptors the order is not safe: a node that was elected on the third
  of three acceptors alone, and rejected, later reaches all three and commits its operation into
  the slot that another node had committed on the first two, under the same term and the
  majority threshold.\<close>

theorem partial_rounds_double_commit:
  "\<exists>alpha beta beta' a b c.
     commit_op sequencer_new [at_term 0] None ''beta'' ''y'' 2 0 = (beta, [c], None) \<and>
     commit_op sequencer_new [at_term 0, at_term 0] None ''alpha'' ''x'' 2 0 =
       (alpha, [a, b], Some \<lparr>ca_term = 1, ca_seq = 0, ca_op = ''x''\<rparr>) \<and>
     snd (snd (commit_op beta [a, b, c] None ''beta'' ''y'' 2 1)) =
       Some \<lparr>ca_term = 1, ca_seq = 0, ca_op = ''y''\<rparr>"
  by (simp add: commit_op_def sequencer_evaluate_def commit_assignment_def acceptor_vote_def at_term_def
      sequencer_new_def Let_def)

end
