(* ===== verification/Replay.thy ===== *)
theory Replay
  imports Signing "HOL-Library.AList"
begin

text \<open>
  The replay caches of \<^verbatim>\<open>src/identity/replay.rs\<close>: the first-in-first-out cache of the verify
  endpoint and the per-peer nonce cache of the federation receiver with its persisted mirror.
  The hash is the field \<open>sha256\<close> of the cryptography parameter. A hash map of peers is an association
  list in its iteration order; the touch counter stays below its 64-bit range. Every disk access of
  one call may fail as a whole or statement by statement, as the code swallows each failure.
\<close>

section \<open>Fingerprints\<close>

definition be32 :: "nat \<Rightarrow> bytes" where
  "be32 n = [char_of (n div 2 ^ 24 mod 256), char_of (n div 2 ^ 16 mod 256),
             char_of (n div 2 ^ 8 mod 256), char_of (n mod 256)]"

definition len_prefixed :: "bytes \<Rightarrow> bytes" where
  "len_prefixed b = be32 (length b mod 2 ^ 32) @ b"

definition verify_preimage :: "string \<Rightarrow> bytes \<Rightarrow> string \<Rightarrow> bytes" where
  "verify_preimage link_id signature nonce =
     len_prefixed link_id @ len_prefixed signature @ len_prefixed nonce"

definition verify_fingerprint :: "crypto \<Rightarrow> string \<Rightarrow> bytes \<Rightarrow> string \<Rightarrow> bytes" where
  "verify_fingerprint cr link_id signature nonce = sha256 cr (verify_preimage link_id signature nonce)"

definition nonce_preimage :: "string \<Rightarrow> string \<Rightarrow> bytes" where
  "nonce_preimage peer_id nonce = len_prefixed peer_id @ len_prefixed nonce"

definition nonce_fingerprint :: "crypto \<Rightarrow> string \<Rightarrow> string \<Rightarrow> bytes" where
  "nonce_fingerprint cr peer_id nonce = sha256 cr (nonce_preimage peer_id nonce)"

section \<open>The verify cache\<close>

definition seen_verifications_capacity :: nat where
  "seen_verifications_capacity = 100000"

datatype replay_decision = Fresh | Replay

record replay_cache =
  rc_seen :: "bytes set"
  rc_order :: "bytes list"
  rc_evictions :: nat

definition replay_cache_new :: replay_cache where
  "replay_cache_new = \<lparr>rc_seen = {}, rc_order = [], rc_evictions = 0\<rparr>"

definition record_and_check :: "crypto \<Rightarrow> string \<Rightarrow> bytes \<Rightarrow> string \<Rightarrow> replay_cache
    \<Rightarrow> replay_cache \<times> replay_decision" where
  "record_and_check cr link_id signature nonce c =
     (let fp = verify_fingerprint cr link_id signature nonce
      in if fp \<in> rc_seen c then (c, Replay)
         else
           (let c1 =
              (if length (rc_order c) \<ge> seen_verifications_capacity then
                 (case rc_order c of
                    [] \<Rightarrow> c
                  | evicted # rest \<Rightarrow>
                      c\<lparr>rc_order := rest, rc_seen := rc_seen c - {evicted},
                        rc_evictions := (rc_evictions c + 1) mod 2 ^ 64\<rparr>)
               else c)
            in (c1\<lparr>rc_order := rc_order c1 @ [fp], rc_seen := insert fp (rc_seen c1)\<rparr>, Fresh)))"

section \<open>The federation nonce cache\<close>

definition nonce_capacity_per_peer :: nat where
  "nonce_capacity_per_peer = 10000"

definition nonce_max_peers :: nat where
  "nonce_max_peers = 1024"

record peer_slot =
  ps_seen :: "bytes set"
  ps_order :: "bytes list"
  ps_last_touch :: nat

definition empty_slot :: peer_slot where
  "empty_slot = \<lparr>ps_seen = {}, ps_order = [], ps_last_touch = 0\<rparr>"

record nonce_row =
  nr_peer :: string
  nr_fingerprint :: bytes
  nr_last_touch :: nat

record nonce_cache =
  nc_peers :: "(string \<times> peer_slot) list"
  nc_touch :: nat
  nc_peer_evictions :: nat

text \<open>The slot with the smallest touch, the first of several in iteration order.\<close>

fun min_touch :: "(string \<times> peer_slot) list \<Rightarrow> (string \<times> peer_slot) option" where
  "min_touch [] = None"
| "min_touch (x # xs) =
     (case min_touch xs of
        None \<Rightarrow> Some x
      | Some y \<Rightarrow> if ps_last_touch (snd x) \<le> ps_last_touch (snd y) then Some x else Some y)"

text \<open>Which disk accesses of one call succeed.\<close>

record disk_ok =
  dk_open :: bool
  dk_insert :: bool
  dk_delete_fp :: bool
  dk_delete_peer :: bool

definition persist_fingerprint_and_evict ::
  "disk_ok \<Rightarrow> nonce_row list \<Rightarrow> string \<Rightarrow> bytes \<Rightarrow> nat \<Rightarrow> bytes option \<Rightarrow> string option \<Rightarrow> nonce_row list" where
  "persist_fingerprint_and_evict ok disk peer_id fp last_touch evicted_fp evicted_peer =
     (if \<not> dk_open ok then disk
      else
        (let d1 = (if dk_insert ok
                   then delete_where (\<lambda>r. nr_peer r = peer_id \<and> nr_fingerprint r = fp) disk
                        @ [\<lparr>nr_peer = peer_id, nr_fingerprint = fp, nr_last_touch = last_touch\<rparr>]
                   else disk);
             d2 = (case evicted_fp of
                Some efp \<Rightarrow>
                  if dk_delete_fp ok
                  then delete_where (\<lambda>r. nr_peer r = peer_id \<and> nr_fingerprint r = efp) d1 else d1
              | None \<Rightarrow> d1)
         in case evicted_peer of
              Some ep \<Rightarrow> if dk_delete_peer ok then delete_where (\<lambda>r. nr_peer r = ep) d2 else d2
            | None \<Rightarrow> d2))"

definition nonce_record_and_check ::
  "crypto \<Rightarrow> disk_ok \<Rightarrow> string \<Rightarrow> string \<Rightarrow> nonce_cache \<Rightarrow> nonce_row list
    \<Rightarrow> nonce_cache \<times> nonce_row list \<times> replay_decision" where
  "nonce_record_and_check cr ok peer_id nonce c disk =
     (let fp = nonce_fingerprint cr peer_id nonce;
          evicted_peer =
            (if map_of (nc_peers c) peer_id = None \<and> length (nc_peers c) \<ge> nonce_max_peers
             then map_option fst (min_touch (nc_peers c)) else None);
          c1 = (case evicted_peer of
              Some p \<Rightarrow> c\<lparr>nc_peers := filter (\<lambda>(k, _). k \<noteq> p) (nc_peers c),
                          nc_peer_evictions := (nc_peer_evictions c + 1) mod 2 ^ 64\<rparr>
            | None \<Rightarrow> c);
          touch = nc_touch c1;
          slot = (case map_of (nc_peers c1) peer_id of Some s \<Rightarrow> s | None \<Rightarrow> empty_slot)
                   \<lparr>ps_last_touch := touch\<rparr>;
          put = (\<lambda>s. c1\<lparr>nc_touch := touch + 1, nc_peers := AList.update peer_id s (nc_peers c1)\<rparr>)
      in if fp \<in> ps_seen slot then (put slot, disk, Replay)
         else
           (let full = length (ps_order slot) \<ge> nonce_capacity_per_peer;
                evicted_fp = (if full then (case ps_order slot of [] \<Rightarrow> None | e # _ \<Rightarrow> Some e) else None);
                slot1 = (case evicted_fp of
                    Some e \<Rightarrow> slot\<lparr>ps_order := tl (ps_order slot), ps_seen := ps_seen slot - {e}\<rparr>
                  | None \<Rightarrow> slot);
                slot2 = slot1\<lparr>ps_order := ps_order slot1 @ [fp], ps_seen := insert fp (ps_seen slot1)\<rparr>
            in (put slot2,
                persist_fingerprint_and_evict ok disk peer_id fp touch evicted_fp evicted_peer, Fresh)))"

text \<open>Reload after a restart: rows in touch order into slots, then the prune of the table.\<close>

definition hydrate_row :: "(string \<times> peer_slot) list \<Rightarrow> nonce_row \<Rightarrow> (string \<times> peer_slot) list" where
  "hydrate_row peers r =
     (let slot = (case map_of peers (nr_peer r) of Some s \<Rightarrow> s | None \<Rightarrow> empty_slot);
          slot1 = (if length (ps_order slot) \<ge> nonce_capacity_per_peer then
              (case ps_order slot of
                 [] \<Rightarrow> slot
               | e # rest \<Rightarrow> slot\<lparr>ps_order := rest, ps_seen := ps_seen slot - {e}\<rparr>)
            else slot);
          slot2 = slot1\<lparr>ps_order := ps_order slot1 @ [nr_fingerprint r],
                        ps_seen := insert (nr_fingerprint r) (ps_seen slot1),
                        ps_last_touch := nr_last_touch r\<rparr>
      in AList.update (nr_peer r) slot2 peers)"

definition prune_nonce_cache :: "nat \<Rightarrow> nonce_row list \<Rightarrow> nonce_row list" where
  "prune_nonce_cache cap disk =
     delete_where (\<lambda>r. count_where (\<lambda>x. nr_peer x = nr_peer r \<and> nr_last_touch x > nr_last_touch r) disk + 1 > cap)
       disk"

definition hydrate_from_disk :: "nonce_row list \<Rightarrow> nonce_cache \<times> nonce_row list" where
  "hydrate_from_disk disk =
     (let rows = filter (\<lambda>r. length (nr_fingerprint r) = 32) (sort_key nr_last_touch disk)
      in (\<lparr>nc_peers = foldl hydrate_row [] rows,
           nc_touch = foldl (\<lambda>m r. max m (nr_last_touch r)) 0 rows + 1,
           nc_peer_evictions = 0\<rparr>,
          prune_nonce_cache nonce_capacity_per_peer disk))"

section \<open>The window a cache stands for\<close>

definition window :: "nat \<Rightarrow> 'a list \<Rightarrow> 'a list" where
  "window n xs = drop (length xs - n) xs"

text \<open>The reference: a history of accepted fingerprints, and a verdict against its last entries.\<close>

definition window_check :: "nat \<Rightarrow> 'a \<Rightarrow> 'a list \<Rightarrow> 'a list \<times> replay_decision" where
  "window_check cap fp hist =
     (if fp \<in> set (window cap hist) then (hist, Replay) else (hist @ [fp], Fresh))"

lemma window_length [simp]: "length (window n xs) = min n (length xs)"
  by (simp add: window_def)

lemma window_short: "length xs \<le> n \<Longrightarrow> window n xs = xs"
  by (simp add: window_def)

lemma window_snoc:
  assumes "0 < n"
  shows "window n (xs @ [x]) = (if n \<le> length xs then tl (window n xs) else window n xs) @ [x]"
proof (cases "n \<le> length xs")
  case True
  then have "length (xs @ [x]) - n = Suc (length xs - n)" by simp
  then show ?thesis using True assms by (simp add: window_def drop_Suc tl_drop)
qed (simp add: window_def)

lemma distinct_tl_set: "distinct xs \<Longrightarrow> xs \<noteq> [] \<Longrightarrow> set (tl xs) = set xs - {hd xs}"
  by (cases xs) auto

definition cache_refines :: "bytes list \<Rightarrow> replay_cache \<Rightarrow> bool" where
  "cache_refines hist c \<longleftrightarrow>
     rc_order c = window seen_verifications_capacity hist \<and> rc_seen c = set (rc_order c) \<and>
     distinct (rc_order c) \<and>
     rc_evictions c = (length hist - seen_verifications_capacity) mod 2 ^ 64"

lemma cache_refines_length: "cache_refines hist c \<Longrightarrow> length (rc_order c) \<le> seen_verifications_capacity"
  unfolding cache_refines_def by (metis window_length min.cobounded1)

lemma capacity_pos: "0 < seen_verifications_capacity"
  by (simp add: seen_verifications_capacity_def)

lemma record_refines:
  assumes "cache_refines hist c"
  shows "cache_refines (fst (window_check seen_verifications_capacity (verify_fingerprint cr l s n) hist))
      (fst (record_and_check cr l s n c)) \<and>
    snd (record_and_check cr l s n c) =
      snd (window_check seen_verifications_capacity (verify_fingerprint cr l s n) hist)"
proof -
  let ?cap = seen_verifications_capacity
  define fp where "fp = verify_fingerprint cr l s n"
  have c: "rc_order c = window ?cap hist" "rc_seen c = set (window ?cap hist)"
    "distinct (window ?cap hist)" "rc_evictions c = (length hist - ?cap) mod 2 ^ 64"
    using assms unfolding cache_refines_def by metis+
  show ?thesis
  proof (cases "fp \<in> set (window ?cap hist)")
    case True
    then show ?thesis
      using assms c by (simp add: record_and_check_def window_check_def fp_def Let_def)
  next
    case False
    show ?thesis
    proof (cases "?cap \<le> length hist")
      case True
      then have "length (window ?cap hist) = ?cap" by simp
      then obtain e rest where w: "window ?cap hist = e # rest"
        using capacity_pos by (cases "window ?cap hist") auto
      have ev: "(rc_evictions c + 1) mod 2 ^ 64 = (length (hist @ [fp]) - ?cap) mod 2 ^ 64"
        using True unfolding c(4) by (simp add: mod_Suc_eq Suc_diff_le)
      have w': "window ?cap (hist @ [fp]) = rest @ [fp]"
        using True w by (simp add: window_snoc [OF capacity_pos])
      have len: "?cap \<le> length (rc_order c)" unfolding c(1) window_length using True by simp
      have seen: "insert fp (set (e # rest) - {e}) = set (rest @ [fp])" and "distinct (rest @ [fp])"
        using c(3) False unfolding w by auto
      moreover have "record_and_check cr l s n c =
          (c\<lparr>rc_order := rest @ [fp], rc_seen := insert fp (set (e # rest) - {e}),
             rc_evictions := (rc_evictions c + 1) mod 2 ^ 64\<rparr>, Fresh)"
        using False len unfolding record_and_check_def fp_def [symmetric] Let_def c(1,2) w by simp
      moreover have "window_check ?cap fp hist = (hist @ [fp], Fresh)"
        using False by (simp add: window_check_def)
      ultimately show ?thesis
        unfolding fp_def [symmetric] cache_refines_def using w' ev by simp
    next
      case short: False
      then show ?thesis
        using False c window_snoc [OF capacity_pos, of hist fp]
        by (auto simp: record_and_check_def window_check_def fp_def [symmetric] Let_def cache_refines_def)
    qed
  qed
qed

text \<open>Runs over a list of requests.\<close>

fun verify_run :: "crypto \<Rightarrow> (string \<times> bytes \<times> string) list \<Rightarrow> replay_cache
    \<Rightarrow> replay_cache \<times> replay_decision list" where
  "verify_run cr [] c = (c, [])"
| "verify_run cr ((l, s, n) # reqs) c =
     (case record_and_check cr l s n c of
        (c', d) \<Rightarrow> (case verify_run cr reqs c' of (c'', ds) \<Rightarrow> (c'', d # ds)))"

fun window_run :: "nat \<Rightarrow> 'a list \<Rightarrow> 'a list \<Rightarrow> 'a list \<times> replay_decision list" where
  "window_run cap [] hist = (hist, [])"
| "window_run cap (fp # fps) hist =
     (case window_check cap fp hist of
        (hist', d) \<Rightarrow> (case window_run cap fps hist' of (hist'', ds) \<Rightarrow> (hist'', d # ds)))"

abbreviation request_fp :: "crypto \<Rightarrow> string \<times> bytes \<times> string \<Rightarrow> bytes" where
  "request_fp cr r \<equiv> verify_fingerprint cr (fst r) (fst (snd r)) (snd (snd r))"

lemma verify_run_refines:
  assumes "cache_refines hist c"
  shows "snd (verify_run cr reqs c) = snd (window_run seen_verifications_capacity (map (request_fp cr) reqs) hist) \<and>
    cache_refines (fst (window_run seen_verifications_capacity (map (request_fp cr) reqs) hist))
      (fst (verify_run cr reqs c))"
  using assms
proof (induction reqs arbitrary: hist c)
  case (Cons r reqs)
  obtain l s n where r: "r = (l, s, n)" by (cases r)
  note step = record_refines [OF Cons.prems, of cr l s n]
  show ?case
    using step Cons.IH [OF conjunct1 [OF step]] by (simp add: r case_prod_beta)
qed simp

lemma cache_new_refines: "cache_refines [] replay_cache_new"
  by (simp add: cache_refines_def replay_cache_new_def window_def)

text \<open>C12: From an empty cache, the decisions on every sequence of requests are those of a reference that
  keeps the whole history and looks a fingerprint up among its last 100,000 accepted ones; the
  cache then holds exactly these, within its capacity, and counts the evictions.\<close>

theorem replay_refines_window:
  "snd (verify_run cr reqs replay_cache_new) =
     snd (window_run seen_verifications_capacity (map (request_fp cr) reqs) []) \<and>
   cache_refines (fst (window_run seen_verifications_capacity (map (request_fp cr) reqs) []))
     (fst (verify_run cr reqs replay_cache_new)) \<and>
   length (rc_order (fst (verify_run cr reqs replay_cache_new))) \<le> seen_verifications_capacity"
  using verify_run_refines [OF cache_new_refines, of cr reqs] cache_refines_length by blast

section \<open>The persisted mirror of the nonce cache\<close>

definition disk_fine :: disk_ok where
  "disk_fine = \<lparr>dk_open = True, dk_insert = True, dk_delete_fp = True, dk_delete_peer = True\<rparr>"

definition nonce_cache_new :: nonce_cache where
  "nonce_cache_new = \<lparr>nc_peers = [], nc_touch = 0, nc_peer_evictions = 0\<rparr>"

definition nonce_run :: "crypto \<Rightarrow> (string \<times> string) list \<Rightarrow> nonce_cache \<times> nonce_row list" where
  "nonce_run cr reqs =
     foldl (\<lambda>(c, d) (p, n). case nonce_record_and_check cr disk_fine p n c d of (c', d', _) \<Rightarrow> (c', d'))
       (nonce_cache_new, []) reqs"

definition peer_rows :: "string \<Rightarrow> nonce_row list \<Rightarrow> nonce_row list" where
  "peer_rows p disk = filter (\<lambda>r. nr_peer r = p) disk"

definition slot_mirrors :: "nonce_row list \<Rightarrow> peer_slot \<Rightarrow> bool" where
  "slot_mirrors rows s \<longleftrightarrow>
     rows \<noteq> [] \<and> ps_order s = map nr_fingerprint rows \<and> ps_seen s = set (ps_order s) \<and>
     distinct (ps_order s) \<and> length rows \<le> nonce_capacity_per_peer"

definition mirror_at :: "nonce_row list \<Rightarrow> peer_slot option \<Rightarrow> bool" where
  "mirror_at rows slot = (case slot of None \<Rightarrow> rows = [] | Some s \<Rightarrow> slot_mirrors rows s)"

definition mirrors :: "nonce_cache \<Rightarrow> nonce_row list \<Rightarrow> bool" where
  "mirrors c disk \<longleftrightarrow>
     sorted_wrt (<) (map nr_last_touch disk) \<and> (\<forall>r \<in> set disk. nr_last_touch r < nc_touch c) \<and>
     (\<forall>r \<in> set disk. length (nr_fingerprint r) = 32) \<and>
     distinct (map fst (nc_peers c)) \<and> length (nc_peers c) \<le> nonce_max_peers \<and>
     (\<forall>p. mirror_at (peer_rows p disk) (map_of (nc_peers c) p))"

lemma peer_rows_simps [simp]:
  "peer_rows p [] = []"
  "peer_rows p (xs @ ys) = peer_rows p xs @ peer_rows p ys"
  "peer_rows p (r # rs) = (if nr_peer r = p then r # peer_rows p rs else peer_rows p rs)"
  by (simp_all add: peer_rows_def)

lemma peer_rows_delete_peer:
  "peer_rows p (delete_where (\<lambda>r. nr_peer r = q) d) = (if p = q then [] else peer_rows p d)"
  by (induction d) (auto simp: delete_where_def)

lemma peer_rows_delete_fp:
  "peer_rows p (delete_where (\<lambda>r. nr_peer r = q \<and> nr_fingerprint r = f) d) =
     (if p = q then filter (\<lambda>r. nr_fingerprint r \<noteq> f) (peer_rows p d) else peer_rows p d)"
  by (induction d) (auto simp: delete_where_def)

lemma min_touch_mem: "min_touch xs = Some x \<Longrightarrow> x \<in> set xs"
  by (induction xs) (auto split: option.splits if_splits)

lemma min_touch_None: "min_touch xs = None \<longleftrightarrow> xs = []"
  by (cases xs) (auto split: option.splits if_splits)

lemma distinct_map_filter_fst: "distinct (map fst xs) \<Longrightarrow> distinct (map fst (filter P xs))"
  by (induction xs) auto

lemma map_of_filter_key:
  "map_of (filter (\<lambda>(k, _). k \<noteq> q) xs) p = (if p = q then None else map_of xs p)"
  by (induction xs) auto

lemma sorted_delete:
  "sorted_wrt (<) (map nr_last_touch d) \<Longrightarrow> sorted_wrt (<) (map nr_last_touch (delete_where P d))"
  by (induction d) (auto simp: delete_where_def)

text \<open>The three statements on the table keep the mirror, one at a time.\<close>

lemma mirrors_evict_peer:
  assumes "mirrors c disk" and "c1 = c\<lparr>nc_peers := filter (\<lambda>(k, _). k \<noteq> q) (nc_peers c), nc_peer_evictions := e\<rparr>"
  shows "mirrors c1 (delete_where (\<lambda>r. nr_peer r = q) disk)"
proof -
  have "length (filter (\<lambda>(k, _). k \<noteq> q) (nc_peers c)) \<le> nonce_max_peers"
    using assms(1) length_filter_le [of _ "nc_peers c"] unfolding mirrors_def by (meson order_trans)
  moreover have "r \<in> set (delete_where P disk) \<Longrightarrow> r \<in> set disk" for r P
    by (simp add: delete_where_def)
  moreover have "mirror_at (peer_rows p (delete_where (\<lambda>r. nr_peer r = q) disk))
      (map_of (filter (\<lambda>(k, _). k \<noteq> q) (nc_peers c)) p)" for p
    using assms(1) unfolding peer_rows_delete_peer map_of_filter_key mirrors_def
    by (simp add: mirror_at_def)
  ultimately show ?thesis
    using assms sorted_delete distinct_map_filter_fst unfolding mirrors_def by auto
qed

lemma mirrors_touch: "mirrors c disk \<Longrightarrow> nc_touch c \<le> t \<Longrightarrow> mirrors (c\<lparr>nc_touch := t\<rparr>) disk"
  unfolding mirrors_def by auto

lemma nonce_capacity_pos: "0 < nonce_capacity_per_peer"
  by (simp add: nonce_capacity_per_peer_def)

text \<open>The slot and the rows of a peer after an accepted fingerprint.\<close>

definition push_slot :: "nat \<Rightarrow> bytes \<Rightarrow> peer_slot \<Rightarrow> peer_slot" where
  "push_slot touch fp s =
     (let s1 = s\<lparr>ps_last_touch := touch\<rparr>;
          s2 = (if length (ps_order s1) \<ge> nonce_capacity_per_peer then
              (case ps_order s1 of
                 [] \<Rightarrow> s1
               | e # rest \<Rightarrow> s1\<lparr>ps_order := rest, ps_seen := ps_seen s1 - {e}\<rparr>)
            else s1)
      in s2\<lparr>ps_order := ps_order s2 @ [fp], ps_seen := insert fp (ps_seen s2)\<rparr>)"

definition push_rows :: "nonce_row list \<Rightarrow> nonce_row \<Rightarrow> nonce_row list" where
  "push_rows rows r =
     (if length rows \<ge> nonce_capacity_per_peer then tl rows else rows) @ [r]"

lemma push_mirrors:
  assumes "mirror_at rows slot" and "nr_fingerprint r \<notin> nr_fingerprint ` set rows"
  shows "slot_mirrors (push_rows rows r)
    (push_slot t (nr_fingerprint r) (case slot of Some s \<Rightarrow> s | None \<Rightarrow> empty_slot))"
proof -
  define s where "s = (case slot of Some s \<Rightarrow> s | None \<Rightarrow> empty_slot)"
  have s: "ps_order s = map nr_fingerprint rows" "ps_seen s = nr_fingerprint ` set rows"
    "distinct (map nr_fingerprint rows)" "length rows \<le> nonce_capacity_per_peer"
    using assms(1) by (auto simp: s_def mirror_at_def slot_mirrors_def empty_slot_def split: option.splits)
  have "slot_mirrors (push_rows rows r) (push_slot t (nr_fingerprint r) s)"
  proof (cases "length rows \<ge> nonce_capacity_per_peer")
    case True
    then obtain e rest where rows: "rows = e # rest" using nonce_capacity_pos by (cases rows) auto
    have "nr_fingerprint ` set (e # rest) - {nr_fingerprint e} = nr_fingerprint ` set rest"
      using s(3) unfolding rows by auto
    then show ?thesis
      using s True assms(2) unfolding rows
      by (auto simp: slot_mirrors_def push_rows_def push_slot_def Let_def)
  next
    case False
    then show ?thesis
      using s assms(2) by (auto simp: slot_mirrors_def push_rows_def push_slot_def Let_def)
  qed
  then show ?thesis by (simp add: s_def)
qed

text \<open>The evicted fingerprint is the first of the peer's rows.\<close>

definition evicted_of :: "peer_slot \<Rightarrow> bytes option" where
  "evicted_of s =
     (if length (ps_order s) \<ge> nonce_capacity_per_peer
      then (case ps_order s of [] \<Rightarrow> None | e # _ \<Rightarrow> Some e) else None)"

lemma filter_fresh: "k \<notin> f ` set xs \<Longrightarrow> filter (\<lambda>r. f r \<noteq> k) xs = xs"
  by (auto simp: filter_id_conv)

lemma filter_neq_first:
  "distinct (map f (x # xs)) \<Longrightarrow> filter (\<lambda>r. f r \<noteq> f x) (x # xs) = xs"
  using filter_fresh [of "f x" f xs] by simp

definition persisted :: "nonce_row list \<Rightarrow> nonce_row \<Rightarrow> bytes option \<Rightarrow> nonce_row list" where
  "persisted disk r evicted_fp =
     (let d1 = delete_where (\<lambda>x. nr_peer x = nr_peer r \<and> nr_fingerprint x = nr_fingerprint r) disk @ [r]
      in case evicted_fp of
           Some efp \<Rightarrow> delete_where (\<lambda>x. nr_peer x = nr_peer r \<and> nr_fingerprint x = efp) d1
         | None \<Rightarrow> d1)"

lemma persisted_rows:
  assumes m: "mirror_at (peer_rows (nr_peer r) disk) slot"
    and fresh: "nr_fingerprint r \<notin> nr_fingerprint ` set (peer_rows (nr_peer r) disk)"
  shows "peer_rows p (persisted disk r (evicted_of (case slot of Some s \<Rightarrow> s | None \<Rightarrow> empty_slot))) =
    (if p = nr_peer r then push_rows (peer_rows p disk) r else peer_rows p disk)"
proof -
  let ?rows = "peer_rows (nr_peer r) disk"
  define s where "s = (case slot of Some s \<Rightarrow> s | None \<Rightarrow> empty_slot)"
  have s: "ps_order s = map nr_fingerprint ?rows" "distinct (map nr_fingerprint ?rows)"
    using m by (auto simp: s_def mirror_at_def slot_mirrors_def empty_slot_def split: option.splits)
  have same: "filter (\<lambda>x. nr_fingerprint x \<noteq> nr_fingerprint r) ?rows = ?rows"
    by (rule filter_fresh [OF fresh])
  have "peer_rows p (persisted disk r (evicted_of s)) =
      (if p = nr_peer r then push_rows (peer_rows p disk) r else peer_rows p disk)"
  proof (cases "length ?rows \<ge> nonce_capacity_per_peer")
    case True
    then obtain e rest where rows: "?rows = e # rest" using nonce_capacity_pos by (cases ?rows) auto
    then have "evicted_of s = Some (nr_fingerprint e)" using True s(1) by (simp add: evicted_of_def)
    moreover have "filter (\<lambda>x. nr_fingerprint x \<noteq> nr_fingerprint e) ?rows = rest"
      unfolding rows by (rule filter_neq_first) (use s(2) rows in simp)
    moreover have "nr_fingerprint r \<noteq> nr_fingerprint e" using fresh unfolding rows by auto
    ultimately show ?thesis
      using True rows same by (auto simp: persisted_def peer_rows_delete_fp push_rows_def)
  next
    case False
    then have "evicted_of s = None" using s(1) by (simp add: evicted_of_def)
    then show ?thesis using False same by (auto simp: persisted_def peer_rows_delete_fp push_rows_def)
  qed
  then show ?thesis by (simp add: s_def)
qed

lemma persisted_other_peer:
  "nr_peer r \<noteq> q \<Longrightarrow> delete_where (\<lambda>x. nr_peer x = q) (persisted disk r efp) =
    persisted (delete_where (\<lambda>x. nr_peer x = q) disk) r efp"
  by (cases efp) (auto simp: persisted_def Let_def delete_where_def intro!: filter_cong)

definition evict_lru :: "string \<Rightarrow> nonce_cache \<Rightarrow> string option" where
  "evict_lru peer_id c =
     (if map_of (nc_peers c) peer_id = None \<and> length (nc_peers c) \<ge> nonce_max_peers
      then map_option fst (min_touch (nc_peers c)) else None)"

definition after_evict :: "string option \<Rightarrow> nonce_cache \<times> nonce_row list \<Rightarrow> nonce_cache \<times> nonce_row list" where
  "after_evict q st =
     (case (q, st) of
        (Some p, (c, disk)) \<Rightarrow>
          (c\<lparr>nc_peers := filter (\<lambda>(k, _). k \<noteq> p) (nc_peers c),
             nc_peer_evictions := (nc_peer_evictions c + 1) mod 2 ^ 64\<rparr>,
           delete_where (\<lambda>r. nr_peer r = p) disk)
      | (None, st) \<Rightarrow> st)"

definition slot_of :: "string \<Rightarrow> nonce_cache \<Rightarrow> peer_slot" where
  "slot_of p c = (case map_of (nc_peers c) p of Some s \<Rightarrow> s | None \<Rightarrow> empty_slot)"

definition put_slot :: "string \<Rightarrow> peer_slot \<Rightarrow> nonce_cache \<Rightarrow> nonce_cache" where
  "put_slot p s c = c\<lparr>nc_touch := nc_touch c + 1, nc_peers := AList.update p s (nc_peers c)\<rparr>"

lemma evict_lru_other: "evict_lru p c = Some q \<Longrightarrow> q \<noteq> p \<and> map_of (nc_peers c) p = None"
  using min_touch_mem [of "nc_peers c"] by (force simp: evict_lru_def map_of_eq_None_iff split: if_splits)

lemma nonce_record_eq:
  fixes cr p n c disk
  defines "fp \<equiv> nonce_fingerprint cr p n"
  defines "st \<equiv> after_evict (evict_lru p c) (c, disk)"
  defines "row \<equiv> \<lparr>nr_peer = p, nr_fingerprint = fp, nr_last_touch = nc_touch c\<rparr>"
  shows "nonce_record_and_check cr disk_fine p n c disk =
    (if fp \<in> ps_seen (slot_of p (fst st))
     then (put_slot p ((slot_of p (fst st))\<lparr>ps_last_touch := nc_touch c\<rparr>) (fst st), disk, Replay)
     else (put_slot p (push_slot (nc_touch c) fp (slot_of p (fst st))) (fst st),
           persisted (snd st) row (evicted_of (slot_of p (fst st))), Fresh))"
proof (cases "evict_lru p c")
  case None
  then have st: "st = (c, disk)" by (simp add: st_def after_evict_def)
  show ?thesis
    using None unfolding st nonce_record_and_check_def evict_lru_def [symmetric] fp_def [symmetric] row_def
    by (simp add: Let_def slot_of_def put_slot_def push_slot_def evicted_of_def persisted_def
        persist_fingerprint_and_evict_def disk_fine_def split: list.split option.split)
next
  case (Some q)
  note q = evict_lru_other [OF Some]
  let ?c1 = "c\<lparr>nc_peers := filter (\<lambda>(k, _). k \<noteq> q) (nc_peers c),
             nc_peer_evictions := (nc_peer_evictions c + 1) mod 2 ^ 64\<rparr>"
  have st: "st = (?c1, delete_where (\<lambda>r. nr_peer r = q) disk)"
    using Some by (simp add: st_def after_evict_def)
  have none: "map_of (filter (\<lambda>(k, _). k \<noteq> q) (nc_peers c)) p = None"
    using q by (simp add: map_of_filter_key)
  have "nr_peer row \<noteq> q" using q by (auto simp: row_def)
  note other = persisted_other_peer [OF this, of disk None, symmetric]
  show ?thesis
    using Some none unfolding st nonce_record_and_check_def evict_lru_def [symmetric] fp_def [symmetric]
    by (simp add: Let_def slot_of_def put_slot_def push_slot_def evicted_of_def empty_slot_def
        persist_fingerprint_and_evict_def disk_fine_def other)
      (simp add: persisted_def row_def nonce_capacity_pos)
qed

lemma after_evict_mirrors:
  assumes "mirrors c disk"
  shows "mirrors (fst (after_evict (evict_lru p c) (c, disk))) (snd (after_evict (evict_lru p c) (c, disk)))"
    and "nc_touch (fst (after_evict (evict_lru p c) (c, disk))) = nc_touch c"
    and "map_of (nc_peers (fst (after_evict (evict_lru p c) (c, disk)))) p = map_of (nc_peers c) p"
    and "map_of (nc_peers c) p = None \<Longrightarrow>
      length (nc_peers (fst (after_evict (evict_lru p c) (c, disk)))) < nonce_max_peers"
proof -
  show "mirrors (fst (after_evict (evict_lru p c) (c, disk))) (snd (after_evict (evict_lru p c) (c, disk)))"
    using assms mirrors_evict_peer [OF assms refl] by (cases "evict_lru p c") (simp_all add: after_evict_def)
  show "nc_touch (fst (after_evict (evict_lru p c) (c, disk))) = nc_touch c"
    by (simp add: after_evict_def split: option.split)
  show "map_of (nc_peers (fst (after_evict (evict_lru p c) (c, disk)))) p = map_of (nc_peers c) p"
    using evict_lru_other [of p c]
    by (cases "evict_lru p c") (auto simp: after_evict_def map_of_filter_key)
  assume new: "map_of (nc_peers c) p = None"
  have len: "length (nc_peers c) \<le> nonce_max_peers" using assms unfolding mirrors_def by blast
  show "length (nc_peers (fst (after_evict (evict_lru p c) (c, disk)))) < nonce_max_peers"
  proof (cases "length (nc_peers c) \<ge> nonce_max_peers")
    case True
    then obtain x where x: "min_touch (nc_peers c) = Some x"
      using min_touch_None [of "nc_peers c"] by (cases "min_touch (nc_peers c)") (auto simp: nonce_max_peers_def)
    have "length (filter (\<lambda>(k, _). k \<noteq> fst x) (nc_peers c)) < length (nc_peers c)"
      by (rule length_filter_less [OF min_touch_mem [OF x]]) (simp add: case_prod_beta)
    then show ?thesis
      using True new x len by (simp add: after_evict_def evict_lru_def)
  qed (use new in \<open>simp add: after_evict_def evict_lru_def\<close>)
qed

lemma length_update:
  "length (AList.update p s xs) = (if map_of xs p = None then Suc (length xs) else length xs)"
  by (induction xs) auto

lemma update_bound:
  assumes "length xs \<le> n" and "map_of xs p = None \<Longrightarrow> length xs < n"
  shows "length (AList.update p s xs) \<le> n"
  using assms by (cases "map_of xs p = None") (auto simp: length_update)

lemma persisted_subset: "set (persisted disk r efp) \<subseteq> insert r (set disk)"
  by (auto simp: persisted_def delete_where_def Let_def split: option.splits)

lemma persisted_sorted:
  assumes "sorted_wrt (<) (map nr_last_touch disk)" and "\<forall>x \<in> set disk. nr_last_touch x < nr_last_touch r"
  shows "sorted_wrt (<) (map nr_last_touch (persisted disk r efp))"
proof -
  have "sorted_wrt (<) (map nr_last_touch
      (delete_where (\<lambda>x. nr_peer x = nr_peer r \<and> nr_fingerprint x = nr_fingerprint r) disk @ [r]))"
    using sorted_delete [OF assms(1), of "\<lambda>x. nr_peer x = nr_peer r \<and> nr_fingerprint x = nr_fingerprint r"] assms(2)
    by (auto simp: sorted_wrt_append delete_where_def)
  note this and sorted_delete [OF this]
  then show ?thesis by (cases efp) (simp_all only: persisted_def Let_def option.simps)
qed

lemma slot_of_seen:
  "mirror_at (peer_rows p disk) (map_of (nc_peers c) p) \<Longrightarrow>
    ps_seen (slot_of p c) = nr_fingerprint ` set (peer_rows p disk)"
  by (auto simp: mirror_at_def slot_mirrors_def slot_of_def empty_slot_def split: option.splits)

lemma nonce_record_mirrors:
  assumes m: "mirrors c disk" and sha: "\<forall>b. length (sha256 cr b) = 32"
  shows "mirrors (fst (nonce_record_and_check cr disk_fine p n c disk))
    (fst (snd (nonce_record_and_check cr disk_fine p n c disk)))"
proof -
  define fp where "fp = nonce_fingerprint cr p n"
  define st where "st = after_evict (evict_lru p c) (c, disk)"
  define row where "row = \<lparr>nr_peer = p, nr_fingerprint = fp, nr_last_touch = nc_touch c\<rparr>"
  note ev = after_evict_mirrors [OF m, of p, folded st_def]
  have st: "distinct (map fst (nc_peers (fst st)))" "length (nc_peers (fst st)) \<le> nonce_max_peers"
    "sorted_wrt (<) (map nr_last_touch (snd st))" "\<forall>r \<in> set (snd st). nr_last_touch r < nc_touch c"
    "\<forall>r \<in> set (snd st). length (nr_fingerprint r) = 32"
    and at: "mirror_at (peer_rows q (snd st)) (map_of (nc_peers (fst st)) q)" for q
    using ev(1) unfolding mirrors_def ev(2) by blast+
  have room: "map_of (nc_peers (fst st)) p = None \<Longrightarrow> length (nc_peers (fst st)) < nonce_max_peers"
    using ev(3,4) by simp
  have len: "length (AList.update p s (nc_peers (fst st))) \<le> nonce_max_peers" for s
    by (rule update_bound [OF st(2) room])
  note eq = nonce_record_eq [of cr p n c disk, folded fp_def, folded st_def, folded row_def]
  show ?thesis
  proof (cases "fp \<in> ps_seen (slot_of p (fst st))")
    case True
    then have slot: "map_of (nc_peers (fst st)) p = Some (slot_of p (fst st))"
      by (cases "map_of (nc_peers (fst st)) p") (simp_all add: slot_of_def empty_slot_def)
    then have "evict_lru p c = None" using ev(3) by (simp add: evict_lru_def)
    then have same: "st = (c, disk)" by (simp add: st_def after_evict_def)
    have "mirror_at (peer_rows q disk)
        (map_of (AList.update p ((slot_of p c)\<lparr>ps_last_touch := nc_touch c\<rparr>) (nc_peers c)) q)" for q
      using at [of q] slot unfolding same
      by (auto simp: update_conv' mirror_at_def slot_mirrors_def)
    then show ?thesis
      using True st slot len unfolding eq same mirrors_def put_slot_def
      by (auto simp: distinct_update less_Suc_eq)
  next
    case False
    have fresh: "nr_fingerprint row \<notin> nr_fingerprint ` set (peer_rows (nr_peer row) (snd st))"
      using False slot_of_seen [OF at [of p]] by (simp add: row_def)
    have at_p: "mirror_at (peer_rows (nr_peer row) (snd st)) (map_of (nc_peers (fst st)) p)"
      using at [of p] by (simp add: row_def)
    have rows: "peer_rows q (persisted (snd st) row (evicted_of (slot_of p (fst st)))) =
        (if q = p then push_rows (peer_rows q (snd st)) row else peer_rows q (snd st))" for q
      using persisted_rows [OF at_p fresh, of q] by (simp add: slot_of_def row_def)
    have "mirror_at (peer_rows q (persisted (snd st) row (evicted_of (slot_of p (fst st)))))
        (map_of (AList.update p (push_slot (nc_touch c) fp (slot_of p (fst st))) (nc_peers (fst st))) q)" for q
    proof (cases "q = p")
      case True
      have "slot_mirrors (push_rows (peer_rows p (snd st)) row) (push_slot (nc_touch c) fp (slot_of p (fst st)))"
        using push_mirrors [OF at_p fresh, of "nc_touch c"] by (simp add: slot_of_def row_def)
      then show ?thesis unfolding rows using True by (simp add: update_conv' mirror_at_def)
    next
      case other: False
      then show ?thesis unfolding rows using at [of q] by (simp add: update_conv')
    qed
    moreover have "sorted_wrt (<) (map nr_last_touch (persisted (snd st) row (evicted_of (slot_of p (fst st)))))"
      using st(3,4) by (intro persisted_sorted) (simp_all add: row_def)
    moreover have "nr_last_touch r < nc_touch c + 1 \<and> length (nr_fingerprint r) = 32"
      if "r \<in> set (persisted (snd st) row (evicted_of (slot_of p (fst st))))" for r
    proof -
      have "r = row \<or> r \<in> set (snd st)" using that persisted_subset [of "snd st" row] by blast
      then show ?thesis
        using st(4,5) sha by (auto simp: row_def fp_def nonce_fingerprint_def less_Suc_eq)
    qed
    ultimately show ?thesis
      using False st(1) len ev(2) unfolding eq mirrors_def put_slot_def
      by (auto simp: distinct_update)
  qed
qed

section \<open>Restart\<close>

lemma mirror_at_rows:
  assumes "mirror_at rows slot"
  shows "distinct (map nr_fingerprint rows) \<and> length rows \<le> nonce_capacity_per_peer"
  using assms by (cases slot) (auto simp: mirror_at_def slot_mirrors_def)

lemma mirror_at_same:
  assumes "mirror_at rows a" and "mirror_at rows b"
  shows "map_option (\<lambda>s. (ps_order s, ps_seen s)) a = map_option (\<lambda>s. (ps_order s, ps_seen s)) b"
  using assms by (cases a; cases b) (auto simp: mirror_at_def slot_mirrors_def)

lemma hydrate_mirrors:
  assumes "\<forall>p. distinct (map nr_fingerprint (peer_rows p rows)) \<and>
    length (peer_rows p rows) \<le> nonce_capacity_per_peer"
  shows "mirror_at (peer_rows p rows) (map_of (foldl hydrate_row [] rows) p)"
  using assms
proof (induction rows arbitrary: p rule: rev_induct)
  case (snoc r rows)
  let ?peers = "foldl hydrate_row [] rows"
  let ?q = "nr_peer r"
  have lens: "distinct (map nr_fingerprint (peer_rows p rows)) \<and>
      length (peer_rows p rows) \<le> nonce_capacity_per_peer" for p
    using snoc.prems [rule_format, of p] by (auto split: if_splits)
  note IH = snoc.IH [OF allI, OF lens]
  have new: "length (peer_rows ?q rows) < nonce_capacity_per_peer"
    "nr_fingerprint r \<notin> nr_fingerprint ` set (peer_rows ?q rows)"
    using snoc.prems [rule_format, of ?q] by auto
  define s where "s = (case map_of ?peers ?q of Some s \<Rightarrow> s | None \<Rightarrow> empty_slot)"
  have s: "ps_order s = map nr_fingerprint (peer_rows ?q rows)" "ps_seen s = set (ps_order s)"
    using IH [of ?q] by (auto simp: s_def mirror_at_def slot_mirrors_def empty_slot_def split: option.splits)
  have step: "hydrate_row ?peers r = AList.update ?q
      (s\<lparr>ps_order := ps_order s @ [nr_fingerprint r], ps_seen := insert (nr_fingerprint r) (ps_seen s),
         ps_last_touch := nr_last_touch r\<rparr>) ?peers"
    using new(1) s(1) by (simp add: hydrate_row_def s_def [symmetric] Let_def)
  show ?case
  proof (cases "p = ?q")
    case True
    then show ?thesis
      using new lens [of ?q] s unfolding foldl_append foldl.simps step
      by (auto simp: update_conv' mirror_at_def slot_mirrors_def)
  next
    case False
    then have "peer_rows p (rows @ [r]) = peer_rows p rows" by simp
    then show ?thesis
      using IH [of p] False unfolding foldl_append foldl.simps step by (simp add: update_conv')
  qed
qed (simp add: mirror_at_def)

lemma prune_none:
  assumes "\<forall>p. length (peer_rows p disk) \<le> cap" and "0 < cap"
  shows "prune_nonce_cache cap disk = disk"
proof -
  have "count_where (\<lambda>x. nr_peer x = nr_peer r \<and> nr_last_touch x > nr_last_touch r) disk + 1 \<le> cap"
    if r: "r \<in> set disk" for r
  proof -
    have "count_where (\<lambda>x. nr_peer x = nr_peer r \<and> nr_last_touch x > nr_last_touch r) disk =
        length (filter (\<lambda>x. nr_last_touch x > nr_last_touch r) (peer_rows (nr_peer r) disk))"
      by (simp add: count_where_def peer_rows_def conj_commute)
    also have "\<dots> < length (peer_rows (nr_peer r) disk)"
      by (rule length_filter_less [of r]) (use r in \<open>auto simp: peer_rows_def\<close>)
    finally show ?thesis using assms(1) [rule_format, of "nr_peer r"] by simp
  qed
  then show ?thesis unfolding prune_nonce_cache_def delete_where_def
    by (intro filter_True ballI) (simp add: not_less)
qed

lemma fold_max_bound: "r \<in> set rows \<Longrightarrow> nr_last_touch r \<le> foldl (\<lambda>m r. max m (nr_last_touch r)) m rows"
proof (induction rows rule: rev_induct)
  case (snoc x xs)
  then show ?case by (auto simp: max_def)
qed simp

lemma nonce_run_mirrors:
  assumes "\<forall>b. length (sha256 cr b) = 32"
  shows "mirrors (fst (nonce_run cr reqs)) (snd (nonce_run cr reqs))"
proof (induction reqs rule: rev_induct)
  case Nil
  then show ?case by (simp add: nonce_run_def mirrors_def nonce_cache_new_def mirror_at_def)
next
  case (snoc r reqs)
  then show ?case
    using nonce_record_mirrors [OF snoc assms, of "fst r" "snd r"]
    by (simp add: nonce_run_def case_prod_beta)
qed

text \<open>C13: A restart does not reopen the replay window: after any sequence of requests with a working disk,
  reloading the table gives every peer the same nonces in the same eviction order, changes no
  row, and continues with a touch above every stored one; the table and the cache stay within the
  per-peer and the peer ceilings.\<close>

theorem restart_keeps_windows:
  assumes "\<forall>b. length (sha256 cr b) = 32" and "nonce_run cr reqs = (c, disk)"
  shows "snd (hydrate_from_disk disk) = disk \<and>
    (\<forall>p. map_option (\<lambda>s. (ps_order s, ps_seen s)) (map_of (nc_peers (fst (hydrate_from_disk disk))) p) =
         map_option (\<lambda>s. (ps_order s, ps_seen s)) (map_of (nc_peers c) p)) \<and>
    (\<forall>r \<in> set disk. nr_last_touch r < nc_touch (fst (hydrate_from_disk disk))) \<and>
    (\<forall>p. length (peer_rows p disk) \<le> nonce_capacity_per_peer) \<and> length (nc_peers c) \<le> nonce_max_peers"
proof -
  have m: "mirrors c disk" using nonce_run_mirrors [OF assms(1), of reqs] assms(2) by simp
  then have at: "mirror_at (peer_rows p disk) (map_of (nc_peers c) p)" for p unfolding mirrors_def by blast
  have "sorted (map nr_last_touch disk)"
    using m unfolding mirrors_def by (metis strict_sorted_imp_sorted)
  then have "sort_key nr_last_touch disk = disk" by (simp add: sort_key_id_if_sorted)
  moreover have "filter (\<lambda>r. length (nr_fingerprint r) = 32) disk = disk"
    using m unfolding mirrors_def by (intro filter_True) blast
  ultimately have h: "nc_peers (fst (hydrate_from_disk disk)) = foldl hydrate_row [] disk"
    "nc_touch (fst (hydrate_from_disk disk)) = foldl (\<lambda>m r. max m (nr_last_touch r)) 0 disk + 1"
    "snd (hydrate_from_disk disk) = prune_nonce_cache nonce_capacity_per_peer disk"
    by (simp_all add: hydrate_from_disk_def Let_def)
  have rows: "\<forall>p. distinct (map nr_fingerprint (peer_rows p disk)) \<and>
      length (peer_rows p disk) \<le> nonce_capacity_per_peer"
    using mirror_at_rows [OF at] by blast
  have "\<forall>p. map_option (\<lambda>s. (ps_order s, ps_seen s)) (map_of (foldl hydrate_row [] disk) p) =
      map_option (\<lambda>s. (ps_order s, ps_seen s)) (map_of (nc_peers c) p)"
    using mirror_at_same [OF hydrate_mirrors [OF rows] at] by blast
  moreover have "\<forall>r \<in> set disk. nr_last_touch r < foldl (\<lambda>m r. max m (nr_last_touch r)) 0 disk + 1"
    using fold_max_bound [of _ disk 0] by (simp add: less_Suc_eq_le)
  moreover have "length (nc_peers c) \<le> nonce_max_peers" using m unfolding mirrors_def by blast
  ultimately show ?thesis
    unfolding h using rows prune_none [of disk] nonce_capacity_pos by blast
qed

text \<open>A stand-in hash of 32 bytes.\<close>

definition demo_hash :: crypto where
  "demo_hash = \<lparr>cbor_encode = (\<lambda>_. []), ed_sign = (\<lambda>_ _. []), ed_key_ok = (\<lambda>_. True),
     ed_verify_strict = (\<lambda>_ _ _. True), sha256 = (\<lambda>b. take 32 (rev b @ replicate 32 (CHR ''0'')))\<rparr>"

theorem restart_keeps_windows_witness:
  "map_option (\<lambda>s. (ps_order s, ps_seen s)) (map_of (nc_peers (fst (hydrate_from_disk
       (snd (nonce_run demo_hash [(''p'', ''1''), (''q'', ''2''), (''p'', ''3'')]))))) ''p'') =
     map_option (\<lambda>s. (ps_order s, ps_seen s)) (map_of (nc_peers (fst
       (nonce_run demo_hash [(''p'', ''1''), (''q'', ''2''), (''p'', ''3'')]))) ''p'')"
proof -
  have "\<forall>b. length (sha256 demo_hash b) = 32" by (auto simp: demo_hash_def min_def)
  from restart_keeps_windows [OF this prod.collapse [symmetric]] show ?thesis by blast
qed

end
