(* ===== verification/Quotas.thy ===== *)
theory Quotas
  imports Prelude
begin

text \<open>
  Quota accounting per agent and namespace, \<^verbatim>\<open>src/quotas.rs\<close>: the quota table, the check, the atomic
  check-and-record and its storage-only variant, refunds, the deprecated record, the daily reset
  and the status reads. Counters are integers; the sums the checks form saturate at the ends of the
  signed 64-bit range as the code's do, and a recorded sum that passed its check is within the
  ceiling and so does not overflow. \<open>now\<close> is the clock's RFC 3339 text. Statement failures of the
  database are left out.
\<close>

section \<open>Data\<close>

record quota_defaults =
  qd_max_memories :: int
  qd_max_storage :: int
  qd_max_links :: int

definition quota_defaults_default :: quota_defaults where
  "quota_defaults_default = \<lparr>qd_max_memories = 1000, qd_max_storage = 104857600, qd_max_links = 5000\<rparr>"

datatype quota_op = MemoryOp int | LinkOp

datatype quota_limit = MemoriesPerDay | StorageBytes | LinksPerDay

fun quota_limit_as_str :: "quota_limit \<Rightarrow> string" where
  "quota_limit_as_str MemoriesPerDay = ''memories_per_day''"
| "quota_limit_as_str StorageBytes = ''storage_bytes''"
| "quota_limit_as_str LinksPerDay = ''links_per_day''"

record quota_error =
  qe_agent_id :: string
  qe_namespace :: string
  qe_limit :: quota_limit
  qe_current :: int
  qe_max :: int

record quota_status =
  qs_agent_id :: string
  qs_namespace :: string
  qs_max_memories :: int
  qs_max_storage :: int
  qs_max_links :: int
  qs_memories_today :: int
  qs_storage :: int
  qs_links_today :: int
  qs_day_started_at :: string
  qs_created_at :: string
  qs_updated_at :: string

type_synonym quota_db = "quota_status list"

definition i64_max :: int where "i64_max = 2 ^ 63 - 1"
definition i64_min :: int where "i64_min = - (2 ^ 63)"

definition saturating_add :: "int \<Rightarrow> int \<Rightarrow> int" where
  "saturating_add a b = max i64_min (min i64_max (a + b))"

definition day_bucket :: "string \<Rightarrow> string" where
  "day_bucket t = (if length t \<ge> 10 then take 10 t else t)"

definition quota_key :: "quota_status \<Rightarrow> string \<times> string" where
  "quota_key r = (qs_agent_id r, qs_namespace r)"

abbreviation at_key :: "string \<Rightarrow> string \<Rightarrow> quota_status \<Rightarrow> bool" where
  "at_key agent_id namespace r \<equiv> quota_key r = (agent_id, namespace)"

section \<open>Rows\<close>

definition load_row :: "quota_db \<Rightarrow> string \<Rightarrow> string \<Rightarrow> quota_status option" where
  "load_row db agent_id namespace = select_by quota_key (agent_id, namespace) db"

definition ensure_row ::
  "quota_defaults \<Rightarrow> string \<Rightarrow> quota_db \<Rightarrow> string \<Rightarrow> string \<Rightarrow> quota_db \<times> quota_status" where
  "ensure_row defaults now db agent_id namespace =
     (case load_row db agent_id namespace of
        Some row \<Rightarrow> (db, row)
      | None \<Rightarrow>
          (let row = \<lparr>qs_agent_id = agent_id, qs_namespace = namespace,
                qs_max_memories = qd_max_memories defaults, qs_max_storage = qd_max_storage defaults,
                qs_max_links = qd_max_links defaults, qs_memories_today = 0, qs_storage = 0,
                qs_links_today = 0, qs_day_started_at = day_bucket now, qs_created_at = now,
                qs_updated_at = now\<rparr>
           in (db @ [row], row)))"

section \<open>Charging\<close>

text \<open>The daily counters a check sees: those of another day count as zero.\<close>

definition day_rolled :: "string \<Rightarrow> quota_status \<Rightarrow> bool" where
  "day_rolled now row \<longleftrightarrow> day_bucket (qs_day_started_at row) \<noteq> day_bucket now"

definition quota_verdict :: "string \<Rightarrow> quota_status \<Rightarrow> string \<Rightarrow> string \<Rightarrow> quota_op \<Rightarrow> quota_error option" where
  "quota_verdict now row agent_id namespace op =
     (let memories_today = (if day_rolled now row then 0 else qs_memories_today row);
          links_today = (if day_rolled now row then 0 else qs_links_today row);
          err = (\<lambda>limit current maximum.
            Some \<lparr>qe_agent_id = agent_id, qe_namespace = namespace, qe_limit = limit,
                  qe_current = current, qe_max = maximum\<rparr>)
      in case op of
           MemoryOp bytes \<Rightarrow>
             if saturating_add memories_today 1 > qs_max_memories row
             then err MemoriesPerDay memories_today (qs_max_memories row)
             else if saturating_add (qs_storage row) bytes > qs_max_storage row
             then err StorageBytes (qs_storage row) (qs_max_storage row)
             else None
         | LinkOp \<Rightarrow>
             if saturating_add links_today 1 > qs_max_links row
             then err LinksPerDay links_today (qs_max_links row)
             else None)"

definition check_quota ::
  "quota_defaults \<Rightarrow> string \<Rightarrow> quota_db \<Rightarrow> string \<Rightarrow> string \<Rightarrow> quota_op \<Rightarrow> quota_db \<times> (quota_error + unit)" where
  "check_quota defaults now db agent_id namespace op =
     (case ensure_row defaults now db agent_id namespace of
        (db', row) \<Rightarrow>
          (db', case quota_verdict now row agent_id namespace op of Some e \<Rightarrow> Inl e | None \<Rightarrow> Inr ()))"

text \<open>The four updates shared by \<open>check_and_record\<close> and \<open>record_op\<close>.\<close>

definition post_op :: "string \<Rightarrow> bool \<Rightarrow> quota_op \<Rightarrow> quota_status \<Rightarrow> quota_status" where
  "post_op now rolled op r =
     (case op of
        MemoryOp bytes \<Rightarrow>
          if rolled
          then r\<lparr>qs_memories_today := 1, qs_links_today := 0, qs_storage := qs_storage r + bytes,
                 qs_day_started_at := now, qs_updated_at := now\<rparr>
          else r\<lparr>qs_memories_today := qs_memories_today r + 1, qs_storage := qs_storage r + bytes,
                 qs_updated_at := now\<rparr>
      | LinkOp \<Rightarrow>
          if rolled
          then r\<lparr>qs_memories_today := 0, qs_links_today := 1, qs_day_started_at := now, qs_updated_at := now\<rparr>
          else r\<lparr>qs_links_today := qs_links_today r + 1, qs_updated_at := now\<rparr>)"

text \<open>The row is created before the transaction, so a refused charge keeps it; the transaction itself
  is rolled back. The two clock readings are the one before the transaction and the one inside.\<close>

definition check_and_record ::
  "quota_defaults \<Rightarrow> string \<Rightarrow> string \<Rightarrow> quota_db \<Rightarrow> string \<Rightarrow> string \<Rightarrow> quota_op
    \<Rightarrow> quota_db \<times> (quota_error + unit)" where
  "check_and_record defaults now0 now db agent_id namespace op =
     (case ensure_row defaults now0 db agent_id namespace of
        (db1, row) \<Rightarrow>
          (case quota_verdict now row agent_id namespace op of
             Some e \<Rightarrow> (db1, Inl e)
           | None \<Rightarrow>
               (update_where (at_key agent_id namespace) (post_op now (day_rolled now row) op) db1, Inr ())))"

definition check_and_record_storage_only ::
  "quota_defaults \<Rightarrow> string \<Rightarrow> string \<Rightarrow> quota_db \<Rightarrow> string \<Rightarrow> string \<Rightarrow> int
    \<Rightarrow> quota_db \<times> (quota_error + unit)" where
  "check_and_record_storage_only defaults now0 now db agent_id namespace bytes =
     (case ensure_row defaults now0 db agent_id namespace of
        (db1, row) \<Rightarrow>
          if saturating_add (qs_storage row) bytes > qs_max_storage row
          then (db1, Inl \<lparr>qe_agent_id = agent_id, qe_namespace = namespace, qe_limit = StorageBytes,
                  qe_current = qs_storage row, qe_max = qs_max_storage row\<rparr>)
          else (update_where (at_key agent_id namespace)
                  (\<lambda>r. r\<lparr>qs_storage := qs_storage r + bytes, qs_updated_at := now\<rparr>) db1, Inr ()))"

definition refund_op :: "string \<Rightarrow> quota_db \<Rightarrow> string \<Rightarrow> string \<Rightarrow> quota_op \<Rightarrow> quota_db" where
  "refund_op now db agent_id namespace op =
     update_where (at_key agent_id namespace)
       (case op of
          MemoryOp bytes \<Rightarrow>
            (\<lambda>r. r\<lparr>qs_memories_today := max (qs_memories_today r - 1) 0,
                   qs_storage := max (qs_storage r - bytes) 0, qs_updated_at := now\<rparr>)
        | LinkOp \<Rightarrow>
            (\<lambda>r. r\<lparr>qs_links_today := max (qs_links_today r - 1) 0, qs_updated_at := now\<rparr>)) db"

definition refund_storage_only :: "string \<Rightarrow> quota_db \<Rightarrow> string \<Rightarrow> string \<Rightarrow> int \<Rightarrow> quota_db" where
  "refund_storage_only now db agent_id namespace bytes =
     update_where (at_key agent_id namespace)
       (\<lambda>r. r\<lparr>qs_storage := max (qs_storage r - bytes) 0, qs_updated_at := now\<rparr>) db"

definition record_op ::
  "quota_defaults \<Rightarrow> string \<Rightarrow> string \<Rightarrow> quota_db \<Rightarrow> string \<Rightarrow> string \<Rightarrow> quota_op \<Rightarrow> quota_db" where
  "record_op defaults now0 now db agent_id namespace op =
     (case ensure_row defaults now0 db agent_id namespace of
        (db1, row) \<Rightarrow> update_where (at_key agent_id namespace) (post_op now (day_rolled now row) op) db1)"

definition reset_daily :: "string \<Rightarrow> quota_db \<Rightarrow> quota_db \<times> nat" where
  "reset_daily now db =
     (let p = (\<lambda>r. take 10 (qs_day_started_at r) \<noteq> day_bucket now)
      in (update_where p
            (\<lambda>r. r\<lparr>qs_memories_today := 0, qs_links_today := 0, qs_day_started_at := now,
                   qs_updated_at := now\<rparr>) db,
          count_where p db))"

section \<open>Status\<close>

definition get_status ::
  "quota_defaults \<Rightarrow> string \<Rightarrow> quota_db \<Rightarrow> string \<Rightarrow> string \<Rightarrow> quota_db \<times> quota_status" where
  "get_status defaults now db agent_id namespace = ensure_row defaults now db agent_id namespace"

definition list_status :: "quota_db \<Rightarrow> string option \<Rightarrow> quota_status list" where
  "list_status db namespace_filter =
     sort_key quota_key
       (case namespace_filter of
          Some ns \<Rightarrow> filter (\<lambda>r. qs_namespace r = ns) db
        | None \<Rightarrow> db)"

section \<open>Rows after a charge\<close>

lemma quota_key_update [simp]:
  "quota_key (post_op now rolled op r) = quota_key r"
  "quota_key (r\<lparr>qs_storage := s, qs_updated_at := u\<rparr>) = quota_key r"
  "quota_key (r\<lparr>qs_memories_today := m, qs_storage := s, qs_updated_at := u\<rparr>) = quota_key r"
  "quota_key (r\<lparr>qs_links_today := l, qs_updated_at := u\<rparr>) = quota_key r"
  "quota_key (r\<lparr>qs_memories_today := m, qs_links_today := l, qs_day_started_at := d, qs_updated_at := u\<rparr>) =
     quota_key r"
  by (simp_all add: quota_key_def post_op_def split: quota_op.split)

lemma load_update:
  assumes "\<And>r. quota_key (f r) = quota_key r"
  shows "load_row (update_where (at_key a n) f db) b m =
    map_option (\<lambda>r. if (b, m) = (a, n) then f r else r) (load_row db b m)"
proof -
  have "map_option (\<lambda>r. if at_key a n r then f r else r) (load_row db b m) =
      map_option (\<lambda>r. if (b, m) = (a, n) then f r else r) (load_row db b m)"
    by (cases "load_row db b m") (auto simp: load_row_def dest!: select_by_SomeD)
  then show ?thesis using select_by_update [of quota_key f] assms by (simp add: load_row_def)
qed

lemma ensure_row_load:
  assumes "ensure_row defaults now db a n = (db', row)"
  shows "load_row db' a n = Some row" and "(b, m) \<noteq> (a, n) \<Longrightarrow> load_row db' b m = load_row db b m"
    and "load_row db a n = Some r \<Longrightarrow> row = r"
    and "load_row db a n = None \<Longrightarrow> qs_memories_today row = 0 \<and> qs_links_today row = 0 \<and> qs_storage row = 0"
  using assms
  by (auto simp: ensure_row_def load_row_def table_simps quota_key_def Let_def split: option.splits)

definition row_ok :: "quota_status \<Rightarrow> bool" where
  "row_ok r \<longleftrightarrow>
     qs_max_memories r < i64_max \<and> qs_max_storage r < i64_max \<and> qs_max_links r < i64_max \<and>
     0 \<le> qs_memories_today r \<and> qs_memories_today r \<le> max 0 (qs_max_memories r) \<and>
     0 \<le> qs_storage r \<and> qs_storage r \<le> max 0 (qs_max_storage r) \<and>
     0 \<le> qs_links_today r \<and> qs_links_today r \<le> max 0 (qs_max_links r)"

definition quota_ok :: "quota_db \<Rightarrow> bool" where
  "quota_ok db \<longleftrightarrow> keys_unique quota_key db \<and> (\<forall>r \<in> set db. row_ok r)"

definition defaults_ok :: "quota_defaults \<Rightarrow> bool" where
  "defaults_ok d \<longleftrightarrow> qd_max_memories d < i64_max \<and> qd_max_storage d < i64_max \<and> qd_max_links d < i64_max"

lemma saturating_below:
  assumes "saturating_add a b \<le> m" and "m < i64_max" shows "a + b \<le> m"
  using assms by (auto simp: saturating_add_def max_def min_def split: if_splits)

lemma ensure_ok:
  assumes "quota_ok db" and "defaults_ok d" and "ensure_row d now db a n = (db', row)"
  shows "quota_ok db'" and "row_ok row"
proof -
  show ok: "quota_ok db'"
    using assms by (auto simp: quota_ok_def ensure_row_def load_row_def defaults_ok_def row_ok_def
        keys_unique_def quota_key_def select_by_None_iff Let_def split: option.splits)
  have "load_row db' a n = Some row" using ensure_row_load(1) [OF assms(3)] .
  then have "row \<in> set db'" using select_by_SomeD by (fastforce simp: load_row_def)
  then show "row_ok row" using ok by (simp add: quota_ok_def)
qed

lemma update_ok:
  assumes "quota_ok db" and "\<And>r. quota_key (f r) = quota_key r"
    and "\<And>r. r \<in> set db \<Longrightarrow> p r \<Longrightarrow> row_ok (f r)"
  shows "quota_ok (update_where p f db)"
  using assms keys_unique_update [of quota_key f p db] by (auto simp: quota_ok_def) (auto simp: update_where_def)

lemma post_op_ok:
  assumes "row_ok r" and "quota_verdict now r a n op = None" and "\<forall>b. op = MemoryOp b \<longrightarrow> 0 \<le> b"
  shows "row_ok (post_op now (day_rolled now r) op r)"
proof (cases op)
  case (MemoryOp b)
  have "saturating_add (if day_rolled now r then 0 else qs_memories_today r) 1 \<le> qs_max_memories r"
    "saturating_add (qs_storage r) b \<le> qs_max_storage r"
    using assms(2) MemoryOp by (auto simp: quota_verdict_def Let_def split: if_splits)
  then have "(if day_rolled now r then 0 else qs_memories_today r) + 1 \<le> qs_max_memories r"
    "qs_storage r + b \<le> qs_max_storage r"
    using assms(1) saturating_below by (auto simp: row_ok_def)
  then show ?thesis
    using assms(1,3) MemoryOp by (auto simp: post_op_def row_ok_def split: if_splits)
next
  case LinkOp
  have "saturating_add (if day_rolled now r then 0 else qs_links_today r) 1 \<le> qs_max_links r"
    using assms(2) LinkOp by (auto simp: quota_verdict_def Let_def split: if_splits)
  then have "(if day_rolled now r then 0 else qs_links_today r) + 1 \<le> qs_max_links r"
    using assms(1) saturating_below by (auto simp: row_ok_def)
  then show ?thesis
    using assms(1) LinkOp by (auto simp: post_op_def row_ok_def split: if_splits)
qed

lemma keyed_row:
  assumes "quota_ok db" and "r \<in> set db" and "at_key a n r" and "load_row db a n = Some row"
  shows "r = row"
proof -
  have "select_by quota_key (a, n) db = Some r"
    using assms(1-3) select_by_unique [of quota_key db "(a, n)" r] by (simp add: quota_ok_def)
  then show ?thesis using assms(4) by (simp add: load_row_def)
qed

section \<open>Histories\<close>

datatype quota_call =
    Charge string string string string quota_op
  | ChargeStorage string string string string int
  | Check string string string quota_op
  | Refund string string string quota_op
  | RefundStorage string string string int
  | ResetDaily string
  | Status string string string

fun quota_apply :: "quota_defaults \<Rightarrow> quota_call \<Rightarrow> quota_db \<Rightarrow> quota_db" where
  "quota_apply d (Charge now0 now a n op) db = fst (check_and_record d now0 now db a n op)"
| "quota_apply d (ChargeStorage now0 now a n b) db = fst (check_and_record_storage_only d now0 now db a n b)"
| "quota_apply d (Check now a n op) db = fst (check_quota d now db a n op)"
| "quota_apply d (Refund now a n op) db = refund_op now db a n op"
| "quota_apply d (RefundStorage now a n b) db = refund_storage_only now db a n b"
| "quota_apply d (ResetDaily now) db = fst (reset_daily now db)"
| "quota_apply d (Status now a n) db = fst (get_status d now db a n)"

fun call_bytes :: "quota_call \<Rightarrow> int" where
  "call_bytes (Charge _ _ _ _ (MemoryOp b)) = b"
| "call_bytes (ChargeStorage _ _ _ _ b) = b"
| "call_bytes (Refund _ _ _ (MemoryOp b)) = b"
| "call_bytes (RefundStorage _ _ _ b) = b"
| "call_bytes _ = 0"

lemma charge_ok:
  assumes "quota_ok db" and "defaults_ok d" and "\<forall>b. op = MemoryOp b \<longrightarrow> 0 \<le> b"
  shows "quota_ok (fst (check_and_record d now0 now db a n op))"
proof -
  obtain db1 row where e: "ensure_row d now0 db a n = (db1, row)" by fastforce
  note ok = ensure_ok [OF assms(1,2) e]
  show ?thesis
  proof (cases "quota_verdict now row a n op")
    case None
    have "quota_ok (update_where (at_key a n) (post_op now (day_rolled now row) op) db1)"
      by (rule update_ok [OF ok(1)])
        (use keyed_row [OF ok(1) _ _ ensure_row_load(1) [OF e]] post_op_ok [OF ok(2) None assms(3)] in auto)
    then show ?thesis by (simp add: check_and_record_def e None)
  qed (use ok in \<open>simp add: check_and_record_def e\<close>)
qed

lemma charge_storage_ok:
  assumes "quota_ok db" and "defaults_ok d" and "0 \<le> b"
  shows "quota_ok (fst (check_and_record_storage_only d now0 now db a n b))"
proof -
  obtain db1 row where e: "ensure_row d now0 db a n = (db1, row)" by fastforce
  note ok = ensure_ok [OF assms(1,2) e]
  show ?thesis
  proof (cases "saturating_add (qs_storage row) b > qs_max_storage row")
    case False
    then have "qs_storage row + b \<le> qs_max_storage row"
      using ok(2) saturating_below [of "qs_storage row" b] by (simp add: row_ok_def)
    then have "quota_ok (update_where (at_key a n) (\<lambda>r. r\<lparr>qs_storage := qs_storage r + b, qs_updated_at := now\<rparr>) db1)"
      using ok(2) assms(3)
      by (intro update_ok [OF ok(1)])
        (auto simp: row_ok_def dest!: keyed_row [OF ok(1) _ _ ensure_row_load(1) [OF e]])
    then show ?thesis using False by (simp add: check_and_record_storage_only_def e)
  qed (use ok in \<open>simp add: check_and_record_storage_only_def e\<close>)
qed

lemma refund_row_ok:
  assumes "row_ok r" and "0 \<le> b"
  shows "row_ok (r\<lparr>qs_memories_today := max (qs_memories_today r - 1) 0,
      qs_storage := max (qs_storage r - b) 0, qs_updated_at := now\<rparr>)"
    and "row_ok (r\<lparr>qs_links_today := max (qs_links_today r - 1) 0, qs_updated_at := now\<rparr>)"
    and "row_ok (r\<lparr>qs_storage := max (qs_storage r - b) 0, qs_updated_at := now\<rparr>)"
  using assms by (auto simp: row_ok_def max_def split: if_splits)

lemma quota_apply_ok:
  assumes "quota_ok db" and "defaults_ok d" and "0 \<le> call_bytes c"
  shows "quota_ok (quota_apply d c db)"
proof (cases c)
  case (Charge now0 now a n op)
  then show ?thesis using charge_ok [OF assms(1,2), of op] assms(3) by (cases op) auto
next
  case (ChargeStorage now0 now a n b)
  then show ?thesis using charge_storage_ok [OF assms(1,2), of b] assms(3) by auto
next
  case (Check now a n op)
  then show ?thesis
    using ensure_ok(1) [OF assms(1,2)] by (auto simp: check_quota_def split: prod.split)
next
  case (Status now a n)
  then show ?thesis
    using ensure_ok(1) [OF assms(1,2)] by (auto simp: get_status_def) (metis prod.collapse)
next
  case (Refund now a n op)
  have rows: "row_ok r" if "r \<in> set db" for r using assms(1) that by (simp add: quota_ok_def)
  show ?thesis
  proof (cases op)
    case (MemoryOp b)
    then show ?thesis
      using Refund assms(3) refund_row_ok(1) [OF rows]
      by (auto simp: refund_op_def quota_key_def simp del: max.bounded_iff intro!: update_ok [OF assms(1)])
  next
    case LinkOp
    then show ?thesis
      using Refund refund_row_ok(2) [OF rows, of _ 0]
      by (auto simp: refund_op_def quota_key_def intro!: update_ok [OF assms(1)])
  qed
next
  case (RefundStorage now a n b)
  have rows: "row_ok r" if "r \<in> set db" for r using assms(1) that by (simp add: quota_ok_def)
  show ?thesis
    using RefundStorage assms(3) refund_row_ok(3) [OF rows]
    by (auto simp: refund_storage_only_def quota_key_def intro!: update_ok [OF assms(1)])
next
  case (ResetDaily now)
  have "row_ok r" if "r \<in> set db" for r using assms(1) that by (simp add: quota_ok_def)
  then show ?thesis
    using ResetDaily by (auto simp: reset_daily_def Let_def row_ok_def intro!: update_ok [OF assms(1)])
qed

section \<open>Properties\<close>

text \<open>C14: Starting from an empty table, in any sequence of the gated calls (the checking charges,
  the storage-only charges, the refunds, the checks and status reads and the daily reset), by
  whatever agents and with whatever clock readings, every counter of every row stays between zero
  and its ceiling and each agent and namespace has one row. Byte counts are assumed not negative
  and the default ceilings below the largest 64-bit integer. The deprecated \<open>record_op\<close>, which
  charges without a check, is not among these calls.\<close>

theorem quota_never_exceeded:
  assumes "defaults_ok d" and "\<forall>c \<in> set cs. 0 \<le> call_bytes c"
  shows "quota_ok (foldl (\<lambda>db c. quota_apply d c db) [] cs)"
proof -
  have "quota_ok db \<Longrightarrow> quota_ok (foldl (\<lambda>db c. quota_apply d c db) db cs)" for db
    using assms(2) by (induction cs arbitrary: db) (auto intro: quota_apply_ok [OF _ assms(1)])
  moreover have "quota_ok []" by (simp add: quota_ok_def)
  ultimately show ?thesis by blast
qed

theorem quota_never_exceeded_witness:
  "quota_ok (foldl (\<lambda>db c. quota_apply quota_defaults_default c db) []
     [Charge ''2026-01-01T00'' ''2026-01-01T00'' ''a'' ''n'' (MemoryOp 10),
      Refund ''2026-01-01T01'' ''a'' ''n'' (MemoryOp 30), ResetDaily ''2026-01-02T00''])"
  by (rule quota_never_exceeded) (auto simp: defaults_ok_def quota_defaults_default_def i64_max_def)

text \<open>What a row counts on a given day, and what an accepted charge adds to each counter.\<close>

datatype counter = Memories | Links | Bytes

fun row_usage :: "string \<Rightarrow> counter \<Rightarrow> quota_status \<Rightarrow> int" where
  "row_usage day Memories r = (if day_bucket (qs_day_started_at r) = day then qs_memories_today r else 0)"
| "row_usage day Links r = (if day_bucket (qs_day_started_at r) = day then qs_links_today r else 0)"
| "row_usage day Bytes r = qs_storage r"

definition usage :: "string \<Rightarrow> counter \<Rightarrow> string \<Rightarrow> string \<Rightarrow> quota_db \<Rightarrow> int" where
  "usage day k a n db = (case load_row db a n of None \<Rightarrow> 0 | Some r \<Rightarrow> row_usage day k r)"

fun op_cost :: "quota_op \<Rightarrow> counter \<Rightarrow> int" where
  "op_cost (MemoryOp b) Memories = 1"
| "op_cost (MemoryOp b) Bytes = b"
| "op_cost LinkOp Links = 1"
| "op_cost _ _ = 0"

fun ceiling :: "counter \<Rightarrow> quota_status \<Rightarrow> int" where
  "ceiling Memories r = qs_max_memories r"
| "ceiling Links r = qs_max_links r"
| "ceiling Bytes r = qs_max_storage r"

lemma day_bucket_idem [simp]: "day_bucket (day_bucket t) = day_bucket t"
  by (simp add: day_bucket_def)

lemma ensure_usage:
  assumes "ensure_row d now0 db a n = (db', row)"
  shows "usage day k b m db' = usage day k b m db"
  using ensure_row_load [OF assms]
  by (cases "(b, m) = (a, n)"; cases "load_row db a n"; cases k) (auto simp: usage_def)

lemma post_op_usage:
  "day_bucket now = day \<Longrightarrow>
    row_usage day k (post_op now (day_rolled now r) op r) = row_usage day k r + op_cost op k"
  by (cases op; cases k) (auto simp: post_op_def day_rolled_def)

lemma charge_usage:
  assumes "day_bucket now = day"
  shows "usage day k b m (fst (check_and_record d now0 now db a n op)) =
    usage day k b m db +
      (if (b, m) = (a, n) \<and> snd (check_and_record d now0 now db a n op) = Inr () then op_cost op k else 0)"
proof -
  obtain db1 row where e: "ensure_row d now0 db a n = (db1, row)" by fastforce
  note same = ensure_usage [OF e, of day k b m]
  show ?thesis
  proof (cases "quota_verdict now row a n op")
    case None
    then have r: "check_and_record d now0 now db a n op =
        (update_where (at_key a n) (post_op now (day_rolled now row) op) db1, Inr ())"
      by (simp add: check_and_record_def e)
    show ?thesis
    proof (cases "(b, m) = (a, n)")
      case True
      then have "usage day k b m (fst (check_and_record d now0 now db a n op)) =
          usage day k b m db1 + op_cost op k"
        using ensure_row_load(1) [OF e] unfolding r
        by (simp add: usage_def load_update post_op_usage [OF assms])
      then show ?thesis using True by (simp add: same r)
    next
      case False
      then have "load_row (fst (check_and_record d now0 now db a n op)) b m = load_row db1 b m"
        unfolding r by (auto simp: load_update option.map_ident)
      then have "usage day k b m (fst (check_and_record d now0 now db a n op)) = usage day k b m db1"
        by (simp add: usage_def)
      then show ?thesis using False by (auto simp: same)
    qed
  qed (simp add: check_and_record_def e same)
qed

text \<open>A day of charges by any agents, and the cost of those accepted for one agent and namespace.\<close>

type_synonym charge = "string \<times> string \<times> string \<times> string \<times> quota_op"

fun charge_day :: "quota_defaults \<Rightarrow> charge list \<Rightarrow> quota_db \<Rightarrow> quota_db \<times> (quota_error + unit) list" where
  "charge_day d [] db = (db, [])"
| "charge_day d ((now0, now, a, n, op) # cs) db =
     (case check_and_record d now0 now db a n op of
        (db1, r) \<Rightarrow> (case charge_day d cs db1 of (db2, rs) \<Rightarrow> (db2, r # rs)))"

definition accepted_cost :: "counter \<Rightarrow> string \<Rightarrow> string \<Rightarrow> charge list \<Rightarrow> (quota_error + unit) list \<Rightarrow> int" where
  "accepted_cost k a n cs rs =
     (\<Sum>((now0, now, b, m, op), r) \<leftarrow> zip cs rs. if (b, m) = (a, n) \<and> r = Inr () then op_cost op k else 0)"

lemma charge_day_usage:
  assumes "\<forall>(now0, now, c) \<in> set cs. day_bucket now = day"
  shows "usage day k a n (fst (charge_day d cs db)) =
    usage day k a n db + accepted_cost k a n cs (snd (charge_day d cs db))"
  using assms
proof (induction cs arbitrary: db)
  case (Cons c cs)
  obtain now0 now b m op where c: "c = (now0, now, b, m, op)" by (cases c)
  then have "day_bucket now = day" using Cons.prems by simp
  note step = charge_usage [OF this, of k a n d now0 db b m op]
  show ?case
    using step Cons.IH [of "fst (check_and_record d now0 now db b m op)"] Cons.prems
    by (auto simp: c case_prod_beta accepted_cost_def)
qed (simp add: accepted_cost_def)

lemma charge_day_ok:
  assumes "quota_ok db" and "defaults_ok d" and "\<forall>(now0, now, a, n, op) \<in> set cs. \<forall>b. op = MemoryOp b \<longrightarrow> 0 \<le> b"
  shows "quota_ok (fst (charge_day d cs db))"
  using assms(1,3)
proof (induction cs arbitrary: db)
  case (Cons c cs)
  obtain now0 now a n op where c: "c = (now0, now, a, n, op)" by (cases c)
  then have "quota_ok (fst (check_and_record d now0 now db a n op))"
    using Cons.prems by (intro charge_ok [OF _ assms(2)]) auto
  from Cons.IH [OF this] Cons.prems(2) show ?case by (simp add: c case_prod_beta)
qed simp

text \<open>During one day, however the charges of all agents interleave, the accepted memory writes, links
  and bytes of an agent in a namespace are exactly what its row counts on top of what it counted
  before, and they keep within the row's ceilings: no sequence of charges gets more accepted
  than the ceiling.\<close>

theorem daily_cap_enforced:
  assumes "quota_ok db" and "defaults_ok d"
    and "\<forall>(now0, now, a, n, op) \<in> set cs. day_bucket now = day \<and> (\<forall>b. op = MemoryOp b \<longrightarrow> 0 \<le> b)"
    and "charge_day d cs db = (db', rs)" and "load_row db' a n = Some row"
  shows "usage day k a n db + accepted_cost k a n cs rs = row_usage day k row \<and>
    row_usage day k row \<le> max 0 (ceiling k row)"
proof -
  have "\<forall>(now0, now, c) \<in> set cs. day_bucket now = day" using assms(3) by auto
  from charge_day_usage [OF this, of k a n d db]
  have "usage day k a n db + accepted_cost k a n cs rs = row_usage day k row"
    using assms(4,5) by (simp add: usage_def)
  moreover have "\<forall>(now0, now, a, n, op) \<in> set cs. \<forall>b. op = MemoryOp b \<longrightarrow> 0 \<le> b"
    using assms(3) by auto
  then have "quota_ok db'"
    using charge_day_ok [OF assms(1,2), of cs] assms(4) by simp
  then have "row_ok row" using assms(5) select_by_SomeD by (fastforce simp: quota_ok_def load_row_def)
  then have "row_usage day k row \<le> max 0 (ceiling k row)" by (cases k) (auto simp: row_ok_def)
  ultimately show ?thesis by blast
qed

definition demo_defaults :: quota_defaults where
  "demo_defaults = \<lparr>qd_max_memories = 1, qd_max_storage = 100, qd_max_links = 5\<rparr>"

definition demo_day :: "charge list" where
  "demo_day = [(''2026-01-01T00'', ''2026-01-01T00'', ''a'', ''n'', MemoryOp 7),
     (''2026-01-01T00'', ''2026-01-01T05'', ''a'', ''n'', MemoryOp 8)]"

definition demo_quota_row :: quota_status where
  "demo_quota_row = \<lparr>qs_agent_id = ''a'', qs_namespace = ''n'', qs_max_memories = 1, qs_max_storage = 100,
     qs_max_links = 5, qs_memories_today = 1, qs_storage = 7, qs_links_today = 0,
     qs_day_started_at = ''2026-01-01'', qs_created_at = ''2026-01-01T00'', qs_updated_at = ''2026-01-01T00''\<rparr>"

lemma demo_day_run:
  "charge_day demo_defaults demo_day [] = ([demo_quota_row],
     [Inr (), Inl \<lparr>qe_agent_id = ''a'', qe_namespace = ''n'', qe_limit = MemoriesPerDay, qe_current = 1, qe_max = 1\<rparr>])"
  by (simp add: demo_day_def demo_defaults_def demo_quota_row_def check_and_record_def ensure_row_def
      load_row_def quota_verdict_def day_rolled_def day_bucket_def post_op_def update_where_def quota_key_def
      saturating_add_def i64_max_def i64_min_def select_by_Nil select_by_Cons Let_def)

theorem daily_cap_enforced_witness:
  "usage ''2026-01-01'' Memories ''a'' ''n'' [] + accepted_cost Memories ''a'' ''n'' demo_day
     [Inr (), Inl \<lparr>qe_agent_id = ''a'', qe_namespace = ''n'', qe_limit = MemoriesPerDay, qe_current = 1, qe_max = 1\<rparr>] =
     row_usage ''2026-01-01'' Memories demo_quota_row \<and>
   row_usage ''2026-01-01'' Memories demo_quota_row \<le> max 0 (ceiling Memories demo_quota_row)"
proof (rule daily_cap_enforced [OF _ _ _ demo_day_run])
  show "quota_ok []" and "defaults_ok demo_defaults"
    by (simp_all add: quota_ok_def defaults_ok_def demo_defaults_def i64_max_def)
  show "\<forall>(now0, now, a, n, op) \<in> set demo_day. day_bucket now = ''2026-01-01'' \<and>
      (\<forall>b. op = MemoryOp b \<longrightarrow> 0 \<le> b)"
    by (simp add: demo_day_def day_bucket_def)
  show "load_row [demo_quota_row] ''a'' ''n'' = Some demo_quota_row"
    by (simp add: load_row_def select_by_Cons quota_key_def demo_quota_row_def)
qed

end
