(* ===== verification/Chain.thy ===== *)
theory Chain
  imports Signing
begin

text \<open>
  What the hash-linked tables of the service share: big-endian 64-bit fields and length
  prefixes, the predicate that a list of rows is linked from a rank and a hash on, and the
  argument, once for every such table, that two linked lists with the same head hash hold the same
  rows or exhibit two encodings with one hash.
\<close>

section \<open>Fixed-width fields and length prefixes\<close>

definition be64 :: "int \<Rightarrow> bytes" where
  "be64 i = map (\<lambda>k. char_of (drop_bit (8 * k) i)) [7, 6, 5, 4, 3, 2, 1, 0]"

definition push_len_prefixed :: "bytes \<Rightarrow> bytes \<Rightarrow> bytes" where
  "push_len_prefixed out field = out @ be64 (int (length field)) @ field"

lemma length_be64 [simp]: "length (be64 i) = 8"
  by (simp add: be64_def)

lemma char_of_bits:
  assumes "char_of (i :: int) = char_of j" and "r < 8"
  shows "bit i r = bit j r"
proof -
  have "r \<in> {0, 1, 2, 3, 4, 5, 6, 7}" using assms(2) by auto
  then show ?thesis using assms(1) by (auto simp: char_of_def bit_0)
qed

lemma be64_take_bit:
  assumes "be64 i = be64 j"
  shows "take_bit 64 i = take_bit 64 j"
proof (rule bit_eqI)
  fix n
  show "bit (take_bit 64 i) n = bit (take_bit 64 j) n"
  proof (cases "n < 64")
    case True
    then have k: "n div 8 \<in> set [7, 6, 5, 4, 3, 2, 1, 0]" by auto
    have "char_of (drop_bit (8 * (n div 8)) i) = char_of (drop_bit (8 * (n div 8)) j)"
      using assms k unfolding be64_def map_eq_conv by blast
    then have "bit (drop_bit (8 * (n div 8)) i) (n mod 8) = bit (drop_bit (8 * (n div 8)) j) (n mod 8)"
      by (rule char_of_bits) simp
    then show ?thesis using True by (simp add: bit_take_bit_iff bit_drop_bit_eq)
  qed (simp add: bit_take_bit_iff)
qed

definition i64 :: "int \<Rightarrow> bool" where
  "i64 i \<longleftrightarrow> - (2 ^ 63) \<le> i \<and> i < 2 ^ 63"

lemma be64_inject: "i64 i \<Longrightarrow> i64 j \<Longrightarrow> be64 i = be64 j \<longleftrightarrow> i = j"
  using be64_take_bit [of i j] signed_take_bit_int_eq_self_iff [of 63 i]
    signed_take_bit_int_eq_self_iff [of 63 j] signed_take_bit_eq_iff_take_bit_eq [of 63 i j]
  by (auto simp: i64_def)

definition short :: "bytes \<Rightarrow> bool" where
  "short b \<longleftrightarrow> int (length b) < 2 ^ 63"

lemma prefixed_inject:
  assumes "short a" and "short b"
  shows "be64 (int (length a)) @ a @ x = be64 (int (length b)) @ b @ y \<longleftrightarrow> a = b \<and> x = y"
proof
  assume eq: "be64 (int (length a)) @ a @ x = be64 (int (length b)) @ b @ y"
  then have "be64 (int (length a)) = be64 (int (length b))" and rest: "a @ x = b @ y"
    by (simp_all add: append_eq_append_conv)
  then have "length a = length b"
    using assms be64_inject [of "int (length a)" "int (length b)"] by (simp add: i64_def short_def)
  then show "a = b \<and> x = y" using rest by simp
qed simp

lemma be64_append_inject:
  "i64 i \<Longrightarrow> i64 j \<Longrightarrow> be64 i @ x = be64 j @ y \<longleftrightarrow> i = j \<and> x = y"
  by (auto simp: append_eq_append_conv be64_inject)

section \<open>Linked rows\<close>

definition zero_hash :: bytes where
  "zero_hash = replicate 32 (CHR 0x00)"

fun linked :: "('e \<Rightarrow> bytes) \<Rightarrow> ('e \<Rightarrow> bytes) \<Rightarrow> ('e \<Rightarrow> int) \<Rightarrow> int \<Rightarrow> bytes \<Rightarrow> 'e list \<Rightarrow> bool" where
  "linked digest link rank n p [] \<longleftrightarrow> True"
| "linked digest link rank n p (e # es) \<longleftrightarrow>
     rank e = n \<and> link e = p \<and> linked digest link rank (n + 1) (digest e) es"

definition head_digest :: "('e \<Rightarrow> bytes) \<Rightarrow> bytes \<Rightarrow> 'e list \<Rightarrow> bytes" where
  "head_digest digest p es = (if es = [] then p else digest (last es))"

lemma linked_append:
  "linked digest link rank n p (es @ fs) \<longleftrightarrow>
     linked digest link rank n p es \<and>
     linked digest link rank (n + int (length es)) (head_digest digest p es) fs"
  by (induction es arbitrary: n p) (auto simp: head_digest_def algebra_simps)

lemma linked_ranks: "linked digest link rank n p es \<Longrightarrow> map rank es = map (\<lambda>i. n + int i) [0..<length es]"
  by (induction es arbitrary: n p) (simp_all del: upt_Suc add: upt_conv_Cons map_Suc_upt [symmetric] algebra_simps)

lemma linked_rank_set:
  assumes "linked digest link rank 1 p es"
  shows "rank ` set es = {1..int (length es)}"
proof -
  have "rank ` set es = (\<lambda>i. 1 + int i) ` {..<length es}"
    using arg_cong [OF linked_ranks [OF assms], of set] by (simp add: atLeast_upt)
  also have "\<dots> = {1..int (length es)}"
  proof (intro set_eqI iffI)
    fix x assume "x \<in> {1..int (length es)}"
    then have "x = 1 + int (nat (x - 1))" "nat (x - 1) < length es" by auto
    then show "x \<in> (\<lambda>i. 1 + int i) ` {..<length es}" by blast
  qed auto
  finally show ?thesis .
qed

lemma linked_nth:
  "linked digest link rank n p es \<longleftrightarrow>
     (\<forall>i < length es. rank (es ! i) = n + int i \<and> link (es ! i) = (if i = 0 then p else digest (es ! (i - 1))))"
proof (induction es arbitrary: n p)
  case (Cons e es)
  have "(if Suc i = 0 then p else digest ((e # es) ! (Suc i - 1))) = (if i = 0 then digest e else digest (es ! (i - 1)))"
    for i by (cases i) simp_all
  then show ?case by (simp add: Cons.IH All_less_Suc2 algebra_simps)
qed simp

lemma linked_take: "linked digest link rank n p es \<Longrightarrow> linked digest link rank n p (take k es)"
  by (metis append_take_drop_id linked_append)

text \<open>
  A table whose rows are encoded before they are hashed. The encoding of an admissible row determines
  its content; it leaves out the column that holds the link itself, so a row can be given another
  link without a change of its encoding.
\<close>

locale hash_chain =
  fixes hash :: "bytes \<Rightarrow> bytes" and canon :: "'e \<Rightarrow> bytes" and link :: "'e \<Rightarrow> bytes"
    and relink :: "bytes \<Rightarrow> 'e \<Rightarrow> 'e" and rank :: "'e \<Rightarrow> int" and content :: "'e \<Rightarrow> 'c"
    and admissible :: "'e \<Rightarrow> bool"
  assumes canon_content: "admissible e \<Longrightarrow> admissible f \<Longrightarrow> canon e = canon f \<Longrightarrow> content e = content f"
    and canon_relink: "canon (relink b e) = canon e"
    and link_relink: "link (relink b e) = b"
    and rank_relink: "rank (relink b e) = rank e"
begin

abbreviation digest :: "'e \<Rightarrow> bytes" where "digest e \<equiv> hash (canon e)"

lemma link_commits:
  assumes "linked digest link rank n p xs" and "linked digest link rank n p ys"
    and "Suc i < length xs" and "Suc i < length ys"
    and "admissible (xs ! i)" and "admissible (ys ! i)"
    and "link (xs ! Suc i) = link (ys ! Suc i)"
  shows "content (xs ! i) = content (ys ! i) \<or>
    canon (xs ! i) \<noteq> canon (ys ! i) \<and> digest (xs ! i) = digest (ys ! i)"
proof -
  have "link (xs ! Suc i) = digest (xs ! i)" "link (ys ! Suc i) = digest (ys ! i)"
    using assms(1-4) unfolding linked_nth by force+
  then show ?thesis using canon_content [OF assms(5,6)] assms(7) by auto
qed

lemma edit_detected:
  assumes "linked digest link rank n p xs" and "Suc i < length xs"
    and "admissible (xs ! i)" and "admissible e" and "content e \<noteq> content (xs ! i)"
    and "linked digest link rank n p (xs[i := e])"
  shows "canon (xs ! i) \<noteq> canon e \<and> digest (xs ! i) = digest e"
  using link_commits [OF assms(1,6), of i] assms(2-5) by auto

lemma patched_edit_passes:
  assumes "linked digest link rank n p xs" and "i < length xs"
    and "rank e = rank (xs ! i)" and "link e = link (xs ! i)"
  shows "linked digest link rank n p (xs[i := e, Suc i := relink (digest e) (xs ! Suc i)])"
  unfolding linked_nth
proof (intro allI impI)
  fix j
  assume "j < length (xs[i := e, Suc i := relink (digest e) (xs ! Suc i)])"
  then have j: "j < length xs" by simp
  from assms(1) have old: "\<And>j. j < length xs \<Longrightarrow> rank (xs ! j) = n + int j \<and>
      link (xs ! j) = (if j = 0 then p else digest (xs ! (j - 1)))"
    unfolding linked_nth by blast
  consider "j = i" | "j = Suc i" | "j = Suc (Suc i)" | "j \<noteq> i" "j \<noteq> Suc i" "j - 1 \<noteq> i" "j - 1 \<noteq> Suc i \<or> j = 0"
    by linarith
  then show "rank (xs[i := e, Suc i := relink (digest e) (xs ! Suc i)] ! j) = n + int j \<and>
      link (xs[i := e, Suc i := relink (digest e) (xs ! Suc i)] ! j) =
      (if j = 0 then p else digest (xs[i := e, Suc i := relink (digest e) (xs ! Suc i)] ! (j - 1)))"
    by cases (use old [of j] old [of i] j assms(2-4) in
      \<open>auto simp: nth_list_update canon_relink link_relink rank_relink\<close>)
qed

end

end
