(* ===== verification/SignedEvents.thy ===== *)
theory SignedEvents
  imports Chain Checkpoints Links
begin

text \<open>
  The audit trail of \<^verbatim>\<open>src/signed_events.rs\<close>: the append that links and signs a row, the walk
  that verifies the table, the verdicts of the audit report, and the two off-table anchors the
  report consults (the watermark of \<^verbatim>\<open>src/governance/audit.rs\<close> and the witness checkpoint).
  Sequence numbers are integers; the tables considered hold fewer than \<open>2 ^ 63\<close> rows, so the
  64-bit column never overflows. Keys that the process holds or has enrolled are arguments.
\<close>

section \<open>Rows\<close>

record ('p, 'q) signed_event_rec =
  ev_id :: string
  ev_agent_id :: string
  ev_event_type :: string
  ev_payload_hash :: bytes
  ev_signature :: "bytes option"
  ev_attest_level :: string
  ev_timestamp :: string
  ev_prev_hash :: 'p
  ev_sequence :: 'q
  ev_cause_hash :: "bytes option"

text \<open>Both chain columns of the table are nullable.\<close>

type_synonym signed_event = "(bytes, int) signed_event_rec"
type_synonym event_row = "(bytes option, int option) signed_event_rec"

definition row_to_event :: "event_row \<Rightarrow> signed_event" where
  "row_to_event r =
     \<lparr>ev_id = ev_id r, ev_agent_id = ev_agent_id r, ev_event_type = ev_event_type r,
      ev_payload_hash = ev_payload_hash r, ev_signature = ev_signature r,
      ev_attest_level = ev_attest_level r, ev_timestamp = ev_timestamp r,
      ev_prev_hash = (case ev_prev_hash r of Some b \<Rightarrow> b | None \<Rightarrow> []),
      ev_sequence = (case ev_sequence r of Some n \<Rightarrow> n | None \<Rightarrow> 0),
      ev_cause_hash = ev_cause_hash r\<rparr>"

definition event_to_row :: "signed_event \<Rightarrow> event_row" where
  "event_to_row e =
     \<lparr>ev_id = ev_id e, ev_agent_id = ev_agent_id e, ev_event_type = ev_event_type e,
      ev_payload_hash = ev_payload_hash e, ev_signature = ev_signature e,
      ev_attest_level = ev_attest_level e, ev_timestamp = ev_timestamp e,
      ev_prev_hash = Some (ev_prev_hash e), ev_sequence = Some (ev_sequence e),
      ev_cause_hash = ev_cause_hash e\<rparr>"

lemma row_to_event_to_row [simp]: "row_to_event (event_to_row e) = e"
  by (simp add: row_to_event_def event_to_row_def)

lemma event_type_row [simp]: "ev_event_type (event_to_row e) = ev_event_type e"
  "ev_event_type (row_to_event r) = ev_event_type r"
  by (simp_all add: event_to_row_def row_to_event_def)

section \<open>Encodings\<close>

definition cause_bytes :: "bytes option \<Rightarrow> bytes" where
  "cause_bytes c = (case c of Some b \<Rightarrow> push_len_prefixed [CHR 0x01] b | None \<Rightarrow> [CHR 0x00])"

definition canonical_chain_bytes :: "signed_event \<Rightarrow> bytes" where
  "canonical_chain_bytes e =
     foldl push_len_prefixed []
       [ev_id e, ev_agent_id e, ev_event_type e, ev_payload_hash e,
        (case ev_signature e of Some s \<Rightarrow> s | None \<Rightarrow> []), ev_attest_level e, ev_timestamp e]
     @ be64 (ev_sequence e) @ cause_bytes (ev_cause_hash e)"

definition signing_input_bytes :: "crypto \<Rightarrow> bytes \<Rightarrow> bytes option \<Rightarrow> bytes" where
  "signing_input_bytes cr payload cause =
     (case cause of Some c \<Rightarrow> sha256 cr (payload @ [CHR 0x1F] @ c) | None \<Rightarrow> payload)"

definition daemon_row_sig_domain :: bytes where
  "daemon_row_sig_domain = ''ai-memory/signed-events/row-v1'' @ [CHR 0x00]"

definition daemon_row_preimage :: "signed_event \<Rightarrow> bytes" where
  "daemon_row_preimage e =
     foldl push_len_prefixed daemon_row_sig_domain
       [ev_id e, ev_agent_id e, ev_event_type e, ev_attest_level e, ev_timestamp e]
     @ be64 (ev_sequence e) @ be64 (int (length (ev_payload_hash e))) @ ev_payload_hash e
     @ cause_bytes (ev_cause_hash e)"

definition daemon_row_signing_input :: "crypto \<Rightarrow> signed_event \<Rightarrow> bytes" where
  "daemon_row_signing_input cr e = sha256 cr (daemon_row_preimage e)"

definition domain_recorder :: bytes where
  "domain_recorder = ''ai-memory:gov-recorder:v1'' @ [CHR 0x1F]"

definition recorder_signing_preimage :: "crypto \<Rightarrow> bytes \<Rightarrow> bytes option \<Rightarrow> bytes" where
  "recorder_signing_preimage cr payload cause = domain_recorder @ signing_input_bytes cr payload cause"

definition hex_digit :: "nat \<Rightarrow> char" where
  "hex_digit n = ''0123456789abcdef'' ! n"

definition hex_lower :: "bytes \<Rightarrow> string" where
  "hex_lower bs = concat (map (\<lambda>b. [hex_digit (of_char b div 16), hex_digit (of_char b mod 16)]) bs)"

section \<open>Signing\<close>

definition try_sign_audit_payload :: "crypto \<Rightarrow> bytes option \<Rightarrow> bytes \<Rightarrow> (bytes \<times> string) option" where
  "try_sign_audit_payload cr key payload =
     map_option (\<lambda>k. (ed_sign cr k payload, link_attest_as_str DaemonSigned)) key"

text \<open>The identifier is the fresh UUID of the constructor.\<close>

definition with_daemon_signature ::
  "crypto \<Rightarrow> bytes option \<Rightarrow> string \<Rightarrow> bytes \<Rightarrow> string \<Rightarrow> string \<Rightarrow> string \<Rightarrow> bytes option \<Rightarrow> signed_event" where
  "with_daemon_signature cr key uuid payload agent event_type timestamp cause =
     (let (signature, level) =
        (case try_sign_audit_payload cr key (signing_input_bytes cr payload cause) of
           Some (sig, tag) \<Rightarrow> (Some sig, tag)
         | None \<Rightarrow> (None, link_attest_as_str Unsigned))
      in \<lparr>ev_id = uuid, ev_agent_id = agent, ev_event_type = event_type, ev_payload_hash = payload,
          ev_signature = signature, ev_attest_level = level, ev_timestamp = timestamp,
          ev_prev_hash = [], ev_sequence = 0, ev_cause_hash = cause\<rparr>)"

section \<open>Appending\<close>

datatype audit_error = NullSequence nat | AuditSql sql_error

definition read_chain_head :: "crypto \<Rightarrow> event_row list \<Rightarrow> audit_error + (int \<times> bytes)" where
  "read_chain_head cr db =
     (let null_seq_count = count_where (\<lambda>r. ev_sequence r = None) db
      in if null_seq_count > 0 then Inl (NullSequence null_seq_count)
         else
           (case rev (sort_key (\<lambda>r. ev_sequence (row_to_event r)) db) of
              [] \<Rightarrow> Inr (0, zero_hash)
            | head # _ \<Rightarrow>
                Inr (ev_sequence (row_to_event head), sha256 cr (canonical_chain_bytes (row_to_event head)))))"

definition watermark_interval :: int where
  "watermark_interval = 64"

text \<open>The audit table, the process-wide throttle of the watermark, whether the forensic sink is up, and
  the watermark rows of each daily file of the forensic log, oldest file first.\<close>

record audit_state =
  au_events :: "event_row list"
  au_last_watermarked :: int
  au_sink :: bool
  au_files :: "(int \<times> string) list list"

definition record_audit_watermark :: "int \<Rightarrow> string \<Rightarrow> audit_state \<Rightarrow> audit_state" where
  "record_audit_watermark head_sequence head_hash s =
     (if au_sink s then
        s\<lparr>au_files := (case rev (au_files s) of
             [] \<Rightarrow> [[(head_sequence, head_hash)]]
           | today # earlier \<Rightarrow> rev earlier @ [today @ [(head_sequence, head_hash)]])\<rparr>
      else s)"

definition maybe_record_audit_watermark :: "int \<Rightarrow> string \<Rightarrow> audit_state \<Rightarrow> audit_state" where
  "maybe_record_audit_watermark head_sequence head_hash s =
     (if head_sequence \<le> 0 then s
      else if head_sequence - au_last_watermarked s < watermark_interval then s
      else record_audit_watermark head_sequence head_hash (s\<lparr>au_last_watermarked := head_sequence\<rparr>))"

definition last_audit_watermark :: "audit_state \<Rightarrow> (int \<times> string) option" where
  "last_audit_watermark s =
     (if au_sink s then
        (case filter (\<lambda>f. f \<noteq> []) (take 2 (rev (au_files s))) of
           [] \<Rightarrow> None
         | f # _ \<Rightarrow> Some (last f))
      else None)"

definition append_signature :: "crypto \<Rightarrow> bytes option \<Rightarrow> int \<Rightarrow> signed_event \<Rightarrow> bytes option" where
  "append_signature cr key next_seq e =
     (if ev_attest_level e = link_attest_as_str DaemonSigned \<and> ev_signature e \<noteq> None then
        (case try_sign_audit_payload cr key (daemon_row_signing_input cr (e\<lparr>ev_sequence := next_seq\<rparr>)) of
           Some (sig, _) \<Rightarrow> Some sig
         | None \<Rightarrow> ev_signature e)
      else ev_signature e)"

definition append_signed_event ::
  "crypto \<Rightarrow> bytes option \<Rightarrow> signed_event \<Rightarrow> audit_state \<Rightarrow> audit_error + audit_state" where
  "append_signed_event cr key e s =
     (case read_chain_head cr (au_events s) of
        Inl err \<Rightarrow> Inl err
      | Inr (max_seq, prev_hash) \<Rightarrow>
          (let next_seq = max_seq + 1;
               stored = e\<lparr>ev_signature := append_signature cr key next_seq e,
                          ev_prev_hash := prev_hash, ev_sequence := next_seq\<rparr>
           in if Some next_seq \<in> ev_sequence ` set (au_events s) then Inl (AuditSql PrimaryKeyViolation)
              else
                (case insert_row ev_id (event_to_row stored) (au_events s) of
                   Inl err \<Rightarrow> Inl (AuditSql err)
                 | Inr db \<Rightarrow>
                     Inr (maybe_record_audit_watermark next_seq
                       (hex_lower (sha256 cr (canonical_chain_bytes stored))) (s\<lparr>au_events := db\<rparr>)))))"

section \<open>Verifying the table\<close>

record chain_report =
  rp_rows_checked :: nat
  rp_chain_break :: "int option"
  rp_signature_failures :: "int list"
  rp_role_separation_failures :: "int list"

definition chain_holds :: "chain_report \<Rightarrow> bool" where
  "chain_holds r \<longleftrightarrow> rp_chain_break r = None"

record signature_verdict =
  sv_signature_failure :: bool
  sv_role_separation_failure :: bool

definition no_failure :: signature_verdict where
  "no_failure = \<lparr>sv_signature_failure = False, sv_role_separation_failure = False\<rparr>"

definition governance_check_event_type :: string where
  "governance_check_event_type = ''governance.check''"

definition classify_row_signature ::
  "crypto \<Rightarrow> signed_event \<Rightarrow> bytes option \<Rightarrow> bytes option \<Rightarrow> signature_verdict" where
  "classify_row_signature cr e daemon_verifier recorder_verifier =
     (if ev_attest_level e = link_attest_as_str LineageSigned then no_failure
      else if ev_attest_level e = link_attest_as_str RecorderSigned then
        (case recorder_verifier of
           None \<Rightarrow> no_failure
         | Some rk \<Rightarrow>
             (let ok = (case ev_signature e of
                 Some sig \<Rightarrow> length sig = 64 \<and>
                   ed_verify_strict cr rk (recorder_signing_preimage cr (ev_payload_hash e) (ev_cause_hash e)) sig
               | None \<Rightarrow> False)
              in no_failure\<lparr>sv_role_separation_failure := \<not> ok\<rparr>))
      else if recorder_verifier \<noteq> None \<and> ev_attest_level e = link_attest_as_str DaemonSigned \<and>
              ev_event_type e = governance_check_event_type then
        no_failure\<lparr>sv_role_separation_failure := True\<rparr>
      else
        (case daemon_verifier of
           None \<Rightarrow> no_failure
         | Some vk \<Rightarrow>
             (let failed = (case ev_signature e of
                 Some (b # bs) \<Rightarrow>
                   (if length (b # bs) = 64 then
                      \<not> (ed_verify_strict cr vk (daemon_row_signing_input cr e) (b # bs) \<or>
                         ed_verify_strict cr vk
                           (signing_input_bytes cr (ev_payload_hash e) (ev_cause_hash e)) (b # bs))
                    else True)
               | _ \<Rightarrow> ev_attest_level e \<noteq> link_attest_as_str Unsigned)
              in no_failure\<lparr>sv_signature_failure := failed\<rparr>)))"

text \<open>The local variables of the walk.\<close>

record chain_walk =
  wk_report :: chain_report
  wk_expected_seq :: int
  wk_prev_canonical_hash :: bytes

definition first_break :: "bool \<Rightarrow> int \<Rightarrow> int option \<Rightarrow> int option" where
  "first_break broken seq b = (if broken \<and> b = None then Some seq else b)"

definition verify_row ::
  "crypto \<Rightarrow> bytes option \<Rightarrow> bytes option \<Rightarrow> signed_event \<Rightarrow> chain_walk \<Rightarrow> chain_walk" where
  "verify_row cr verifier recorder_verifier e w =
     (let r = wk_report w; seq = ev_sequence e;
          break1 = first_break (seq \<noteq> wk_expected_seq w) seq (rp_chain_break r);
          break2 = first_break (length (ev_prev_hash e) \<noteq> 32 \<or> ev_prev_hash e \<noteq> wk_prev_canonical_hash w)
                     seq break1;
          rv = classify_row_signature cr e verifier recorder_verifier
      in \<lparr>wk_report =
            \<lparr>rp_rows_checked = rp_rows_checked r + 1, rp_chain_break = break2,
             rp_signature_failures = rp_signature_failures r @ (if sv_signature_failure rv then [seq] else []),
             rp_role_separation_failures =
               rp_role_separation_failures r @ (if sv_role_separation_failure rv then [seq] else [])\<rparr>,
          wk_expected_seq = seq + 1,
          wk_prev_canonical_hash = sha256 cr (canonical_chain_bytes e)\<rparr>)"

text \<open>The rows above a lower bound in ascending order, and the row at the bound.\<close>

definition rows_above :: "int \<Rightarrow> event_row list \<Rightarrow> signed_event list" where
  "rows_above lower db =
     filter (\<lambda>e. lower < ev_sequence e) (sort_key ev_sequence (map row_to_event db))"

definition chain_anchor :: "crypto \<Rightarrow> int \<Rightarrow> event_row list \<Rightarrow> bytes" where
  "chain_anchor cr lower db =
     (if lower > 0 then
        (case find (\<lambda>e. ev_sequence e = lower) (map row_to_event db) of
           Some h \<Rightarrow> sha256 cr (canonical_chain_bytes h)
         | None \<Rightarrow> zero_hash)
      else zero_hash)"

definition verify_chain ::
  "crypto \<Rightarrow> bytes option \<Rightarrow> bytes option \<Rightarrow> event_row list \<Rightarrow> int option \<Rightarrow> chain_report" where
  "verify_chain cr verifier recorder_verifier db since_sequence =
     (let lower = (case since_sequence of Some n \<Rightarrow> n | None \<Rightarrow> 0)
      in wk_report (fold (verify_row cr verifier recorder_verifier) (rows_above lower db)
           \<lparr>wk_report = \<lparr>rp_rows_checked = 0, rp_chain_break = None, rp_signature_failures = [],
                         rp_role_separation_failures = []\<rparr>,
            wk_expected_seq = lower + 1, wk_prev_canonical_hash = chain_anchor cr lower db\<rparr>))"

section \<open>The encoding determines the row\<close>

type_synonym event_content =
  "string \<times> string \<times> string \<times> bytes \<times> bytes \<times> string \<times> string \<times> int \<times> bytes option"

text \<open>Every column but the link; an absent and an empty signature count as one.\<close>

definition event_content :: "signed_event \<Rightarrow> event_content" where
  "event_content e =
     (ev_id e, ev_agent_id e, ev_event_type e, ev_payload_hash e,
      (case ev_signature e of Some s \<Rightarrow> s | None \<Rightarrow> []), ev_attest_level e, ev_timestamp e,
      ev_sequence e, ev_cause_hash e)"

definition storable :: "signed_event \<Rightarrow> bool" where
  "storable e \<longleftrightarrow>
     i64 (ev_sequence e) \<and> list_all short
       ([ev_id e, ev_agent_id e, ev_event_type e, ev_payload_hash e,
         (case ev_signature e of Some s \<Rightarrow> s | None \<Rightarrow> []), ev_attest_level e, ev_timestamp e] @
        (case ev_cause_hash e of Some c \<Rightarrow> [c] | None \<Rightarrow> []))"

lemma cause_bytes_inject:
  assumes "list_all short (case c of Some b \<Rightarrow> [b] | None \<Rightarrow> [])"
    and "list_all short (case d of Some b \<Rightarrow> [b] | None \<Rightarrow> [])"
  shows "cause_bytes c = cause_bytes d \<longleftrightarrow> c = d"
  using assms prefixed_inject [of _ _ "[]" "[]"]
  by (auto simp: cause_bytes_def push_len_prefixed_def split: option.splits)

lemma canonical_chain_bytes_inject:
  assumes "storable e" and "storable f"
  shows "canonical_chain_bytes e = canonical_chain_bytes f \<longleftrightarrow> event_content e = event_content f"
  using assms cause_bytes_inject [of "ev_cause_hash e" "ev_cause_hash f"]
  by (simp add: canonical_chain_bytes_def push_len_prefixed_def storable_def event_content_def
      prefixed_inject be64_append_inject del: append_eq_append_conv)

interpretation events: hash_chain "sha256 cr" canonical_chain_bytes ev_prev_hash
    "\<lambda>b e. e\<lparr>ev_prev_hash := b\<rparr>" ev_sequence event_content storable for cr
  by unfold_locales (auto simp: canonical_chain_bytes_inject, simp add: canonical_chain_bytes_def)

section \<open>What the walk reports\<close>

abbreviation event_digest :: "crypto \<Rightarrow> signed_event \<Rightarrow> bytes" where
  "event_digest cr e \<equiv> sha256 cr (canonical_chain_bytes e)"

lemma fold_verify_row:
  "rp_rows_checked (wk_report (fold (verify_row cr vk rk) es w)) = rp_rows_checked (wk_report w) + length es"
  "rp_signature_failures (wk_report (fold (verify_row cr vk rk) es w)) = rp_signature_failures (wk_report w) @
     map ev_sequence (filter (\<lambda>e. sv_signature_failure (classify_row_signature cr e vk rk)) es)"
  "rp_role_separation_failures (wk_report (fold (verify_row cr vk rk) es w)) =
     rp_role_separation_failures (wk_report w) @
     map ev_sequence (filter (\<lambda>e. sv_role_separation_failure (classify_row_signature cr e vk rk)) es)"
  by (induction es arbitrary: w) (simp_all add: verify_row_def Let_def)

lemma fold_chain_break:
  "rp_chain_break (wk_report (fold (verify_row cr vk rk) es w)) = None \<longleftrightarrow>
     rp_chain_break (wk_report w) = None \<and>
     linked (event_digest cr) ev_prev_hash ev_sequence (wk_expected_seq w) (wk_prev_canonical_hash w) es \<and>
     (\<forall>e \<in> set es. length (ev_prev_hash e) = 32)"
proof (induction es arbitrary: w)
  case (Cons e es)
  have "rp_chain_break (wk_report (verify_row cr vk rk e w)) = None \<longleftrightarrow>
      rp_chain_break (wk_report w) = None \<and> ev_sequence e = wk_expected_seq w \<and>
      length (ev_prev_hash e) = 32 \<and> ev_prev_hash e = wk_prev_canonical_hash w"
    by (auto simp: verify_row_def Let_def first_break_def)
  moreover have "wk_expected_seq (verify_row cr vk rk e w) = ev_sequence e + 1"
    "wk_prev_canonical_hash (verify_row cr vk rk e w) = event_digest cr e"
    by (simp_all add: verify_row_def Let_def)
  ultimately show ?case by (auto simp: Cons.IH)
qed simp

lemma verify_chain_holds:
  "chain_holds (verify_chain cr vk rk db since) \<longleftrightarrow>
     (let lower = (case since of Some n \<Rightarrow> n | None \<Rightarrow> 0) in
      linked (event_digest cr) ev_prev_hash ev_sequence (lower + 1) (chain_anchor cr lower db)
        (rows_above lower db) \<and>
      (\<forall>e \<in> set (rows_above lower db). length (ev_prev_hash e) = 32))"
  by (simp add: chain_holds_def verify_chain_def Let_def fold_chain_break)

text \<open>The table as the appends leave it: the rows in order, every rank present, linked from the zero hash.\<close>

definition well_linked :: "crypto \<Rightarrow> event_row list \<Rightarrow> bool" where
  "well_linked cr db \<longleftrightarrow>
     (\<forall>r \<in> set db. ev_sequence r \<noteq> None \<and> ev_prev_hash r \<noteq> None) \<and>
     linked (event_digest cr) ev_prev_hash ev_sequence 1 zero_hash (map row_to_event db)"

lemma linked_sorted:
  assumes "linked digest link rank n p es"
  shows "sort_key rank es = es" and "\<forall>e \<in> set es. n \<le> rank e \<and> rank e < n + int (length es)"
    and "distinct (map rank es)"
proof -
  have r: "map rank es = map (\<lambda>i. n + int i) [0..<length es]" by (rule linked_ranks [OF assms])
  then have "sorted (map rank es)" by (simp add: sorted_iff_nth_mono)
  then show "sort_key rank es = es" by (rule sort_key_id_if_sorted)
  show "distinct (map rank es)" unfolding r by (simp add: distinct_map inj_on_def)
  show "\<forall>e \<in> set es. n \<le> rank e \<and> rank e < n + int (length es)"
  proof
    fix e assume "e \<in> set es"
    then have "rank e \<in> set (map rank es)" by simp
    then show "n \<le> rank e \<and> rank e < n + int (length es)" unfolding r by auto
  qed
qed

lemma well_linked_rows:
  assumes "well_linked cr db"
  shows "rows_above 0 db = map row_to_event db"
proof -
  have l: "linked (event_digest cr) ev_prev_hash ev_sequence 1 zero_hash (map row_to_event db)"
    using assms unfolding well_linked_def by blast
  have "sort_key ev_sequence (map row_to_event db) = map row_to_event db"
    by (rule linked_sorted(1) [OF l])
  moreover have "filter (\<lambda>e. 0 < ev_sequence e) (map row_to_event db) = map row_to_event db"
    using linked_sorted(2) [OF l] by (intro filter_True ballI) fastforce
  ultimately show ?thesis by (simp add: rows_above_def)
qed

lemma zero_hash_length [simp]: "length zero_hash = 32"
  by (simp add: zero_hash_def)

lemma linked_link_length:
  assumes "linked digest link rank n p es" and "length p = 32" and "\<forall>e. length (digest e) = 32"
  shows "\<forall>e \<in> set es. length (link e) = 32"
  using assms by (induction es arbitrary: n p) auto

lemma well_linked_chain_holds:
  assumes "well_linked cr db" and "\<forall>b. length (sha256 cr b) = 32"
  shows "chain_holds (verify_chain cr vk rk db None)"
proof -
  have l: "linked (event_digest cr) ev_prev_hash ev_sequence 1 zero_hash (map row_to_event db)"
    using assms(1) unfolding well_linked_def by blast
  then have "\<forall>e \<in> set (map row_to_event db). length (ev_prev_hash e) = 32"
    by (rule linked_link_length) (simp_all add: assms(2))
  with l show ?thesis
    by (simp add: verify_chain_holds well_linked_rows [OF assms(1)] chain_anchor_def)
qed

section \<open>Appends keep the table verifiable\<close>

lemma well_linked_head:
  assumes "well_linked cr db"
  shows "read_chain_head cr db =
    Inr (int (length db), head_digest (event_digest cr) zero_hash (map row_to_event db))"
proof -
  have l: "linked (event_digest cr) ev_prev_hash ev_sequence 1 zero_hash (map row_to_event db)"
    using assms unfolding well_linked_def by blast
  have "count_where (\<lambda>r. ev_sequence r = None) db = 0"
    using assms by (auto simp: well_linked_def count_where_0_iff)
  moreover have "map (\<lambda>r. ev_sequence (row_to_event r)) db = map (\<lambda>i. 1 + int i) [0..<length db]"
    using linked_ranks [OF l] by (simp add: comp_def)
  then have "sort_key (\<lambda>r. ev_sequence (row_to_event r)) db = db"
    by (intro sort_key_id_if_sorted) (simp add: sorted_iff_nth_mono)
  moreover have "ev_sequence (row_to_event x) = 1 + int (length xs)" if "db = xs @ [x]" for x xs
    using l that by (simp add: linked_append)
  ultimately show ?thesis
    by (cases db rule: rev_cases) (simp_all add: read_chain_head_def head_digest_def)
qed

definition stored_event :: "crypto \<Rightarrow> bytes option \<Rightarrow> signed_event \<Rightarrow> event_row list \<Rightarrow> signed_event" where
  "stored_event cr key e db =
     e\<lparr>ev_signature := append_signature cr key (int (length db) + 1) e,
       ev_prev_hash := head_digest (event_digest cr) zero_hash (map row_to_event db),
       ev_sequence := int (length db) + 1\<rparr>"

lemma well_linked_sequences:
  assumes "well_linked cr db"
  shows "ev_sequence ` set db = Some ` {1..int (length db)}"
proof -
  have l: "linked (event_digest cr) ev_prev_hash ev_sequence 1 zero_hash (map row_to_event db)"
    using assms unfolding well_linked_def by blast
  have "ev_sequence r = Some (ev_sequence (row_to_event r))" if "r \<in> set db" for r
    using assms that by (auto simp: well_linked_def row_to_event_def)
  then have "ev_sequence ` set db = (\<lambda>r. Some (ev_sequence (row_to_event r))) ` set db"
    by (rule image_cong [OF refl])
  also have "\<dots> = Some ` (ev_sequence ` set (map row_to_event db))"
    by (simp add: image_image)
  also have "ev_sequence ` set (map row_to_event db) = {1..int (length db)}"
    using linked_rank_set [OF l] by simp
  finally show ?thesis .
qed

lemma append_well_linked:
  assumes "well_linked cr (au_events s)"
  shows "append_signed_event cr key e s =
    (case insert_row ev_id (event_to_row (stored_event cr key e (au_events s))) (au_events s) of
       Inl err \<Rightarrow> Inl (AuditSql err)
     | Inr db \<Rightarrow> Inr (maybe_record_audit_watermark (int (length (au_events s)) + 1)
         (hex_lower (event_digest cr (stored_event cr key e (au_events s)))) (s\<lparr>au_events := db\<rparr>)))"
  using well_linked_sequences [OF assms]
  by (simp add: append_signed_event_def well_linked_head [OF assms] stored_event_def Let_def image_iff
      split: sum.split)

lemma watermark_events [simp]: "au_events (maybe_record_audit_watermark h x s) = au_events s"
  by (simp add: maybe_record_audit_watermark_def record_audit_watermark_def)

lemma append_keeps_linked:
  assumes "well_linked cr (au_events s)" and "append_signed_event cr key e s = Inr s'"
  shows "au_events s' = au_events s @ [event_to_row (stored_event cr key e (au_events s))]"
    and "well_linked cr (au_events s')"
proof -
  show ev: "au_events s' = au_events s @ [event_to_row (stored_event cr key e (au_events s))]"
    using assms(2) unfolding append_well_linked [OF assms(1)]
    by (auto simp: insert_row_def split: if_splits sum.splits)
  show "well_linked cr (au_events s')"
    using assms(1) unfolding ev well_linked_def
    by (auto simp: linked_append stored_event_def event_to_row_def row_to_event_def)
qed

text \<open>Every producer builds its event with the daemon signature and appends it.\<close>

record mint =
  mi_uuid :: string
  mi_payload :: bytes
  mi_agent :: string
  mi_event_type :: string
  mi_timestamp :: string
  mi_cause :: "bytes option"

definition minted :: "crypto \<Rightarrow> bytes option \<Rightarrow> mint \<Rightarrow> signed_event" where
  "minted cr key m = with_daemon_signature cr key (mi_uuid m) (mi_payload m) (mi_agent m)
     (mi_event_type m) (mi_timestamp m) (mi_cause m)"

definition audit_append :: "crypto \<Rightarrow> bytes option \<Rightarrow> audit_state \<Rightarrow> mint \<Rightarrow> audit_state" where
  "audit_append cr key s m =
     (case append_signed_event cr key (minted cr key m) s of Inl _ \<Rightarrow> s | Inr s' \<Rightarrow> s')"

definition audit_run :: "crypto \<Rightarrow> bytes option \<Rightarrow> mint list \<Rightarrow> audit_state \<Rightarrow> audit_state" where
  "audit_run cr key ms s = foldl (audit_append cr key) s ms"

definition audit_boot :: audit_state where
  "audit_boot = \<lparr>au_events = [], au_last_watermarked = 0, au_sink = True, au_files = []\<rparr>"

text \<open>A row the daemon wrote: signed over its identity, or by design unsigned.\<close>

definition daemon_row :: "crypto \<Rightarrow> bytes option \<Rightarrow> signed_event \<Rightarrow> bool" where
  "daemon_row cr key e \<longleftrightarrow>
     (case key of
        None \<Rightarrow> ev_signature e = None \<and> ev_attest_level e = link_attest_as_str Unsigned
      | Some k \<Rightarrow> ev_signature e = Some (ed_sign cr k (daemon_row_signing_input cr e)) \<and>
          ev_attest_level e = link_attest_as_str DaemonSigned)"

lemma daemon_row_verdict:
  assumes "honest_keypair cr kp" and "daemon_row cr (kp_private kp) e"
    and "vk = None \<or> vk = Some (kp_public kp)"
    and "rk = None \<or> ev_event_type e \<noteq> governance_check_event_type"
  shows "classify_row_signature cr e vk rk = no_failure"
proof (cases "kp_private kp")
  case (Some k)
  then have "length (ed_sign cr k m) = 64" "ed_verify_strict cr (kp_public kp) m (ed_sign cr k m)" for m
    using assms(1) by (simp_all add: honest_keypair_def)
  note k = this
  obtain sig where sig: "sig = ed_sign cr k (daemon_row_signing_input cr e)" by blast
  then have ok: "length sig = 64" "ed_verify_strict cr (kp_public kp) (daemon_row_signing_input cr e) sig"
    using k by simp_all
  then obtain b bs where "sig = b # bs" by (cases sig) simp_all
  then show ?thesis
    using assms(2-4) Some ok sig
    by (auto simp: daemon_row_def classify_row_signature_def no_failure_def)
qed (use assms(2-4) in \<open>auto simp: daemon_row_def classify_row_signature_def no_failure_def\<close>)

lemma stored_minted:
  "daemon_row cr key (stored_event cr key (minted cr key m) db)"
  by (simp add: daemon_row_def stored_event_def append_signature_def minted_def with_daemon_signature_def
      try_sign_audit_payload_def daemon_row_signing_input_def daemon_row_preimage_def split: option.split)

definition audit_ok :: "crypto \<Rightarrow> bytes option \<Rightarrow> string set \<Rightarrow> audit_state \<Rightarrow> bool" where
  "audit_ok cr key types s \<longleftrightarrow>
     well_linked cr (au_events s) \<and>
     (\<forall>r \<in> set (au_events s). daemon_row cr key (row_to_event r) \<and> ev_event_type r \<in> types)"

lemma audit_append_ok:
  assumes "audit_ok cr key types s" and "mi_event_type m \<in> types"
  shows "audit_ok cr key types (audit_append cr key s m)"
proof (cases "append_signed_event cr key (minted cr key m) s")
  case (Inr s')
  have "ev_event_type (stored_event cr key (minted cr key m) (au_events s)) = mi_event_type m"
    by (simp add: stored_event_def minted_def with_daemon_signature_def Let_def case_prod_beta)
  then show ?thesis
    using assms append_keeps_linked [OF _ Inr] stored_minted [of cr key m "au_events s"]
    by (auto simp: audit_ok_def audit_append_def Inr)
qed (use assms in \<open>simp add: audit_append_def\<close>)

lemma audit_run_ok:
  "audit_ok cr key types s \<Longrightarrow> \<forall>m \<in> set ms. mi_event_type m \<in> types \<Longrightarrow>
     audit_ok cr key types (audit_run cr key ms s)"
  by (induction ms arbitrary: s) (simp_all add: audit_run_def audit_append_ok)

lemma audit_boot_ok: "audit_ok cr key types audit_boot"
  by (simp add: audit_ok_def audit_boot_def well_linked_def)

lemma clean_report:
  assumes "well_linked cr db" and "\<forall>b. length (sha256 cr b) = 32"
    and "\<forall>r \<in> set db. classify_row_signature cr (row_to_event r) vk rk = no_failure"
  shows "verify_chain cr vk rk db None =
    \<lparr>rp_rows_checked = length db, rp_chain_break = None, rp_signature_failures = [],
     rp_role_separation_failures = []\<rparr>"
  using well_linked_chain_holds [OF assms(1,2), of vk rk] assms(3)
  by (intro chain_report.equality)
    (auto simp: verify_chain_def chain_holds_def fold_verify_row well_linked_rows [OF assms(1)]
      no_failure_def filter_empty_conv)

section \<open>A concrete run\<close>

definition chain_crypto :: crypto where
  "chain_crypto = demo_crypto\<lparr>sha256 := \<lambda>b. take 32 (rev b @ replicate 32 (CHR 0x00))\<rparr>"

lemma chain_crypto_ok: "honest_keypair chain_crypto demo_keypair" "length (sha256 chain_crypto b) = 32"
  using demo_keypair_honest by (simp_all add: honest_keypair_def chain_crypto_def)

definition demo_mint :: "string \<Rightarrow> string \<Rightarrow> mint" where
  "demo_mint i kind = \<lparr>mi_uuid = i, mi_payload = ''hash'', mi_agent = ''alice'', mi_event_type = kind,
     mi_timestamp = ''2026-01-01'', mi_cause = None\<rparr>"

definition demo_mints :: "mint list" where
  "demo_mints = [demo_mint ''e1'' ''memory.stored'', demo_mint ''e2'' ''memory_link.created'',
     demo_mint ''e3'' ''memory.touch'']"

section \<open>Properties of the chain\<close>

lemma minted_id: "ev_id (event_to_row (stored_event cr key (minted cr key m) db)) = mi_uuid m"
  by (simp add: stored_event_def minted_def with_daemon_signature_def event_to_row_def case_prod_beta)

lemma mint_appended:
  assumes "well_linked cr (au_events s)" and "mi_uuid m \<notin> ev_id ` set (au_events s)"
  shows "\<exists>s'. append_signed_event cr key (minted cr key m) s = Inr s'"
  using assms(2)
  by (auto simp: append_well_linked [OF assms(1)] insert_row_def minted_id select_by_None_iff)

lemma audit_run_ids:
  assumes "well_linked cr (au_events s)"
  shows "ev_id ` set (au_events (audit_run cr key ms s)) \<subseteq> ev_id ` set (au_events s) \<union> mi_uuid ` set ms"
  using assms
proof (induction ms arbitrary: s)
  case (Cons m ms)
  have "well_linked cr (au_events (audit_append cr key s m)) \<and>
      ev_id ` set (au_events (audit_append cr key s m)) \<subseteq> insert (mi_uuid m) (ev_id ` set (au_events s))"
    using Cons.prems append_keeps_linked [OF Cons.prems] minted_id [of cr key m]
    by (auto simp: audit_append_def split: sum.split)
  moreover have "audit_run cr key (m # ms) s = audit_run cr key ms (audit_append cr key s m)"
    by (simp add: audit_run_def)
  moreover have "ev_id ` set (au_events (audit_run cr key ms (audit_append cr key s m))) \<subseteq>
      ev_id ` set (au_events (audit_append cr key s m)) \<union> mi_uuid ` set ms"
    using calculation by (intro Cons.IH) simp
  ultimately show ?case by (auto 0 3)
qed (simp add: audit_run_def)

lemma audit_run_length:
  assumes "audit_ok cr key types s" and "\<forall>m \<in> set ms. mi_event_type m \<in> types"
    and "distinct (map mi_uuid ms)" and "ev_id ` set (au_events s) \<inter> mi_uuid ` set ms = {}"
  shows "length (au_events (audit_run cr key ms s)) = length (au_events s) + length ms"
  using assms
proof (induction ms arbitrary: s)
  case (Cons m ms)
  let ?e = "stored_event cr key (minted cr key m) (au_events s)"
  have wl: "well_linked cr (au_events s)" using Cons.prems(1) by (simp add: audit_ok_def)
  have "\<exists>s'. append_signed_event cr key (minted cr key m) s = Inr s'"
    using Cons.prems(4) by (intro mint_appended [OF wl]) auto
  then obtain s' where s': "append_signed_event cr key (minted cr key m) s = Inr s'" by blast
  then have ev: "au_events (audit_append cr key s m) = au_events s @ [event_to_row ?e]"
    using append_keeps_linked(1) [OF wl s'] by (simp add: audit_append_def)
  have "length (au_events (audit_run cr key ms (audit_append cr key s m))) =
      length (au_events (audit_append cr key s m)) + length ms"
    using Cons.prems by (intro Cons.IH audit_append_ok) (auto simp: ev minted_id)
  then show ?case by (simp add: audit_run_def ev)
qed (simp add: audit_run_def)

text \<open>C15: Whatever events the producers mint and append, the audit walk over the table reports every
  row, no chain break and no signature failure, whether or not it holds the daemon's verifying
  key, and no event with a fresh identifier is lost. A recorder key may be enrolled as long
  as no governance check was signed by the daemon.\<close>

theorem audit_trail_stays_clean:
  assumes "honest_keypair cr kp" and "\<forall>b. length (sha256 cr b) = 32"
    and "vk = None \<or> vk = Some (kp_public kp)"
    and "rk = None \<or> (\<forall>m \<in> set ms. mi_event_type m \<noteq> governance_check_event_type)"
  shows "verify_chain cr vk rk (au_events (audit_run cr (kp_private kp) ms audit_boot)) None =
      \<lparr>rp_rows_checked = length (au_events (audit_run cr (kp_private kp) ms audit_boot)),
       rp_chain_break = None, rp_signature_failures = [], rp_role_separation_failures = []\<rparr> \<and>
    (distinct (map mi_uuid ms) \<longrightarrow>
      length (au_events (audit_run cr (kp_private kp) ms audit_boot)) = length ms)"
proof (intro conjI impI)
  let ?s = "audit_run cr (kp_private kp) ms audit_boot" and ?T = "mi_event_type ` set ms"
  have ok: "audit_ok cr (kp_private kp) ?T ?s"
    by (intro audit_run_ok audit_boot_ok) simp
  have "classify_row_signature cr (row_to_event r) vk rk = no_failure" if "r \<in> set (au_events ?s)" for r
    using ok that assms(4) by (intro daemon_row_verdict [OF assms(1) _ assms(3)]) (auto simp: audit_ok_def)
  with ok show "verify_chain cr vk rk (au_events ?s) None =
      \<lparr>rp_rows_checked = length (au_events ?s), rp_chain_break = None, rp_signature_failures = [],
       rp_role_separation_failures = []\<rparr>"
    by (intro clean_report [OF _ assms(2)]) (auto simp: audit_ok_def)
  show "length (au_events ?s) = length ms" if "distinct (map mi_uuid ms)"
    using audit_run_length [OF audit_boot_ok, of ms ?T] that by (simp add: audit_boot_def)
qed

theorem audit_trail_stays_clean_witness:
  "chain_holds (verify_chain chain_crypto (Some (kp_public demo_keypair)) (Some ''recorder'')
       (au_events (audit_run chain_crypto (kp_private demo_keypair) demo_mints audit_boot)) None) \<and>
     length (au_events (audit_run chain_crypto (kp_private demo_keypair) demo_mints audit_boot)) = 3"
  using audit_trail_stays_clean [of chain_crypto demo_keypair "Some (kp_public demo_keypair)"
      "Some ''recorder''" demo_mints] chain_crypto_ok
  by (simp add: chain_holds_def demo_mints_def demo_mint_def governance_check_event_type_def)

lemma rows_above_linked_ranks:
  assumes "linked digest link ev_sequence 1 p (rows_above 0 db)" and "n \<in> ev_sequence ` row_to_event ` set db"
    and "1 \<le> k" and "k \<le> n"
  shows "k \<in> ev_sequence ` row_to_event ` set db"
proof -
  let ?es = "rows_above 0 db"
  have es: "set ?es = {e \<in> row_to_event ` set db. 0 < ev_sequence e}" by (auto simp: rows_above_def)
  have "n \<in> ev_sequence ` set ?es" using assms(2-4) es by auto
  then have "k \<in> ev_sequence ` set ?es"
    using assms(3,4) unfolding linked_rank_set [OF assms(1)] by simp
  then show ?thesis using es by auto
qed

lemma well_linked_update:
  assumes "well_linked cr db" and "i < length db" and "ev_sequence e = ev_sequence (row_to_event (db ! i))"
  shows "rows_above 0 (db[i := event_to_row e]) = (map row_to_event db)[i := e]"
proof -
  let ?es = "map row_to_event db"
  have l: "linked (event_digest cr) ev_prev_hash ev_sequence 1 zero_hash ?es"
    using assms(1) unfolding well_linked_def by blast
  have ranks: "map ev_sequence (?es[i := e]) = map ev_sequence ?es"
    using assms(2,3) by (auto simp: list_eq_iff_nth_eq nth_list_update)
  have "sort_key ev_sequence (?es[i := e]) = ?es[i := e]"
    using ranks linked_ranks [OF l] by (intro sort_key_id_if_sorted) (simp add: sorted_iff_nth_mono)
  moreover have "0 < ev_sequence x" if "x \<in> set (?es[i := e])" for x
  proof -
    have "ev_sequence x \<in> set (map ev_sequence ?es)"
      using that unfolding ranks [symmetric] by simp
    then show ?thesis using linked_sorted(2) [OF l] by fastforce
  qed
  ultimately show ?thesis
    by (simp add: rows_above_def map_update filter_id_conv)
qed

text \<open>C16: An edit of one row of an appended table, the newest row apart, does not go unnoticed: if any
  column the encoding covers has changed and the walk still holds, then the old and the new row
  are two different encodings with one hash.\<close>

theorem row_edit_detected:
  assumes "well_linked cr db" and "Suc i < length db"
    and "storable (row_to_event (db ! i))" and "storable e"
    and "event_content e \<noteq> event_content (row_to_event (db ! i))"
    and "chain_holds (verify_chain cr vk rk (db[i := event_to_row e]) None)"
  shows "canonical_chain_bytes e \<noteq> canonical_chain_bytes (row_to_event (db ! i)) \<and>
    sha256 cr (canonical_chain_bytes e) = sha256 cr (canonical_chain_bytes (row_to_event (db ! i)))"
proof -
  let ?es = "map row_to_event db" and ?db = "db[i := event_to_row e]"
  have l: "linked (event_digest cr) ev_prev_hash ev_sequence 1 zero_hash ?es"
    using assms(1) unfolding well_linked_def by blast
  then have seq: "ev_sequence (row_to_event (db ! j)) = 1 + int j" if "j < length db" for j
    using that by (auto simp: linked_nth)
  have l': "linked (event_digest cr) ev_prev_hash ev_sequence 1 zero_hash (rows_above 0 ?db)"
    using assms(6) by (simp add: verify_chain_holds chain_anchor_def)
  have "\<exists>j < length ?db. ev_sequence (row_to_event (?db ! j)) = 1 + int i"
  proof -
    have "int (length db) = ev_sequence (row_to_event (?db ! (length db - 1)))"
      using assms(2) seq [of "length db - 1"] by (simp add: nth_list_update)
    moreover have "?db ! (length db - 1) \<in> set ?db" using assms(2) by (intro nth_mem) simp
    ultimately have "int (length db) \<in> ev_sequence ` row_to_event ` set ?db" by blast
    from rows_above_linked_ranks [OF l' this, of "1 + int i"] assms(2)
    have "1 + int i \<in> ev_sequence ` row_to_event ` set ?db" by simp
    then obtain r where "r \<in> set ?db" "ev_sequence (row_to_event r) = 1 + int i" by auto
    then show ?thesis by (metis in_set_conv_nth)
  qed
  then have "ev_sequence e = ev_sequence (row_to_event (db ! i))"
    using seq assms(2) by (auto simp: nth_list_update split: if_splits)
  then have "rows_above 0 ?db = ?es[i := e]"
    using assms(2) by (intro well_linked_update [OF assms(1)]) simp_all
  then have "linked (event_digest cr) ev_prev_hash ev_sequence 1 zero_hash (?es[i := e])"
    using l' by simp
  from events.edit_detected [OF l _ _ _ _ this] assms(2-5) show ?thesis by simp metis
qed

lemma classify_relink [simp]:
  "classify_row_signature cr (e\<lparr>ev_prev_hash := b\<rparr>) vk rk = classify_row_signature cr e vk rk"
  by (simp add: classify_row_signature_def Let_def daemon_row_signing_input_def daemon_row_preimage_def
      cong: option.case_cong list.case_cong if_cong)

text \<open>A writer of the database file replaces a row and sets the link of the row after it.\<close>

definition rewrite_row :: "crypto \<Rightarrow> event_row list \<Rightarrow> nat \<Rightarrow> signed_event \<Rightarrow> event_row list" where
  "rewrite_row cr db i e = db[i := event_to_row e, Suc i := event_to_row
     ((row_to_event (db ! Suc i))\<lparr>ev_prev_hash := event_digest cr e\<rparr>)]"

definition relabelled :: "string \<Rightarrow> bytes \<Rightarrow> event_row \<Rightarrow> signed_event" where
  "relabelled agent payload r = (row_to_event r)\<lparr>ev_agent_id := agent, ev_payload_hash := payload,
     ev_attest_level := link_attest_as_str LineageSigned\<rparr>"

text \<open>The links do not accumulate: the encoding of a row leaves out its own link. Any row can be rewritten
  at will, its agent and its payload included, when it is labelled as a lineage row and the
  link of its successor is set to the new hash: the walk then reports a table without any break or
  failure, whatever verifying keys it holds, and the head hash, which the off-table
  anchors record, is the same as before unless the row was the head.\<close>

theorem relabelled_row_undetected:
  assumes "well_linked cr db" and "i < length db" and "\<forall>b. length (sha256 cr b) = 32"
    and "\<forall>r \<in> set db. classify_row_signature cr (row_to_event r) vk rk = no_failure"
  shows "verify_chain cr vk rk (rewrite_row cr db i (relabelled agent payload (db ! i))) None =
      \<lparr>rp_rows_checked = length db, rp_chain_break = None, rp_signature_failures = [],
       rp_role_separation_failures = []\<rparr> \<and>
    (Suc i < length db \<longrightarrow> read_chain_head cr (rewrite_row cr db i (relabelled agent payload (db ! i))) = read_chain_head cr db)"
proof -
  define e where "e = relabelled agent payload (db ! i)"
  define db' where "db' = rewrite_row cr db i e"
  let ?es = "map row_to_event db" and ?f = "(row_to_event (db ! Suc i))\<lparr>ev_prev_hash := event_digest cr e\<rparr>"
  have l: "linked (event_digest cr) ev_prev_hash ev_sequence 1 zero_hash ?es"
    using assms(1) unfolding well_linked_def by blast
  have rows: "map row_to_event db' = ?es[i := e, Suc i := (?es ! Suc i)\<lparr>ev_prev_hash := event_digest cr e\<rparr>]"
    by (cases "Suc i < length db") (simp_all add: db'_def rewrite_row_def map_update list_update_beyond)
  have "linked (event_digest cr) ev_prev_hash ev_sequence 1 zero_hash (map row_to_event db')"
    unfolding rows using assms(2) by (intro events.patched_edit_passes [OF l]) (simp_all add: e_def relabelled_def)
  moreover have "ev_sequence r \<noteq> None \<and> ev_prev_hash r \<noteq> None" if "r \<in> set db'" for r
    using that assms(1) unfolding db'_def rewrite_row_def well_linked_def
    by (auto simp: event_to_row_def dest!: set_update_subset_insert [THEN subsetD])
  ultimately have wl: "well_linked cr db'" by (simp add: well_linked_def)
  have "classify_row_signature cr e vk rk = no_failure" by (simp add: classify_row_signature_def e_def relabelled_def)
  moreover have "classify_row_signature cr ?f vk rk = no_failure" if "Suc i < length db"
    using assms(4) nth_mem [OF that] by simp
  ultimately have cl: "\<forall>r \<in> set db'. classify_row_signature cr (row_to_event r) vk rk = no_failure"
    using assms(4) unfolding db'_def rewrite_row_def
    by (cases "Suc i < length db") (auto simp: list_update_beyond dest!: set_update_subset_insert [THEN subsetD])
  have len: "length db' = length db" by (simp add: db'_def rewrite_row_def)
  have "read_chain_head cr db' = read_chain_head cr db" if "Suc i < length db"
  proof -
    have "?es \<noteq> []" using that by auto
    then have "last (map row_to_event db') = last ?es \<or>
        last (map row_to_event db') = (last ?es)\<lparr>ev_prev_hash := event_digest cr e\<rparr>"
      unfolding rows using that by (cases "Suc i = length db - 1") (simp_all add: last_list_update last_map last_conv_nth)
    then have "canonical_chain_bytes (last (map row_to_event db')) = canonical_chain_bytes (last ?es)"
      by (auto simp: events.canon_relink)
    then show ?thesis
      using that len by (simp add: well_linked_head [OF wl] well_linked_head [OF assms(1)] head_digest_def)
        (metis Suc_lessD length_greater_0_conv less_zeroE list.size(3))
  qed
  with clean_report [OF wl assms(3) cl] len show ?thesis unfolding db'_def e_def by simp
qed

theorem relabelled_row_undetected_witness:
  "let db = au_events (audit_run chain_crypto None demo_mints audit_boot) in
   chain_holds (verify_chain chain_crypto (Some ''daemon'') (Some ''recorder'')
     (rewrite_row chain_crypto db 1 (relabelled ''mallory'' ''other'' (db ! 1))) None) \<and>
   read_chain_head chain_crypto (rewrite_row chain_crypto db 1 (relabelled ''mallory'' ''other'' (db ! 1))) =
     read_chain_head chain_crypto db"
proof -
  let ?db = "au_events (audit_run chain_crypto None demo_mints audit_boot)"
  have ok: "audit_ok chain_crypto None (mi_event_type ` set demo_mints) (audit_run chain_crypto None demo_mints audit_boot)"
    by (intro audit_run_ok audit_boot_ok) simp
  have "length ?db = 3"
    using audit_run_length [OF audit_boot_ok, of demo_mints "mi_event_type ` set demo_mints" chain_crypto None]
    by (simp add: audit_boot_def demo_mints_def demo_mint_def)
  moreover have "classify_row_signature chain_crypto (row_to_event r) (Some ''daemon'') (Some ''recorder'') = no_failure"
    if "r \<in> set ?db" for r
    using ok that by (auto simp: audit_ok_def daemon_row_def classify_row_signature_def no_failure_def)
  ultimately show ?thesis
    using relabelled_row_undetected [of chain_crypto ?db 1 "Some ''daemon''" "Some ''recorder''" "''mallory''" "''other''"]
      ok chain_crypto_ok(2)
    by (simp add: audit_ok_def chain_holds_def Let_def)
qed

text \<open>A hash that always collides, for which an edit passes.\<close>

definition flat_crypto :: crypto where
  "flat_crypto = demo_crypto\<lparr>sha256 := \<lambda>b. zero_hash\<rparr>"

definition flat_event :: "int \<Rightarrow> string \<Rightarrow> signed_event" where
  "flat_event n agent =
     \<lparr>ev_id = (if n = 1 then ''e1'' else ''e2''), ev_agent_id = agent, ev_event_type = ''memory.stored'',
      ev_payload_hash = ''hash'', ev_signature = None, ev_attest_level = ''unsigned'',
      ev_timestamp = ''2026-01-01'', ev_prev_hash = zero_hash, ev_sequence = n, ev_cause_hash = None\<rparr>"

theorem row_edit_detected_witness:
  "canonical_chain_bytes (flat_event 1 ''mallory'') \<noteq> canonical_chain_bytes (flat_event 1 ''alice'') \<and>
   sha256 flat_crypto (canonical_chain_bytes (flat_event 1 ''mallory'')) =
     sha256 flat_crypto (canonical_chain_bytes (flat_event 1 ''alice''))"
proof -
  let ?db = "[event_to_row (flat_event 1 ''alice''), event_to_row (flat_event 2 ''bob'')]"
  have flat: "sha256 flat_crypto b = zero_hash" for b by (simp add: flat_crypto_def)
  have "well_linked flat_crypto ?db"
    by (simp add: well_linked_def flat flat_event_def event_to_row_def row_to_event_def)
  moreover have "chain_holds (verify_chain flat_crypto None None
      (?db[0 := event_to_row (flat_event 1 ''mallory'')]) None)"
    by (intro well_linked_chain_holds)
      (simp_all add: well_linked_def flat, simp_all add: flat_event_def event_to_row_def)
  ultimately show ?thesis
    using row_edit_detected [of flat_crypto ?db 0 "flat_event 1 ''mallory''" None None]
    by (simp add: storable_def flat_event_def event_content_def short_def i64_def)
qed

end
