(* ===== verification/AuditReport.thy ===== *)
theory AuditReport
  imports SignedEvents
begin

text \<open>
  The operator report of \<^verbatim>\<open>src/signed_events.rs\<close> over the audit table: the walk, the gap
  scan and the verdicts on the two off-table anchors, the witness checkpoint, the signing roles, the
  cause binding and the identity lineages. The human-readable details of the verdicts are left
  out. What the process reads from its environment is the record \<open>audit_env\<close>: the enrolled keys,
  the require flags, the head of the revision ledger, the parser of the witness payload, the
  head-anchor log with the restore sanction, and the outcomes of the lineage walks.
\<close>

section \<open>Verdicts\<close>

datatype truncation_check = TruncationUnknown | TruncationNotDetected | TruncationDetected int int

definition truncation_verdict :: "audit_state \<Rightarrow> int \<Rightarrow> truncation_check" where
  "truncation_verdict s head_sequence =
     (case last_audit_watermark s of
        Some (anchored_head, _) \<Rightarrow>
          (if head_sequence < anchored_head then TruncationDetected anchored_head head_sequence
           else TruncationNotDetected)
      | None \<Rightarrow> TruncationUnknown)"

datatype witness_check =
  WitnessUnknown | WitnessNotDetected | WitnessDetected string int int | WitnessForged | WitnessMissing

record witness_dual_head =
  wd_signed_head_sequence :: int
  wd_signed_head_hash :: string
  wd_revisions_head_sequence :: int
  wd_revisions_head_hash :: string

text \<open>The JSON parser of the resolution yields the version and the two heads.\<close>

definition parse_witness_dual_head ::
  "(string \<Rightarrow> (int \<times> witness_dual_head) option) \<Rightarrow> 'j checkpoint \<Rightarrow> witness_dual_head option" where
  "parse_witness_dual_head wire cp =
     (if cp_condition_type cp \<noteq> AuditHeadWitness then None
      else
        (case cp_resolution cp of
           None \<Rightarrow> None
         | Some res \<Rightarrow>
             (case wire res of
                None \<Rightarrow> None
              | Some (v, dual) \<Rightarrow> if v \<noteq> 1 \<and> v \<noteq> 2 then None else Some dual)))"

definition compute_witness_verdict ::
  "crypto \<Rightarrow> (string \<Rightarrow> (int \<times> witness_dual_head) option) \<Rightarrow> 'j checkpoint option \<Rightarrow> bytes option
    \<Rightarrow> int \<Rightarrow> int \<Rightarrow> bool \<Rightarrow> witness_check" where
  "compute_witness_verdict cr wire latest_witness enrolled_pubkey db_signed_head db_revisions_head require_witness =
     (let withhold = (if require_witness then WitnessMissing else WitnessUnknown) in
      case latest_witness of
        None \<Rightarrow> withhold
      | Some cp \<Rightarrow>
          if (\<exists>expected. enrolled_pubkey = Some expected \<and> cp_resolver_pubkey cp \<noteq> expected) then WitnessForged
          else if \<not> checkpoint_verify cr cp then
            (if enrolled_pubkey \<noteq> None then WitnessForged else withhold)
          else if enrolled_pubkey = None then withhold
          else
            (case parse_witness_dual_head wire cp of
               None \<Rightarrow> withhold
             | Some dual \<Rightarrow>
                 if wd_signed_head_sequence dual > db_signed_head then
                   WitnessDetected ''signed_events'' (wd_signed_head_sequence dual) db_signed_head
                 else if wd_revisions_head_sequence dual > db_revisions_head then
                   WitnessDetected ''memory_revisions'' (wd_revisions_head_sequence dual) db_revisions_head
                 else WitnessNotDetected))"

datatype cause_binding = CauseUnknown | CauseNotDetected | CauseDetected nat

definition compute_cause_binding_verdict :: "nat \<Rightarrow> bool \<Rightarrow> cause_binding" where
  "compute_cause_binding_verdict rows_without_cause require =
     (if rows_without_cause \<le> 0 then CauseNotDetected
      else if require then CauseDetected rows_without_cause
      else CauseUnknown)"

datatype rollback_check =
  RollbackUnknown | RollbackNotDetected | RollbackEvidence int int | RollbackSanctioned int int | RollbackMissing

definition compute_rollback_verdict :: "int \<Rightarrow> int option \<Rightarrow> bool \<Rightarrow> bool \<Rightarrow> rollback_check" where
  "compute_rollback_verdict db_head anchored_head sanctioned require =
     (case anchored_head of
        None \<Rightarrow> if require then RollbackMissing else RollbackUnknown
      | Some anchored \<Rightarrow>
          if db_head \<ge> anchored then RollbackNotDetected
          else if sanctioned then RollbackSanctioned anchored db_head
          else RollbackEvidence anchored db_head)"

datatype role_check = RoleUnknown | RoleNotDetected | RoleForged | RoleMisconfigured | RoleMissing

definition pin_and_verify_role_checkpoint :: "crypto \<Rightarrow> 'j checkpoint \<Rightarrow> bytes \<Rightarrow> role_check option" where
  "pin_and_verify_role_checkpoint cr cp expected =
     (if cp_resolver_pubkey cp \<noteq> expected then Some RoleForged
      else if \<not> checkpoint_verify cr cp then Some RoleForged
      else None)"

definition same_key :: "bytes option \<Rightarrow> bytes option \<Rightarrow> bool" where
  "same_key a b \<longleftrightarrow> a \<noteq> None \<and> a = b"

definition compute_role_separation_verdict ::
  "crypto \<Rightarrow> 'j checkpoint option \<Rightarrow> 'j checkpoint option \<Rightarrow> bytes option \<Rightarrow> bytes option \<Rightarrow> bytes option
    \<Rightarrow> nat \<Rightarrow> bool \<Rightarrow> role_check" where
  "compute_role_separation_verdict cr latest_verdict latest_enforcement recorder judge stopper
     recorder_row_failures require =
     (if recorder = None \<and> judge = None \<and> stopper = None then
        (if require then RoleMissing else RoleUnknown)
      else if same_key recorder judge \<or> same_key recorder stopper \<or> same_key judge stopper then
        RoleMisconfigured
      else if recorder \<noteq> None \<and> recorder_row_failures > 0 then RoleForged
      else
        (let judged = (case (judge, latest_verdict) of
              (Some judge_pk, Some cp) \<Rightarrow> pin_and_verify_role_checkpoint cr cp judge_pk
            | (Some _, None) \<Rightarrow> if require then Some RoleMissing else None
            | (None, _) \<Rightarrow> None);
            enforced = (case (stopper, latest_enforcement) of
              (Some stopper_pk, Some cp) \<Rightarrow> pin_and_verify_role_checkpoint cr cp stopper_pk
            | _ \<Rightarrow> None)
         in case judged of
              Some v \<Rightarrow> v
            | None \<Rightarrow> (case enforced of Some v \<Rightarrow> v | None \<Rightarrow> RoleNotDetected)))"

datatype lineage_check =
  LineageUnknown | LineageNotDetected | LineageForged string | LineageRevoked nat | LineageMissing

record lineage_walk_outcome =
  lo_agent_id :: string
  lo_failure :: "string option"
  lo_revoked_from_seq :: "nat option"

definition compute_lineage_check :: "lineage_walk_outcome list \<Rightarrow> bool \<Rightarrow> lineage_check" where
  "compute_lineage_check outcomes require =
     (if outcomes = [] then (if require then LineageMissing else LineageUnknown)
      else
        (case find (\<lambda>x. lo_failure x \<noteq> None) outcomes of
           Some bad \<Rightarrow> LineageForged (lo_agent_id bad)
         | None \<Rightarrow>
             (case List.map_filter lo_revoked_from_seq outcomes of
                from_seq # _ \<Rightarrow> LineageRevoked from_seq
              | [] \<Rightarrow> LineageNotDetected)))"

section \<open>The newest checkpoint of a kind\<close>

text \<open>Descending by resolution time, then by creation time; a missing resolution time sorts last.\<close>

definition newest_first :: "checkpoint_row list \<Rightarrow> checkpoint_row list" where
  "newest_first rows =
     (let by_creation = sort_key (\<lambda>r. - cp_created_at r) rows
      in sort_key (\<lambda>r. - the (cp_resolved_at r)) (filter (\<lambda>r. cp_resolved_at r \<noteq> None) by_creation) @
         filter (\<lambda>r. cp_resolved_at r = None) by_creation)"

definition read_latest_role_checkpoint ::
  "'j codec \<Rightarrow> checkpoint_db \<Rightarrow> string \<Rightarrow> condition_type \<Rightarrow> 'j checkpoint option" where
  "read_latest_role_checkpoint c db namespace condition_type =
     (case newest_first (filter (\<lambda>r. cp_namespace r = namespace \<and>
             cp_condition_type r = condition_type_as_str condition_type) db) of
        [] \<Rightarrow> None
      | r # _ \<Rightarrow> Some (row_to_checkpoint c r))"

definition read_latest_witness_checkpoint :: "'j codec \<Rightarrow> checkpoint_db \<Rightarrow> 'j checkpoint option" where
  "read_latest_witness_checkpoint c db = read_latest_role_checkpoint c db ''_audit_witness'' AuditHeadWitness"

section \<open>The report\<close>

record audit_trail_report =
  at_total_events :: nat
  at_chain_intact :: bool
  at_first_break_sequence :: "int option"
  at_sequence_gaps :: "(int \<times> int) list"
  at_head_sequence :: int
  at_since :: "string option"
  at_truncation :: truncation_check
  at_witness :: witness_check
  at_cause_binding :: cause_binding
  at_signature_failures :: "int list"
  at_role_separation :: role_check
  at_lineage :: lineage_check
  at_rollback :: rollback_check

definition is_clean :: "audit_trail_report \<Rightarrow> bool" where
  "is_clean r \<longleftrightarrow>
     at_chain_intact r \<and> at_sequence_gaps r = [] \<and>
     (case at_truncation r of TruncationDetected _ _ \<Rightarrow> False | _ \<Rightarrow> True) \<and>
     (case at_witness r of WitnessDetected _ _ _ \<Rightarrow> False | WitnessForged \<Rightarrow> False | WitnessMissing \<Rightarrow> False
       | _ \<Rightarrow> True) \<and>
     (case at_cause_binding r of CauseDetected _ \<Rightarrow> False | _ \<Rightarrow> True) \<and>
     at_role_separation r \<notin> {RoleForged, RoleMisconfigured, RoleMissing} \<and>
     (case at_lineage r of LineageForged _ \<Rightarrow> False | LineageMissing \<Rightarrow> False | _ \<Rightarrow> True) \<and>
     (case at_rollback r of RollbackEvidence _ _ \<Rightarrow> False | RollbackMissing \<Rightarrow> False | _ \<Rightarrow> True)"

definition coalesce_max :: "int list \<Rightarrow> int" where
  "coalesce_max xs = (if xs = [] then 0 else Max (set xs))"

definition present_sequences :: "event_row list \<Rightarrow> int list" where
  "present_sequences db = List.map_filter ev_sequence db"

definition chain_head_sequence :: "event_row list \<Rightarrow> int" where
  "chain_head_sequence db = coalesce_max (present_sequences db)"

definition since_floor :: "event_row list \<Rightarrow> string option \<Rightarrow> int" where
  "since_floor db since =
     (case since of
        Some ts \<Rightarrow> coalesce_max (present_sequences (filter (\<lambda>r. ev_timestamp r < ts) db))
      | None \<Rightarrow> 0)"

fun sequence_gaps :: "int \<Rightarrow> int list \<Rightarrow> (int \<times> int) list" where
  "sequence_gaps expected [] = []"
| "sequence_gaps expected (seq # seqs) =
     (if seq > expected then [(expected, seq - 1)] else []) @ sequence_gaps (seq + 1) seqs"

record audit_env =
  ae_verifier :: "bytes option"
  ae_witness_pubkey :: "bytes option"
  ae_recorder :: "bytes option"
  ae_judge :: "bytes option"
  ae_stopper :: "bytes option"
  ae_require_witness :: bool
  ae_require_cause :: bool
  ae_require_role :: bool
  ae_require_lineage :: bool
  ae_require_rollback :: bool
  ae_wire :: "string \<Rightarrow> (int \<times> witness_dual_head) option"
  ae_revisions_head :: int
  ae_anchored_head :: "int option"
  ae_sanction_clears :: "int \<Rightarrow> int \<Rightarrow> bool"
  ae_lineages :: "lineage_walk_outcome list"

definition compute_rollback_verdict_for_report :: "audit_env \<Rightarrow> int \<Rightarrow> rollback_check" where
  "compute_rollback_verdict_for_report env db_head =
     compute_rollback_verdict db_head (ae_anchored_head env)
       (case ae_anchored_head env of
          Some anchor \<Rightarrow> anchor > db_head \<and> ae_sanction_clears env anchor db_head
        | None \<Rightarrow> False)
       (ae_require_rollback env)"

definition verify_audit_trail ::
  "crypto \<Rightarrow> 'j codec \<Rightarrow> audit_env \<Rightarrow> audit_state \<Rightarrow> checkpoint_db \<Rightarrow> string option \<Rightarrow> audit_trail_report" where
  "verify_audit_trail cr c env s checkpoints since =
     (let db = au_events s;
          head_sequence = chain_head_sequence db;
          floor = since_floor db since;
          report = verify_chain cr (ae_verifier env) (ae_recorder env) db (if floor > 0 then Some floor else None)
      in \<lparr>at_total_events = rp_rows_checked report,
          at_chain_intact = chain_holds report,
          at_first_break_sequence = rp_chain_break report,
          at_sequence_gaps = sequence_gaps (floor + 1) (sort (filter (\<lambda>n. floor < n) (present_sequences db))),
          at_head_sequence = head_sequence,
          at_since = since,
          at_truncation = truncation_verdict s head_sequence,
          at_witness = compute_witness_verdict cr (ae_wire env) (read_latest_witness_checkpoint c checkpoints)
            (ae_witness_pubkey env) head_sequence (ae_revisions_head env) (ae_require_witness env),
          at_cause_binding = compute_cause_binding_verdict
            (count_where (\<lambda>r. ev_cause_hash r = None \<and> ev_sequence r \<noteq> None) db) (ae_require_cause env),
          at_signature_failures = rp_signature_failures report,
          at_role_separation = compute_role_separation_verdict cr
            (read_latest_role_checkpoint c checkpoints ''_governance_verdict'' GovernanceVerdict)
            (read_latest_role_checkpoint c checkpoints ''_governance_enforcement'' GovernanceEnforcement)
            (ae_recorder env) (ae_judge env) (ae_stopper env)
            (length (rp_role_separation_failures report)) (ae_require_role env),
          at_lineage = compute_lineage_check (ae_lineages env) (ae_require_lineage env),
          at_rollback = compute_rollback_verdict_for_report env head_sequence\<rparr>)"

section \<open>The witness checkpoint\<close>

text \<open>The resolution is printed with the rollback counter, that is as version 2; the identifier is a fresh UUID.\<close>

definition build_signed_witness_checkpoint ::
  "crypto \<Rightarrow> 'j codec \<Rightarrow> (int \<times> witness_dual_head \<Rightarrow> string) \<Rightarrow> string \<Rightarrow> witness_dual_head \<Rightarrow> bool \<Rightarrow> int
    \<Rightarrow> agent_keypair \<Rightarrow> sign_error + 'j checkpoint" where
  "build_signed_witness_checkpoint cr c print uuid dual rollback now kp =
     sign_resolution_into cr kp
       \<lparr>cp_id = uuid, cp_namespace = ''_audit_witness'', cp_title = ''audit head witness'',
        cp_condition_type = AuditHeadWitness, cp_condition = json_null c, cp_state = CpResolved,
        cp_created_by = ''audit:witness'', cp_resolved_by = Some ''audit:witness'',
        cp_resolution = Some (print (if rollback then 2 else 1, dual)), cp_resolution_note = None,
        cp_signature = [], cp_resolver_pubkey = [], cp_created_at = now, cp_deadline_at = None,
        cp_resolved_at = Some now, cp_metadata = json_null c\<rparr>"

lemma sign_resolution_fields:
  assumes "sign_resolution_into cr kp cp = Inr cp'"
  shows "cp_resolver_pubkey cp' = kp_public kp" "cp_condition_type cp' = cp_condition_type cp"
    "cp_resolution cp' = cp_resolution cp"
  using assms by (auto simp: sign_resolution_into_def split: sum.splits)

lemma sign_resolution_verifies:
  assumes "honest_keypair cr kp" and "sign_resolution_into cr kp cp = Inr cp'"
  shows "checkpoint_verify cr cp'"
proof -
  obtain sig where sig: "sign_checkpoint_resolution cr kp (resolution_signable cp) = Inr sig"
    and cp': "cp' = cp\<lparr>cp_signature := sig, cp_resolver_pubkey := kp_public kp\<rparr>"
    using assms(2) by (auto simp: sign_resolution_into_def split: sum.splits)
  from sig have "sign_bytes cr kp (canonical_cbor_checkpoint_resolution cr (resolution_signable cp)) = Inr sig"
    by (simp add: sign_checkpoint_resolution_def)
  from sign_verify_bytes [OF assms(1) this]
  show ?thesis
    by (auto simp: checkpoint_verify_def cp' resolution_signable_def verify_checkpoint_resolution_def)
qed

section \<open>Watermarks of a run\<close>

definition watermarked :: "audit_state \<Rightarrow> bool" where
  "watermarked s \<longleftrightarrow>
     (let k = length (au_events s) div 64
      in au_sink s \<and> au_last_watermarked s = 64 * int k \<and>
         (if k = 0 then au_files s = [] else \<exists>f x. au_files s = [f @ [(64 * int k, x)]]))"

lemma watermark_step:
  assumes "watermarked s"
    and "s' = maybe_record_audit_watermark (int (length (au_events s)) + 1) x (s\<lparr>au_events := au_events s @ [r]\<rparr>)"
  shows "watermarked s'"
proof -
  let ?n = "length (au_events s)"
  have "?n = 64 * (?n div 64) + ?n mod 64" by simp
  then have n: "int ?n = 64 * int (?n div 64) + int (?n mod 64)" "?n mod 64 < 64"
    by (metis of_nat_add of_nat_mult of_nat_numeral) simp
  have step: "Suc ?n div 64 = (if ?n mod 64 = 63 then Suc (?n div 64) else ?n div 64)"
    by (simp add: div_Suc mod_Suc)
  have last: "au_last_watermarked s = 64 * int (?n div 64)" "au_sink s"
    using assms(1) by (simp_all add: watermarked_def Let_def)
  show ?thesis
  proof (cases "?n mod 64 = 63")
    case True
    then have h: "int ?n + 1 = 64 * int (Suc (?n div 64))" using n by simp
    then have s': "s' = record_audit_watermark (64 * int (Suc (?n div 64))) x
        (s\<lparr>au_events := au_events s @ [r], au_last_watermarked := 64 * int (Suc (?n div 64))\<rparr>)"
      using last unfolding assms(2) h by (simp add: maybe_record_audit_watermark_def watermark_interval_def)
    have "au_files s = [] \<or> (\<exists>f. au_files s = [f])"
      using assms(1) by (auto simp: watermarked_def Let_def split: if_splits)
    then have "\<exists>f. au_files s' = [f @ [(64 * int (Suc (?n div 64)), x)]]"
      using last(2) s' by (auto simp: record_audit_watermark_def)
    moreover have "length (au_events s') div 64 = Suc (?n div 64)" "au_sink s'"
        "au_last_watermarked s' = 64 * int (Suc (?n div 64))"
      using step True last(2) by (simp_all add: s' record_audit_watermark_def)
    ultimately show ?thesis unfolding watermarked_def Let_def by auto
  next
    case False
    then have "int ?n + 1 - 64 * int (?n div 64) < 64" using n by simp
    then show ?thesis
      using assms step False last
      by (simp add: watermarked_def maybe_record_audit_watermark_def watermark_interval_def Let_def)
  qed
qed

lemma audit_append_watermarked:
  assumes "well_linked cr (au_events s)" and "watermarked s"
  shows "watermarked (audit_append cr key s m)"
proof (cases "append_signed_event cr key (minted cr key m) s")
  case (Inr s')
  then have "\<exists>x r. s' = maybe_record_audit_watermark (int (length (au_events s)) + 1) x
      (s\<lparr>au_events := au_events s @ [r]\<rparr>)"
    unfolding append_well_linked [OF assms(1)] by (auto simp: insert_row_def split: if_splits sum.splits)
  then show ?thesis using watermark_step [OF assms(2)] by (auto simp: audit_append_def Inr)
qed (use assms(2) in \<open>simp add: audit_append_def\<close>)

lemma audit_run_watermarked:
  assumes "audit_ok cr key types s" and "watermarked s" and "\<forall>m \<in> set ms. mi_event_type m \<in> types"
  shows "watermarked (audit_run cr key ms s)"
  using assms
proof (induction ms arbitrary: s)
  case (Cons m ms)
  have "watermarked (audit_append cr key s m)"
    using Cons.prems(1,2) by (intro audit_append_watermarked) (simp_all add: audit_ok_def)
  then show ?case
    using Cons.IH [OF audit_append_ok [OF Cons.prems(1)]] Cons.prems(3) by (simp add: audit_run_def)
qed (simp add: audit_run_def)

lemma boot_watermarked: "watermarked audit_boot"
  by (simp add: watermarked_def audit_boot_def)

lemma watermarked_last:
  assumes "watermarked s"
  shows "map_option fst (last_audit_watermark s) =
    (if length (au_events s) < 64 then None else Some (64 * int (length (au_events s) div 64)))"
  using assms by (auto simp: watermarked_def last_audit_watermark_def Let_def div_eq_0_iff split: if_splits)

section \<open>Gaps and heads\<close>

lemma sequence_gaps_contiguous:
  "map (\<lambda>i. n + int i) [0..<k] = seqs \<Longrightarrow> sequence_gaps n seqs = []"
proof (induction seqs arbitrary: n k)
  case (Cons q qs)
  then obtain j where k: "k = Suc j" by (cases k) auto
  have eq: "map (\<lambda>i. n + int i) [0..<Suc j] = (n + 0) # map (\<lambda>i. (n + 1) + int i) [0..<j]"
    by (intro nth_equalityI) (auto simp: nth_Cons' simp del: upt_Suc)
  have "q = n" and rest: "map (\<lambda>i. (n + 1) + int i) [0..<j] = qs"
    using Cons.prems unfolding k eq by auto
  then show ?case using Cons.IH [OF rest] by simp
qed simp

lemma well_linked_present:
  assumes "well_linked cr db"
  shows "present_sequences db = map (\<lambda>i. 1 + int i) [0..<length db]"
proof -
  have l: "linked (event_digest cr) ev_prev_hash ev_sequence 1 zero_hash (map row_to_event db)"
    using assms unfolding well_linked_def by blast
  have "\<forall>r \<in> set db. ev_sequence r = Some (ev_sequence (row_to_event r))"
    using assms by (auto simp: well_linked_def row_to_event_def)
  then have "present_sequences db = map (\<lambda>r. ev_sequence (row_to_event r)) db"
    unfolding present_sequences_def by (induction db) (simp_all add: map_filter_simps)
  with linked_ranks [OF l] show ?thesis by (simp add: comp_def)
qed

lemma well_linked_head_sequence:
  assumes "well_linked cr db"
  shows "chain_head_sequence db = int (length db)"
proof (cases db rule: rev_cases)
  case (snoc xs x)
  then have "set (present_sequences db) = (\<lambda>i. 1 + int i) ` {..<length db}" "present_sequences db \<noteq> []"
    unfolding well_linked_present [OF assms] by (auto simp: atLeast_upt)
  moreover have "Max ((\<lambda>i. 1 + int i) ` {..<length db}) = int (length db)"
    using snoc by (intro Max_eqI) (auto intro!: image_eqI [of _ _ "length xs"])
  ultimately show ?thesis by (simp add: chain_head_sequence_def coalesce_max_def)
qed (simp add: chain_head_sequence_def coalesce_max_def present_sequences_def)

lemma well_linked_take: "well_linked cr db \<Longrightarrow> well_linked cr (take k db)"
  using linked_take [of _ _ _ _ _ "map row_to_event db" k]
  by (auto simp: well_linked_def take_map dest: in_set_takeD)

lemma linked_head_sequence:
  assumes "linked digest link ev_sequence 1 p (rows_above 0 db)"
  shows "int (length (rows_above 0 db)) = max 0 (chain_head_sequence db)"
proof -
  let ?es = "rows_above 0 db" and ?h = "chain_head_sequence db"
  have seqs: "set (present_sequences db) = {n. \<exists>r \<in> set db. ev_sequence r = Some n}"
    by (force simp: present_sequences_def List.map_filter_def)
  have es: "set (map ev_sequence ?es) = {n \<in> set (present_sequences db). 0 < n}"
    unfolding seqs by (force simp: rows_above_def row_to_event_def split: option.splits)
  have r: "set (map ev_sequence ?es) = {1..int (length ?es)}"
    using linked_rank_set [OF assms] by simp
  show ?thesis
  proof (cases "0 < ?h")
    case True
    then have "present_sequences db \<noteq> []" "?h = Max (set (present_sequences db))"
      by (auto simp: chain_head_sequence_def coalesce_max_def split: if_splits)
    then have "?h \<in> set (present_sequences db)" "\<forall>n \<in> set (present_sequences db). n \<le> ?h" by simp_all
    then have "?h \<in> {1..int (length ?es)}" "\<forall>n \<in> {1..int (length ?es)}. n \<le> ?h"
      using True es r by auto
    moreover have "int (length ?es) \<le> ?h"
      using calculation by (intro bspec [OF calculation(2)]) simp
    ultimately show ?thesis by simp
  next
    case False
    have "n \<le> 0" if "n \<in> set (present_sequences db)" for n
    proof -
      have "n \<le> Max (set (present_sequences db))" using that by simp
      moreover have "?h = Max (set (present_sequences db))"
        using that by (auto simp: chain_head_sequence_def coalesce_max_def)
      ultimately show ?thesis using False by linarith
    qed
    then have "{1..int (length ?es)} = {}" using es r by force
    then have "length ?es = 0" by (simp del: length_0_conv)
    then show ?thesis using False by simp
  qed
qed

section \<open>Properties\<close>

text \<open>The table cut down to its first rows, everything off the table as it was.\<close>

definition truncated :: "nat \<Rightarrow> audit_state \<Rightarrow> audit_state" where
  "truncated k s = s\<lparr>au_events := take k (au_events s)\<rparr>"

lemma truncated_watermark: "last_audit_watermark (truncated k s) = last_audit_watermark s"
  by (simp add: last_audit_watermark_def truncated_def)

text \<open>A cut tail is invisible to the walk and the gap scan: the report over the first \<open>k\<close> rows of an
  appended table is intact and without gaps. Only the watermark shows it, and exactly down to the
  newest multiple of 64: the report says truncated when the surviving head is below that
  multiple, makes no claim before the first watermark, and misses a cut of the rows after it.\<close>

theorem tail_truncation_verdict:
  assumes "\<forall>b. length (sha256 cr b) = 32" and "s = audit_run cr key ms audit_boot"
    and "n = length (au_events s)" and "k \<le> n"
  shows "let r = verify_audit_trail cr c env (truncated k s) cps None in
    at_chain_intact r \<and> at_sequence_gaps r = [] \<and> at_head_sequence r = int k \<and>
    at_truncation r =
      (if n < 64 then TruncationUnknown
       else if k < 64 * (n div 64) then TruncationDetected (64 * int (n div 64)) (int k)
       else TruncationNotDetected)"
proof -
  let ?T = "mi_event_type ` set ms" and ?db = "take k (au_events s)"
  have ok: "audit_ok cr key ?T s" unfolding assms(2) by (intro audit_run_ok audit_boot_ok) simp
  then have wl: "well_linked cr ?db" by (intro well_linked_take) (simp add: audit_ok_def)
  have len: "length ?db = k" using assms(3,4) by simp
  have head: "chain_head_sequence ?db = int k" using well_linked_head_sequence [OF wl] len by simp
  have seqs: "present_sequences ?db = map (\<lambda>i. 1 + int i) [0..<k]"
    using well_linked_present [OF wl] len by simp
  then have "sort (filter (\<lambda>n. 0 < n) (present_sequences ?db)) = map (\<lambda>i. 1 + int i) [0..<k]"
    by (intro trans [OF sorted_sort_id]) (auto simp: sorted_iff_nth_mono filter_id_conv)
  then have gaps: "sequence_gaps 1 (sort (filter (\<lambda>n. 0 < n) (present_sequences ?db))) = []"
    using sequence_gaps_contiguous [of 1 k] by simp
  have "watermarked s" unfolding assms(2)
    by (rule audit_run_watermarked [OF audit_boot_ok [of cr key ?T] boot_watermarked]) simp
  then have mark: "map_option fst (last_audit_watermark (truncated k s)) =
      (if n < 64 then None else Some (64 * int (n div 64)))"
    using watermarked_last assms(3) by (simp add: truncated_watermark)
  then have "truncation_verdict (truncated k s) (int k) =
      (if n < 64 then TruncationUnknown
       else if k < 64 * (n div 64) then TruncationDetected (64 * int (n div 64)) (int k)
       else TruncationNotDetected)"
    by (auto simp: truncation_verdict_def split: if_splits option.splits)
  moreover have "chain_holds (verify_chain cr (ae_verifier env) (ae_recorder env) ?db None)"
    by (rule well_linked_chain_holds [OF wl assms(1)])
  ultimately show ?thesis
    using head gaps by (simp add: verify_audit_trail_def truncated_def since_floor_def Let_def)
qed

definition demo_env :: audit_env where
  "demo_env = \<lparr>ae_verifier = None, ae_witness_pubkey = None, ae_recorder = None, ae_judge = None,
     ae_stopper = None, ae_require_witness = False, ae_require_cause = False, ae_require_role = False,
     ae_require_lineage = False, ae_require_rollback = False, ae_wire = (\<lambda>s. None), ae_revisions_head = 0,
     ae_anchored_head = Some 1, ae_sanction_clears = (\<lambda>a b. False), ae_lineages = []\<rparr>"

theorem tail_truncation_verdict_witness:
  "at_chain_intact (verify_audit_trail chain_crypto text_codec demo_env
      (truncated 1 (audit_run chain_crypto None demo_mints audit_boot)) [] None) \<and>
   at_head_sequence (verify_audit_trail chain_crypto text_codec demo_env
      (truncated 1 (audit_run chain_crypto None demo_mints audit_boot)) [] None) = 1"
proof -
  have "length (au_events (audit_run chain_crypto None demo_mints audit_boot)) = 3"
    using audit_run_length [OF audit_boot_ok, of demo_mints "mi_event_type ` set demo_mints" chain_crypto None]
    by (simp add: audit_boot_def demo_mints_def demo_mint_def)
  then show ?thesis
    using tail_truncation_verdict [OF _ refl refl, of chain_crypto 1 None demo_mints text_codec demo_env "[]"]
      chain_crypto_ok(2)
    by (simp add: Let_def)
qed

text \<open>A clean report over the whole table is worth this much: the ranked rows are exactly 1 up to the
  head, each linked to the one before, the head is not below the newest watermark, nor below the
  off-table anchor unless the operator sanctioned the restore; when a witness is required, the newest
  witness checkpoint is signed by the enrolled key and neither chain is shorter than it
  says; and when causes are required, every ranked row has one.\<close>

theorem clean_report_sound:
  assumes "is_clean (verify_audit_trail cr c env s cps None)"
  shows "linked (event_digest cr) ev_prev_hash ev_sequence 1 zero_hash (rows_above 0 (au_events s)) \<and>
    int (length (rows_above 0 (au_events s))) = max 0 (chain_head_sequence (au_events s)) \<and>
    (\<forall>h x. last_audit_watermark s = Some (h, x) \<longrightarrow> h \<le> chain_head_sequence (au_events s)) \<and>
    (\<forall>a. ae_anchored_head env = Some a \<longrightarrow> a \<le> chain_head_sequence (au_events s) \<or>
       ae_sanction_clears env a (chain_head_sequence (au_events s))) \<and>
    (ae_require_witness env \<longrightarrow>
       (\<exists>cp dual. read_latest_witness_checkpoint c cps = Some cp \<and>
          ae_witness_pubkey env = Some (cp_resolver_pubkey cp) \<and> checkpoint_verify cr cp \<and>
          parse_witness_dual_head (ae_wire env) cp = Some dual \<and>
          wd_signed_head_sequence dual \<le> chain_head_sequence (au_events s) \<and>
          wd_revisions_head_sequence dual \<le> ae_revisions_head env)) \<and>
    (ae_require_cause env \<longrightarrow>
       (\<forall>r \<in> set (au_events s). ev_sequence r \<noteq> None \<longrightarrow> ev_cause_hash r \<noteq> None))"
proof (intro conjI)
  let ?db = "au_events s" and ?h = "chain_head_sequence (au_events s)"
  have clean: "chain_holds (verify_chain cr (ae_verifier env) (ae_recorder env) ?db None)"
    "case truncation_verdict s ?h of TruncationDetected _ _ \<Rightarrow> False | _ \<Rightarrow> True"
    "case compute_witness_verdict cr (ae_wire env) (read_latest_witness_checkpoint c cps)
        (ae_witness_pubkey env) ?h (ae_revisions_head env) (ae_require_witness env) of
       WitnessDetected _ _ _ \<Rightarrow> False | WitnessForged \<Rightarrow> False | WitnessMissing \<Rightarrow> False | _ \<Rightarrow> True"
    "case compute_cause_binding_verdict (count_where (\<lambda>r. ev_cause_hash r = None \<and> ev_sequence r \<noteq> None) ?db)
        (ae_require_cause env) of CauseDetected _ \<Rightarrow> False | _ \<Rightarrow> True"
    "case compute_rollback_verdict_for_report env ?h of
       RollbackEvidence _ _ \<Rightarrow> False | RollbackMissing \<Rightarrow> False | _ \<Rightarrow> True"
    using assms by (simp_all add: is_clean_def verify_audit_trail_def since_floor_def Let_def)
  show l: "linked (event_digest cr) ev_prev_hash ev_sequence 1 zero_hash (rows_above 0 ?db)"
    using clean(1) by (simp add: verify_chain_holds chain_anchor_def)
  show "int (length (rows_above 0 ?db)) = max 0 ?h" by (rule linked_head_sequence [OF l])
  show "\<forall>h x. last_audit_watermark s = Some (h, x) \<longrightarrow> h \<le> ?h"
    using clean(2) by (auto simp: truncation_verdict_def split: if_splits)
  show "\<forall>a. ae_anchored_head env = Some a \<longrightarrow> a \<le> ?h \<or> ae_sanction_clears env a ?h"
    using clean(5)
    by (auto simp: compute_rollback_verdict_for_report_def compute_rollback_verdict_def split: if_splits)
  show "ae_require_witness env \<longrightarrow>
       (\<exists>cp dual. read_latest_witness_checkpoint c cps = Some cp \<and>
          ae_witness_pubkey env = Some (cp_resolver_pubkey cp) \<and> checkpoint_verify cr cp \<and>
          parse_witness_dual_head (ae_wire env) cp = Some dual \<and>
          wd_signed_head_sequence dual \<le> ?h \<and> wd_revisions_head_sequence dual \<le> ae_revisions_head env)"
    using clean(3)
    by (auto simp: compute_witness_verdict_def Let_def not_less split: option.splits if_splits)
  show "ae_require_cause env \<longrightarrow> (\<forall>r \<in> set ?db. ev_sequence r \<noteq> None \<longrightarrow> ev_cause_hash r \<noteq> None)"
    using clean(4)
    by (auto simp: compute_cause_binding_verdict_def count_where_def filter_empty_conv split: if_splits)
qed

theorem clean_report_sound_witness:
  "let s = audit_boot\<lparr>au_events := [event_to_row (flat_event 1 ''alice'')], au_files := [[(1, ''head'')]]\<rparr> in
   int (length (rows_above 0 (au_events s))) = max 0 (chain_head_sequence (au_events s)) \<and>
   last_audit_watermark s = Some (1, ''head'') \<and> 1 \<le> chain_head_sequence (au_events s)"
proof -
  let ?db = "[event_to_row (flat_event 1 ''alice'')]"
  let ?s = "audit_boot\<lparr>au_events := ?db, au_files := [[(1, ''head'')]]\<rparr>"
  have wl: "well_linked flat_crypto ?db" by (simp add: well_linked_def) (simp add: flat_event_def event_to_row_def)
  have h: "chain_head_sequence ?db = 1" using well_linked_head_sequence [OF wl] by simp
  have seqs: "present_sequences ?db = [1]" using well_linked_present [OF wl] by simp
  have mark: "last_audit_watermark ?s = Some (1, ''head'')" by (simp add: last_audit_watermark_def audit_boot_def)
  have "chain_holds (verify_chain flat_crypto None None ?db None)"
    by (intro well_linked_chain_holds [OF wl]) (simp add: flat_crypto_def)
  then have "is_clean (verify_audit_trail flat_crypto text_codec demo_env ?s [] None)"
    using h seqs mark
    by (simp add: is_clean_def verify_audit_trail_def since_floor_def Let_def truncation_verdict_def demo_env_def
        compute_witness_verdict_def read_latest_witness_checkpoint_def read_latest_role_checkpoint_def
        newest_first_def compute_cause_binding_verdict_def compute_role_separation_verdict_def
        compute_lineage_check_def compute_rollback_verdict_for_report_def compute_rollback_verdict_def)
  from clean_report_sound [OF this] h mark show ?thesis by (simp add: Let_def)
qed

text \<open>A witness checkpoint that an enrolled witness signed over two heads decides the verdict whatever the
  require flag: it is a detection exactly when one of the surviving heads is below the witnessed
  one, the event chain reported first; under any other enrolled key it is a forgery.\<close>

theorem witness_pins_heads:
  assumes "honest_keypair cr kp" and "\<forall>x. wire (print x) = Some x"
    and "build_signed_witness_checkpoint cr c print uuid dual rollback now kp = Inr cp"
  shows "compute_witness_verdict cr wire (Some cp) (Some (kp_public kp)) signed_head revisions_head require =
      (if signed_head < wd_signed_head_sequence dual then
         WitnessDetected ''signed_events'' (wd_signed_head_sequence dual) signed_head
       else if revisions_head < wd_revisions_head_sequence dual then
         WitnessDetected ''memory_revisions'' (wd_revisions_head_sequence dual) revisions_head
       else WitnessNotDetected) \<and>
    (pk \<noteq> kp_public kp \<longrightarrow>
      compute_witness_verdict cr wire (Some cp) (Some pk) signed_head revisions_head require = WitnessForged)"
proof -
  note b = assms(3) [unfolded build_signed_witness_checkpoint_def]
  have "checkpoint_verify cr cp" by (rule sign_resolution_verifies [OF assms(1) b])
  moreover have "cp_resolver_pubkey cp = kp_public kp" by (rule sign_resolution_fields(1) [OF b])
  moreover have "parse_witness_dual_head wire cp = Some dual"
    using sign_resolution_fields(2,3) [OF b] assms(2) by (simp add: parse_witness_dual_head_def)
  ultimately show ?thesis by (auto simp: compute_witness_verdict_def Let_def)
qed

text \<open>A printer and parser pair for the witness payload: the number of characters encodes the value.\<close>

definition demo_print :: "int \<times> witness_dual_head \<Rightarrow> string" where
  "demo_print x = replicate (to_nat (fst x, wd_signed_head_sequence (snd x), wd_signed_head_hash (snd x),
     wd_revisions_head_sequence (snd x), wd_revisions_head_hash (snd x))) (CHR ''a'')"

definition demo_wire :: "string \<Rightarrow> (int \<times> witness_dual_head) option" where
  "demo_wire s = (case from_nat (length s) of (v, a, b, c, e) \<Rightarrow>
     Some (v, \<lparr>wd_signed_head_sequence = a, wd_signed_head_hash = b, wd_revisions_head_sequence = c,
               wd_revisions_head_hash = e\<rparr>))"

lemma demo_wire_print: "demo_wire (demo_print x) = Some x"
  by (simp add: demo_wire_def demo_print_def prod_eq_iff)

definition demo_dual :: witness_dual_head where
  "demo_dual = \<lparr>wd_signed_head_sequence = 64, wd_signed_head_hash = ''aa'', wd_revisions_head_sequence = 3,
     wd_revisions_head_hash = ''bb''\<rparr>"

theorem witness_pins_heads_witness:
  "\<exists>cp. build_signed_witness_checkpoint chain_crypto text_codec demo_print ''w1'' demo_dual True 5 demo_keypair = Inr cp \<and>
     compute_witness_verdict chain_crypto demo_wire (Some cp) (Some (kp_public demo_keypair)) 10 3 False =
       WitnessDetected ''signed_events'' 64 10"
proof -
  have "\<exists>cp. build_signed_witness_checkpoint chain_crypto text_codec demo_print ''w1'' demo_dual True 5 demo_keypair = Inr cp"
    by (simp add: build_signed_witness_checkpoint_def sign_resolution_into_def sign_checkpoint_resolution_def
        sign_bytes_def demo_keypair_def)
  then show ?thesis
    using witness_pins_heads [OF chain_crypto_ok(1), of demo_wire demo_print] demo_wire_print
    by (force simp: demo_dual_def)
qed

text \<open>The throttle of the watermark starts at zero in every process and the report trusts the newest
  watermark, not the highest. So after a restart the first append to a table of 63 or more
  surviving rows, whatever was cut from it and whatever watermarks the log holds, writes a lower
  watermark over the earlier ones, and the report finds no truncation any more.\<close>

theorem restart_masks_truncation:
  assumes "well_linked cr (au_events s)" and "au_sink s" and "63 \<le> length (au_events s)"
    and "append_signed_event cr key e (s\<lparr>au_last_watermarked := 0\<rparr>) = Inr s'"
  shows "truncation_verdict s' (chain_head_sequence (au_events s')) = TruncationNotDetected"
proof -
  let ?h = "int (length (au_events s)) + 1"
  have wl: "well_linked cr (au_events (s\<lparr>au_last_watermarked := 0\<rparr>))" using assms(1) by simp
  note kept = append_keeps_linked [OF wl assms(4)]
  obtain x db where s': "s' = maybe_record_audit_watermark ?h x (s\<lparr>au_last_watermarked := 0, au_events := db\<rparr>)"
    using assms(4) unfolding append_well_linked [OF wl]
    by (auto simp: insert_row_def split: if_splits sum.splits)
  then have "\<exists>earlier today. au_files s' = earlier @ [today @ [(?h, x)]]" "au_sink s'"
    using assms(2,3)
    by (auto simp: maybe_record_audit_watermark_def record_audit_watermark_def watermark_interval_def
        split: list.split)
  then have "last_audit_watermark s' = Some (?h, x)" by (auto simp: last_audit_watermark_def)
  moreover have "chain_head_sequence (au_events s') = ?h"
    using well_linked_head_sequence [OF kept(2)] by (simp add: kept(1))
  ultimately show ?thesis by (simp add: truncation_verdict_def)
qed

definition many_mints :: "mint list" where
  "many_mints = map (\<lambda>i. demo_mint (replicate i (CHR ''a'')) ''memory.stored'') [0..<63]"

theorem restart_masks_truncation_witness:
  "\<exists>s'. append_signed_event chain_crypto None (minted chain_crypto None (demo_mint ''b'' ''memory.stored''))
       (audit_run chain_crypto None many_mints audit_boot\<lparr>au_files := [[(1000, ''old'')]], au_last_watermarked := 0\<rparr>) = Inr s' \<and>
     truncation_verdict s' (chain_head_sequence (au_events s')) = TruncationNotDetected"
proof -
  let ?r = "audit_run chain_crypto None many_mints audit_boot" and ?m = "demo_mint ''b'' ''memory.stored''"
  let ?s = "?r\<lparr>au_files := [[(1000, ''old'')]]\<rparr>"
  have wl0: "well_linked chain_crypto (au_events audit_boot)" using audit_boot_ok by (auto simp: audit_ok_def)
  have ok: "audit_ok chain_crypto None {''memory.stored''} ?r"
    by (intro audit_run_ok audit_boot_ok) (auto simp: many_mints_def demo_mint_def)
  then have wl: "well_linked chain_crypto (au_events ?s)" by (simp add: audit_ok_def)
  have "distinct (map mi_uuid many_mints)"
    by (simp add: many_mints_def demo_mint_def comp_def distinct_map inj_on_def)
  then have len: "length (au_events ?s) = 63"
    using audit_run_length [OF audit_boot_ok, of many_mints "{''memory.stored''}" chain_crypto None]
    by (simp add: audit_boot_def) (simp add: many_mints_def demo_mint_def)
  have sink: "au_sink ?s"
    using audit_run_watermarked [OF audit_boot_ok boot_watermarked, of many_mints "{''memory.stored''}" chain_crypto None]
    by (simp add: watermarked_def Let_def many_mints_def demo_mint_def)
  have "mi_uuid ?m \<notin> ev_id ` set (au_events (?s\<lparr>au_last_watermarked := 0\<rparr>))"
  proof
    assume "mi_uuid ?m \<in> ev_id ` set (au_events (?s\<lparr>au_last_watermarked := 0\<rparr>))"
    then have "mi_uuid ?m \<in> ev_id ` set (au_events ?r)" by simp
    then have "mi_uuid ?m \<in> ev_id ` set (au_events audit_boot) \<union> mi_uuid ` set many_mints"
      using audit_run_ids [OF wl0] by blast
    then obtain i where "''b'' = replicate i (CHR ''a'')"
      by (auto simp: audit_boot_def many_mints_def demo_mint_def)
    then show False by (cases i) simp_all
  qed
  then obtain s' where "append_signed_event chain_crypto None (minted chain_crypto None ?m) (?s\<lparr>au_last_watermarked := 0\<rparr>) = Inr s'"
    using mint_appended [of chain_crypto "?s\<lparr>au_last_watermarked := 0\<rparr>" ?m None] wl by auto
  with restart_masks_truncation [OF wl sink _ this] len show ?thesis by auto
qed

end
