(* ===== verification/Revisions.thy ===== *)
theory Revisions
  imports SignedEvents Text
begin

text \<open>
  The revision ledger of \<^verbatim>\<open>src/revisions.rs\<close>: the second hash-linked table, one identity-only
  leaf per supersede, tombstone, forget, archive, expire, evict and consolidate. It instantiates the
  chain argument of \<open>Chain\<close> with its own encoding, which separates fields by a byte instead
  of prefixing lengths. The two configuration switches and the fresh identifier are arguments.
\<close>

section \<open>Kinds and leaves\<close>

datatype record_kind = Supersede | Tombstone | Forget | Archive | Expire | Evict | Consolidate

fun record_kind_as_str :: "record_kind \<Rightarrow> string" where
  "record_kind_as_str Supersede = ''SUPERSEDE''"
| "record_kind_as_str Tombstone = ''TOMBSTONE''"
| "record_kind_as_str Forget = ''FORGET''"
| "record_kind_as_str Archive = ''ARCHIVE''"
| "record_kind_as_str Expire = ''EXPIRE''"
| "record_kind_as_str Evict = ''EVICT''"
| "record_kind_as_str Consolidate = ''CONSOLIDATE''"

definition record_kind_all :: "record_kind list" where
  "record_kind_all = [Supersede, Tombstone, Forget, Archive, Expire, Evict, Consolidate]"

definition record_kind_from_str :: "string \<Rightarrow> record_kind option" where
  "record_kind_from_str s =
     (if s = ''SUPERSEDE'' then Some Supersede
      else if s = ''TOMBSTONE'' then Some Tombstone
      else if s = ''FORGET'' then Some Forget
      else if s = ''ARCHIVE'' then Some Archive
      else if s = ''EXPIRE'' then Some Expire
      else if s = ''EVICT'' then Some Evict
      else if s = ''CONSOLIDATE'' then Some Consolidate
      else None)"

record revision_leaf =
  rl_id :: string
  rl_memory_id :: string
  rl_kind :: record_kind
  rl_prior_version :: "int option"
  rl_namespace :: string
  rl_agent_id :: "string option"
  rl_created_at :: string
  rl_signature :: "bytes option"

definition revision_leaf_new ::
  "string \<Rightarrow> string \<Rightarrow> record_kind \<Rightarrow> int option \<Rightarrow> string \<Rightarrow> string option \<Rightarrow> string \<Rightarrow> revision_leaf" where
  "revision_leaf_new i memory_id kind prior_version namespace agent_id created_at =
     \<lparr>rl_id = i, rl_memory_id = memory_id, rl_kind = kind, rl_prior_version = prior_version,
      rl_namespace = namespace, rl_agent_id = agent_id, rl_created_at = created_at, rl_signature = None\<rparr>"

definition revision_leaf_signable_bytes ::
  "string \<Rightarrow> record_kind \<Rightarrow> int option \<Rightarrow> string \<Rightarrow> string option \<Rightarrow> string \<Rightarrow> bytes" where
  "revision_leaf_signable_bytes memory_id kind prior_version namespace agent_id created_at =
     ''memory-revision-v1'' @ [CHR 0x00] @ memory_id @ [CHR 0x00] @ record_kind_as_str kind @ [CHR 0x00] @
     (case prior_version of Some v \<Rightarrow> int_to_string v | None \<Rightarrow> []) @ [CHR 0x00] @ namespace @ [CHR 0x00] @
     (case agent_id of Some a \<Rightarrow> a | None \<Rightarrow> []) @ [CHR 0x00] @ created_at"

definition leaf_signed :: "crypto \<Rightarrow> bytes option \<Rightarrow> revision_leaf \<Rightarrow> revision_leaf" where
  "leaf_signed cr key l = l\<lparr>rl_signature := map_option fst (try_sign_audit_payload cr key
     (revision_leaf_signable_bytes (rl_memory_id l) (rl_kind l) (rl_prior_version l) (rl_namespace l)
       (rl_agent_id l) (rl_created_at l)))\<rparr>"

section \<open>The ledger\<close>

definition field_sep :: char where
  "field_sep = CHR 0x1F"

definition canonical_revision_chain_bytes :: "revision_leaf \<Rightarrow> int \<Rightarrow> bytes" where
  "canonical_revision_chain_bytes l sequence =
     rl_id l @ [field_sep] @ rl_memory_id l @ [field_sep] @ record_kind_as_str (rl_kind l) @ [field_sep] @
     (case rl_prior_version l of Some v \<Rightarrow> be64 v | None \<Rightarrow> []) @ [field_sep] @
     rl_namespace l @ [field_sep] @ (case rl_agent_id l of Some a \<Rightarrow> a | None \<Rightarrow> []) @ [field_sep] @
     rl_created_at l @ [field_sep] @ (case rl_signature l of Some s \<Rightarrow> s | None \<Rightarrow> []) @ [field_sep] @
     be64 sequence"

text \<open>A row: the leaf, with the link and the rank. The kind column has a check for the seven words.\<close>

record revision_row =
  rr_leaf :: revision_leaf
  rr_kind :: string
  rr_prev_hash :: bytes
  rr_sequence :: int

datatype revision_error = UnknownKind | RevisionSql sql_error

definition row_to_leaf :: "revision_row \<Rightarrow> revision_leaf option" where
  "row_to_leaf r = map_option (\<lambda>k. (rr_leaf r)\<lparr>rl_kind := k\<rparr>) (record_kind_from_str (rr_kind r))"

definition read_revision_chain_head :: "crypto \<Rightarrow> revision_row list \<Rightarrow> revision_error + (int \<times> bytes)" where
  "read_revision_chain_head cr db =
     (case rev (sort_key rr_sequence db) of
        [] \<Rightarrow> Inr (0, zero_hash)
      | head # _ \<Rightarrow>
          (case row_to_leaf head of
             None \<Rightarrow> Inl UnknownKind
           | Some leaf \<Rightarrow>
               Inr (rr_sequence head, sha256 cr (canonical_revision_chain_bytes leaf (rr_sequence head)))))"

definition append_revision_leaf ::
  "crypto \<Rightarrow> revision_leaf \<Rightarrow> revision_row list \<Rightarrow> revision_error + revision_row list" where
  "append_revision_leaf cr leaf db =
     (case read_revision_chain_head cr db of
        Inl e \<Rightarrow> Inl e
      | Inr (max_seq, prev_hash) \<Rightarrow>
          (if max_seq + 1 \<in> rr_sequence ` set db then Inl (RevisionSql PrimaryKeyViolation)
           else
             (case insert_row (\<lambda>r. rl_id (rr_leaf r))
                 \<lparr>rr_leaf = leaf, rr_kind = record_kind_as_str (rl_kind leaf), rr_prev_hash = prev_hash,
                  rr_sequence = max_seq + 1\<rparr> db of
                Inl e \<Rightarrow> Inl (RevisionSql e)
              | Inr db' \<Rightarrow> Inr db')))"

text \<open>What the emitters are called with.\<close>

record emission =
  em_uuid :: string
  em_memory_id :: string
  em_kind :: record_kind
  em_prior_version :: "int option"
  em_namespace :: string
  em_agent_id :: "string option"
  em_created_at :: string

definition emitted_leaf :: "crypto \<Rightarrow> bytes option \<Rightarrow> emission \<Rightarrow> revision_leaf" where
  "emitted_leaf cr key m = leaf_signed cr key (revision_leaf_new (em_uuid m) (em_memory_id m) (em_kind m)
     (em_prior_version m) (em_namespace m) (em_agent_id m) (em_created_at m))"

definition emit_revision_leaf_if_enabled ::
  "crypto \<Rightarrow> bytes option \<Rightarrow> bool \<Rightarrow> emission \<Rightarrow> revision_row list \<Rightarrow> revision_error + revision_row list" where
  "emit_revision_leaf_if_enabled cr key append_only m db =
     (if \<not> append_only then Inr db else append_revision_leaf cr (emitted_leaf cr key m) db)"

definition consolidate_leaf_enabled :: "bool \<Rightarrow> bool \<Rightarrow> bool" where
  "consolidate_leaf_enabled append_only tombstone_sources \<longleftrightarrow> append_only \<or> tombstone_sources"

definition emit_consolidate_leaf ::
  "crypto \<Rightarrow> bytes option \<Rightarrow> emission \<Rightarrow> revision_row list \<Rightarrow> revision_error + revision_row list" where
  "emit_consolidate_leaf cr key m db = append_revision_leaf cr (emitted_leaf cr key (m\<lparr>em_kind := Consolidate\<rparr>)) db"

section \<open>The encoding\<close>

definition row_canon :: "revision_row \<Rightarrow> bytes" where
  "row_canon r = canonical_revision_chain_bytes (rr_leaf r) (rr_sequence r)"

type_synonym revision_content =
  "string \<times> string \<times> record_kind \<times> int option \<times> string \<times> string \<times> string \<times> bytes \<times> int"

text \<open>Absent and empty agents count as one, and so do absent and empty signatures.\<close>

definition row_content :: "revision_row \<Rightarrow> revision_content" where
  "row_content r = (let l = rr_leaf r in
     (rl_id l, rl_memory_id l, rl_kind l, rl_prior_version l, rl_namespace l,
      (case rl_agent_id l of Some a \<Rightarrow> a | None \<Rightarrow> []), rl_created_at l,
      (case rl_signature l of Some s \<Rightarrow> s | None \<Rightarrow> []), rr_sequence r))"

text \<open>Rows for which the separator is unambiguous: it occurs in no text, and a version is not negative and
  below \<open>2 ^ 56\<close>, so that its first byte is zero.\<close>

definition separable :: "revision_row \<Rightarrow> bool" where
  "separable r \<longleftrightarrow> (let l = rr_leaf r in
     list_all (\<lambda>t. field_sep \<notin> set t)
       [rl_id l, rl_memory_id l, rl_namespace l, (case rl_agent_id l of Some a \<Rightarrow> a | None \<Rightarrow> []), rl_created_at l] \<and>
     (case rl_prior_version l of Some v \<Rightarrow> 0 \<le> v \<and> v < 2 ^ 56 | None \<Rightarrow> True) \<and> i64 (rr_sequence r))"

lemma sep_append_inject:
  "c \<notin> set a \<Longrightarrow> c \<notin> set b \<Longrightarrow> a @ c # x = b @ c # y \<longleftrightarrow> a = b \<and> x = y"
proof (induction a arbitrary: b)
  case Nil
  then show ?case by (cases b) auto
next
  case (Cons d a)
  then show ?case by (cases b) auto
qed

lemma record_kind_inject: "record_kind_as_str k = record_kind_as_str j \<longleftrightarrow> k = j"
  by (cases k; cases j) simp_all

lemma record_kind_no_sep: "field_sep \<notin> set (record_kind_as_str k)"
  by (cases k) (simp_all add: field_sep_def)

lemma version_starts_with_zero:
  assumes "0 \<le> v" and "v < 2 ^ 56"
  shows "\<exists>bs. be64 v = CHR 0x00 # bs"
proof -
  have "drop_bit 56 v = 0" using assms by (simp add: drop_bit_eq_div)
  then show ?thesis by (simp add: be64_def char_of_def)
qed

lemma prior_inject:
  assumes "case p of Some v \<Rightarrow> 0 \<le> v \<and> v < (2::int) ^ 56 | None \<Rightarrow> True"
    and "case q of Some v \<Rightarrow> 0 \<le> v \<and> v < (2::int) ^ 56 | None \<Rightarrow> True"
  shows "(case p of Some v \<Rightarrow> be64 v | None \<Rightarrow> []) @ field_sep # x =
     (case q of Some v \<Rightarrow> be64 v | None \<Rightarrow> []) @ field_sep # y \<longleftrightarrow> p = q \<and> x = y"
proof (cases p; cases q)
  fix v w assume "p = Some v" "q = Some w"
  then show ?thesis
    using assms by (auto simp: be64_append_inject i64_def simp del: append_eq_append_conv)
qed (use assms version_starts_with_zero in \<open>force simp: field_sep_def\<close>)+

lemma row_canon_inject:
  assumes "separable r" and "separable q" and "row_canon r = row_canon q"
  shows "row_content r = row_content q"
proof -
  have tail: "be64 (rr_sequence r) = be64 (rr_sequence q) \<longleftrightarrow> rr_sequence r = rr_sequence q"
    using assms(1,2) by (simp add: be64_inject separable_def Let_def)
  have last: "s @ field_sep # be64 (rr_sequence r) = t @ field_sep # be64 (rr_sequence q) \<longleftrightarrow>
      s = t \<and> rr_sequence r = rr_sequence q" for s t
    using append_eq_append_conv [of "field_sep # be64 (rr_sequence r)" "field_sep # be64 (rr_sequence q)" s t] tail
    by auto
  show ?thesis
    using assms last
    by (simp add: row_canon_def canonical_revision_chain_bytes_def separable_def Let_def sep_append_inject
        record_kind_no_sep record_kind_inject prior_inject row_content_def del: append_eq_append_conv)
qed

interpretation revisions: hash_chain "sha256 cr" row_canon rr_prev_hash "\<lambda>b r. r\<lparr>rr_prev_hash := b\<rparr>"
    rr_sequence row_content separable for cr
  by unfold_locales (auto dest: row_canon_inject simp: row_canon_def)

section \<open>Runs\<close>

datatype revision_call = EmitIfEnabled bool emission | EmitConsolidate bool bool emission

text \<open>A consolidation calls its emitter only when the shared predicate allows it; a failed append rolls
  back.\<close>

fun call_result :: "crypto \<Rightarrow> bytes option \<Rightarrow> revision_call \<Rightarrow> revision_row list \<Rightarrow> revision_error + revision_row list" where
  "call_result cr key (EmitIfEnabled append_only m) db = emit_revision_leaf_if_enabled cr key append_only m db"
| "call_result cr key (EmitConsolidate append_only tombstone_sources m) db =
     (if consolidate_leaf_enabled append_only tombstone_sources then emit_consolidate_leaf cr key m db else Inr db)"

definition revision_run :: "crypto \<Rightarrow> bytes option \<Rightarrow> revision_call list \<Rightarrow> revision_row list \<Rightarrow> revision_row list" where
  "revision_run cr key cs db =
     foldl (\<lambda>db c. case call_result cr key c db of Inl _ \<Rightarrow> db | Inr db' \<Rightarrow> db') db cs"

fun call_emits :: "revision_call \<Rightarrow> bool" where
  "call_emits (EmitIfEnabled append_only m) \<longleftrightarrow> append_only"
| "call_emits (EmitConsolidate append_only tombstone_sources m) \<longleftrightarrow> append_only \<or> tombstone_sources"

fun call_emission :: "revision_call \<Rightarrow> emission" where
  "call_emission (EmitIfEnabled append_only m) = m"
| "call_emission (EmitConsolidate append_only tombstone_sources m) = m\<lparr>em_kind := Consolidate\<rparr>"

lemma call_result_append:
  "call_result cr key c db =
     (if call_emits c then append_revision_leaf cr (emitted_leaf cr key (call_emission c)) db else Inr db)"
  by (cases c) (simp_all add: emit_revision_leaf_if_enabled_def consolidate_leaf_enabled_def emit_consolidate_leaf_def)

abbreviation row_digest :: "crypto \<Rightarrow> revision_row \<Rightarrow> bytes" where
  "row_digest cr r \<equiv> sha256 cr (row_canon r)"

definition ledger_ok :: "crypto \<Rightarrow> bytes option \<Rightarrow> revision_row list \<Rightarrow> bool" where
  "ledger_ok cr key db \<longleftrightarrow>
     linked (row_digest cr) rr_prev_hash rr_sequence 1 zero_hash db \<and>
     (\<forall>r \<in> set db. rr_kind r = record_kind_as_str (rl_kind (rr_leaf r)) \<and> leaf_signed cr key (rr_leaf r) = rr_leaf r)"

lemma record_kind_roundtrip: "record_kind_from_str (record_kind_as_str k) = Some k"
  by (cases k) (simp_all add: record_kind_from_str_def)

lemma ledger_head:
  assumes "ledger_ok cr key db"
  shows "read_revision_chain_head cr db = Inr (int (length db), head_digest (row_digest cr) zero_hash db)"
proof (cases db rule: rev_cases)
  case (snoc xs x)
  have l: "linked (row_digest cr) rr_prev_hash rr_sequence 1 zero_hash db"
    using assms by (simp add: ledger_ok_def)
  have "rr_sequence x = 1 + int (length xs)" using l snoc by (simp add: linked_append)
  moreover have "row_to_leaf x = Some (rr_leaf x)"
    using assms snoc by (simp add: ledger_ok_def row_to_leaf_def record_kind_roundtrip)
  ultimately show ?thesis
    using snoc linked_sorted(1) [OF l]
    by (simp add: read_revision_chain_head_def head_digest_def row_canon_def)
qed (simp add: read_revision_chain_head_def head_digest_def)

definition ledger_row :: "crypto \<Rightarrow> revision_leaf \<Rightarrow> revision_row list \<Rightarrow> revision_row" where
  "ledger_row cr leaf db = \<lparr>rr_leaf = leaf, rr_kind = record_kind_as_str (rl_kind leaf),
     rr_prev_hash = head_digest (row_digest cr) zero_hash db, rr_sequence = int (length db) + 1\<rparr>"

lemma ledger_append:
  assumes "ledger_ok cr key db"
  shows "append_revision_leaf cr leaf db =
    (if rl_id leaf \<in> (\<lambda>r. rl_id (rr_leaf r)) ` set db then Inl (RevisionSql PrimaryKeyViolation)
     else Inr (db @ [ledger_row cr leaf db]))"
proof -
  have l: "linked (row_digest cr) rr_prev_hash rr_sequence 1 zero_hash db"
    using assms by (simp add: ledger_ok_def)
  have "int (length db) + 1 \<notin> rr_sequence ` set db" unfolding linked_rank_set [OF l] by simp
  then show ?thesis
    by (auto simp: append_revision_leaf_def ledger_head [OF assms] insert_row_def select_by_None_iff ledger_row_def)
qed

lemma emitted_signed: "leaf_signed cr key (emitted_leaf cr key m) = emitted_leaf cr key m"
  and emitted_id: "rl_id (emitted_leaf cr key m) = em_uuid m"
  by (simp_all add: emitted_leaf_def leaf_signed_def revision_leaf_new_def)

lemma call_ledger_ok:
  assumes "ledger_ok cr key db" and "call_result cr key c db = Inr db'"
  shows "ledger_ok cr key db'"
proof -
  let ?leaf = "emitted_leaf cr key (call_emission c)"
  have "db' = db \<or> db' = db @ [ledger_row cr ?leaf db]"
    using assms(2) by (auto simp: call_result_append ledger_append [OF assms(1)] split: if_splits)
  moreover have "ledger_ok cr key (db @ [ledger_row cr ?leaf db])"
    using assms(1) unfolding ledger_ok_def
    by (simp add: linked_append) (simp add: ledger_row_def emitted_signed)
  ultimately show ?thesis using assms(1) by blast
qed

lemma revision_run_ok:
  "ledger_ok cr key db \<Longrightarrow> ledger_ok cr key (revision_run cr key cs db)"
  by (induction cs arbitrary: db) (auto simp: revision_run_def split: sum.split dest: call_ledger_ok)

lemma revision_run_length:
  assumes "ledger_ok cr key db" and "distinct (map (\<lambda>c. em_uuid (call_emission c)) cs)"
    and "(\<lambda>r. rl_id (rr_leaf r)) ` set db \<inter> (\<lambda>c. em_uuid (call_emission c)) ` set cs = {}"
  shows "map rr_leaf (revision_run cr key cs db) =
    map rr_leaf db @ map (\<lambda>c. emitted_leaf cr key (call_emission c)) (filter call_emits cs)"
  using assms
proof (induction cs arbitrary: db)
  case (Cons c cs)
  let ?leaf = "emitted_leaf cr key (call_emission c)"
  let ?db = "if call_emits c then db @ [ledger_row cr ?leaf db] else db"
  have "rl_id ?leaf \<notin> (\<lambda>r. rl_id (rr_leaf r)) ` set db" using Cons.prems(3) by (auto simp: emitted_id)
  then have r: "call_result cr key c db = Inr ?db"
    by (simp add: call_result_append ledger_append [OF Cons.prems(1)])
  have "map rr_leaf (revision_run cr key cs ?db) =
      map rr_leaf ?db @ map (\<lambda>c. emitted_leaf cr key (call_emission c)) (filter call_emits cs)"
    using Cons.prems call_ledger_ok [OF Cons.prems(1) r]
    by (intro Cons.IH) (auto simp: ledger_row_def emitted_id)
  then show ?case using r by (auto simp: revision_run_def ledger_row_def)
qed (simp add: revision_run_def)

section \<open>Properties\<close>

lemma revision_run_linked:
  "linked (row_digest cr) rr_prev_hash rr_sequence 1 zero_hash (revision_run cr key cs [])"
  using revision_run_ok [of cr key "[]" cs] by (simp add: ledger_ok_def)

text \<open>
  A later edit of a row that is not the newest one breaks the links, or the two leaf encodings
  differ and hash equal. The encoding separates its fields by a byte that raw fields may contain,
  hence the premise that both leaves are separable.
\<close>

lemma revision_edit_detected:
  assumes "db = revision_run cr key cs []"
    and "Suc i < length db" and "separable (db ! i)" and "separable e"
    and "row_content e \<noteq> row_content (db ! i)"
    and "linked (row_digest cr) rr_prev_hash rr_sequence 1 zero_hash (db[i := e])"
  shows "row_canon (db ! i) \<noteq> row_canon e \<and> row_digest cr (db ! i) = row_digest cr e"
  using revisions.edit_detected [of cr] revision_run_linked [of cr key cs] assms by metis

text \<open>C17: Whatever the mutations emit, the ledger stays linked from the zero hash with ranks 1, 2, 3 and so on,
  every leaf carries the daemon's signature over its identity, and its head can be read; with
  fresh identifiers it holds exactly one leaf per call whose switches are on, in call order.\<close>

theorem revision_ledger_exact:
  assumes "db = revision_run cr key cs []"
  shows "linked (row_digest cr) rr_prev_hash rr_sequence 1 zero_hash db \<and>
    (\<forall>r \<in> set db. leaf_signed cr key (rr_leaf r) = rr_leaf r) \<and>
    read_revision_chain_head cr db = Inr (int (length db), head_digest (row_digest cr) zero_hash db) \<and>
    (distinct (map (\<lambda>c. em_uuid (call_emission c)) cs) \<longrightarrow>
      map rr_leaf db = map (\<lambda>c. emitted_leaf cr key (call_emission c)) (filter call_emits cs))"
proof -
  have ok: "ledger_ok cr key db" unfolding assms by (rule revision_run_ok) (simp add: ledger_ok_def)
  have "map rr_leaf db = map (\<lambda>c. emitted_leaf cr key (call_emission c)) (filter call_emits cs)"
    if "distinct (map (\<lambda>c. em_uuid (call_emission c)) cs)"
    using revision_run_length [of cr key "[]" cs] that by (simp add: ledger_ok_def assms)
  then show ?thesis
    using ok ledger_head [OF ok] by (auto simp: ledger_ok_def)
qed

definition demo_emission :: "string \<Rightarrow> emission" where
  "demo_emission i = \<lparr>em_uuid = i, em_memory_id = ''m1'', em_kind = Forget, em_prior_version = Some 3,
     em_namespace = ''global'', em_agent_id = None, em_created_at = ''2026-01-01''\<rparr>"

theorem revision_ledger_exact_witness:
  "map (\<lambda>r. rl_kind (rr_leaf r)) (revision_run chain_crypto None
     [EmitIfEnabled True (demo_emission ''r1''), EmitIfEnabled False (demo_emission ''r2''),
      EmitConsolidate False True (demo_emission ''r3'')] []) = [Forget, Consolidate]"
proof -
  let ?cs = "[EmitIfEnabled True (demo_emission ''r1''), EmitIfEnabled False (demo_emission ''r2''),
      EmitConsolidate False True (demo_emission ''r3'')]"
  have "map rr_leaf (revision_run chain_crypto None ?cs []) =
      map (\<lambda>c. emitted_leaf chain_crypto None (call_emission c)) (filter call_emits ?cs)"
    using revision_ledger_exact [OF refl, of chain_crypto None ?cs] by (simp add: demo_emission_def)
  then have "map rl_kind (map rr_leaf (revision_run chain_crypto None ?cs [])) = [Forget, Consolidate]"
    by (simp add: demo_emission_def emitted_leaf_def leaf_signed_def revision_leaf_new_def)
  then show ?thesis by (simp add: comp_def)
qed

end
