(* ===== verification/Glob.thy ===== *)
theory Glob
  imports Prelude "HOL-Library.Multiset"
begin

text \<open>
  The glob matcher of \<^verbatim>\<open>src/governance/mod.rs\<close>, which decides whether a permission rule covers a
  namespace and an agent.

  \<open>glob_loop\<close> is the matcher's loop over its six variables, with \<open>None\<close> for a run that would not
  end; \<open>glob_spec\<close> is the language its comment describes. \<open>glob_loop_total\<close> shows that the loop always
  ends and that what it accepts is in the language; on patterns with no single star after a double
  star it decides the language exactly.
\<close>

section \<open>The glob matcher\<close>

definition star :: char where
  "star = CHR ''*''"

definition trailing_stars :: "bytes \<Rightarrow> nat \<Rightarrow> bool" where
  "trailing_stars pat p = (dropWhile (\<lambda>c. c = star) (drop p pat) = [])"

definition star_width :: "bool \<Rightarrow> nat" where
  "star_width double = (if double then 2 else 1)"

partial_function (option) glob_loop ::
  "bytes \<Rightarrow> bytes \<Rightarrow> nat \<Rightarrow> nat \<Rightarrow> nat option \<Rightarrow> nat \<Rightarrow> bool \<Rightarrow> bool option" where
  "glob_loop pat val p v star_p star_v star_double =
     (if v < length val then
        (if p < length pat \<and> pat ! p = star then
           (let double = (p + 1 < length pat \<and> pat ! (p + 1) = star)
            in glob_loop pat val (p + star_width double) v (Some p) v double)
         else if p < length pat \<and> pat ! p = val ! v then
           glob_loop pat val (p + 1) (v + 1) star_p star_v star_double
         else
           (case star_p of
              None \<Rightarrow> Some False
            | Some sp \<Rightarrow>
                if \<not> star_double \<and> val ! star_v = CHR ''/'' then Some False
                else glob_loop pat val (sp + star_width star_double) (star_v + 1) star_p (star_v + 1) star_double))
      else Some (trailing_stars pat p))"

definition glob_inner :: "bytes \<Rightarrow> bytes \<Rightarrow> bool option" where
  "glob_inner pat val = glob_loop pat val 0 0 None 0 False"

definition glob_matches :: "string \<Rightarrow> string \<Rightarrow> bool" where
  "glob_matches pattern value = (glob_inner pattern value = Some True)"

definition pattern_specificity :: "string \<Rightarrow> nat" where
  "pattern_specificity pattern = length (takeWhile (\<lambda>b. b \<noteq> star) pattern)"

text \<open>The described language: a double star stands for any bytes, a single star for any bytes but a
  slash, every other byte for itself.\<close>

fun glob_spec :: "bytes \<Rightarrow> bytes \<Rightarrow> bool" where
  "glob_spec [] v = (v = [])"
| "glob_spec (c # p) v =
     (if c = star then
        (if p \<noteq> [] \<and> hd p = star
         then glob_spec (tl p) v \<or> (case v of [] \<Rightarrow> False | d # v' \<Rightarrow> glob_spec (c # p) v')
         else glob_spec p v \<or> (case v of [] \<Rightarrow> False | d # v' \<Rightarrow> d \<noteq> CHR ''/'' \<and> glob_spec (c # p) v'))
      else (case v of [] \<Rightarrow> False | d # v' \<Rightarrow> d = c \<and> glob_spec p v'))"

text \<open>No single star follows a double star.\<close>

fun unmixed :: "bool \<Rightarrow> bytes \<Rightarrow> bool" where
  "unmixed seen [] = True"
| "unmixed seen (c # p) =
     (if c = star then
        (if p \<noteq> [] \<and> hd p = star then unmixed True (tl p) else \<not> seen \<and> unmixed seen p)
      else unmixed seen p)"

section \<open>The matcher is total and sound, and complete on unmixed patterns\<close>

lemma drop_cons: "i < length xs \<Longrightarrow> drop i xs = xs ! i # drop (Suc i) xs"
  by (simp add: Cons_nth_drop_Suc)

lemma trailing_spec: "glob_spec p [] \<longleftrightarrow> dropWhile (\<lambda>c. c = star) p = []"
proof (induction p rule: length_induct)
  case (1 p)
  show ?case
  proof (cases p)
    case (Cons c q)
    show ?thesis
    proof (cases "q \<noteq> [] \<and> hd q = star")
      case True
      then obtain q' where "q = star # q'" by (cases q) auto
      then show ?thesis using Cons 1 [rule_format, of q'] by simp
    next
      case False
      then show ?thesis using Cons 1 [rule_format, of q] by auto
    qed
  qed simp
qed

lemma spec_literal:
  "c \<noteq> star \<Longrightarrow> glob_spec (c # p) (d # v) \<longleftrightarrow> c = d \<and> glob_spec p v"
  by auto

text \<open>A star consumes an allowed prefix.\<close>

definition star_at :: "bytes \<Rightarrow> nat \<Rightarrow> bool \<Rightarrow> bool" where
  "star_at pat sp d \<longleftrightarrow> sp < length pat \<and> pat ! sp = star \<and>
     d = (sp + 1 < length pat \<and> pat ! (sp + 1) = star)"

lemma spec_star:
  assumes "star_at pat sp d"
  shows "glob_spec (drop sp pat) v \<longleftrightarrow>
    (glob_spec (drop (sp + star_width d) pat) v \<or>
     v \<noteq> [] \<and> (d \<or> hd v \<noteq> CHR ''/'') \<and> glob_spec (drop sp pat) (tl v))"
proof -
  have sp: "drop sp pat = star # drop (Suc sp) pat"
    using assms by (auto simp: star_at_def drop_cons)
  show ?thesis
  proof (cases d)
    case True
    then have "drop (Suc sp) pat = star # drop (sp + 2) pat"
      using assms by (auto simp: star_at_def drop_cons)
    then show ?thesis using True by (cases v) (simp_all add: sp star_width_def)
  next
    case False
    then have n: "\<not> (drop (Suc sp) pat \<noteq> [] \<and> hd (drop (Suc sp) pat) = star)"
      using assms by (auto simp: star_at_def hd_drop_conv_nth)
    have "glob_spec (drop sp pat) v \<longleftrightarrow> glob_spec (drop (Suc sp) pat) v \<or>
        (case v of [] \<Rightarrow> False | d # v' \<Rightarrow> d \<noteq> CHR ''/'' \<and> glob_spec (drop sp pat) v')"
      using glob_spec.simps(2) [of star "drop (Suc sp) pat" v]
      by (simp only: sp [symmetric] n if_False if_True refl simp_thms)
    then show ?thesis using False by (cases v) (auto simp: star_width_def)
  qed
qed

lemma spec_star_prefix:
  assumes "star_at pat sp d"
  shows "glob_spec (drop sp pat) v \<longleftrightarrow>
    (\<exists>x w. v = x @ w \<and> (d \<or> CHR ''/'' \<notin> set x) \<and> glob_spec (drop (sp + star_width d) pat) w)"
    (is "_ \<longleftrightarrow> (\<exists>x w. ?P v x w)")
proof (induction v)
  case Nil
  then show ?case using spec_star [OF assms, of "[]"] by auto
next
  case (Cons c v)
  have "glob_spec (drop sp pat) (c # v) \<longleftrightarrow>
     (glob_spec (drop (sp + star_width d) pat) (c # v) \<or>
      (d \<or> c \<noteq> CHR ''/'') \<and> (\<exists>x w. ?P v x w))"
    using spec_star [OF assms, of "c # v"] Cons by simp
  also have "\<dots> \<longleftrightarrow> (\<exists>x w. ?P (c # v) x w)"
  proof
    assume "glob_spec (drop (sp + star_width d) pat) (c # v) \<or> (d \<or> c \<noteq> CHR ''/'') \<and> (\<exists>x w. ?P v x w)"
    then show "\<exists>x w. ?P (c # v) x w"
    proof
      assume "glob_spec (drop (sp + star_width d) pat) (c # v)"
      then have "?P (c # v) [] (c # v)" by simp
      then show ?thesis by blast
    next
      assume a: "(d \<or> c \<noteq> CHR ''/'') \<and> (\<exists>x w. ?P v x w)"
      then obtain x w where "?P v x w" by blast
      then have "?P (c # v) (c # x) w" using a by auto
      then show ?thesis by blast
    qed
  next
    assume "\<exists>x w. ?P (c # v) x w"
    then obtain x w where xw: "?P (c # v) x w" by blast
    then show "glob_spec (drop (sp + star_width d) pat) (c # v) \<or> (d \<or> c \<noteq> CHR ''/'') \<and> (\<exists>x w. ?P v x w)"
      by (cases x) auto
  qed
  finally show ?case .
qed

text \<open>The loop invariant. \<open>U\<close> is whether the pattern is unmixed; the last conjunct says that the
  literal bytes since the last star match what follows the bytes it consumed.\<close>

definition star_inv :: "bytes \<Rightarrow> bytes \<Rightarrow> nat \<Rightarrow> nat \<Rightarrow> nat \<Rightarrow> nat \<Rightarrow> bool \<Rightarrow> bool" where
  "star_inv pat val p v sp sv d \<longleftrightarrow> star_at pat sp d \<and>
     (glob_spec (drop sp pat) (drop sv val) \<longrightarrow> glob_spec pat val) \<and>
     (unmixed False pat \<longrightarrow> glob_spec pat val \<longrightarrow> glob_spec (drop sp pat) (drop sv val)) \<and>
     (unmixed False pat \<longrightarrow> unmixed d (drop (sp + star_width d) pat)) \<and>
     (\<exists>lit. star \<notin> set lit \<and> drop (sp + star_width d) pat = lit @ drop p pat \<and> drop sv val = lit @ drop v val)"

definition glob_inv :: "bytes \<Rightarrow> bytes \<Rightarrow> nat \<Rightarrow> nat \<Rightarrow> nat option \<Rightarrow> nat \<Rightarrow> bool \<Rightarrow> bool" where
  "glob_inv pat val p v star_p sv d \<longleftrightarrow>
     v \<le> length val \<and> p \<le> length pat \<and> sv \<le> v \<and>
     (glob_spec (drop p pat) (drop v val) \<longrightarrow> glob_spec pat val) \<and>
     (unmixed False pat \<longrightarrow> unmixed (star_p \<noteq> None \<and> d) (drop p pat)) \<and>
     (case star_p of
        None \<Rightarrow> glob_spec pat val \<longrightarrow> glob_spec (drop p pat) (drop v val)
      | Some sp \<Rightarrow> star_inv pat val p v sp sv d)"

lemma spec_lit: "star \<notin> set lit \<Longrightarrow> glob_spec (lit @ q) w \<longleftrightarrow> (\<exists>u. w = lit @ u \<and> glob_spec q u)"
proof (induction lit arbitrary: w)
  case (Cons c lit)
  then show ?case by (cases w) auto
qed simp

lemma unmixed_lit: "star \<notin> set lit \<Longrightarrow> unmixed s (lit @ q) \<longleftrightarrow> unmixed s q"
  by (induction lit) auto

text \<open>The bytes an earlier star gives up are the bytes the next one takes, in another order.\<close>

lemma star_takeover:
  assumes s1: "star_at pat sp d" and s2: "star_at pat p d'" and le: "d \<longrightarrow> d'"
    and lit: "star \<notin> set lit" "drop (sp + star_width d) pat = lit @ drop p pat"
    and m: "glob_spec (drop sp pat) (lit @ tail)"
  shows "glob_spec (drop p pat) tail"
proof -
  obtain x w where xw: "lit @ tail = x @ w" "d \<or> CHR ''/'' \<notin> set x" "glob_spec (lit @ drop p pat) w"
    using m lit(2) unfolding spec_star_prefix [OF s1] by auto
  then obtain u where u: "lit @ tail = x @ lit @ u" "glob_spec (drop p pat) u"
    using spec_lit [OF lit(1)] by auto
  have "drop (length x + length lit) (lit @ tail) = drop (length x + length lit) (x @ lit @ u)"
    using u(1) by simp
  then have "drop (length x) tail = u" by simp
  then obtain y where y: "tail = y @ u" by (metis append_take_drop_id)
  have "mset y = mset x"
    using arg_cong [OF u(1), of mset] y by (simp add: ac_simps)
  then have "d' \<or> CHR ''/'' \<notin> set y"
    using xw(2) le by (metis mset_eq_setD)
  moreover obtain x' w' where "u = x' @ w'" "d' \<or> CHR ''/'' \<notin> set x'"
      "glob_spec (drop (p + star_width d') pat) w'"
    using u(2) spec_star_prefix [OF s2] by blast
  ultimately have "tail = (y @ x') @ w' \<and> (d' \<or> CHR ''/'' \<notin> set (y @ x')) \<and>
      glob_spec (drop (p + star_width d') pat) w'"
    using y by auto
  then show ?thesis using spec_star_prefix [OF s2] by blast
qed

lemma glob_inv_star:
  assumes inv: "glob_inv pat val p v star_p sv d" and s2: "star_at pat p d'"
  shows "glob_inv pat val (p + star_width d') v (Some p) v d'"
proof -
  have len: "p + star_width d' \<le> length pat"
    using s2 by (auto simp: star_at_def star_width_def)
  have sound: "glob_spec (drop p pat) (drop v val) \<longrightarrow> glob_spec pat val"
    using inv by (simp add: glob_inv_def)
  have tok: "unmixed s (drop p pat) \<longleftrightarrow> (if d' then unmixed True (drop (p + 2) pat) else \<not> s \<and> unmixed s (drop (p + 1) pat))" for s
  proof (cases d')
    case True
    then have "drop p pat = star # star # drop (p + 2) pat"
      using s2 by (auto simp: star_at_def drop_cons)
    then show ?thesis using True by simp
  next
    case False
    then have "drop p pat = star # drop (p + 1) pat"
        "\<not> (drop (p + 1) pat \<noteq> [] \<and> hd (drop (p + 1) pat) = star)"
      using s2 by (auto simp: star_at_def drop_cons hd_drop_conv_nth)
    then show ?thesis using False by (metis unmixed.simps(2))
  qed
  have um: "unmixed False pat \<longrightarrow> unmixed (star_p \<noteq> None \<and> d) (drop p pat)"
    using inv by (simp add: glob_inv_def)
  have um': "unmixed False pat \<longrightarrow> unmixed d' (drop (p + star_width d') pat)"
    using um tok [of "star_p \<noteq> None \<and> d"] by (metis (full_types) star_width_def)
  have complete: "unmixed False pat \<longrightarrow> glob_spec pat val \<longrightarrow> glob_spec (drop p pat) (drop v val)"
  proof (intro impI)
    assume u: "unmixed False pat" and g: "glob_spec pat val"
    show "glob_spec (drop p pat) (drop v val)"
    proof (cases star_p)
      case None
      then show ?thesis using inv g by (simp add: glob_inv_def)
    next
      case (Some sp)
      then have si: "star_inv pat val p v sp sv d" using inv by (simp add: glob_inv_def)
      then obtain lit where l: "star \<notin> set lit" "drop (sp + star_width d) pat = lit @ drop p pat"
          "drop sv val = lit @ drop v val" and s1: "star_at pat sp d"
        unfolding star_inv_def by blast
      have "glob_spec (drop sp pat) (lit @ drop v val)"
        using si u g l(3) unfolding star_inv_def by metis
      moreover have "d \<longrightarrow> d'"
        using um u tok [of "star_p \<noteq> None \<and> d"] Some by (cases d') auto
      ultimately show ?thesis using star_takeover [OF s1 s2 _ l(1,2)] by blast
    qed
  qed
  have "glob_spec (drop (p + star_width d') pat) (drop v val) \<longrightarrow> glob_spec pat val"
    using sound spec_star [OF s2] by blast
  moreover have "star_inv pat val (p + star_width d') v p v d'"
    unfolding star_inv_def using s2 sound complete um' by (auto intro: exI [of _ "[]"])
  ultimately show ?thesis
    using inv len um' unfolding glob_inv_def by simp
qed

lemma glob_inv_char:
  assumes inv: "glob_inv pat val p v star_p sv d" and "p < length pat" and "v < length val"
    and "pat ! p \<noteq> star" and "pat ! p = val ! v"
  shows "glob_inv pat val (p + 1) (v + 1) star_p sv d"
proof -
  have dp: "drop p pat = pat ! p # drop (p + 1) pat" and dv: "drop v val = pat ! p # drop (v + 1) val"
    using assms by (simp_all add: drop_cons)
  have si: "star_inv pat val (p + 1) (v + 1) sp sv d" if "star_inv pat val p v sp sv d" for sp
  proof -
    obtain lit where "star \<notin> set lit" "drop (sp + star_width d) pat = lit @ drop p pat"
        "drop sv val = lit @ drop v val"
      using \<open>star_inv pat val p v sp sv d\<close> unfolding star_inv_def by blast
    then have "star \<notin> set (lit @ [pat ! p])" "drop (sp + star_width d) pat = (lit @ [pat ! p]) @ drop (p + 1) pat"
        "drop sv val = (lit @ [pat ! p]) @ drop (v + 1) val"
      using dp dv assms(4) by auto
    then show ?thesis using that unfolding star_inv_def by blast
  qed
  show ?thesis
    using inv assms si unfolding glob_inv_def dp dv
    by (auto split: option.splits)
qed

lemma glob_stuck:
  assumes inv: "glob_inv pat val p v (Some sp) sv d" and v: "v < length val"
    and no: "\<not> (p < length pat \<and> pat ! p = star)" "\<not> (p < length pat \<and> pat ! p = val ! v)"
  shows "glob_spec (drop sp pat) (drop sv val) \<longleftrightarrow>
    (d \<or> val ! sv \<noteq> CHR ''/'') \<and> glob_spec (drop sp pat) (drop (sv + 1) val)"
proof -
  have si: "star_inv pat val p v sp sv d" using inv by (simp add: glob_inv_def)
  then obtain lit where l: "star \<notin> set lit" "drop (sp + star_width d) pat = lit @ drop p pat"
      "drop sv val = lit @ drop v val" and s1: "star_at pat sp d"
    unfolding star_inv_def by blast
  have "drop sv val = val ! sv # drop (sv + 1) val"
    using inv v by (simp add: glob_inv_def drop_cons)
  moreover have "\<not> glob_spec (drop p pat) (drop v val)"
    using no v by (cases "p < length pat") (auto simp: drop_cons)
  then have "\<not> glob_spec (drop (sp + star_width d) pat) (drop sv val)"
    by (simp add: l(2,3) spec_lit [OF l(1)])
  ultimately show ?thesis
    using spec_star [OF s1, of "drop sv val"] by auto
qed

lemma glob_slash_stuck:
  assumes "glob_inv pat val p v (Some sp) sv d" and "v < length val"
    and "\<not> (p < length pat \<and> pat ! p = star)" and "\<not> (p < length pat \<and> pat ! p = val ! v)"
    and "\<not> d" and "val ! sv = CHR ''/''" and "unmixed False pat"
  shows "\<not> glob_spec pat val"
  using glob_stuck [OF assms(1-4)] assms unfolding glob_inv_def star_inv_def by auto

lemma glob_inv_back:
  assumes inv: "glob_inv pat val p v (Some sp) sv d" and v: "v < length val"
    and no: "\<not> (p < length pat \<and> pat ! p = star)" "\<not> (p < length pat \<and> pat ! p = val ! v)"
    and ok: "d \<or> val ! sv \<noteq> CHR ''/''"
  shows "glob_inv pat val (sp + star_width d) (sv + 1) (Some sp) (sv + 1) d"
proof -
  have si: "star_inv pat val p v sp sv d" using inv by (simp add: glob_inv_def)
  then have s1: "star_at pat sp d" by (simp add: star_inv_def)
  have sv: "sv < length val" using inv v by (simp add: glob_inv_def)
  have step: "glob_spec (drop sp pat) (drop sv val) \<longleftrightarrow> glob_spec (drop sp pat) (drop (sv + 1) val)"
    using glob_stuck [OF inv v no] ok by blast
  have "star_inv pat val (sp + star_width d) (sv + 1) sp (sv + 1) d"
    using si step unfolding star_inv_def by (auto intro: exI [of _ "[]"])
  moreover have "glob_spec (drop (sp + star_width d) pat) (drop (sv + 1) val) \<longrightarrow> glob_spec pat val"
    using spec_star [OF s1, of "drop (sv + 1) val"] calculation unfolding star_inv_def by blast
  moreover have "sp + star_width d \<le> length pat"
    using s1 by (auto simp: star_at_def star_width_def)
  ultimately show ?thesis
    using sv unfolding glob_inv_def star_inv_def by simp
qed

text \<open>The three ways the loop goes on decrease this measure.\<close>

definition glob_measure :: "bytes \<Rightarrow> bytes \<Rightarrow> nat \<Rightarrow> nat \<Rightarrow> nat \<Rightarrow> nat \<times> nat \<times> nat" where
  "glob_measure pat val p v sv = (length val - sv, length val - v, length pat - p)"

definition glob_decreases :: "(nat \<times> nat \<times> nat) rel" where
  "glob_decreases = less_than <*lex*> less_than <*lex*> less_than"

lemma wf_glob_decreases: "wf glob_decreases"
  by (simp add: glob_decreases_def wf_lex_prod)

text \<open>One turn of the loop: it stops with a refusal, or goes on from a state that keeps the invariant.\<close>

definition goes_on :: "bytes \<Rightarrow> bytes \<Rightarrow> nat \<Rightarrow> nat \<Rightarrow> nat option \<Rightarrow> nat \<Rightarrow> bool \<Rightarrow> bool" where
  "goes_on pat val p v star_p sv d \<longleftrightarrow>
     (\<exists>p' v' star_p' sv' d'. glob_loop pat val p v star_p sv d = glob_loop pat val p' v' star_p' sv' d' \<and>
        glob_inv pat val p' v' star_p' sv' d' \<and>
        (glob_measure pat val p' v' sv', glob_measure pat val p v sv) \<in> glob_decreases)"

lemma goes_onI:
  assumes "glob_loop pat val p v star_p sv d = glob_loop pat val p' v' star_p' sv' d'"
    and "glob_inv pat val p' v' star_p' sv' d'"
    and "(glob_measure pat val p' v' sv', glob_measure pat val p v sv) \<in> glob_decreases"
  shows "goes_on pat val p v star_p sv d"
  using assms unfolding goes_on_def by blast

definition refused :: "bytes \<Rightarrow> bytes \<Rightarrow> nat \<Rightarrow> nat \<Rightarrow> nat option \<Rightarrow> nat \<Rightarrow> bool \<Rightarrow> bool" where
  "refused pat val p v star_p sv d \<longleftrightarrow>
     glob_loop pat val p v star_p sv d = Some False \<and> (unmixed False pat \<longrightarrow> \<not> glob_spec pat val)"

lemma glob_star_turn:
  assumes inv: "glob_inv pat val p v star_p sv d" and v: "v < length val"
    and s: "p < length pat \<and> pat ! p = star"
  shows "goes_on pat val p v star_p sv d"
proof -
  define d' where "d' = (p + 1 < length pat \<and> pat ! (p + 1) = star)"
  have s2: "star_at pat p d'" using s by (simp add: star_at_def d'_def)
  have "glob_loop pat val p v star_p sv d = glob_loop pat val (p + star_width d') v (Some p) v d'"
    using s v by (subst glob_loop.simps) (simp add: d'_def Let_def)
  moreover have "sv \<le> v" "0 < star_width d'" using inv by (simp_all add: glob_inv_def star_width_def)
  then have "(glob_measure pat val (p + star_width d') v v, glob_measure pat val p v sv) \<in> glob_decreases"
    using s v by (auto simp: glob_measure_def glob_decreases_def)
  ultimately show ?thesis by (rule goes_onI [OF _ glob_inv_star [OF inv s2]])
qed

lemma glob_char_turn:
  assumes inv: "glob_inv pat val p v star_p sv d" and v: "v < length val"
    and ns: "\<not> (p < length pat \<and> pat ! p = star)" and c: "p < length pat \<and> pat ! p = val ! v"
  shows "goes_on pat val p v star_p sv d"
proof (rule goes_onI)
  show "glob_loop pat val p v star_p sv d = glob_loop pat val (p + 1) (v + 1) star_p sv d"
    using v ns c by (subst glob_loop.simps) simp
  show "glob_inv pat val (p + 1) (v + 1) star_p sv d"
    using glob_inv_char [OF inv] v ns c by blast
  show "(glob_measure pat val (p + 1) (v + 1) sv, glob_measure pat val p v sv) \<in> glob_decreases"
    using v c by (auto simp: glob_measure_def glob_decreases_def)
qed

lemma glob_mismatch_turn:
  assumes inv: "glob_inv pat val p v star_p sv d" and v: "v < length val"
    and ns: "\<not> (p < length pat \<and> pat ! p = star)" and nc: "\<not> (p < length pat \<and> pat ! p = val ! v)"
  shows "refused pat val p v star_p sv d \<or> goes_on pat val p v star_p sv d"
proof (cases star_p)
  case None
  have "\<not> glob_spec (drop p pat) (drop v val)"
    using ns nc v by (cases "p < length pat") (auto simp: drop_cons)
  moreover have "glob_loop pat val p v star_p sv d = Some False"
    using ns nc v None by (subst glob_loop.simps) auto
  ultimately show ?thesis using inv None by (simp add: glob_inv_def refused_def)
next
  case (Some sp)
  note inv' = inv [unfolded Some]
  show ?thesis
  proof (cases "\<not> d \<and> val ! sv = CHR ''/''")
    case True
    then have "glob_loop pat val p v star_p sv d = Some False"
      using Some ns nc v by (subst glob_loop.simps) auto
    then show ?thesis using glob_slash_stuck [OF inv' v ns nc] True by (simp add: refused_def)
  next
    case False
    have "goes_on pat val p v star_p sv d"
    proof (rule goes_onI)
      show "glob_loop pat val p v star_p sv d = glob_loop pat val (sp + star_width d) (sv + 1) (Some sp) (sv + 1) d"
        using ns nc v Some False by (subst glob_loop.simps) auto
      show "glob_inv pat val (sp + star_width d) (sv + 1) (Some sp) (sv + 1) d"
        using glob_inv_back [OF inv' v ns nc] False by blast
      show "(glob_measure pat val (sp + star_width d) (sv + 1) (sv + 1), glob_measure pat val p v sv) \<in> glob_decreases"
        using v inv by (auto simp: glob_measure_def glob_decreases_def glob_inv_def)
    qed
    then show ?thesis by blast
  qed
qed

lemma append_around: "w = x @ w @ u \<Longrightarrow> u = []"
  by (drule arg_cong [of _ _ length]) simp

lemma glob_end:
  assumes inv: "glob_inv pat val p v star_p sv d" and "\<not> v < length val"
  shows "glob_loop pat val p v star_p sv d = Some (glob_spec (drop p pat) [])"
    and "glob_spec (drop p pat) [] \<Longrightarrow> glob_spec pat val"
    and "unmixed False pat \<Longrightarrow> glob_spec pat val \<Longrightarrow> glob_spec (drop p pat) []"
proof -
  have v: "v = length val" using assms by (simp add: glob_inv_def)
  show "glob_loop pat val p v star_p sv d = Some (glob_spec (drop p pat) [])"
    by (simp add: glob_loop.simps v trailing_stars_def trailing_spec)
  show "glob_spec (drop p pat) [] \<Longrightarrow> glob_spec pat val"
    using inv v by (simp add: glob_inv_def)
  assume u: "unmixed False pat" and g: "glob_spec pat val"
  show "glob_spec (drop p pat) []"
  proof (cases star_p)
    case None
    then show ?thesis using inv v g by (simp add: glob_inv_def)
  next
    case (Some sp)
    then have si: "star_inv pat val p v sp sv d" using inv by (simp add: glob_inv_def)
    then obtain lit where l: "star \<notin> set lit" "drop (sp + star_width d) pat = lit @ drop p pat"
        "drop sv val = lit" and s1: "star_at pat sp d"
      unfolding star_inv_def v by auto
    have "glob_spec (drop sp pat) lit" using si u g l(3) unfolding star_inv_def by metis
    then obtain x w where "lit = x @ lit @ w" "glob_spec (drop p pat) w"
      unfolding spec_star_prefix [OF s1] l(2) spec_lit [OF l(1)] by auto
    then show ?thesis using append_around by blast
  qed
qed

lemma glob_loop_total:
  assumes "glob_inv pat val p v star_p sv d"
  shows "\<exists>b. glob_loop pat val p v star_p sv d = Some b \<and> (b \<longrightarrow> glob_spec pat val) \<and>
    (unmixed False pat \<longrightarrow> glob_spec pat val \<longrightarrow> b)"
  using assms
proof (induction "glob_measure pat val p v sv" arbitrary: p v star_p sv d rule: wf_induct_rule [OF wf_glob_decreases])
  case 1
  show ?case
  proof (cases "v < length val")
    case True
    then have "refused pat val p v star_p sv d \<or> goes_on pat val p v star_p sv d"
      using glob_star_turn [OF 1(2)] glob_char_turn [OF 1(2)] glob_mismatch_turn [OF 1(2)] by metis
    then consider "refused pat val p v star_p sv d" | "goes_on pat val p v star_p sv d" by blast
    then show ?thesis
    proof cases
      case 1
      then show ?thesis unfolding refused_def by (intro exI [of _ False]) simp
    next
      case 2
      then obtain p' v' star_p' sv' d' where "glob_loop pat val p v star_p sv d = glob_loop pat val p' v' star_p' sv' d'"
          "glob_inv pat val p' v' star_p' sv' d'"
          "(glob_measure pat val p' v' sv', glob_measure pat val p v sv) \<in> glob_decreases"
        unfolding goes_on_def by blast
      then show ?thesis using 1(1) by simp
    qed
  next
    case False
    then show ?thesis using glob_end [OF 1(2) False] by blast
  qed
qed

lemma glob_start: "glob_inv pat val 0 0 None 0 False"
  by (simp add: glob_inv_def)

lemma glob_inner_cases:
  obtains "glob_inner pat val = Some True" and "glob_spec pat val"
  | "glob_inner pat val = Some False" and "unmixed False pat \<Longrightarrow> \<not> glob_spec pat val"
  using glob_loop_total [OF glob_start, of pat val] unfolding glob_inner_def by (metis (full_types))

lemma glob_matches_sound: "glob_matches pat val \<Longrightarrow> glob_spec pat val"
  by (rule glob_inner_cases [of pat val]) (auto simp: glob_matches_def)

lemma glob_matches_unmixed: "unmixed False pat \<Longrightarrow> glob_matches pat val \<longleftrightarrow> glob_spec pat val"
  by (rule glob_inner_cases [of pat val]) (auto simp: glob_matches_def)

lemma spec_no_star: "star \<notin> set pat \<Longrightarrow> glob_spec pat val \<longleftrightarrow> val = pat"
  using spec_lit [of pat "[]" val] by auto

lemma unmixed_no_star: "star \<notin> set pat \<Longrightarrow> unmixed False pat"
  using unmixed_lit [of pat False "[]"] by simp

lemma glob_literal: "star \<notin> set pat \<Longrightarrow> glob_matches pat val \<longleftrightarrow> val = pat"
  by (simp add: glob_matches_unmixed unmixed_no_star spec_no_star)

text \<open>C28: The glob matcher always returns. It never accepts a value outside the language its comment
  describes, and when the pattern has no single star after a double star it accepts exactly that
  language.\<close>
theorem glob_matcher_decides:
  "\<exists>b. glob_inner pattern val = Some b \<and> (b \<longrightarrow> glob_spec pattern val) \<and>
     (unmixed False pattern \<longrightarrow> glob_spec pattern val \<longrightarrow> b)"
  by (rule glob_inner_cases [of pattern val]) auto

theorem glob_matcher_decides_witness:
  "glob_inner ''team/*'' ''team/a'' = Some True \<and> glob_inner ''team/*'' ''team/a/b'' = Some False"
proof -
  have "unmixed False ''team/*''" "glob_spec ''team/*'' ''team/a''" "\<not> glob_spec ''team/*'' ''team/a/b''"
    by (simp_all add: star_def)
  then show ?thesis
    using glob_matcher_decides [of "''team/*''" "''team/a''"] glob_matcher_decides [of "''team/*''" "''team/a/b''"]
    by auto
qed

end
