(* ===== verification/Hooks.thy ===== *)
theory Hooks
  imports Memory Text
begin

text \<open>
  The hook pipeline of \<^verbatim>\<open>src/hooks/\<close>: the decisions a hook returns (\<^verbatim>\<open>decision.rs\<close>), the
  event vocabulary and its deadlines (\<^verbatim>\<open>events.rs\<close>, \<^verbatim>\<open>timeouts.rs\<close>), the chain that fires the
  hooks of an event in priority order (\<^verbatim>\<open>chain.rs\<close>) and the mandatory-presence gate around it
  (\<^verbatim>\<open>enforce.rs\<close>).

  The hook processes, the clock and the JSON library are the environment: \<open>hook_env\<close> gives, for the
  i-th hook of a chain, the clock reading before it fires and what the process answered, and
  \<open>serde\<close> the conversions of the JSON library. Nothing is assumed of any of them. Instants are
  nanoseconds; the counter of deadline violations is part of the result.
\<close>

section \<open>Events\<close>

datatype hook_event =
    PreStore | PostStore | PreRecall | PostRecall | PreSearch | PostSearch
  | PreDelete | PostDelete | PrePromote | PostPromote | PreLink | PostLink
  | PreConsolidate | PostConsolidate | PreGovernanceDecision | PostGovernanceDecision
  | OnIndexEviction | PreArchive | PreTranscriptStore | PostTranscriptStore
  | PreRecallExpand | PreReflect | PostReflect | PreCompaction | OnCompactionRollback
  | PreSignalSend | PostSignalAck

definition pre_events :: "hook_event list" where
  "pre_events = [PreStore, PreRecall, PreSearch, PreDelete, PrePromote, PreLink, PreConsolidate,
     PreGovernanceDecision, PreArchive, PreTranscriptStore, PreRecallExpand, PreReflect,
     PreCompaction, PreSignalSend]"

definition is_pre_event :: "hook_event \<Rightarrow> bool" where
  "is_pre_event e \<longleftrightarrow> e \<in> set pre_events"

datatype deadline_class = WriteClass | ReadClass | IndexClass | TranscriptClass | HotPathClass

fun event_class :: "hook_event \<Rightarrow> deadline_class" where
  "event_class PreRecall = ReadClass"
| "event_class PostRecall = ReadClass"
| "event_class PreSearch = ReadClass"
| "event_class PostSearch = ReadClass"
| "event_class OnIndexEviction = IndexClass"
| "event_class PreTranscriptStore = TranscriptClass"
| "event_class PostTranscriptStore = TranscriptClass"
| "event_class PreRecallExpand = HotPathClass"
| "event_class _ = WriteClass"

fun class_deadline :: "deadline_class \<Rightarrow> nat" where
  "class_deadline WriteClass = 5000"
| "class_deadline ReadClass = 2000"
| "class_deadline IndexClass = 1000"
| "class_deadline TranscriptClass = 5000"
| "class_deadline HotPathClass = 50"

definition class_deadline_for_event :: "hook_event \<Rightarrow> nat" where
  "class_deadline_for_event e = class_deadline (event_class e)"

definition nanos_per_ms :: nat where
  "nanos_per_ms = 1000000"

definition per_hook_budget_ms :: "nat \<Rightarrow> nat \<Rightarrow> nat \<Rightarrow> nat option" where
  "per_hook_budget_ms chain_deadline now hook_timeout_ms =
     (if now \<ge> chain_deadline then None
      else let remaining = (chain_deadline - now) div nanos_per_ms;
               remaining_ms = (if remaining < 2 ^ 32 then remaining else 2 ^ 32 - 1)
           in Some (min remaining_ms hook_timeout_ms))"

section \<open>Decisions\<close>

record memory_delta =
  md_tier :: "tier option"
  md_namespace :: "string option"
  md_title :: "string option"
  md_content :: "string option"
  md_tags :: "string list option"
  md_priority :: "int option"
  md_confidence :: "f64 option"
  md_source :: "string option"
  md_expires_at :: "string option"
  md_metadata :: "json option"

definition delta_default :: memory_delta where
  "delta_default = \<lparr>md_tier = None, md_namespace = None, md_title = None, md_content = None,
     md_tags = None, md_priority = None, md_confidence = None, md_source = None,
     md_expires_at = None, md_metadata = None\<rparr>"

fun or_else :: "'a option \<Rightarrow> 'a option \<Rightarrow> 'a option" where
  "or_else (Some v) prior = Some v"
| "or_else None prior = prior"

definition merge_delta_into :: "memory_delta \<Rightarrow> memory_delta \<Rightarrow> memory_delta" where
  "merge_delta_into acc incoming =
     \<lparr>md_tier = or_else (md_tier incoming) (md_tier acc),
      md_namespace = or_else (md_namespace incoming) (md_namespace acc),
      md_title = or_else (md_title incoming) (md_title acc),
      md_content = or_else (md_content incoming) (md_content acc),
      md_tags = or_else (md_tags incoming) (md_tags acc),
      md_priority = or_else (md_priority incoming) (md_priority acc),
      md_confidence = or_else (md_confidence incoming) (md_confidence acc),
      md_source = or_else (md_source incoming) (md_source acc),
      md_expires_at = or_else (md_expires_at incoming) (md_expires_at acc),
      md_metadata = or_else (md_metadata incoming) (md_metadata acc)\<rparr>"

datatype hook_decision =
    HAllow
  | HModify memory_delta
  | HDeny string int
  | HAskUser string "string list" "string option"

definition default_deny_code :: int where
  "default_deny_code = 403"

datatype decision_parse_error =
    NotAnObject
  | MissingAction
  | UnknownAction string
  | MissingField string string
  | Malformed string

record serde =
  from_json_str :: "string \<Rightarrow> string + json"
  delta_from_value :: "json \<Rightarrow> string + memory_delta"
  strings_from_value :: "json \<Rightarrow> string + string list"
  value_as_i64 :: "json \<Rightarrow> int option"

definition malformed_must_be_string :: "string \<Rightarrow> decision_parse_error" where
  "malformed_must_be_string field = Malformed ([CHR 0x22] @ field @ [CHR 0x22] @ '' must be a string'')"

definition require_field :: "string \<Rightarrow> string \<Rightarrow> json \<Rightarrow> decision_parse_error + json" where
  "require_field action field obj =
     (case json_get field obj of None \<Rightarrow> Inl (MissingField action field) | Some v \<Rightarrow> Inr v)"

definition require_str :: "string \<Rightarrow> json \<Rightarrow> decision_parse_error + string" where
  "require_str field v =
     (case json_as_str v of None \<Rightarrow> Inl (malformed_must_be_string field) | Some s \<Rightarrow> Inr s)"

definition require_text :: "string \<Rightarrow> string \<Rightarrow> json \<Rightarrow> decision_parse_error + string" where
  "require_text action field obj =
     (case require_field action field obj of Inl e \<Rightarrow> Inl e | Inr v \<Rightarrow> require_str field v)"

definition parse_modify :: "serde \<Rightarrow> json \<Rightarrow> decision_parse_error + hook_decision" where
  "parse_modify sj obj =
     (case require_field ''modify'' ''delta'' obj of
        Inl e \<Rightarrow> Inl e
      | Inr v \<Rightarrow> (case delta_from_value sj v of
                    Inl msg \<Rightarrow> Inl (Malformed msg)
                  | Inr delta \<Rightarrow> Inr (HModify delta)))"

definition parse_deny :: "serde \<Rightarrow> json \<Rightarrow> decision_parse_error + hook_decision" where
  "parse_deny sj obj =
     (case require_text ''deny'' ''reason'' obj of
        Inl e \<Rightarrow> Inl e
      | Inr reason \<Rightarrow>
          let code = (case json_get ''code'' obj of None \<Rightarrow> None | Some v \<Rightarrow> value_as_i64 sj v)
          in Inr (HDeny reason
               (case code of None \<Rightarrow> default_deny_code
                | Some c \<Rightarrow> if - (2 ^ 31) \<le> c \<and> c < 2 ^ 31 then c else default_deny_code)))"

definition parse_ask_user :: "serde \<Rightarrow> json \<Rightarrow> decision_parse_error + hook_decision" where
  "parse_ask_user sj obj =
     (case require_text ''ask_user'' ''prompt'' obj of
        Inl e \<Rightarrow> Inl e
      | Inr prompt \<Rightarrow>
          (case require_field ''ask_user'' ''options'' obj of
             Inl e \<Rightarrow> Inl e
           | Inr ov \<Rightarrow>
               (case strings_from_value sj ov of
                  Inl msg \<Rightarrow> Inl (Malformed msg)
                | Inr opts \<Rightarrow>
                    (case json_get ''default'' obj of
                       None \<Rightarrow> Inr (HAskUser prompt opts None)
                     | Some JNull \<Rightarrow> Inr (HAskUser prompt opts None)
                     | Some v \<Rightarrow>
                         (case require_str ''default'' v of
                            Inl e \<Rightarrow> Inl e
                          | Inr d \<Rightarrow> Inr (HAskUser prompt opts (Some d)))))))"

definition parse_decision :: "serde \<Rightarrow> string \<Rightarrow> decision_parse_error + hook_decision" where
  "parse_decision sj line =
     (let trimmed = trim line
      in if trimmed = [] \<or> trimmed = ''{}'' then Inr HAllow
         else (case from_json_str sj trimmed of
                 Inl msg \<Rightarrow> Inl (Malformed msg)
               | Inr (JObj m) \<Rightarrow>
                   if m = [] then Inr HAllow
                   else (case json_get ''action'' (JObj m) of
                           None \<Rightarrow> Inl MissingAction
                         | Some av \<Rightarrow>
                             (case require_str ''action'' av of
                                Inl e \<Rightarrow> Inl e
                              | Inr action \<Rightarrow>
                                  if action = ''allow'' then Inr HAllow
                                  else if action = ''modify'' then parse_modify sj (JObj m)
                                  else if action = ''deny'' then parse_deny sj (JObj m)
                                  else if action = ''ask_user'' then parse_ask_user sj (JObj m)
                                  else Inl (UnknownAction action)))
               | Inr _ \<Rightarrow> Inl NotAnObject))"

definition degrade_modify_for_post_event :: "hook_event \<Rightarrow> hook_decision \<Rightarrow> hook_decision" where
  "degrade_modify_for_post_event event d =
     (case d of HModify delta \<Rightarrow> if is_pre_event event then d else HAllow | _ \<Rightarrow> d)"

section \<open>The chain\<close>

datatype fail_mode = FailOpen | FailClosed

datatype hook_mode = ExecMode | DaemonMode

definition default_mode_for_event :: "hook_event \<Rightarrow> hook_mode" where
  "default_mode_for_event e =
     (if e \<in> {PostRecall, PostSearch, PreRecallExpand} then DaemonMode else ExecMode)"

record hook_config =
  hc_event :: hook_event
  hc_command :: string
  hc_priority :: int
  hc_timeout_ms :: nat
  hc_mode :: hook_mode
  hc_enabled :: bool
  hc_namespace :: string
  hc_fail_mode :: fail_mode

datatype validation_error = ValidationError string string

definition max_timeout_ms :: nat where
  "max_timeout_ms = 30000"

definition validate_hook :: "nat \<Rightarrow> hook_config \<Rightarrow> validation_error + unit" where
  "validate_hook idx h =
     (let field = (\<lambda>f. ''hook['' @ nat_to_string idx @ ''].'' @ f)
      in if hc_timeout_ms h > max_timeout_ms
         then Inl (ValidationError (field ''timeout_ms'')
                (nat_to_string (hc_timeout_ms h) @ '' exceeds maximum '' @ nat_to_string max_timeout_ms @ ''ms''))
         else if hc_command h = [] then Inl (ValidationError (field ''command'') ''must be a non-empty path'')
         else if trim (hc_namespace h) = []
         then Inl (ValidationError (field ''namespace'')
                (''must be a non-empty pattern (use '' @ [CHR 0x22] @ ''*'' @ [CHR 0x22] @ '' to match all)''))
         else Inr ())"

datatype executor_error =
    ExSpawn string string
  | ExIo string
  | ExChildExit "int option" string
  | ExDecode string
  | ExTimeout nat
  | ExDaemonUnavailable nat
  | ExGovernanceRefused string string

fun executor_error_display :: "executor_error \<Rightarrow> string" where
  "executor_error_display (ExSpawn command source) = ''hook spawn failed for '' @ command @ '': '' @ source"
| "executor_error_display (ExIo e) = ''hook io error: '' @ e"
| "executor_error_display (ExChildExit code stderr) =
     ''hook child exited (code '' @ (case code of None \<Rightarrow> ''<signaled>'' | Some c \<Rightarrow> int_to_string c) @
     ''); see operator log for redacted stderr''"
| "executor_error_display (ExDecode reason) = ''hook decision decode failed: '' @ reason"
| "executor_error_display (ExTimeout ms) = ''hook timed out after '' @ nat_to_string ms @ ''ms''"
| "executor_error_display (ExDaemonUnavailable attempts) =
     ''hook daemon unavailable after '' @ nat_to_string attempts @ '' reconnect attempts''"
| "executor_error_display (ExGovernanceRefused command reason) =
     ''hook spawn refused by governance for '' @ command @ '': '' @ reason"

record ask_user_prompt =
  aup_prompt :: string
  aup_options :: "string list"
  aup_default :: "string option"
  aup_origin_command :: string

datatype chain_result =
    CAllow
  | CModifiedAllow memory_delta
  | CDeny string int
  | CAskUser "ask_user_prompt list"

definition chain_new :: "hook_config list \<Rightarrow> hook_config list" where
  "chain_new hooks = sort_key (\<lambda>h. - hc_priority h) hooks"

definition for_event :: "hook_config list \<Rightarrow> hook_event \<Rightarrow> hook_config list" where
  "for_event all_hooks event =
     sort_key (\<lambda>h. - hc_priority h) (filter (\<lambda>h. hc_enabled h \<and> hc_event h = event) all_hooks)"

text \<open>\<^verbatim>\<open>serde_json::to_value\<close> of a delta is the environment's \<open>he_delta_value\<close>.\<close>

record hook_env =
  he_start :: nat
  he_now :: "nat \<Rightarrow> nat"
  he_fire :: "nat \<Rightarrow> hook_config \<Rightarrow> hook_event \<Rightarrow> json \<Rightarrow> nat \<Rightarrow> (executor_error + hook_decision) option"
  he_delta_value :: "memory_delta \<Rightarrow> json"

definition apply_delta_to_payload :: "hook_env \<Rightarrow> json \<Rightarrow> memory_delta \<Rightarrow> json" where
  "apply_delta_to_payload env payload delta =
     (case he_delta_value env delta of
        JObj delta_obj \<Rightarrow>
          (case payload of
             JObj m \<Rightarrow> JObj (fold (\<lambda>(k, v). bt_insert k v) delta_obj m)
           | _ \<Rightarrow> JObj delta_obj)
      | _ \<Rightarrow> payload)"

record chain_state =
  cs_payload :: json
  cs_delta :: memory_delta
  cs_modified :: bool
  cs_queue :: "ask_user_prompt list"
  cs_violations :: nat

definition skipped_deny :: "hook_config \<Rightarrow> chain_result" where
  "skipped_deny cfg = CDeny
     (''hook '' @ hc_command cfg @ '' skipped under fail_mode=closed: chain class deadline exhausted'') 504"

definition errored_deny :: "hook_config \<Rightarrow> executor_error \<Rightarrow> chain_result" where
  "errored_deny cfg e = CDeny
     (''hook '' @ hc_command cfg @ '' errored under fail_mode=closed: '' @ executor_error_display e) 503"

text \<open>The outcome of firing one hook: a decision, or the error that its fail mode then settles.
  A wrapper timeout (\<open>None\<close>) is the executor's own timeout with the shrunk budget.\<close>

definition raced_result ::
  "hook_env \<Rightarrow> nat \<Rightarrow> hook_config \<Rightarrow> hook_event \<Rightarrow> json \<Rightarrow> nat \<Rightarrow> executor_error + hook_decision" where
  "raced_result env i cfg event payload budget =
     (case he_fire env i cfg event payload budget of
        Some r \<Rightarrow> r
      | None \<Rightarrow> Inl (ExTimeout budget))"

definition decision_step ::
  "hook_env \<Rightarrow> hook_config \<Rightarrow> hook_decision \<Rightarrow> chain_state \<Rightarrow> chain_result + chain_state" where
  "decision_step env cfg d s =
     (case d of
        HAllow \<Rightarrow> Inr (s\<lparr>cs_queue := []\<rparr>)
      | HModify delta \<Rightarrow> Inr (s\<lparr>cs_payload := apply_delta_to_payload env (cs_payload s) delta,
            cs_delta := merge_delta_into (cs_delta s) delta, cs_modified := True, cs_queue := []\<rparr>)
      | HDeny reason code \<Rightarrow> Inl (CDeny reason code)
      | HAskUser prompt opts dflt \<Rightarrow> Inr (s\<lparr>cs_queue := cs_queue s @
            [\<lparr>aup_prompt = prompt, aup_options = opts, aup_default = dflt, aup_origin_command = hc_command cfg\<rparr>]\<rparr>))"

definition count_timeout :: "executor_error \<Rightarrow> chain_state \<Rightarrow> chain_state" where
  "count_timeout e s = (case e of ExTimeout ms \<Rightarrow> s\<lparr>cs_violations := cs_violations s + 1\<rparr> | _ \<Rightarrow> s)"

definition hook_step ::
  "hook_env \<Rightarrow> hook_event \<Rightarrow> nat \<Rightarrow> nat \<Rightarrow> hook_config \<Rightarrow> chain_state \<Rightarrow> (chain_result \<times> nat) + chain_state" where
  "hook_step env event deadline i cfg s =
     (case per_hook_budget_ms deadline (he_now env i) (hc_timeout_ms cfg) of
        None \<Rightarrow>
          (let s = s\<lparr>cs_violations := cs_violations s + 1\<rparr>
           in case hc_fail_mode cfg of
                FailOpen \<Rightarrow> Inr s
              | FailClosed \<Rightarrow> Inl (skipped_deny cfg, cs_violations s))
      | Some budget \<Rightarrow>
          (case raced_result env i cfg event (cs_payload s) budget of
             Inr d \<Rightarrow> map_sum (\<lambda>r. (r, cs_violations s)) id
                        (decision_step env cfg (degrade_modify_for_post_event event d) s)
           | Inl e \<Rightarrow>
               (let s = count_timeout e s
                in case hc_fail_mode cfg of
                     FailOpen \<Rightarrow> map_sum (\<lambda>r. (r, cs_violations s)) id (decision_step env cfg HAllow s)
                   | FailClosed \<Rightarrow> Inl (errored_deny cfg e, cs_violations s))))"

fun fire_loop ::
  "hook_env \<Rightarrow> hook_event \<Rightarrow> nat \<Rightarrow> nat \<Rightarrow> hook_config list \<Rightarrow> chain_state \<Rightarrow> (chain_result \<times> nat) + chain_state" where
  "fire_loop env event deadline i [] s = Inr s"
| "fire_loop env event deadline i (cfg # rest) s =
     (case hook_step env event deadline i cfg s of
        Inl r \<Rightarrow> Inl r
      | Inr s' \<Rightarrow> fire_loop env event deadline (i + 1) rest s')"

definition chain_outcome :: "chain_state \<Rightarrow> chain_result" where
  "chain_outcome s =
     (if cs_queue s \<noteq> [] then CAskUser (cs_queue s)
      else if cs_modified s then CModifiedAllow (cs_delta s)
      else CAllow)"

definition chain_start :: "json \<Rightarrow> chain_state" where
  "chain_start payload = \<lparr>cs_payload = payload, cs_delta = delta_default, cs_modified = False,
     cs_queue = [], cs_violations = 0\<rparr>"

definition fire :: "hook_env \<Rightarrow> hook_config list \<Rightarrow> hook_event \<Rightarrow> json \<Rightarrow> chain_result \<times> nat" where
  "fire env hooks event payload =
     (let deadline = he_start env + class_deadline_for_event event * nanos_per_ms
      in case fire_loop env event deadline 0 hooks (chain_start payload) of
           Inl r \<Rightarrow> r
         | Inr s \<Rightarrow> (chain_outcome s, cs_violations s))"

text \<open>Whether the subscriptions were dispatched, and the result of the chain.\<close>

definition dispatch_event_with_hooks ::
  "hook_env \<Rightarrow> hook_event \<Rightarrow> json \<Rightarrow> hook_config list \<Rightarrow> bool \<times> chain_result" where
  "dispatch_event_with_hooks env event payload hooks =
     (let result = fst (fire env hooks event payload)
      in if is_pre_event event
         then (case result of CDeny reason code \<Rightarrow> (False, result) | _ \<Rightarrow> (True, result))
         else (True, result))"

section \<open>The mandatory-presence gate\<close>

datatype enforce_mode = EOff | EAdvisory | EEnforce

fun enforce_mode_as_str :: "enforce_mode \<Rightarrow> string" where
  "enforce_mode_as_str EOff = ''off''"
| "enforce_mode_as_str EAdvisory = ''advisory''"
| "enforce_mode_as_str EEnforce = ''enforce''"

definition enforce_mode_from_str_opt :: "string \<Rightarrow> enforce_mode option" where
  "enforce_mode_from_str_opt s =
     (let t = to_ascii_lowercase (trim s)
      in if t = ''off'' then Some EOff
         else if t = ''advisory'' then Some EAdvisory
         else if t = ''enforce'' then Some EEnforce
         else None)"

definition eligible_required_events :: "hook_event list" where
  "eligible_required_events = [PreStore, PreDelete, PrePromote, PreLink, PreConsolidate,
     PreGovernanceDecision, PreReflect, PreSignalSend]"

definition is_eligible_required_event :: "hook_event \<Rightarrow> bool" where
  "is_eligible_required_event e \<longleftrightarrow> e \<in> set eligible_required_events"

fun event_wire :: "hook_event \<Rightarrow> string" where
  "event_wire PreStore = ''pre_store''"
| "event_wire PostStore = ''post_store''"
| "event_wire PreRecall = ''pre_recall''"
| "event_wire PostRecall = ''post_recall''"
| "event_wire PreSearch = ''pre_search''"
| "event_wire PostSearch = ''post_search''"
| "event_wire PreDelete = ''pre_delete''"
| "event_wire PostDelete = ''post_delete''"
| "event_wire PrePromote = ''pre_promote''"
| "event_wire PostPromote = ''post_promote''"
| "event_wire PreLink = ''pre_link''"
| "event_wire PostLink = ''post_link''"
| "event_wire PreConsolidate = ''pre_consolidate''"
| "event_wire PostConsolidate = ''post_consolidate''"
| "event_wire PreGovernanceDecision = ''pre_governance_decision''"
| "event_wire PostGovernanceDecision = ''post_governance_decision''"
| "event_wire OnIndexEviction = ''on_index_eviction''"
| "event_wire PreArchive = ''pre_archive''"
| "event_wire PreTranscriptStore = ''pre_transcript_store''"
| "event_wire PostTranscriptStore = ''post_transcript_store''"
| "event_wire PreRecallExpand = ''pre_recall_expand''"
| "event_wire PreReflect = ''pre_reflect''"
| "event_wire PostReflect = ''post_reflect''"
| "event_wire PreCompaction = ''pre_compaction''"
| "event_wire OnCompactionRollback = ''on_compaction_rollback''"
| "event_wire PreSignalSend = ''pre_signal_send''"
| "event_wire PostSignalAck = ''post_signal_ack''"

definition enforce_required_event_presence ::
  "hook_config list \<Rightarrow> hook_event \<Rightarrow> enforce_mode \<Rightarrow> hook_event list \<Rightarrow> chain_result option" where
  "enforce_required_event_presence hooks event mode required =
     (if mode = EOff \<or> event \<notin> set required then None
      else if (\<exists>h \<in> set hooks. hc_event h = event \<and> hc_enabled h) then None
      else (case mode of
              EEnforce \<Rightarrow> Some (CDeny (''hooks.enforce: required event '' @ event_wire event @
                '' has no enabled hook (enforce mode '' @ [CHR 0xE2, CHR 0x86, CHR 0x92] @ '' fail-closed)'') 503)
            | EAdvisory \<Rightarrow> None
            | EOff \<Rightarrow> None))"

definition effective_fail_mode :: "hook_config \<Rightarrow> enforce_mode \<Rightarrow> hook_event list \<Rightarrow> fail_mode" where
  "effective_fail_mode cfg mode required =
     (if mode = EEnforce \<and> hc_event cfg \<in> set required then FailClosed else hc_fail_mode cfg)"

definition effective_hooks_for_event ::
  "hook_config list \<Rightarrow> hook_event \<Rightarrow> enforce_mode \<Rightarrow> hook_event list \<Rightarrow> hook_config list" where
  "effective_hooks_for_event all_hooks event mode required =
     map (\<lambda>h. h\<lparr>hc_fail_mode := effective_fail_mode h mode required\<rparr>)
       (filter (\<lambda>h. hc_enabled h \<and> hc_event h = event) all_hooks)"

definition dispatch_pre_event_enforced ::
  "hook_env \<Rightarrow> hook_event \<Rightarrow> json \<Rightarrow> hook_config list \<Rightarrow> enforce_mode \<Rightarrow> hook_event list \<Rightarrow> chain_result" where
  "dispatch_pre_event_enforced env event payload all_hooks mode required =
     (case enforce_required_event_presence all_hooks event mode required of
        Some deny \<Rightarrow> deny
      | None \<Rightarrow> fst (fire env (chain_new (effective_hooks_for_event all_hooks event mode required)) event payload))"

definition preflight_report :: "hook_config list \<Rightarrow> enforce_mode \<Rightarrow> hook_event list \<Rightarrow> string list" where
  "preflight_report hooks mode required =
     (if mode = EOff \<or> required = [] then []
      else map (\<lambda>e.
        let present = (\<exists>h \<in> set hooks. hc_event h = e \<and> hc_enabled h); arrow = [CHR 0xE2, CHR 0x86, CHR 0x92]
        in if present then event_wire e @ '': required, enabled hook present (OK)''
           else if mode = EEnforce
           then event_wire e @ '': REQUIRED but NO enabled hook '' @ arrow @ '' WILL DENY (enforce)''
           else event_wire e @ '': required but no enabled hook '' @ arrow @ '' WARN+allow (advisory)'')
        required)"

section \<open>Deltas compose\<close>

lemma or_else_assoc [simp]: "or_else a (or_else b c) = or_else (or_else a b) c"
  by (cases a) simp_all

lemma or_else_None [simp]: "or_else a None = a"
  by (cases a) simp_all

lemma merge_delta_assoc:
  "merge_delta_into a (merge_delta_into b c) = merge_delta_into (merge_delta_into a b) c"
  by (simp add: merge_delta_into_def)

lemma merge_delta_default [simp]: "merge_delta_into delta_default d = d" "merge_delta_into d delta_default = d"
  by (simp_all add: merge_delta_into_def delta_default_def)

section \<open>What a chain that was not denied has seen\<close>

text \<open>\<open>answered\<close>: the i-th hook was fired within the deadline and its process returned a decision
  that is not a denial.\<close>

definition answered :: "hook_env \<Rightarrow> hook_event \<Rightarrow> nat \<Rightarrow> nat \<Rightarrow> hook_config \<Rightarrow> bool" where
  "answered env event deadline i cfg \<longleftrightarrow> he_now env i < deadline \<and>
     (\<exists>payload budget d. he_fire env i cfg event payload budget = Some (Inr d) \<and>
        budget \<le> hc_timeout_ms cfg \<and> (\<forall>reason code. d \<noteq> HDeny reason code))"

lemma degrade_deny_iff [simp]:
  "degrade_modify_for_post_event event d = HDeny reason code \<longleftrightarrow> d = HDeny reason code"
  by (cases d) (auto simp: degrade_modify_for_post_event_def)

lemma decision_step_Inr: "decision_step env cfg d s = Inr s' \<Longrightarrow> d \<noteq> HDeny reason code"
  by (auto simp: decision_step_def)

lemma budget_Some:
  "per_hook_budget_ms deadline now t = Some b \<Longrightarrow> now < deadline \<and> b \<le> t"
  by (auto simp: per_hook_budget_ms_def Let_def split: if_splits)

lemma closed_hook_answered:
  assumes "hook_step env event deadline i cfg s = Inr s'" and "hc_fail_mode cfg = FailClosed"
  shows "answered env event deadline i cfg"
proof -
  obtain b where b: "per_hook_budget_ms deadline (he_now env i) (hc_timeout_ms cfg) = Some b"
    using assms by (cases "per_hook_budget_ms deadline (he_now env i) (hc_timeout_ms cfg)")
      (auto simp: hook_step_def Let_def)
  obtain d where d: "raced_result env i cfg event (cs_payload s) b = Inr d"
    using assms b by (cases "raced_result env i cfg event (cs_payload s) b")
      (auto simp: hook_step_def Let_def)
  have "\<exists>s''. decision_step env cfg (degrade_modify_for_post_event event d) s = Inr s''"
    using assms b d
    by (cases "decision_step env cfg (degrade_modify_for_post_event event d) s") (auto simp: hook_step_def)
  then have "\<forall>reason code. d \<noteq> HDeny reason code"
    by (metis decision_step_Inr degrade_deny_iff)
  moreover have "he_fire env i cfg event (cs_payload s) b = Some (Inr d)"
    using d by (auto simp: raced_result_def split: option.splits)
  ultimately show ?thesis
    using budget_Some [OF b] unfolding answered_def by blast
qed

lemma fire_loop_answered:
  "fire_loop env event deadline i hooks s = Inr s' \<Longrightarrow> j < length hooks \<Longrightarrow>
     hc_fail_mode (hooks ! j) = FailClosed \<Longrightarrow> answered env event deadline (i + j) (hooks ! j)"
proof (induction hooks arbitrary: i s j)
  case (Cons cfg rest)
  obtain s1 where s1: "hook_step env event deadline i cfg s = Inr s1"
    and rest: "fire_loop env event deadline (i + 1) rest s1 = Inr s'"
    using Cons.prems(1) by (auto split: sum.splits)
  show ?case
  proof (cases j)
    case 0
    then show ?thesis using closed_hook_answered [OF s1] Cons.prems(3) by simp
  next
    case (Suc k)
    then show ?thesis using Cons.IH [OF rest, of k] Cons.prems(2,3) by simp
  qed
qed simp

lemma hook_step_Inl_deny: "hook_step env event deadline i cfg s = Inl r \<Longrightarrow> \<exists>reason code. fst r = CDeny reason code"
  by (auto simp: hook_step_def decision_step_def skipped_deny_def errored_deny_def count_timeout_def Let_def
      split: option.splits sum.splits fail_mode.splits hook_decision.splits)

lemma fire_loop_Inl_deny: "fire_loop env event deadline i hooks s = Inl r \<Longrightarrow> \<exists>reason code. fst r = CDeny reason code"
  by (induction hooks arbitrary: i s) (auto split: sum.splits dest: hook_step_Inl_deny)

definition is_deny :: "chain_result \<Rightarrow> bool" where
  "is_deny r \<longleftrightarrow> (case r of CDeny reason code \<Rightarrow> True | _ \<Rightarrow> False)"

lemma fire_not_denied:
  assumes "\<not> is_deny (fst (fire env hooks event payload))"
  obtains s where "fire_loop env event (he_start env + class_deadline_for_event event * nanos_per_ms) 0 hooks
      (chain_start payload) = Inr s" and "fire env hooks event payload = (chain_outcome s, cs_violations s)"
proof (cases "fire_loop env event (he_start env + class_deadline_for_event event * nanos_per_ms) 0 hooks (chain_start payload)")
  case (Inl r)
  then show ?thesis using assms fire_loop_Inl_deny [OF Inl] by (auto simp: fire_def is_deny_def)
next
  case (Inr s)
  then show ?thesis using that by (auto simp: fire_def)
qed

lemma hook_step_mono:
  "hook_step env event deadline i cfg s = Inr s' \<Longrightarrow> cs_violations s \<le> cs_violations s'"
  by (auto simp: hook_step_def decision_step_def count_timeout_def Let_def
      split: option.splits sum.splits fail_mode.splits hook_decision.splits executor_error.splits)

text \<open>The gate of a required event under enforcement.\<close>

text \<open>C29: When an event is required and enforcement is on, an operation that the gate does not deny has
  an enabled hook registered for that event, and every enabled hook of the event, whatever fail mode it
  was configured with, was fired before the chain's deadline and returned a decision other than a denial:
  no missing, crashed, late or skipped hook lets the operation through.\<close>
theorem enforced_gate_fails_closed:
  assumes "event \<in> set required"
    and "\<not> is_deny (dispatch_pre_event_enforced env event payload hooks EEnforce required)"
  shows "(\<exists>h \<in> set hooks. hc_event h = event \<and> hc_enabled h) \<and>
    (\<forall>h \<in> set hooks. hc_event h = event \<and> hc_enabled h \<longrightarrow>
       (\<exists>i. answered env event (he_start env + class_deadline_for_event event * nanos_per_ms) i
              (h\<lparr>hc_fail_mode := FailClosed\<rparr>)))"
proof -
  let ?eff = "chain_new (effective_hooks_for_event hooks event EEnforce required)"
  let ?dl = "he_start env + class_deadline_for_event event * nanos_per_ms"
  have present: "enforce_required_event_presence hooks event EEnforce required = None"
    using assms by (auto simp: dispatch_pre_event_enforced_def enforce_required_event_presence_def is_deny_def
        split: option.splits if_splits)
  then have "\<not> is_deny (fst (fire env ?eff event payload))"
    using assms(2) by (simp add: dispatch_pre_event_enforced_def)
  then obtain s where loop: "fire_loop env event ?dl 0 ?eff (chain_start payload) = Inr s"
    by (rule fire_not_denied)
  have "\<exists>i. answered env event ?dl i (h\<lparr>hc_fail_mode := FailClosed\<rparr>)"
    if h: "h \<in> set hooks" "hc_event h = event" "hc_enabled h" for h
  proof -
    have "h\<lparr>hc_fail_mode := FailClosed\<rparr> \<in> set ?eff"
      using h assms(1) by (force simp: chain_new_def effective_hooks_for_event_def effective_fail_mode_def)
    then obtain j where "j < length ?eff" "?eff ! j = h\<lparr>hc_fail_mode := FailClosed\<rparr>"
      by (metis in_set_conv_nth)
    then show ?thesis using fire_loop_answered [OF loop, of j] by auto
  qed
  moreover have "\<exists>h \<in> set hooks. hc_event h = event \<and> hc_enabled h"
    using present assms(1) by (auto simp: enforce_required_event_presence_def split: if_splits)
  ultimately show ?thesis by blast
qed

definition demo_hook :: "string \<Rightarrow> fail_mode \<Rightarrow> hook_config" where
  "demo_hook cmd fm = \<lparr>hc_event = PreStore, hc_command = cmd, hc_priority = 0, hc_timeout_ms = 1000,
     hc_mode = ExecMode, hc_enabled = True, hc_namespace = ''*'', hc_fail_mode = fm\<rparr>"

definition demo_env :: hook_env where
  "demo_env = \<lparr>he_start = 0, he_now = (\<lambda>i. 0), he_fire = (\<lambda>i h e p b. Some (Inr HAllow)),
     he_delta_value = (\<lambda>d. JObj [])\<rparr>"

lemma demo_gate_allows:
  "dispatch_pre_event_enforced demo_env PreStore JNull [demo_hook ''guard'' FailOpen] EEnforce [PreStore] = CAllow"
  by (simp add: dispatch_pre_event_enforced_def enforce_required_event_presence_def effective_hooks_for_event_def
      effective_fail_mode_def chain_new_def demo_hook_def demo_env_def fire_def hook_step_def per_hook_budget_ms_def
      raced_result_def decision_step_def degrade_modify_for_post_event_def chain_start_def chain_outcome_def
      class_deadline_for_event_def nanos_per_ms_def)

theorem enforced_gate_fails_closed_witness:
  "\<exists>h \<in> set [demo_hook ''guard'' FailOpen]. hc_event h = PreStore \<and> hc_enabled h"
  using enforced_gate_fails_closed [of PreStore "[PreStore]" demo_env JNull "[demo_hook ''guard'' FailOpen]"]
    demo_gate_allows by (simp add: is_deny_def)

section \<open>Behaviours the documents describe differently\<close>

text \<open>The namespace pattern of a hook is required and validated, and plays no part in which hooks run.\<close>

lemma sort_key_map_update:
  assumes "\<And>x. f (g x) = f x"
  shows "sort_key f (map g xs) = map g (sort_key f xs)"
proof -
  have "insort_key f (g x) (map g ys) = map g (insort_key f x ys)" for x ys
    by (induction ys) (auto simp: assms)
  then show ?thesis by (induction xs) simp_all
qed

lemma namespace_pattern_ignored:
  "for_event (map (hc_namespace_update (\<lambda>_. ns)) hooks) event =
   map (hc_namespace_update (\<lambda>_. ns)) (for_event hooks event)"
  by (simp add: for_event_def filter_map comp_def sort_key_map_update)

text \<open>Two fail-open hooks that produced no decision are both logged as treated like an allow, but only
  the one that was fired cancels the prompt an earlier hook queued.\<close>

lemma failed_observer_cancels_prompt:
  assumes "hc_fail_mode observer = FailOpen" and "is_pre_event event"
    and "he_now env 0 < he_start env + class_deadline_for_event event * nanos_per_ms"
    and "\<And>payload budget. he_fire env 0 asker event payload budget = Some (Inr (HAskUser prompt opts dflt))"
    and "\<And>payload budget. he_fire env 1 observer event payload budget = Some (Inl (ExIo e))"
  shows "fst (fire env [asker, observer] event payload) =
    (if he_now env 1 < he_start env + class_deadline_for_event event * nanos_per_ms then CAllow
     else CAskUser [\<lparr>aup_prompt = prompt, aup_options = opts, aup_default = dflt,
                     aup_origin_command = hc_command asker\<rparr>])"
  using assms
  by (simp add: fire_def hook_step_def per_hook_budget_ms_def raced_result_def Let_def decision_step_def
      degrade_modify_for_post_event_def chain_start_def chain_outcome_def count_timeout_def)

end
