(* ===== verification/Permissions.thy ===== *)
theory Permissions
  imports Hooks Glob
begin

text \<open>
  The permission pipeline of \<^verbatim>\<open>src/governance/mod.rs\<close>: the glob matcher, the declarative rules, the
  decisions of hooks and the mode compose into one decision. The remembered operator decisions of
  \<^verbatim>\<open>src/approvals.rs\<close>, which the pipeline turns into rules, are modelled here too. The process-wide
  registries are the record \<open>gov_registry\<close>.
\<close>

section \<open>Operations and modes\<close>

datatype gov_op = MemoryStore | MemoryLink | MemoryDelete | MemoryArchive | MemoryConsolidate | MemoryReplay

fun op_as_str :: "gov_op \<Rightarrow> string" where
  "op_as_str MemoryStore = ''memory_store''"
| "op_as_str MemoryLink = ''memory_link''"
| "op_as_str MemoryDelete = ''memory_delete''"
| "op_as_str MemoryArchive = ''memory_archive''"
| "op_as_str MemoryConsolidate = ''memory_consolidate''"
| "op_as_str MemoryReplay = ''memory_replay''"

definition op_from_str :: "string \<Rightarrow> gov_op option" where
  "op_from_str s =
     (if s = ''memory_store'' then Some MemoryStore
      else if s = ''memory_link'' then Some MemoryLink
      else if s = ''memory_delete'' then Some MemoryDelete
      else if s = ''memory_archive'' then Some MemoryArchive
      else if s = ''memory_consolidate'' then Some MemoryConsolidate
      else if s = ''memory_replay'' then Some MemoryReplay
      else None)"

interpretation gov_op: wire_enum op_as_str op_from_str
  by unfold_locales (case_tac e, auto simp: op_from_str_def split: if_splits)

datatype permissions_mode = Enforce | Advisory | Off

section \<open>Rules and contexts\<close>

record permission_context =
  pc_op :: gov_op
  pc_namespace :: string
  pc_agent_id :: string
  pc_payload :: json

datatype rule_decision = RAllow | RDeny | RAsk

record permission_rule =
  pr_namespace_pattern :: string
  pr_op :: string
  pr_agent_pattern :: string
  pr_decision :: rule_decision
  pr_reason :: "string option"

datatype decision = PAllow | PDeny string | PModify memory_delta | PAsk string

definition rule_matches :: "permission_context \<Rightarrow> permission_rule \<Rightarrow> bool" where
  "rule_matches ctx r \<longleftrightarrow> pr_op r = op_as_str (pc_op ctx) \<and>
     glob_matches (pr_namespace_pattern r) (pc_namespace ctx) \<and>
     glob_matches (pr_agent_pattern r) (pc_agent_id ctx)"

text \<open>Most specific first: the sort key is the negated pair of the comparison, the sort is stable.\<close>

definition matched_rules :: "permission_context \<Rightarrow> permission_rule list \<Rightarrow> permission_rule list" where
  "matched_rules ctx rules =
     sort_key (\<lambda>r. (- int (pattern_specificity (pr_namespace_pattern r)),
                    if star \<in> set (pr_agent_pattern r) then 0 else (-1 :: int)))
       (filter (rule_matches ctx) rules)"

definition merge_delta :: "memory_delta option \<Rightarrow> memory_delta \<Rightarrow> memory_delta" where
  "merge_delta prior next_d =
     merge_delta_into (case prior of None \<Rightarrow> delta_default | Some d \<Rightarrow> d) next_d"

fun composed_delta :: "memory_delta option \<Rightarrow> hook_decision list \<Rightarrow> memory_delta option" where
  "composed_delta acc [] = acc"
| "composed_delta acc (HModify d # hs) = composed_delta (Some (merge_delta acc d)) hs"
| "composed_delta acc (_ # hs) = composed_delta acc hs"

definition rule_deny_reason :: "permission_rule \<Rightarrow> string" where
  "rule_deny_reason r = (case pr_reason r of Some s \<Rightarrow> s
     | None \<Rightarrow> ''denied by permission rule (namespace_pattern='' @ pr_namespace_pattern r @ '', op='' @ pr_op r @
         '', agent_pattern='' @ pr_agent_pattern r @ '')'')"

definition rule_ask_prompt :: "permission_rule \<Rightarrow> string" where
  "rule_ask_prompt r = (case pr_reason r of Some s \<Rightarrow> s
     | None \<Rightarrow> ''permission rule requests approval (namespace_pattern='' @ pr_namespace_pattern r @
         '', op='' @ pr_op r @ '')'')"

fun first_hook_deny :: "hook_decision list \<Rightarrow> string option" where
  "first_hook_deny [] = None"
| "first_hook_deny (HDeny reason code # hs) = Some reason"
| "first_hook_deny (_ # hs) = first_hook_deny hs"

fun first_hook_ask :: "hook_decision list \<Rightarrow> string option" where
  "first_hook_ask [] = None"
| "first_hook_ask (HAskUser prompt opts dflt # hs) = Some prompt"
| "first_hook_ask (_ # hs) = first_hook_ask hs"

definition first_rule :: "rule_decision \<Rightarrow> permission_rule list \<Rightarrow> permission_rule option" where
  "first_rule d rs = find (\<lambda>r. pr_decision r = d) rs"

definition mode_default_for :: "permissions_mode \<Rightarrow> permission_context \<Rightarrow> decision" where
  "mode_default_for mode ctx = PAllow"

text \<open>Passes three and four: an explicit allow, then a prompt settled by the mode.\<close>

definition settle_prompt :: "permissions_mode \<Rightarrow> string \<Rightarrow> decision" where
  "settle_prompt mode prompt =
     (case mode of
        Enforce \<Rightarrow> PDeny (''permission ask escalated to deny under enforce mode: '' @ prompt)
      | _ \<Rightarrow> PAsk prompt)"

definition allow_or_ask ::
  "permission_context \<Rightarrow> hook_decision list \<Rightarrow> permission_rule list \<Rightarrow> permissions_mode \<Rightarrow> decision" where
  "allow_or_ask ctx hooks matched mode =
     (if (\<exists>r \<in> set matched. pr_decision r = RAllow) \<or> HAllow \<in> set hooks then PAllow
      else (case first_rule RAsk matched of
              Some r \<Rightarrow> settle_prompt mode (rule_ask_prompt r)
            | None \<Rightarrow>
                (case first_hook_ask hooks of
                   Some prompt \<Rightarrow> settle_prompt mode prompt
                 | None \<Rightarrow> mode_default_for mode ctx)))"

lemma composed_delta_Nil: "composed_delta None hooks = Some d \<Longrightarrow> hooks \<noteq> []"
  by auto

text \<open>\<^verbatim>\<open>Permissions::evaluate_with\<close>. The inner evaluation of a namespace rewrite runs without hooks.\<close>

function evaluate_with ::
  "permission_context \<Rightarrow> hook_decision list \<Rightarrow> permission_rule list \<Rightarrow> permissions_mode \<Rightarrow> decision" where
  "evaluate_with ctx hooks rules mode =
     (if mode = Off then PAllow
      else let pinned_ns = pc_namespace ctx; matched = matched_rules ctx rules
      in case first_rule RDeny matched of
           Some r \<Rightarrow> PDeny (rule_deny_reason r)
         | None \<Rightarrow>
             (case first_hook_deny hooks of
                Some reason \<Rightarrow> PDeny reason
              | None \<Rightarrow>
                  (case composed_delta None hooks of
                     None \<Rightarrow> allow_or_ask ctx hooks matched mode
                   | Some delta \<Rightarrow>
                       (case md_namespace delta of
                          None \<Rightarrow> PModify delta
                        | Some new_ns \<Rightarrow>
                            if new_ns = pinned_ns then PModify delta
                            else (case evaluate_with (ctx\<lparr>pc_namespace := new_ns\<rparr>) [] rules mode of
                                    PDeny reason \<Rightarrow> PDeny (''namespace escalation rejected: hook proposed Modify into namespace '' @
                                      debug_str new_ns @ '' (from pinned '' @ debug_str pinned_ns @ '') which is denied: '' @ reason)
                                  | PAsk reason \<Rightarrow> PAsk (''namespace escalation requires approval: hook proposed Modify into namespace '' @
                                      debug_str new_ns @ '' (from pinned '' @ debug_str pinned_ns @ ''); rebound rule prompts: '' @ reason)
                                  | _ \<Rightarrow> PModify delta)))))"
  by pat_completeness auto
termination
  by (relation "measure (\<lambda>(ctx, hooks, rules, mode). length hooks)") (auto dest: composed_delta_Nil)

declare evaluate_with.simps [simp del]

section \<open>Remembered operator decisions\<close>

record synthetic_rule =
  sy_action_type :: string
  sy_namespace :: string
  sy_agent_id :: "string option"
  sy_decision :: string
  sy_recorded_at :: string

record gov_registry =
  gr_synthetic :: "synthetic_rule list"
  gr_rules :: "permission_rule list"
  gr_mode :: permissions_mode

definition record_synthetic_rule :: "synthetic_rule \<Rightarrow> gov_registry \<Rightarrow> gov_registry" where
  "record_synthetic_rule rule g =
     (if (\<exists>r \<in> set (gr_synthetic g). sy_action_type r = sy_action_type rule \<and> sy_namespace r = sy_namespace rule \<and>
            sy_agent_id r = sy_agent_id rule \<and> sy_decision r = sy_decision rule)
      then g else g\<lparr>gr_synthetic := gr_synthetic g @ [rule]\<rparr>)"

definition set_active_permission_rules :: "permission_rule list \<Rightarrow> gov_registry \<Rightarrow> gov_registry" where
  "set_active_permission_rules rules g = g\<lparr>gr_rules := rules\<rparr>"

fun op_matches_action_type :: "gov_op \<Rightarrow> string \<Rightarrow> bool" where
  "op_matches_action_type MemoryStore t = (t = ''store'')"
| "op_matches_action_type MemoryDelete t = (t = ''delete'')"
| "op_matches_action_type MemoryArchive t = (t = ''archive'' \<or> t = ''promote'')"
| "op_matches_action_type MemoryConsolidate t = (t = ''consolidate'')"
| "op_matches_action_type MemoryLink t = (t = ''link'')"
| "op_matches_action_type MemoryReplay t = False"

definition synthetic_verb :: "string \<Rightarrow> rule_decision option" where
  "synthetic_verb s =
     (if s = ''approve'' \<or> s = ''allow'' then Some RAllow
      else if s = ''deny'' \<or> s = ''reject'' then Some RDeny
      else None)"

definition synthetic_ops :: "gov_op list" where
  "synthetic_ops = [MemoryStore, MemoryDelete, MemoryArchive, MemoryConsolidate, MemoryLink]"

definition synthetic_as_rules :: "synthetic_rule \<Rightarrow> permission_rule list" where
  "synthetic_as_rules s =
     (case synthetic_verb (sy_decision s) of
        None \<Rightarrow> []
      | Some d \<Rightarrow>
          map (\<lambda>op. \<lparr>pr_namespace_pattern = sy_namespace s, pr_op = op_as_str op,
                 pr_agent_pattern = (case sy_agent_id s of None \<Rightarrow> ''*'' | Some a \<Rightarrow> a), pr_decision = d,
                 pr_reason = Some (''remembered operator decision (recorded_at='' @ sy_recorded_at s @ '')'')\<rparr>)
            (filter (\<lambda>op. op_matches_action_type op (sy_action_type s)) synthetic_ops))"

definition synthetic_rules_as_permission_rules :: "gov_registry \<Rightarrow> permission_rule list" where
  "synthetic_rules_as_permission_rules g = concat (map synthetic_as_rules (gr_synthetic g))"

definition evaluate :: "gov_registry \<Rightarrow> permission_context \<Rightarrow> hook_decision list \<Rightarrow> decision" where
  "evaluate g ctx hooks =
     evaluate_with ctx hooks (synthetic_rules_as_permission_rules g @ gr_rules g) (gr_mode g)"

definition resolve_v07_default_mode :: "permissions_mode option \<Rightarrow> permissions_mode \<times> string option" where
  "resolve_v07_default_mode configured =
     (case configured of
        Some mode \<Rightarrow> (mode, None)
      | None \<Rightarrow> (Enforce, Some (''v0.7.0 default changed to enforce; set permissions.mode=advisory in config to opt out '' @
          [CHR 0xE2, CHR 0x80, CHR 0x94] @ '' see release notes.'')))"

section \<open>The verdict depends on the set of rules only\<close>

datatype verdict_kind = VAllow | VDeny | VModify memory_delta | VAsk

fun verdict :: "decision \<Rightarrow> verdict_kind" where
  "verdict PAllow = VAllow"
| "verdict (PDeny reason) = VDeny"
| "verdict (PModify delta) = VModify delta"
| "verdict (PAsk prompt) = VAsk"

definition has_rule :: "permission_context \<Rightarrow> permission_rule set \<Rightarrow> rule_decision \<Rightarrow> bool" where
  "has_rule ctx R d \<longleftrightarrow> (\<exists>r \<in> R. rule_matches ctx r \<and> pr_decision r = d)"

definition has_hook_deny :: "hook_decision list \<Rightarrow> bool" where
  "has_hook_deny hooks \<longleftrightarrow> (\<exists>reason code. HDeny reason code \<in> set hooks)"

definition has_hook_ask :: "hook_decision list \<Rightarrow> bool" where
  "has_hook_ask hooks \<longleftrightarrow> (\<exists>prompt opts dflt. HAskUser prompt opts dflt \<in> set hooks)"

text \<open>The combining rule as the module header gives it: a denial from any source, then the composed
  modification, then an explicit allow, then a prompt that enforcement turns into a denial. A rewrite
  of the namespace is judged again where it leads.\<close>

definition unmodified_verdict ::
  "permission_context \<Rightarrow> hook_decision list \<Rightarrow> permission_rule set \<Rightarrow> permissions_mode \<Rightarrow> verdict_kind" where
  "unmodified_verdict ctx hooks R mode =
     (if has_rule ctx R RDeny \<or> has_hook_deny hooks then VDeny
      else if has_rule ctx R RAllow \<or> HAllow \<in> set hooks then VAllow
      else if has_rule ctx R RAsk \<or> has_hook_ask hooks then (if mode = Enforce then VDeny else VAsk)
      else VAllow)"

definition verdict_spec ::
  "permission_context \<Rightarrow> hook_decision list \<Rightarrow> permission_rule set \<Rightarrow> permissions_mode \<Rightarrow> verdict_kind" where
  "verdict_spec ctx hooks R mode =
     (if mode = Off then VAllow
      else case composed_delta None hooks of
             None \<Rightarrow> unmodified_verdict ctx hooks R mode
           | Some delta \<Rightarrow>
               if has_rule ctx R RDeny \<or> has_hook_deny hooks then VDeny
               else (case md_namespace delta of
                       None \<Rightarrow> VModify delta
                     | Some ns \<Rightarrow>
                         (let there = unmodified_verdict (ctx\<lparr>pc_namespace := ns\<rparr>) [] R mode
                          in if ns \<noteq> pc_namespace ctx \<and> there \<noteq> VAllow then there else VModify delta)))"

lemma set_matched_rules: "set (matched_rules ctx rules) = {r \<in> set rules. rule_matches ctx r}"
  by (simp add: matched_rules_def)

lemma first_rule_None: "first_rule d (matched_rules ctx rules) = None \<longleftrightarrow> \<not> has_rule ctx (set rules) d"
  by (auto simp: first_rule_def find_None_iff has_rule_def set_matched_rules)

lemma first_rule_cases:
  obtains "first_rule d (matched_rules ctx rules) = None" and "\<not> has_rule ctx (set rules) d"
  | r where "first_rule d (matched_rules ctx rules) = Some r" and "has_rule ctx (set rules) d"
  using first_rule_None [of d ctx rules] by (cases "first_rule d (matched_rules ctx rules)") auto

lemma first_hook_deny_None: "first_hook_deny hooks = None \<longleftrightarrow> \<not> has_hook_deny hooks"
  by (induction hooks rule: first_hook_deny.induct) (auto simp: has_hook_deny_def)

lemma first_hook_ask_None: "first_hook_ask hooks = None \<longleftrightarrow> \<not> has_hook_ask hooks"
  by (induction hooks rule: first_hook_ask.induct) (auto simp: has_hook_ask_def)

lemma verdict_settle_prompt: "mode \<noteq> Off \<Longrightarrow> verdict (settle_prompt mode prompt) = (if mode = Enforce then VDeny else VAsk)"
  by (cases mode) (simp_all add: settle_prompt_def)

lemma verdict_allow_or_ask:
  assumes "mode \<noteq> Off" and "\<not> has_rule ctx (set rules) RDeny" and "\<not> has_hook_deny hooks"
  shows "verdict (allow_or_ask ctx hooks (matched_rules ctx rules) mode) = unmodified_verdict ctx hooks (set rules) mode"
proof -
  have allow: "(\<exists>r \<in> set (matched_rules ctx rules). pr_decision r = RAllow) \<longleftrightarrow> has_rule ctx (set rules) RAllow"
    by (auto simp: has_rule_def set_matched_rules)
  show ?thesis
    unfolding allow_or_ask_def unmodified_verdict_def allow
    using assms first_rule_None [of RAsk ctx rules] first_hook_ask_None [of hooks]
    by (auto simp: verdict_settle_prompt mode_default_for_def split: option.splits)
qed

lemma verdict_no_hooks:
  "mode \<noteq> Off \<Longrightarrow> verdict (evaluate_with ctx [] rules mode) = unmodified_verdict ctx [] (set rules) mode"
  by (cases rule: first_rule_cases [of RDeny ctx rules])
    (simp_all add: evaluate_with.simps verdict_allow_or_ask has_hook_deny_def unmodified_verdict_def)

lemma verdict_eq_iff:
  "verdict d = VDeny \<longleftrightarrow> (\<exists>reason. d = PDeny reason)"
  "verdict d = VAsk \<longleftrightarrow> (\<exists>prompt. d = PAsk prompt)"
  "verdict d = VAllow \<longleftrightarrow> d = PAllow"
  "verdict d = VModify delta \<longleftrightarrow> d = PModify delta"
  by (cases d; simp)+

lemma evaluate_off: "evaluate_with ctx hooks rules Off = PAllow"
  by (simp add: evaluate_with.simps [of ctx hooks])

lemma evaluate_denied:
  assumes "mode \<noteq> Off" and "has_rule ctx (set rules) RDeny \<or> has_hook_deny hooks"
  shows "\<exists>reason. evaluate_with ctx hooks rules mode = PDeny reason"
  using assms first_rule_None [of RDeny ctx rules] first_hook_deny_None [of hooks]
  by (cases "first_rule RDeny (matched_rules ctx rules)"; cases "first_hook_deny hooks")
    (auto simp: evaluate_with.simps [of ctx hooks])

lemma evaluate_verdict:
  "verdict (evaluate_with ctx hooks rules mode) = verdict_spec ctx hooks (set rules) mode"
proof (cases "mode = Off \<or> has_rule ctx (set rules) RDeny \<or> has_hook_deny hooks")
  case True
  then consider "mode = Off" | "mode \<noteq> Off" "has_rule ctx (set rules) RDeny \<or> has_hook_deny hooks" by blast
  then show ?thesis
  proof cases
    case 1
    then show ?thesis by (simp add: evaluate_off verdict_spec_def)
  next
    case 2
    then obtain reason where "evaluate_with ctx hooks rules mode = PDeny reason"
      using evaluate_denied by blast
    then show ?thesis
      using 2 by (simp add: verdict_spec_def unmodified_verdict_def split: option.split)
  qed
next
  case False
  then have base: "first_rule RDeny (matched_rules ctx rules) = None" "first_hook_deny hooks = None"
    by (simp_all add: first_rule_None first_hook_deny_None)
  show ?thesis
  proof (cases "composed_delta None hooks")
    case None
    then show ?thesis
      using False base by (simp add: evaluate_with.simps verdict_spec_def verdict_allow_or_ask)
  next
    case (Some delta)
    have there: "verdict (evaluate_with (ctx\<lparr>pc_namespace := ns\<rparr>) [] rules mode) =
        unmodified_verdict (ctx\<lparr>pc_namespace := ns\<rparr>) [] (set rules) mode" for ns
      using False by (simp add: verdict_no_hooks)
    show ?thesis
    proof (cases "md_namespace delta")
      case None
      then show ?thesis
        using False base Some by (simp add: evaluate_with.simps [of ctx] verdict_spec_def)
    next
      case ns: (Some ns)
      have novm: "unmodified_verdict (ctx\<lparr>pc_namespace := ns\<rparr>) [] (set rules) mode \<noteq> VModify d" for d
        by (simp add: unmodified_verdict_def)
      show ?thesis
        using False base Some ns there [of ns, symmetric] novm
        by (cases "evaluate_with (ctx\<lparr>pc_namespace := ns\<rparr>) [] rules mode")
          (auto simp add: evaluate_with.simps [of ctx] verdict_spec_def Let_def)
    qed
  qed
qed

text \<open>The evaluator computes the documented combination. For every context, hook answers, rules and
  mode, its verdict is the one the combining rule assigns to the set of rules: the order of the rules
  and their specificity never change it, only the reason that is reported.\<close>
theorem evaluate_combines:
  "verdict (evaluate_with ctx hooks rules mode) = verdict_spec ctx hooks (set rules) mode"
  by (rule evaluate_verdict)

text \<open>C27: Nothing is done where it is denied. Outside mode Off, when the evaluator lets an operation
  proceed, as it stands or modified by hooks, no hook denied it and no matching rule denies it in its own
  namespace or in the namespace the hooks' composed modification moves it to.\<close>
theorem no_operation_into_denied_namespace:
  assumes "mode \<noteq> Off"
    and "evaluate_with ctx hooks rules mode = (case d of None \<Rightarrow> PAllow | Some delta \<Rightarrow> PModify delta)"
  shows "\<not> has_hook_deny hooks \<and> \<not> has_rule ctx (set rules) RDeny \<and>
    (case d of None \<Rightarrow> True
     | Some delta \<Rightarrow> (case md_namespace delta of None \<Rightarrow> True
         | Some ns \<Rightarrow> \<not> has_rule (ctx\<lparr>pc_namespace := ns\<rparr>) (set rules) RDeny))"
proof -
  have nd: "\<not> has_hook_deny hooks" "\<not> has_rule ctx (set rules) RDeny"
    using assms evaluate_denied [OF assms(1), of ctx rules hooks] by (auto split: option.splits)
  have "\<not> has_rule (ctx\<lparr>pc_namespace := ns\<rparr>) (set rules) RDeny"
    if "d = Some delta" "md_namespace delta = Some ns" for delta ns
  proof (cases "ns = pc_namespace ctx")
    case True
    then show ?thesis using nd by simp
  next
    case False
    have v: "verdict_spec ctx hooks (set rules) mode = VModify delta"
      using assms(2) that evaluate_verdict [of ctx hooks rules mode] by simp
    then have "composed_delta None hooks = Some delta"
      using assms(1) by (auto simp: verdict_spec_def unmodified_verdict_def Let_def split: option.splits if_splits)
    then have "unmodified_verdict (ctx\<lparr>pc_namespace := ns\<rparr>) [] (set rules) mode = VAllow"
      using v that False assms(1) nd
      by (auto simp: verdict_spec_def Let_def unmodified_verdict_def split: if_splits)
    then show ?thesis by (auto simp: unmodified_verdict_def split: if_splits)
  qed
  then show ?thesis using nd by (auto split: option.split)
qed

definition demo_ctx :: "string \<Rightarrow> permission_context" where
  "demo_ctx ns = \<lparr>pc_op = MemoryStore, pc_namespace = ns, pc_agent_id = ''ai'', pc_payload = JNull\<rparr>"

definition demo_rule :: "string \<Rightarrow> rule_decision \<Rightarrow> permission_rule" where
  "demo_rule pattern d = \<lparr>pr_namespace_pattern = pattern, pr_op = ''memory_store'', pr_agent_pattern = ''*'',
     pr_decision = d, pr_reason = Some ''r''\<rparr>"

definition move_to :: "string \<Rightarrow> hook_decision" where
  "move_to ns = HModify (delta_default\<lparr>md_namespace := Some ns\<rparr>)"

lemma demo_move: "evaluate_with (demo_ctx ''a'') [move_to ''b''] [demo_rule ''c'' RDeny] Enforce =
    PModify (delta_default\<lparr>md_namespace := Some ''b''\<rparr>)"
proof -
  have "verdict_spec (demo_ctx ''a'') [move_to ''b''] (set [demo_rule ''c'' RDeny]) Enforce =
      VModify (delta_default\<lparr>md_namespace := Some ''b''\<rparr>)"
    by (simp add: verdict_spec_def has_rule_def rule_matches_def demo_ctx_def demo_rule_def move_to_def glob_literal
        star_def has_hook_deny_def has_hook_ask_def merge_delta_def delta_default_def merge_delta_into_def
        unmodified_verdict_def)
  then show ?thesis using evaluate_verdict by (metis verdict_eq_iff(4))
qed

theorem no_operation_into_denied_namespace_witness:
  "\<not> has_rule ((demo_ctx ''a'')\<lparr>pc_namespace := ''b''\<rparr>) (set [demo_rule ''c'' RDeny]) RDeny"
  using no_operation_into_denied_namespace [of Enforce "demo_ctx ''a''" "[move_to ''b'']" "[demo_rule ''c'' RDeny]"
      "Some (delta_default\<lparr>md_namespace := Some ''b''\<rparr>)"] demo_move
  by simp

section \<open>Remembered decisions\<close>

lemma synthetic_rule_matches:
  assumes "rule \<in> set (gr_synthetic g)" and "synthetic_verb (sy_decision rule) = Some d"
    and "op_matches_action_type (pc_op ctx) (sy_action_type rule)"
    and "sy_namespace rule = pc_namespace ctx" and "sy_agent_id rule = Some (pc_agent_id ctx)"
    and "star \<notin> set (pc_namespace ctx)" and "star \<notin> set (pc_agent_id ctx)"
  shows "has_rule ctx (set (synthetic_rules_as_permission_rules g)) d"
proof -
  have "pc_op ctx \<in> set synthetic_ops"
    using assms(3) by (cases "pc_op ctx") (simp_all add: synthetic_ops_def)
  then have "\<exists>r \<in> set (synthetic_as_rules rule). rule_matches ctx r \<and> pr_decision r = d"
    using assms by (auto simp: synthetic_as_rules_def rule_matches_def glob_literal image_iff)
  then show ?thesis
    using assms(1) unfolding has_rule_def synthetic_rules_as_permission_rules_def by auto
qed

lemma record_synthetic_present:
  "\<exists>r \<in> set (gr_synthetic (record_synthetic_rule rule g)). sy_action_type r = sy_action_type rule \<and>
     sy_namespace r = sy_namespace rule \<and> sy_agent_id r = sy_agent_id rule \<and> sy_decision r = sy_decision rule"
  by (auto simp: record_synthetic_rule_def)

text \<open>A remembered operator decision settles the calls it covers. After a decision was recorded for
  an action, a namespace and an agent, the same call without hook answers is never prompted again: a
  remembered denial denies it, and a remembered approval lets it through unless some rule denies it.\<close>
theorem remembered_decision_settles:
  assumes "synthetic_verb (sy_decision rule) = Some d" and "gr_mode g \<noteq> Off"
    and "op_matches_action_type (pc_op ctx) (sy_action_type rule)"
    and "sy_namespace rule = pc_namespace ctx" and "sy_agent_id rule = Some (pc_agent_id ctx)"
    and "star \<notin> set (pc_namespace ctx)" and "star \<notin> set (pc_agent_id ctx)"
  shows "verdict (evaluate (record_synthetic_rule rule g) ctx []) =
    (if d = RDeny \<or> has_rule ctx (set (synthetic_rules_as_permission_rules g @ gr_rules g)) RDeny
     then VDeny else VAllow)"
proof -
  let ?g = "record_synthetic_rule rule g"
  let ?R = "set (synthetic_rules_as_permission_rules ?g @ gr_rules ?g)"
  obtain r where r: "r \<in> set (gr_synthetic ?g)" "sy_action_type r = sy_action_type rule"
      "sy_namespace r = sy_namespace rule" "sy_agent_id r = sy_agent_id rule" "sy_decision r = sy_decision rule"
    using record_synthetic_present by blast
  have hd: "has_rule ctx ?R d"
    using synthetic_rule_matches [of r ?g d ctx] r assms by (auto simp: has_rule_def)
  have d: "d = RAllow \<or> d = RDeny"
    using assms(1) by (auto simp: synthetic_verb_def split: if_splits)
  have "gr_mode ?g \<noteq> Off" using assms(2) by (simp add: record_synthetic_rule_def)
  then have v: "verdict (evaluate ?g ctx []) = unmodified_verdict ctx [] ?R (gr_mode ?g)"
    unfolding evaluate_def by (rule verdict_no_hooks)
  have new: "set (synthetic_as_rules rule) \<subseteq> {q. pr_decision q = d}"
    using assms(1) by (auto simp: synthetic_as_rules_def)
  have "has_rule ctx ?R RDeny \<longleftrightarrow> d = RDeny \<or> has_rule ctx (set (synthetic_rules_as_permission_rules g @ gr_rules g)) RDeny"
    using hd new d
    by (fastforce simp: record_synthetic_rule_def has_rule_def synthetic_rules_as_permission_rules_def split: if_splits)
  then show ?thesis
    using v hd d by (auto simp: unmodified_verdict_def has_hook_deny_def)
qed

theorem remembered_decision_settles_witness:
  "verdict (evaluate (record_synthetic_rule \<lparr>sy_action_type = ''store'', sy_namespace = ''a'',
       sy_agent_id = Some ''ai'', sy_decision = ''approve'', sy_recorded_at = ''t''\<rparr>
     \<lparr>gr_synthetic = [], gr_rules = [demo_rule ''a'' RAsk], gr_mode = Enforce\<rparr>) (demo_ctx ''a'') []) = VAllow"
  by (subst remembered_decision_settles [of _ RAllow])
    (simp_all add: synthetic_verb_def demo_ctx_def star_def has_rule_def synthetic_rules_as_permission_rules_def
      demo_rule_def)

section \<open>Where the documents and the code part\<close>

text \<open>A deny rule over \<open>**/keys/*\<close> covers the namespace \<open>a/keys/b/keys/c\<close>, and the matcher misses it:
  the matcher only ever gives up bytes to the last star it met, and that single star may not take a
  slash. The operation is allowed, under enforcement.\<close>

lemma deny_rule_missed:
  "glob_spec ''**/keys/*'' ''a/keys/b/keys/c'' \<and> \<not> glob_matches ''**/keys/*'' ''a/keys/b/keys/c'' \<and>
   evaluate_with (demo_ctx ''a/keys/b/keys/c'') [] [demo_rule ''**/keys/*'' RDeny] Enforce = PAllow"
proof -
  have "\<not> glob_matches ''**/keys/*'' ''a/keys/b/keys/c''"
    by (simp add: glob_matches_def glob_inner_def glob_loop.simps star_def star_width_def)
  moreover have "glob_spec ''**/keys/*'' ''a/keys/b/keys/c''"
    by (simp add: star_def)
  ultimately show ?thesis
    by (simp add: verdict_eq_iff(3) [symmetric] evaluate_verdict verdict_spec_def unmodified_verdict_def
        has_rule_def rule_matches_def demo_rule_def demo_ctx_def has_hook_deny_def has_hook_ask_def)
qed

text \<open>The more specific rule does not take precedence: a broad denial beats a narrow approval.\<close>

lemma broad_denial_wins:
  "verdict (evaluate_with (demo_ctx ''a/b'') [] [demo_rule ''a/b'' RAllow, demo_rule ''**'' RDeny] Enforce) = VDeny"
proof -
  have m: "glob_matches ''**'' ''a/b''" "glob_matches ''a/b'' ''a/b''" "glob_matches ''*'' ''ai''"
    by (simp_all add: glob_matches_unmixed star_def)
  then show ?thesis
    by (simp add: evaluate_verdict verdict_spec_def unmodified_verdict_def has_rule_def rule_matches_def
        demo_rule_def demo_ctx_def)
qed

text \<open>Under the advisory mode a prompt stays a prompt; the module header says it is promoted to an allow.\<close>

lemma advisory_ask_stays:
  assumes "has_rule ctx (set rules) RAsk" and "\<not> has_rule ctx (set rules) RDeny" and "\<not> has_rule ctx (set rules) RAllow"
  shows "verdict (evaluate_with ctx [] rules Advisory) = VAsk"
  using assms by (simp add: verdict_no_hooks unmodified_verdict_def has_hook_deny_def)

text \<open>A modification by any hook settles a prompt that a rule raised, even under enforcement.\<close>

lemma modification_overrides_prompt:
  assumes "composed_delta None hooks = Some delta" and "md_namespace delta = None"
    and "\<not> has_rule ctx (set rules) RDeny" and "\<not> has_hook_deny hooks" and "mode \<noteq> Off"
  shows "evaluate_with ctx hooks rules mode = PModify delta"
  using assms by (simp add: verdict_eq_iff(4) [symmetric] evaluate_verdict verdict_spec_def)

end
