(* ===== verification/Policy.thy ===== *)
theory Policy
  imports Text
begin

text \<open>
  The vocabulary of namespace governance (\<^verbatim>\<open>src/models/namespace.rs\<close>,
  \<^verbatim>\<open>src/governance/refusal.rs\<close>): governed actions, levels, approver types, scopes, the core policy
  record, refusals and decisions, and the slash-separated namespace hierarchy.
\<close>

section \<open>Closed vocabularies\<close>

datatype governed_action = GovStore | GovDelete | GovPromote | GovReflect

fun governed_action_as_str :: "governed_action \<Rightarrow> string" where
  "governed_action_as_str GovStore = ''store''"
| "governed_action_as_str GovDelete = ''delete''"
| "governed_action_as_str GovPromote = ''promote''"
| "governed_action_as_str GovReflect = ''reflect''"

datatype governance_level = LvAny | LvRegistered | LvOwner | LvApprove

fun governance_level_as_str :: "governance_level \<Rightarrow> string" where
  "governance_level_as_str LvAny = ''any''"
| "governance_level_as_str LvRegistered = ''registered''"
| "governance_level_as_str LvOwner = ''owner''"
| "governance_level_as_str LvApprove = ''approve''"

datatype approver_type = ApHuman | ApAgent string | ApConsensus nat

fun approver_kind :: "approver_type \<Rightarrow> string" where
  "approver_kind ApHuman = ''human''"
| "approver_kind (ApAgent a) = ''agent''"
| "approver_kind (ApConsensus n) = ''consensus''"

datatype memory_scope = ScPrivate | ScTeam | ScUnit | ScOrg | ScCollective

fun memory_scope_as_str :: "memory_scope \<Rightarrow> string" where
  "memory_scope_as_str ScPrivate = ''private''"
| "memory_scope_as_str ScTeam = ''team''"
| "memory_scope_as_str ScUnit = ''unit''"
| "memory_scope_as_str ScOrg = ''org''"
| "memory_scope_as_str ScCollective = ''collective''"

definition memory_scope_from_str :: "string \<Rightarrow> memory_scope option" where
  "memory_scope_from_str s =
     (if s = ''private'' then Some ScPrivate
      else if s = ''team'' then Some ScTeam
      else if s = ''unit'' then Some ScUnit
      else if s = ''org'' then Some ScOrg
      else if s = ''collective'' then Some ScCollective
      else None)"

interpretation memory_scope: wire_enum memory_scope_as_str memory_scope_from_str
proof unfold_locales
  show "memory_scope_from_str (memory_scope_as_str e) = Some e" for e
    by (cases e) (simp_all add: memory_scope_from_str_def)
qed (auto simp: memory_scope_from_str_def split: if_splits)

section \<open>Policies, refusals and decisions\<close>

record core_policy =
  cp_write :: governance_level
  cp_promote :: governance_level
  cp_delete :: governance_level
  cp_approver :: approver_type
  cp_inherit :: bool
  cp_max_reflection_depth :: "nat option"
  cp_required_scope :: "memory_scope option"

definition core_policy_default :: core_policy where
  "core_policy_default = \<lparr>cp_write = LvAny, cp_promote = LvAny, cp_delete = LvOwner, cp_approver = ApHuman,
     cp_inherit = True, cp_max_reflection_depth = None, cp_required_scope = None\<rparr>"

definition default_for_managed_namespace :: core_policy where
  "default_for_managed_namespace = core_policy_default\<lparr>cp_write := LvOwner\<rparr>"

record governance_refusal =
  rf_action :: governed_action
  rf_denied_level :: governance_level
  rf_agent_id :: string
  rf_namespace :: "string option"
  rf_owner :: "string option"
  rf_reason :: string

definition refusal_new :: "governed_action \<Rightarrow> governance_level \<Rightarrow> string \<Rightarrow> string \<Rightarrow> governance_refusal" where
  "refusal_new action level agent_id reason =
     \<lparr>rf_action = action, rf_denied_level = level, rf_agent_id = agent_id, rf_namespace = None,
      rf_owner = None, rf_reason = reason\<rparr>"

definition with_namespace :: "string \<Rightarrow> governance_refusal \<Rightarrow> governance_refusal" where
  "with_namespace ns r = r\<lparr>rf_namespace := Some ns\<rparr>"

definition with_owner :: "string \<Rightarrow> governance_refusal \<Rightarrow> governance_refusal" where
  "with_owner o' r = r\<lparr>rf_owner := Some o'\<rparr>"

datatype gov_decision = GAllow | GDeny governance_refusal | GPending string

datatype deny_gate = GatePermissionRule | GateGovernance

fun deny_gate_as_str :: "deny_gate \<Rightarrow> string" where
  "deny_gate_as_str GatePermissionRule = ''permission rule''"
| "deny_gate_as_str GateGovernance = ''governance''"

definition deny_message :: "string \<Rightarrow> deny_gate \<Rightarrow> string \<Rightarrow> string" where
  "deny_message action gate reason = action @ '' denied by '' @ deny_gate_as_str gate @ '': '' @ reason"

definition refusal_display :: "governance_refusal \<Rightarrow> string" where
  "refusal_display r = deny_message (governed_action_as_str (rf_action r)) GateGovernance (rf_reason r)"

section \<open>The slash hierarchy\<close>

text \<open>\<^verbatim>\<open>rsplit_once('/')\<close>: the part before the last slash.\<close>

definition slash :: char where
  "slash = CHR ''/''"

definition namespace_parent :: "string \<Rightarrow> string option" where
  "namespace_parent ns =
     (if slash \<in> set ns then Some (rev (tl (dropWhile (\<lambda>c. c \<noteq> slash) (rev ns)))) else None)"

lemma namespace_parent_shorter: "namespace_parent ns = Some p \<Longrightarrow> length p < length ns"
proof -
  assume a: "namespace_parent ns = Some p"
  then have "slash \<in> set (rev ns)" and p: "p = rev (tl (dropWhile (\<lambda>c. c \<noteq> slash) (rev ns)))"
    by (auto simp: namespace_parent_def split: if_splits)
  then have "dropWhile (\<lambda>c. c \<noteq> slash) (rev ns) \<noteq> []"
    by (auto simp: dropWhile_eq_Nil_conv)
  moreover have "length (dropWhile (\<lambda>c. c \<noteq> slash) (rev ns)) \<le> length ns"
    by (metis length_dropWhile_le length_rev)
  ultimately show ?thesis
    by (cases "dropWhile (\<lambda>c. c \<noteq> slash) (rev ns)") (simp_all add: p)
qed

function ancestors_from :: "string \<Rightarrow> string list" where
  "ancestors_from current =
     current # (case namespace_parent current of
                  Some p \<Rightarrow> if p \<noteq> [] then ancestors_from p else []
                | None \<Rightarrow> [])"
  by pat_completeness auto
termination
  by (relation "measure length") (auto dest: namespace_parent_shorter)

declare ancestors_from.simps [simp del]

definition namespace_ancestors :: "string \<Rightarrow> string list" where
  "namespace_ancestors ns = (if ns = [] then [] else ancestors_from ns)"

fun split_slash :: "string \<Rightarrow> string list" where
  "split_slash [] = [[]]"
| "split_slash (c # s) =
     (if c = slash then [] # split_slash s
      else (case split_slash s of [] \<Rightarrow> [[c]] | w # ws \<Rightarrow> (c # w) # ws))"

definition namespace_depth :: "string \<Rightarrow> nat" where
  "namespace_depth ns = (if ns = [] then 0 else length (filter (\<lambda>s. s \<noteq> []) (split_slash ns)))"

lemma namespace_parent_prefix:
  assumes "namespace_parent ns = Some p"
  obtains r where "ns = p @ slash # r" and "slash \<notin> set r"
proof -
  have m: "slash \<in> set (rev ns)" and p: "p = rev (tl (dropWhile (\<lambda>c. c \<noteq> slash) (rev ns)))"
    using assms by (auto simp: namespace_parent_def split: if_splits)
  obtain t where d: "dropWhile (\<lambda>c. c \<noteq> slash) (rev ns) = slash # t"
    using m by (metis (mono_tags, lifting) dropWhile_eq_Cons_conv dropWhile_eq_Nil_conv neq_Nil_conv)
  have "rev ns = takeWhile (\<lambda>c. c \<noteq> slash) (rev ns) @ slash # t"
    using d by (metis takeWhile_dropWhile_id)
  then have "ns = rev t @ slash # rev (takeWhile (\<lambda>c. c \<noteq> slash) (rev ns))"
    by (metis append_Cons append_Nil append_assoc rev.simps(2) rev_append rev_rev_ident)
  moreover have "p = rev t" using d p by simp
  moreover have "slash \<notin> set (takeWhile (\<lambda>c. c \<noteq> slash) (rev ns))"
    by (auto dest: set_takeWhileD)
  ultimately show ?thesis using that by simp
qed

text \<open>Every ancestor is the namespace itself or a prefix of it that ends before a slash.\<close>

lemma ancestors_from_under:
  "a \<in> set (ancestors_from ns) \<Longrightarrow> a = ns \<or> (\<exists>r. ns = a @ slash # r)"
proof (induction ns arbitrary: a rule: ancestors_from.induct)
  case (1 ns)
  show ?case
  proof (cases "a = ns")
    case False
    then obtain p where p: "namespace_parent ns = Some p" "p \<noteq> []" "a \<in> set (ancestors_from p)"
      using 1(2) by (cases "namespace_parent ns") (auto simp: ancestors_from.simps [of ns] split: if_splits)
    obtain r where "ns = p @ slash # r" using p(1) by (rule namespace_parent_prefix)
    moreover have "a = p \<or> (\<exists>r. p = a @ slash # r)" using 1(1) p by blast
    ultimately show ?thesis by auto
  qed simp
qed

end
