(* ===== verification/Capability.thy ===== *)
theory Capability
  imports Policy Permissions Signing Json
begin

text \<open>
  The capability tokens of \<^verbatim>\<open>src/governance/capability.rs\<close>: macaroons whose caveat chain is
  authenticated by an HMAC and whose root block is signed by its issuer. The file has its caveats and
  their encoding, minting and attenuation, the fail-closed verification, and the joiner that may turn a
  denied or pending gate decision into an allow.

  HMAC-SHA256, the CBOR writer and Ed25519 are third-party code: the record \<open>mac_crypto\<close> extends
  \<open>crypto\<close> by \<open>hmac\<close>. Nothing is assumed of the HMAC; where a statement would need that it does not
  collide, it exhibits the two different inputs that collide instead. The CBOR and base64 envelope of
  the token on the wire are the fields \<open>token_encode\<close> and \<open>token_decode\<close> of \<open>wire_codec\<close>.
\<close>

section \<open>Operation levels\<close>

datatype op_level = OpNone | OpRead | OpWrite | OpAdmin

fun wire_ord :: "op_level \<Rightarrow> int" where
  "wire_ord OpNone = 0"
| "wire_ord OpRead = 1"
| "wire_ord OpWrite = 2"
| "wire_ord OpAdmin = 3"

lemma wire_ord_inject [simp]: "wire_ord a = wire_ord b \<longleftrightarrow> a = b"
  by (cases a; cases b) simp_all

instantiation op_level :: linorder
begin

definition less_eq_op_level :: "op_level \<Rightarrow> op_level \<Rightarrow> bool" where
  "less_eq_op_level a b \<longleftrightarrow> wire_ord a \<le> wire_ord b"

definition less_op_level :: "op_level \<Rightarrow> op_level \<Rightarrow> bool" where
  "less_op_level a b \<longleftrightarrow> wire_ord a < wire_ord b"

instance
  by standard (auto simp: less_eq_op_level_def less_op_level_def)

end

lemma op_level_top [simp]: "(l :: op_level) \<le> OpAdmin"
  by (cases l) (simp_all add: less_eq_op_level_def)

definition op_level_of :: "string \<Rightarrow> op_level" where
  "op_level_of action =
     (if action \<in> {''Store'', ''Promote'', ''Delete''} then OpWrite
      else if action = ''Reflect'' then OpRead
      else OpAdmin)"

fun op_level_as_str :: "op_level \<Rightarrow> string" where
  "op_level_as_str OpNone = ''none''"
| "op_level_as_str OpRead = ''read''"
| "op_level_as_str OpWrite = ''write''"
| "op_level_as_str OpAdmin = ''admin''"

definition op_level_parse :: "string \<Rightarrow> op_level option" where
  "op_level_parse raw =
     (let t = to_ascii_lowercase (trim raw)
      in if t = ''none'' then Some OpNone
         else if t = ''read'' then Some OpRead
         else if t = ''write'' then Some OpWrite
         else if t = ''admin'' then Some OpAdmin
         else None)"

section \<open>Caveats, root blocks and tokens\<close>

record mac_crypto = crypto +
  hmac :: "bytes \<Rightarrow> bytes \<Rightarrow> bytes"

datatype caveat =
    NamespacePrefix string
  | OpCeiling op_level
  | CavAction string
  | CavAgent string
  | ExpiresAt int
  | NotBefore int

fun caveat_to_value :: "caveat \<Rightarrow> cbor" where
  "caveat_to_value (NamespacePrefix s) = CArray [CInt 0, CText s]"
| "caveat_to_value (OpCeiling l) = CArray [CInt 1, CInt (wire_ord l)]"
| "caveat_to_value (CavAction s) = CArray [CInt 2, CText s]"
| "caveat_to_value (CavAgent s) = CArray [CInt 3, CText s]"
| "caveat_to_value (ExpiresAt t) = CArray [CInt 4, CInt t]"
| "caveat_to_value (NotBefore t) = CArray [CInt 5, CInt t]"

definition caveat_cbor :: "'x mac_crypto_scheme \<Rightarrow> caveat \<Rightarrow> bytes" where
  "caveat_cbor cr c = cbor_encode cr (caveat_to_value c)"

definition caveats_have_expiry :: "caveat list \<Rightarrow> bool" where
  "caveats_have_expiry cs \<longleftrightarrow> (\<exists>t. ExpiresAt t \<in> set cs)"

record root_block =
  rb_v :: nat
  rb_issuer :: string
  rb_root_id :: string
  rb_root_caveats :: "caveat list"

text \<open>The map is built in a \<^verbatim>\<open>BTreeMap\<close>, so its entries are in key order.\<close>

definition root_cbor :: "'x mac_crypto_scheme \<Rightarrow> root_block \<Rightarrow> bytes" where
  "root_cbor cr rb = cbor_encode cr (CMap (map (\<lambda>(k, v). (CText k, v))
     (bt_insert ''cap_root_caveats'' (CArray (map caveat_to_value (rb_root_caveats rb)))
       (bt_insert ''cap_root_id'' (CText (rb_root_id rb))
         (bt_insert ''cap_issuer'' (CText (rb_issuer rb))
           (bt_insert ''cap_v'' (CInt (int (rb_v rb)))
             (bt_insert ''cap_dom'' (CText ''ai-memory/capability-root/v1'') [])))))))"

record capability_token =
  ct_v :: nat
  ct_issuer :: string
  ct_root_id :: string
  ct_root_caveats :: "caveat list"
  ct_root_sig :: bytes
  ct_ext_caveats :: "caveat list"
  ct_tag :: bytes

definition root_block_of :: "capability_token \<Rightarrow> root_block" where
  "root_block_of t = \<lparr>rb_v = ct_v t, rb_issuer = ct_issuer t, rb_root_id = ct_root_id t,
     rb_root_caveats = ct_root_caveats t\<rparr>"

datatype cap_reject =
    UnsupportedVersion | UnknownIssuer | BadRootSig | BadChain | Expired | NotYetValid
  | CaveatUnmet string | MalformedToken

fun cap_reject_code :: "cap_reject \<Rightarrow> string" where
  "cap_reject_code UnsupportedVersion = ''unsupported_version''"
| "cap_reject_code UnknownIssuer = ''unknown_issuer''"
| "cap_reject_code BadRootSig = ''bad_root_sig''"
| "cap_reject_code BadChain = ''bad_chain''"
| "cap_reject_code Expired = ''expired''"
| "cap_reject_code NotYetValid = ''not_yet_valid''"
| "cap_reject_code (CaveatUnmet reason) = ''caveat''"
| "cap_reject_code MalformedToken = ''malformed''"

record wire_codec =
  token_encode :: "capability_token \<Rightarrow> string"
  token_decode :: "string \<Rightarrow> capability_token option"

definition max_token_b64_len :: nat where
  "max_token_b64_len = 8 * 1024"

definition to_wire :: "wire_codec \<Rightarrow> capability_token \<Rightarrow> string" where
  "to_wire wc t = ''cap1:'' @ token_encode wc t"

definition from_wire :: "wire_codec \<Rightarrow> string \<Rightarrow> cap_reject + capability_token" where
  "from_wire wc s =
     (case strip_prefix s ''cap1:'' of
        None \<Rightarrow> Inl MalformedToken
      | Some b64 \<Rightarrow>
          if length b64 > max_token_b64_len then Inl MalformedToken
          else (case token_decode wc b64 of None \<Rightarrow> Inl MalformedToken | Some t \<Rightarrow> Inr t))"

record issuer_config =
  ic_pubkey :: bytes
  ic_root_secret :: bytes
  ic_max_op :: op_level
  ic_namespace_prefix :: "string option"

record capability_config =
  cc_enabled :: bool
  cc_issuers :: "(string \<times> issuer_config) list"

definition issuer_count :: "capability_config \<Rightarrow> nat" where
  "issuer_count cfg = length (cc_issuers cfg)"

definition parse_capabilities_toggle :: "string \<Rightarrow> bool option" where
  "parse_capabilities_toggle raw =
     (let t = to_ascii_lowercase (trim raw)
      in if t \<in> {''on'', ''1'', ''true'', ''yes''} then Some True
         else if t \<in> {''off'', ''0'', ''false'', ''no''} then Some False
         else None)"

record cap_request =
  rq_action :: string
  rq_namespace :: string
  rq_agent_id :: string
  rq_now :: int

record verified_grant =
  vg_root_id :: string
  vg_issuer :: string
  vg_op_level :: op_level
  vg_namespace_prefix :: string

definition resolve_capability_issuer_pubkey :: "capability_config \<Rightarrow> string \<Rightarrow> bytes option" where
  "resolve_capability_issuer_pubkey cfg issuer = map_option ic_pubkey (map_of (cc_issuers cfg) issuer)"

section \<open>Minting and attenuating\<close>

definition mint_with_secret ::
  "'x mac_crypto_scheme \<Rightarrow> bytes \<Rightarrow> bytes \<Rightarrow> string \<Rightarrow> string \<Rightarrow> caveat list \<Rightarrow> capability_token" where
  "mint_with_secret cr issuer_key root_secret issuer root_id root_caveats =
     (let root = \<lparr>rb_v = 1, rb_issuer = issuer, rb_root_id = root_id, rb_root_caveats = root_caveats\<rparr>;
          root_bytes = root_cbor cr root
      in \<lparr>ct_v = 1, ct_issuer = issuer, ct_root_id = root_id, ct_root_caveats = root_caveats,
          ct_root_sig = ed_sign cr issuer_key root_bytes, ct_ext_caveats = [],
          ct_tag = hmac cr root_secret root_bytes\<rparr>)"

definition attenuate :: "'x mac_crypto_scheme \<Rightarrow> capability_token \<Rightarrow> caveat \<Rightarrow> capability_token" where
  "attenuate cr token c =
     token\<lparr>ct_ext_caveats := ct_ext_caveats token @ [c], ct_tag := hmac cr (ct_tag token) (caveat_cbor cr c)\<rparr>"

section \<open>Verification\<close>

definition namespace_under :: "string \<Rightarrow> string \<Rightarrow> bool" where
  "namespace_under namespace pre \<longleftrightarrow> namespace = pre \<or> starts_with namespace (pre @ ''/'')"

text \<open>The ceiling so far and the most specific prefix that held.\<close>

type_synonym caveat_state = "op_level \<times> string option"

definition more_specific :: "string \<Rightarrow> string option \<Rightarrow> string option" where
  "more_specific p cur =
     (case cur of None \<Rightarrow> Some p | Some c \<Rightarrow> if length p > length c then Some p else Some c)"

fun enforce_caveat :: "cap_request \<Rightarrow> caveat \<Rightarrow> caveat_state \<Rightarrow> cap_reject + caveat_state" where
  "enforce_caveat req (NamespacePrefix p) (ceil, ns) =
     (if \<not> namespace_under (rq_namespace req) p then Inl (CaveatUnmet ''namespace_prefix'')
      else Inr (ceil, more_specific p ns))"
| "enforce_caveat req (OpCeiling l) (ceil, ns) =
     (if op_level_of (rq_action req) > l then Inl (CaveatUnmet ''op_ceiling'')
      else Inr (min ceil l, ns))"
| "enforce_caveat req (CavAction a) s =
     (if rq_action req \<noteq> a then Inl (CaveatUnmet ''action'') else Inr s)"
| "enforce_caveat req (CavAgent a) s =
     (if rq_agent_id req \<noteq> a then Inl (CaveatUnmet ''agent'') else Inr s)"
| "enforce_caveat req (ExpiresAt t) s = (if rq_now req > t then Inl Expired else Inr s)"
| "enforce_caveat req (NotBefore t) s = (if rq_now req < t then Inl NotYetValid else Inr s)"

fun enforce_caveats :: "cap_request \<Rightarrow> caveat list \<Rightarrow> caveat_state \<Rightarrow> cap_reject + caveat_state" where
  "enforce_caveats req [] s = Inr s"
| "enforce_caveats req (c # cs) s =
     (case enforce_caveat req c s of Inl e \<Rightarrow> Inl e | Inr s' \<Rightarrow> enforce_caveats req cs s')"

definition chain_tag :: "'x mac_crypto_scheme \<Rightarrow> bytes \<Rightarrow> capability_token \<Rightarrow> bytes" where
  "chain_tag cr root_secret token =
     foldl (\<lambda>tag c. hmac cr tag (caveat_cbor cr c)) (hmac cr root_secret (root_cbor cr (root_block_of token)))
       (ct_ext_caveats token)"

definition issuer_clamp ::
  "issuer_config \<Rightarrow> cap_request \<Rightarrow> capability_token \<Rightarrow> caveat_state \<Rightarrow> cap_reject + verified_grant" where
  "issuer_clamp ic req token s =
     (let req_op = op_level_of (rq_action req)
      in if req_op > ic_max_op ic then Inl (CaveatUnmet ''issuer_ceiling'')
         else if (\<exists>p. ic_namespace_prefix ic = Some p \<and> \<not> namespace_under (rq_namespace req) p)
         then Inl (CaveatUnmet ''issuer_namespace'')
         else let ns = (case ic_namespace_prefix ic of None \<Rightarrow> snd s | Some p \<Rightarrow> more_specific p (snd s));
                  effective_op = min (fst s) (ic_max_op ic)
              in if req_op > effective_op then Inl (CaveatUnmet ''op_ceiling'')
                 else Inr \<lparr>vg_root_id = ct_root_id token, vg_issuer = ct_issuer token, vg_op_level = effective_op,
                        vg_namespace_prefix = (case ns of None \<Rightarrow> [] | Some p \<Rightarrow> p)\<rparr>)"

definition verify ::
  "'x mac_crypto_scheme \<Rightarrow> capability_token \<Rightarrow> capability_config \<Rightarrow> cap_request \<Rightarrow> cap_reject + verified_grant" where
  "verify cr token cfg req =
     (if ct_v token \<noteq> 1 then Inl UnsupportedVersion
      else case map_of (cc_issuers cfg) (ct_issuer token) of
             None \<Rightarrow> Inl UnknownIssuer
           | Some ic \<Rightarrow>
               (case resolve_capability_issuer_pubkey cfg (ct_issuer token) of
                  None \<Rightarrow> Inl UnknownIssuer
                | Some pubkey \<Rightarrow>
                    if length (ct_root_sig token) \<noteq> 64 then Inl BadRootSig
                    else if \<not> ed_verify_strict cr pubkey (root_cbor cr (root_block_of token)) (ct_root_sig token)
                    then Inl BadRootSig
                    else if chain_tag cr (ic_root_secret ic) token \<noteq> ct_tag token then Inl BadChain
                    else (case enforce_caveats req (ct_root_caveats token @ ct_ext_caveats token) (OpAdmin, None) of
                            Inl e \<Rightarrow> Inl e
                          | Inr s \<Rightarrow> issuer_clamp ic req token s)))"

section \<open>The joiner\<close>

datatype grant_outcome =
    GrantNoOp
  | Granted string string op_level
  | GrantRejected cap_reject

definition apply_capability_grant ::
  "'x mac_crypto_scheme \<Rightarrow> decision \<Rightarrow> capability_config \<Rightarrow> bool \<Rightarrow> capability_token option \<Rightarrow> cap_request
     \<Rightarrow> decision \<times> grant_outcome" where
  "apply_capability_grant cr base cfg mode_is_enforce token req =
     (if base = PAllow \<or> \<not> cc_enabled cfg \<or> \<not> mode_is_enforce then (base, GrantNoOp)
      else case token of
             None \<Rightarrow> (base, GrantNoOp)
           | Some tok \<Rightarrow>
               if (case base of PDeny r \<Rightarrow> False | PAsk p \<Rightarrow> False | _ \<Rightarrow> True) then (base, GrantNoOp)
               else (case verify cr tok cfg req of
                       Inr g \<Rightarrow> (PAllow, Granted (vg_root_id g) (vg_issuer g) (vg_op_level g))
                     | Inl e \<Rightarrow> (base, GrantRejected e)))"

fun governed_action_name :: "governed_action \<Rightarrow> string" where
  "governed_action_name GovStore = ''Store''"
| "governed_action_name GovDelete = ''Delete''"
| "governed_action_name GovPromote = ''Promote''"
| "governed_action_name GovReflect = ''Reflect''"

definition apply_capability_grant_gov ::
  "'x mac_crypto_scheme \<Rightarrow> gov_decision \<Rightarrow> capability_config \<Rightarrow> bool \<Rightarrow> capability_token option \<Rightarrow> cap_request
     \<Rightarrow> gov_decision \<times> grant_outcome" where
  "apply_capability_grant_gov cr base cfg mode_is_enforce token req =
     (let shadow = (case base of GAllow \<Rightarrow> PAllow | GDeny r \<Rightarrow> PDeny (rf_reason r) | GPending i \<Rightarrow> PAsk i);
          outcome = snd (apply_capability_grant cr shadow cfg mode_is_enforce token req)
      in case outcome of
           Granted root_id issuer lvl \<Rightarrow> (GAllow, outcome)
         | _ \<Rightarrow> (base, outcome))"

text \<open>The gate's hook: the active configuration and the clock are arguments, the audit row it emits is
  the second component (the outcome and what it was flipped from).\<close>

definition apply_at_gate ::
  "'x mac_crypto_scheme \<Rightarrow> capability_config \<Rightarrow> int \<Rightarrow> gov_decision \<Rightarrow> governed_action \<Rightarrow> string \<Rightarrow> string
     \<Rightarrow> capability_token option \<Rightarrow> gov_decision \<times> (cap_request \<times> string \<times> grant_outcome) option" where
  "apply_at_gate cr cfg now base action namespace agent_id token =
     (if token = None \<or> base = GAllow \<or> \<not> cc_enabled cfg then (base, None)
      else let base_kind = (case base of GPending i \<Rightarrow> ''pending'' | _ \<Rightarrow> ''deny'');
               req = \<lparr>rq_action = governed_action_name action, rq_namespace = namespace, rq_agent_id = agent_id, rq_now = now\<rparr>;
               (d, outcome) = apply_capability_grant_gov cr base cfg True token req
           in (d, if outcome = GrantNoOp then None else Some (req, base_kind, outcome)))"

definition parse_presented_token :: "wire_codec \<Rightarrow> capability_config \<Rightarrow> string option \<Rightarrow> capability_token option" where
  "parse_presented_token wc cfg raw =
     (case map_option trim raw of
        None \<Rightarrow> None
      | Some s \<Rightarrow>
          if s = [] \<or> \<not> cc_enabled cfg then None
          else (case from_wire wc s of Inr tok \<Rightarrow> Some tok | Inl e \<Rightarrow> None))"

section \<open>What the caveats of an accepted token say\<close>

fun caveat_ok :: "cap_request \<Rightarrow> caveat \<Rightarrow> bool" where
  "caveat_ok req (NamespacePrefix p) = namespace_under (rq_namespace req) p"
| "caveat_ok req (OpCeiling l) = (op_level_of (rq_action req) \<le> l)"
| "caveat_ok req (CavAction a) = (rq_action req = a)"
| "caveat_ok req (CavAgent a) = (rq_agent_id req = a)"
| "caveat_ok req (ExpiresAt t) = (rq_now req \<le> t)"
| "caveat_ok req (NotBefore t) = (t \<le> rq_now req)"

fun narrow :: "caveat \<Rightarrow> caveat_state \<Rightarrow> caveat_state" where
  "narrow (NamespacePrefix p) s = (fst s, more_specific p (snd s))"
| "narrow (OpCeiling l) s = (min (fst s) l, snd s)"
| "narrow _ s = s"

lemma enforce_caveat_cases:
  "caveat_ok req c \<and> enforce_caveat req c s = Inr (narrow c s) \<or>
   \<not> caveat_ok req c \<and> (\<exists>e. enforce_caveat req c s = Inl e)"
  by (cases s; cases c) (auto simp: not_less)

lemma enforce_caveats_Inr:
  "enforce_caveats req cs s = Inr s' \<longleftrightarrow> (\<forall>c \<in> set cs. caveat_ok req c) \<and> s' = fold narrow cs s"
proof (induction cs arbitrary: s)
  case (Cons c cs)
  show ?case using enforce_caveat_cases [of req c s]
  proof
    assume "caveat_ok req c \<and> enforce_caveat req c s = Inr (narrow c s)"
    then show ?thesis using Cons [of "narrow c s"] by simp
  qed auto
qed auto

lemma narrow_op: "fst (narrow c s) \<le> fst s"
  by (cases c) simp_all

lemma fold_narrow_op: "fst (fold narrow cs s) \<le> fst s"
proof (induction cs arbitrary: s)
  case (Cons c cs)
  show ?case using Cons [of "narrow c s"] narrow_op [of c s] by simp
qed simp

text \<open>Every prefix tracked is a prefix of the requested namespace, so the longer extends the shorter.\<close>

definition tracks :: "string \<Rightarrow> string option \<Rightarrow> bool" where
  "tracks ns p \<longleftrightarrow> (case p of None \<Rightarrow> True | Some p \<Rightarrow> starts_with ns p)"

definition extends :: "string option \<Rightarrow> string option \<Rightarrow> bool" where
  "extends q p \<longleftrightarrow> (case p of None \<Rightarrow> True | Some p \<Rightarrow> (case q of None \<Rightarrow> False | Some q \<Rightarrow> starts_with q p))"

lemma extends_refl [simp]: "extends p p"
  by (cases p) (auto simp: extends_def starts_with_iff)

lemma extends_trans: "extends r q \<Longrightarrow> extends q p \<Longrightarrow> extends r p"
  by (auto simp: extends_def intro: starts_with_trans split: option.splits)

lemma starts_with_longer:
  "starts_with ns p \<Longrightarrow> starts_with ns q \<Longrightarrow> length p \<le> length q \<Longrightarrow> starts_with q p"
  by (auto simp: starts_with_iff append_eq_append_conv2)

lemma namespace_under_starts: "namespace_under ns p \<Longrightarrow> starts_with ns p"
  by (auto simp: namespace_under_def starts_with_iff)

lemma more_specific_tracks:
  "namespace_under ns p \<Longrightarrow> tracks ns cur \<Longrightarrow> tracks ns (more_specific p cur) \<and> extends (more_specific p cur) cur \<and>
     extends (more_specific p cur) (Some p)"
  by (cases cur) (auto simp: tracks_def extends_def more_specific_def starts_with_iff [of p p]
      dest: namespace_under_starts intro: starts_with_longer)

lemma narrow_ns:
  "caveat_ok req c \<Longrightarrow> tracks (rq_namespace req) (snd s) \<Longrightarrow>
     tracks (rq_namespace req) (snd (narrow c s)) \<and> extends (snd (narrow c s)) (snd s)"
  by (cases c) (simp_all add: more_specific_tracks)

lemma fold_narrow_ns:
  "\<forall>c \<in> set cs. caveat_ok req c \<Longrightarrow> tracks (rq_namespace req) (snd s) \<Longrightarrow>
     tracks (rq_namespace req) (snd (fold narrow cs s)) \<and> extends (snd (fold narrow cs s)) (snd s)"
proof (induction cs arbitrary: s)
  case (Cons c cs)
  have "tracks (rq_namespace req) (snd (narrow c s))" "extends (snd (narrow c s)) (snd s)"
    using narrow_ns [of req c s] Cons.prems by auto
  then show ?case using Cons.IH [of "narrow c s"] Cons.prems extends_trans [of _ "snd (narrow c s)" "snd s"] by auto
qed simp

lemma fold_narrow_ceiling:
  "\<forall>c \<in> set cs. caveat_ok req c \<Longrightarrow> op_level_of (rq_action req) \<le> fst s \<Longrightarrow>
     op_level_of (rq_action req) \<le> fst (fold narrow cs s)"
proof (induction cs arbitrary: s)
  case (Cons c cs)
  then have "op_level_of (rq_action req) \<le> fst (narrow c s)" by (cases c) auto
  then show ?case using Cons by simp
qed simp

definition issuer_ok :: "issuer_config \<Rightarrow> cap_request \<Rightarrow> bool" where
  "issuer_ok ic req \<longleftrightarrow> op_level_of (rq_action req) \<le> ic_max_op ic \<and>
     (\<forall>p. ic_namespace_prefix ic = Some p \<longrightarrow> namespace_under (rq_namespace req) p)"

definition grant_of :: "issuer_config \<Rightarrow> capability_token \<Rightarrow> verified_grant" where
  "grant_of ic t =
     (let s = fold narrow (ct_root_caveats t @ ct_ext_caveats t) (OpAdmin, None);
          ns = (case ic_namespace_prefix ic of None \<Rightarrow> snd s | Some p \<Rightarrow> more_specific p (snd s))
      in \<lparr>vg_root_id = ct_root_id t, vg_issuer = ct_issuer t, vg_op_level = min (fst s) (ic_max_op ic),
          vg_namespace_prefix = (case ns of None \<Rightarrow> [] | Some p \<Rightarrow> p)\<rparr>)"

text \<open>What authenticates a token: the issuer's signature over the root block and the MAC chain.\<close>

definition authentic :: "'x mac_crypto_scheme \<Rightarrow> issuer_config \<Rightarrow> capability_token \<Rightarrow> bool" where
  "authentic cr ic t \<longleftrightarrow> ct_v t = 1 \<and> length (ct_root_sig t) = 64 \<and>
     ed_verify_strict cr (ic_pubkey ic) (root_cbor cr (root_block_of t)) (ct_root_sig t) \<and>
     chain_tag cr (ic_root_secret ic) t = ct_tag t"

lemma cap_verify_accepts:
  "verify cr t cfg req = Inr g \<longleftrightarrow>
     (\<exists>ic. map_of (cc_issuers cfg) (ct_issuer t) = Some ic \<and> authentic cr ic t \<and>
        (\<forall>c \<in> set (ct_root_caveats t) \<union> set (ct_ext_caveats t). caveat_ok req c) \<and>
        issuer_ok ic req \<and> g = grant_of ic t)"
proof (cases "map_of (cc_issuers cfg) (ct_issuer t)")
  case (Some ic)
  let ?cs = "ct_root_caveats t @ ct_ext_caveats t"
  have clamp: "issuer_clamp ic req t (fold narrow ?cs (OpAdmin, None)) = Inr g \<longleftrightarrow> issuer_ok ic req \<and> g = grant_of ic t"
    if "\<forall>c \<in> set ?cs. caveat_ok req c"
    using fold_narrow_ceiling [OF that, of "(OpAdmin, None)"]
    by (auto simp: issuer_clamp_def issuer_ok_def grant_of_def Let_def not_less min_less_iff_disj)
  show ?thesis
  proof (cases "\<forall>c \<in> set ?cs. caveat_ok req c")
    case True
    then have "enforce_caveats req ?cs (OpAdmin, None) = Inr (fold narrow ?cs (OpAdmin, None))"
      by (simp only: enforce_caveats_Inr simp_thms)
    then show ?thesis
      using clamp [OF True] True Some
      by (auto simp: verify_def resolve_capability_issuer_pubkey_def authentic_def simp del: fold_append)
  next
    case False
    then have "enforce_caveats req ?cs (OpAdmin, None) \<noteq> Inr s" for s
      by (simp only: enforce_caveats_Inr simp_thms)
    then obtain e where "enforce_caveats req ?cs (OpAdmin, None) = Inl e"
      by (cases "enforce_caveats req ?cs (OpAdmin, None)") auto
    then show ?thesis
      using False Some by (auto simp: verify_def resolve_capability_issuer_pubkey_def)
  qed
qed (simp add: verify_def)

text \<open>C25: A capability token is accepted exactly when its issuer is configured, the root block carries that
  issuer's signature, the HMAC chain recomputed from the issuer's secret ends in the token's tag, every
  root and added caveat holds of the request, and the request is within the issuer's own ceiling and
  namespace. What is then granted is the lowest ceiling and the longest prefix among them; the last
  check of the code never fires.\<close>
theorem cap_verify_exact:
  "verify cr t cfg req = Inr g \<longleftrightarrow>
     (\<exists>ic. map_of (cc_issuers cfg) (ct_issuer t) = Some ic \<and> authentic cr ic t \<and>
        (\<forall>c \<in> set (ct_root_caveats t) \<union> set (ct_ext_caveats t). caveat_ok req c) \<and>
        issuer_ok ic req \<and> g = grant_of ic t)"
  by (rule cap_verify_accepts)

section \<open>Attenuation only narrows\<close>

definition narrower :: "verified_grant \<Rightarrow> verified_grant \<Rightarrow> bool" where
  "narrower g' g \<longleftrightarrow> vg_root_id g' = vg_root_id g \<and> vg_issuer g' = vg_issuer g \<and>
     vg_op_level g' \<le> vg_op_level g \<and> starts_with (vg_namespace_prefix g') (vg_namespace_prefix g)"

lemma chain_tag_attenuate:
  "chain_tag cr k (attenuate cr t c) = hmac cr (chain_tag cr k t) (caveat_cbor cr c)"
  by (simp add: chain_tag_def attenuate_def root_block_of_def)

lemma starts_with_length: "starts_with q p \<Longrightarrow> length p \<le> length q"
  by (auto simp: starts_with_iff)

lemma more_specific_mono:
  assumes "tracks ns q" and "tracks ns p" and "extends q p" and "namespace_under ns r"
  shows "extends (more_specific r q) (more_specific r p)"
  using assms namespace_under_starts [OF assms(4)]
  by (cases p; cases q)
    (auto simp: extends_def more_specific_def tracks_def starts_with_iff [of r r]
      dest: starts_with_length [of _ "_"] intro: starts_with_longer)

lemma grant_narrows:
  assumes "\<forall>c \<in> set (ct_root_caveats t @ ct_ext_caveats t @ cs). caveat_ok req c" and "issuer_ok ic req"
  shows "narrower (grant_of ic (t\<lparr>ct_ext_caveats := ct_ext_caveats t @ cs, ct_tag := tag\<rparr>)) (grant_of ic t)"
proof -
  let ?s = "fold narrow (ct_root_caveats t @ ct_ext_caveats t) (OpAdmin, None)"
  let ?s' = "fold narrow cs ?s"
  have op: "fst ?s' \<le> fst ?s" by (rule fold_narrow_op)
  have t: "tracks (rq_namespace req) (snd ?s)"
    using assms(1) fold_narrow_ns [of "ct_root_caveats t @ ct_ext_caveats t" req "(OpAdmin, None)"]
    by (auto simp: tracks_def)
  have t': "tracks (rq_namespace req) (snd ?s')" "extends (snd ?s') (snd ?s)"
    using assms(1) fold_narrow_ns [OF _ t] by auto
  have "extends (case ic_namespace_prefix ic of None \<Rightarrow> snd ?s' | Some p \<Rightarrow> more_specific p (snd ?s'))
      (case ic_namespace_prefix ic of None \<Rightarrow> snd ?s | Some p \<Rightarrow> more_specific p (snd ?s))"
    using assms(2) t t' more_specific_mono [OF t'(1) t t'(2)] by (auto simp: issuer_ok_def split: option.split)
  then show ?thesis
    using op by (auto simp: narrower_def grant_of_def Let_def extends_def min_le_iff_disj split: option.splits)
qed

text \<open>Attenuation needs no key and never widens. If a token with one more caveat is accepted for a
  request, then that caveat holds of the request and the token it was made from is accepted for the same
  request with a grant at least as wide in level and namespace; or the HMAC collides on two different
  keys, the tag the original token carries and the one its chain should have.\<close>
theorem attenuation_narrows:
  assumes "verify cr (attenuate cr t c) cfg req = Inr g'"
  shows "caveat_ok req c \<and>
    ((\<exists>g. verify cr t cfg req = Inr g \<and> narrower g' g) \<or>
     (\<exists>ic. map_of (cc_issuers cfg) (ct_issuer t) = Some ic \<and> chain_tag cr (ic_root_secret ic) t \<noteq> ct_tag t \<and>
        hmac cr (chain_tag cr (ic_root_secret ic) t) (caveat_cbor cr c) = hmac cr (ct_tag t) (caveat_cbor cr c)))"
proof -
  have t': "attenuate cr t c = t\<lparr>ct_ext_caveats := ct_ext_caveats t @ [c], ct_tag := hmac cr (ct_tag t) (caveat_cbor cr c)\<rparr>"
    by (simp add: attenuate_def)
  have rb: "root_block_of (attenuate cr t c) = root_block_of t"
    by (simp add: attenuate_def root_block_of_def)
  obtain ic where ic: "map_of (cc_issuers cfg) (ct_issuer t) = Some ic"
      and auth: "authentic cr ic (attenuate cr t c)"
      and ok: "\<forall>d \<in> set (ct_root_caveats t @ ct_ext_caveats t @ [c]). caveat_ok req d"
      and iok: "issuer_ok ic req" and g': "g' = grant_of ic (attenuate cr t c)"
    using assms unfolding cap_verify_accepts by (auto simp: attenuate_def)
  have tag: "hmac cr (chain_tag cr (ic_root_secret ic) t) (caveat_cbor cr c) = hmac cr (ct_tag t) (caveat_cbor cr c)"
    using auth unfolding authentic_def chain_tag_attenuate by (simp add: attenuate_def)
  have "verify cr t cfg req = Inr (grant_of ic t) \<and> narrower g' (grant_of ic t)"
    if "chain_tag cr (ic_root_secret ic) t = ct_tag t"
  proof
    have "authentic cr ic t"
      using auth that unfolding authentic_def rb by (simp add: attenuate_def)
    then show "verify cr t cfg req = Inr (grant_of ic t)"
      unfolding cap_verify_accepts using ic ok iok by auto
    show "narrower g' (grant_of ic t)"
      unfolding g' t' by (rule grant_narrows [OF ok iok])
  qed
  then show ?thesis using ok ic tag by auto
qed

section \<open>Minted tokens\<close>

text \<open>A token as its issuer mints it and its holders attenuate it, and the configuration that knows the
  issuer.\<close>

definition derived ::
  "'x mac_crypto_scheme \<Rightarrow> bytes \<Rightarrow> bytes \<Rightarrow> string \<Rightarrow> string \<Rightarrow> caveat list \<Rightarrow> caveat list \<Rightarrow> capability_token" where
  "derived cr key secret issuer root_id root_caveats cs =
     foldl (attenuate cr) (mint_with_secret cr key secret issuer root_id root_caveats) cs"

definition issuer_keys :: "'x mac_crypto_scheme \<Rightarrow> bytes \<Rightarrow> issuer_config \<Rightarrow> bool" where
  "issuer_keys cr key ic \<longleftrightarrow>
     (\<forall>m. length (ed_sign cr key m) = 64 \<and> ed_verify_strict cr (ic_pubkey ic) m (ed_sign cr key m))"

lemma derived_fields:
  "ct_v (derived cr key secret issuer root_id rc cs) = 1"
  "ct_issuer (derived cr key secret issuer root_id rc cs) = issuer"
  "ct_root_caveats (derived cr key secret issuer root_id rc cs) = rc"
  "ct_ext_caveats (derived cr key secret issuer root_id rc cs) = cs"
  "ct_root_sig (derived cr key secret issuer root_id rc cs) =
     ed_sign cr key (root_cbor cr (root_block_of (derived cr key secret issuer root_id rc cs)))"
  "root_block_of (derived cr key secret issuer root_id rc cs) =
     \<lparr>rb_v = 1, rb_issuer = issuer, rb_root_id = root_id, rb_root_caveats = rc\<rparr>"
  by (induction cs rule: rev_induct)
    (simp_all add: derived_def mint_with_secret_def attenuate_def root_block_of_def Let_def)

lemma derived_chain:
  "chain_tag cr secret (derived cr key secret issuer root_id rc cs) = ct_tag (derived cr key secret issuer root_id rc cs)"
proof (induction cs rule: rev_induct)
  case Nil
  show ?case by (simp add: derived_def mint_with_secret_def chain_tag_def root_block_of_def Let_def)
next
  case (snoc c cs)
  have "derived cr key secret issuer root_id rc (cs @ [c]) = attenuate cr (derived cr key secret issuer root_id rc cs) c"
    by (simp add: derived_def)
  then show ?case using snoc by (simp only: chain_tag_attenuate) (simp add: attenuate_def)
qed

lemma derived_authentic:
  assumes "issuer_keys cr key ic"
  shows "authentic cr ic (derived cr key (ic_root_secret ic) issuer root_id rc cs)"
  using assms by (simp add: authentic_def derived_chain derived_fields issuer_keys_def)

text \<open>Minting, attenuating and verifying agree. A token minted with the configured secret and key of
  its issuer and then attenuated any number of times, by anyone, is accepted for a request exactly when
  all its caveats hold of it and the issuer's own limits do; so of two derivations the longer is accepted
  for no request the shorter refuses.\<close>
theorem derived_token_accepted:
  assumes "map_of (cc_issuers cfg) issuer = Some ic" and "issuer_keys cr key ic"
  shows "((\<exists>g. verify cr (derived cr key (ic_root_secret ic) issuer root_id rc cs) cfg req = Inr g) \<longleftrightarrow>
      (\<forall>c \<in> set rc \<union> set cs. caveat_ok req c) \<and> issuer_ok ic req) \<and>
    (\<forall>ds g'. verify cr (derived cr key (ic_root_secret ic) issuer root_id rc (cs @ ds)) cfg req = Inr g' \<longrightarrow>
      (\<exists>g. verify cr (derived cr key (ic_root_secret ic) issuer root_id rc cs) cfg req = Inr g \<and> narrower g' g))"
proof -
  let ?t = "\<lambda>cs. derived cr key (ic_root_secret ic) issuer root_id rc cs"
  have v: "verify cr (?t xs) cfg req = Inr g \<longleftrightarrow>
      (\<forall>c \<in> set rc \<union> set xs. caveat_ok req c) \<and> issuer_ok ic req \<and> g = grant_of ic (?t xs)" for xs g
    unfolding cap_verify_accepts using assms derived_authentic [OF assms(2)] by (auto simp: derived_fields)
  have root: "ct_root_id (?t xs) = root_id" for xs
    using derived_fields(6) [of cr key "ic_root_secret ic" issuer root_id rc xs] by (simp add: root_block_of_def)
  have "\<exists>g. verify cr (?t cs) cfg req = Inr g \<and> narrower g' g"
    if acc: "verify cr (?t (cs @ ds)) cfg req = Inr g'" for ds g'
  proof -
    have eq: "grant_of ic (?t (cs @ ds)) = grant_of ic ((?t cs)\<lparr>ct_ext_caveats := ct_ext_caveats (?t cs) @ ds, ct_tag := []\<rparr>)"
      by (simp add: grant_of_def derived_fields root)
    have "narrower (grant_of ic (?t (cs @ ds))) (grant_of ic (?t cs))"
      unfolding eq by (rule grant_narrows [of _ _ req]) (use acc v in \<open>auto simp: derived_fields\<close>)
    then show ?thesis using acc by (auto simp: v)
  qed
  then show ?thesis using v by blast
qed

definition demo_mac :: mac_crypto where
  "demo_mac = \<lparr>cbor_encode = cbor_encode demo_crypto, ed_sign = ed_sign demo_crypto, ed_key_ok = ed_key_ok demo_crypto,
     ed_verify_strict = ed_verify_strict demo_crypto, sha256 = sha256 demo_crypto, hmac = (\<lambda>k m. k @ m)\<rparr>"

definition demo_issuer :: issuer_config where
  "demo_issuer = \<lparr>ic_pubkey = [], ic_root_secret = ''k'', ic_max_op = OpWrite, ic_namespace_prefix = Some ''a''\<rparr>"

definition demo_cap_cfg :: capability_config where
  "demo_cap_cfg = \<lparr>cc_enabled = True, cc_issuers = [(''op'', demo_issuer)]\<rparr>"

definition demo_request :: cap_request where
  "demo_request = \<lparr>rq_action = ''Store'', rq_namespace = ''a/b'', rq_agent_id = ''ai'', rq_now = 5\<rparr>"

lemma demo_issuer_keys: "issuer_keys demo_mac key demo_issuer"
  by (simp add: issuer_keys_def demo_mac_def demo_crypto_def)

theorem derived_token_accepted_witness:
  "\<exists>g. verify demo_mac (derived demo_mac [] ''k'' ''op'' ''r'' [ExpiresAt 9] [NamespacePrefix ''a'']) demo_cap_cfg demo_request = Inr g"
  using derived_token_accepted [of demo_cap_cfg "''op''" demo_issuer demo_mac "[]" "''r''" "[ExpiresAt 9]"
      "[NamespacePrefix ''a'']" demo_request] demo_issuer_keys
  by (simp add: demo_cap_cfg_def demo_issuer_def demo_request_def issuer_ok_def namespace_under_def op_level_of_def)

lemma demo_attenuated:
  "verify demo_mac (attenuate demo_mac (derived demo_mac [] ''k'' ''op'' ''r'' [ExpiresAt 9] []) (NamespacePrefix ''a''))
     demo_cap_cfg demo_request =
   Inr (grant_of demo_issuer (attenuate demo_mac (derived demo_mac [] ''k'' ''op'' ''r'' [ExpiresAt 9] []) (NamespacePrefix ''a'')))"
proof -
  have d: "attenuate demo_mac (derived demo_mac [] ''k'' ''op'' ''r'' [ExpiresAt 9] []) (NamespacePrefix ''a'') =
      derived demo_mac [] ''k'' ''op'' ''r'' [ExpiresAt 9] [NamespacePrefix ''a'']"
    by (simp add: derived_def)
  have k: "ic_root_secret demo_issuer = ''k''" by (simp add: demo_issuer_def)
  show ?thesis
    unfolding cap_verify_accepts d
    by (intro exI [of _ demo_issuer])
      (use derived_authentic [OF demo_issuer_keys, of "[]" "''op''" "''r''" "[ExpiresAt 9]" "[NamespacePrefix ''a'']"] k in
        \<open>simp add: derived_fields demo_cap_cfg_def demo_request_def issuer_ok_def demo_issuer_def namespace_under_def op_level_of_def\<close>)
qed

theorem attenuation_narrows_witness:
  "caveat_ok demo_request (NamespacePrefix ''a'')"
  using attenuation_narrows [OF demo_attenuated] by blast

section \<open>The caveat chain binds its caveats\<close>

text \<open>The pairs of key and message that recomputing a chain feeds to the HMAC.\<close>

fun chain_inputs :: "(bytes \<Rightarrow> bytes \<Rightarrow> bytes) \<Rightarrow> bytes \<Rightarrow> bytes list \<Rightarrow> (bytes \<times> bytes) list" where
  "chain_inputs h k [] = []"
| "chain_inputs h k (m # ms) = (k, m) # chain_inputs h (h k m) ms"

lemma chain_inputs_snoc: "chain_inputs h k (ms @ [m]) = chain_inputs h k ms @ [(foldl h k ms, m)]"
  by (induction ms arbitrary: k) simp_all

definition inputs_collide :: "(bytes \<Rightarrow> bytes \<Rightarrow> bytes) \<Rightarrow> (bytes \<times> bytes) list \<Rightarrow> (bytes \<times> bytes) list \<Rightarrow> bool" where
  "inputs_collide h xs ys \<longleftrightarrow> (\<exists>x \<in> set xs. \<exists>y \<in> set ys. x \<noteq> y \<and> h (fst x) (snd x) = h (fst y) (snd y))"

lemma collide_last:
  assumes "foldl h k (ms @ [m]) = foldl h k (ns @ [n])" and "m \<noteq> n \<or> foldl h k ms \<noteq> foldl h k ns"
  shows "inputs_collide h (chain_inputs h k (ms @ [m])) (chain_inputs h k (ns @ [n]))"
  using assms unfolding inputs_collide_def chain_inputs_snoc
  by (intro bexI [of _ "(foldl h k ms, m)"] bexI [of _ "(foldl h k ns, n)"]) auto

lemma collide_snoc:
  "inputs_collide h (chain_inputs h k ms) (chain_inputs h k ns) \<Longrightarrow>
     inputs_collide h (chain_inputs h k (ms @ [m])) (chain_inputs h k (ns @ [n]))"
  unfolding inputs_collide_def chain_inputs_snoc set_append by blast

lemma chain_binding:
  assumes "foldl h k (r # cs) = foldl h k (r' # cs')" and "r \<notin> set cs'" and "r' \<notin> set cs"
  shows "(r = r' \<and> cs = cs') \<or> inputs_collide h (chain_inputs h k (r # cs)) (chain_inputs h k (r' # cs'))"
  using assms
proof (induction cs arbitrary: cs' rule: rev_induct)
  case Nil
  show ?case
  proof (cases cs' rule: rev_cases)
    case Nil
    then show ?thesis using Nil.prems collide_last [of h k "[]" r "[]" r'] by auto
  next
    case (snoc ds d)
    then show ?thesis using Nil.prems collide_last [of h k "[]" r "r' # ds" d] by auto
  qed
next
  case (snoc c cs)
  show ?case
  proof (cases cs' rule: rev_cases)
    case Nil
    then show ?thesis using snoc.prems collide_last [of h k "r # cs" c "[]" r'] by auto
  next
    case (snoc ds d)
    note eq = \<open>cs' = ds @ [d]\<close>
    show ?thesis
    proof (cases "c \<noteq> d \<or> foldl h k (r # cs) \<noteq> foldl h k (r' # ds)")
      case True
      then show ?thesis using snoc.prems eq collide_last [of h k "r # cs" c "r' # ds" d] by simp
    next
      case False
      then show ?thesis
        using snoc.IH [of ds] snoc.prems eq collide_snoc [of h k "r # cs" "r' # ds" c d] by auto
    qed
  qed
qed

definition chain_messages :: "'x mac_crypto_scheme \<Rightarrow> capability_token \<Rightarrow> bytes list" where
  "chain_messages cr t = root_cbor cr (root_block_of t) # map (caveat_cbor cr) (ct_ext_caveats t)"

lemma chain_tag_messages: "chain_tag cr k t = foldl (hmac cr) k (chain_messages cr t)"
  by (simp add: chain_tag_def chain_messages_def foldl_map)

lemma caveat_to_value_inject: "caveat_to_value c = caveat_to_value d \<longleftrightarrow> c = d"
  by (cases c; cases d) simp_all

lemma caveat_list_inject: "map caveat_to_value xs = map caveat_to_value ys \<longleftrightarrow> xs = ys"
  by (rule inj_map_eq_map) (simp add: inj_def caveat_to_value_inject)

lemma root_cbor_inject:
  "inj (cbor_encode cr) \<Longrightarrow> root_cbor cr a = root_cbor cr b \<longleftrightarrow> a = b"
  by (auto simp: root_cbor_def inj_eq caveat_list_inject less_char_def)

lemma root_not_caveat: "inj (cbor_encode cr) \<Longrightarrow> root_cbor cr a \<noteq> caveat_cbor cr c"
  by (cases c) (simp_all add: root_cbor_def caveat_cbor_def inj_eq)

text \<open>C26: The tag commits to the whole token. Two tokens of one issuer that are both authentic and carry the
  same tag have the same version, issuer, root id, root caveats and added caveats, in order; removing,
  reordering or rewriting a caveat under a kept tag is detected, or exhibits a collision of the HMAC among
  the inputs of the two verifications.\<close>
theorem caveat_chain_binds:
  assumes "inj (cbor_encode cr)" and "authentic cr ic t" and "authentic cr ic t'" and "ct_tag t = ct_tag t'"
  shows "(root_block_of t = root_block_of t' \<and> ct_ext_caveats t = ct_ext_caveats t') \<or>
    inputs_collide (hmac cr) (chain_inputs (hmac cr) (ic_root_secret ic) (chain_messages cr t))
      (chain_inputs (hmac cr) (ic_root_secret ic) (chain_messages cr t'))"
proof -
  have "foldl (hmac cr) (ic_root_secret ic) (chain_messages cr t) = foldl (hmac cr) (ic_root_secret ic) (chain_messages cr t')"
    using assms(2-4) by (simp add: authentic_def chain_tag_messages)
  moreover have "root_cbor cr (root_block_of s) \<notin> set (map (caveat_cbor cr) cs)" for s cs
    using root_not_caveat [OF assms(1)] by auto
  ultimately have "(root_cbor cr (root_block_of t) = root_cbor cr (root_block_of t') \<and>
        map (caveat_cbor cr) (ct_ext_caveats t) = map (caveat_cbor cr) (ct_ext_caveats t')) \<or>
      inputs_collide (hmac cr) (chain_inputs (hmac cr) (ic_root_secret ic) (chain_messages cr t))
        (chain_inputs (hmac cr) (ic_root_secret ic) (chain_messages cr t'))"
    unfolding chain_messages_def by (intro chain_binding)
  moreover have "inj (caveat_cbor cr)"
    by (rule injI) (simp add: caveat_cbor_def inj_eq [OF assms(1)] caveat_to_value_inject)
  ultimately show ?thesis
    using root_cbor_inject [OF assms(1)] by (auto dest: map_injective)
qed

theorem caveat_chain_binds_witness:
  "(root_block_of (derived demo_mac [] ''k'' ''op'' ''r'' [] []) = root_block_of (derived demo_mac [] ''k'' ''op'' ''r'' [] [])
      \<and> ct_ext_caveats (derived demo_mac [] ''k'' ''op'' ''r'' [] []) = []) \<or>
   inputs_collide (hmac demo_mac) (chain_inputs (hmac demo_mac) ''k'' (chain_messages demo_mac (derived demo_mac [] ''k'' ''op'' ''r'' [] [])))
     (chain_inputs (hmac demo_mac) ''k'' (chain_messages demo_mac (derived demo_mac [] ''k'' ''op'' ''r'' [] [])))"
proof -
  have "inj (cbor_encode demo_mac)" using demo_crypto_inj by (simp add: demo_mac_def)
  moreover have "authentic demo_mac demo_issuer (derived demo_mac [] ''k'' ''op'' ''r'' [] [])"
    using derived_authentic [OF demo_issuer_keys, of "[]"] by (simp add: demo_issuer_def)
  ultimately show ?thesis
    using caveat_chain_binds [of demo_mac demo_issuer "derived demo_mac [] ''k'' ''op'' ''r'' [] []"
        "derived demo_mac [] ''k'' ''op'' ''r'' [] []"] by (simp add: derived_fields demo_issuer_def)
qed

section \<open>The joiner at the gate\<close>

lemma gate_decision:
  "fst (apply_at_gate cr cfg now base action namespace agent_id token) =
     (if base \<noteq> GAllow \<and> cc_enabled cfg \<and>
         (\<exists>tok g. token = Some tok \<and> verify cr tok cfg \<lparr>rq_action = governed_action_name action,
            rq_namespace = namespace, rq_agent_id = agent_id, rq_now = now\<rparr> = Inr g)
      then GAllow else base)"
proof (cases "token = None \<or> base = GAllow \<or> \<not> cc_enabled cfg")
  case True
  then show ?thesis by (auto simp: apply_at_gate_def)
next
  case False
  then obtain tok where "token = Some tok" by auto
  then show ?thesis
    using False
    by (cases "verify cr tok cfg \<lparr>rq_action = governed_action_name action, rq_namespace = namespace,
          rq_agent_id = agent_id, rq_now = now\<rparr>"; cases base)
      (simp_all add: apply_at_gate_def apply_capability_grant_gov_def apply_capability_grant_def Let_def)
qed

text \<open>A capability only ever turns a refusal into an allow, and only a verified one does. At the gate the
  decision is the one the policy made, unless capabilities are enabled and a presented token verifies for
  exactly this action, namespace, agent and time; then it is an allow. A rejected token never worsens a
  decision and an allowed one is never looked at.\<close>
theorem gate_joins_exactly:
  "fst (apply_at_gate cr cfg now base action namespace agent_id token) =
     (if base \<noteq> GAllow \<and> cc_enabled cfg \<and>
         (\<exists>tok g. token = Some tok \<and> verify cr tok cfg \<lparr>rq_action = governed_action_name action,
            rq_namespace = namespace, rq_agent_id = agent_id, rq_now = now\<rparr> = Inr g)
      then GAllow else base)"
  by (rule gate_decision)

section \<open>Where the header and the code part\<close>

text \<open>The header calls the expiry caveat mandatory; verification never asks for one, and a token without
  time caveats is accepted at every time once it is accepted at one.\<close>

lemma caveat_ok_time: "(\<And>t. c \<noteq> ExpiresAt t) \<Longrightarrow> (\<And>t. c \<noteq> NotBefore t) \<Longrightarrow> caveat_ok (req\<lparr>rq_now := now\<rparr>) c = caveat_ok req c"
  by (cases c) auto

lemma unexpiring_token:
  assumes "verify cr t cfg req = Inr g"
    and "\<And>e. ExpiresAt e \<notin> set (ct_root_caveats t) \<union> set (ct_ext_caveats t)"
    and "\<And>e. NotBefore e \<notin> set (ct_root_caveats t) \<union> set (ct_ext_caveats t)"
  shows "verify cr t cfg (req\<lparr>rq_now := now\<rparr>) = Inr g"
proof -
  have "caveat_ok (req\<lparr>rq_now := now\<rparr>) c = caveat_ok req c"
    if "c \<in> set (ct_root_caveats t) \<union> set (ct_ext_caveats t)" for c
    using that assms(2,3) by (intro caveat_ok_time) blast+
  then show ?thesis
    using assms(1) unfolding cap_verify_accepts by (auto simp: issuer_ok_def)
qed

theorem cap_verify_exact_witness:
  "verify demo_mac (derived demo_mac [] ''k'' ''op'' ''r'' [ExpiresAt 9] []) demo_cap_cfg demo_request =
     Inr (grant_of demo_issuer (derived demo_mac [] ''k'' ''op'' ''r'' [ExpiresAt 9] []))"
proof -
  have k: "ic_root_secret demo_issuer = ''k''" by (simp add: demo_issuer_def)
  show ?thesis
    unfolding cap_verify_exact
    by (intro exI [of _ demo_issuer])
      (use derived_authentic [OF demo_issuer_keys, of "[]" "''op''" "''r''" "[ExpiresAt 9]" "[]"] k in
        \<open>simp add: derived_fields demo_cap_cfg_def demo_request_def issuer_ok_def demo_issuer_def namespace_under_def op_level_of_def\<close>)
qed

end
