(* ===== verification/Governance.thy ===== *)
theory Governance
  imports Capability Memory
begin

text \<open>
  The governance gate of \<^verbatim>\<open>src/storage/mod.rs\<close>: namespace standards and their parents, the chain of
  namespaces a policy is inherited along, the resolution of the most specific policy, and
  \<open>enforce_governance\<close>, which every gated write passes.

  \<open>gov_db\<close> holds the three tables involved: the memories, the namespace standards and the pending
  actions. What comes from outside the database is the record \<open>gate_env\<close>: the mode, the capability
  configuration, the clock in both of its formats, the fresh identifier, the JSON library's typed parse
  of a policy, the configured reading agent, the database's date arithmetic (\<open>ge_older s n\<close>: the time \<open>s\<close>
  lies more than \<open>n\<close> seconds back) and whether the audit trail accepts a row. One operation reads its
  clock once.
\<close>

section \<open>Tables\<close>

record ns_meta_row =
  nm_namespace :: string
  nm_standard_id :: string
  nm_parent :: "string option"
  nm_updated_at :: string

record approval =
  av_agent_id :: string
  av_approved_at :: string

text \<open>A row of the pending table; payload and approvals are stored as text.\<close>

record pending_row =
  pr_id :: string
  pr_action_type :: string
  pr_memory_id :: "string option"
  pr_namespace :: string
  pr_payload :: string
  pr_requested_by :: string
  pr_requested_at :: string
  pr_status :: string
  pr_decided_by :: "string option"
  pr_decided_at :: "string option"
  pr_approvals :: string
  pr_default_timeout_seconds :: "int option"
  pr_expired_at :: "string option"

record pending_event =
  pe_event_type :: string
  pe_agent_id :: string
  pe_payload :: "(string \<times> cbor) list"
  pe_timestamp :: string

record gov_db =
  gd_memories :: "memory list"
  gd_meta :: "ns_meta_row list"
  gd_pending :: "pending_row list"
  gd_events :: "pending_event list"

record gate_env =
  ge_mode :: permissions_mode
  ge_caps :: capability_config
  ge_now_secs :: int
  ge_now :: string
  ge_fresh :: string
  ge_policy_from_value :: "json \<Rightarrow> string + core_policy"
  ge_read_caller :: "string option"
  ge_older :: "string \<Rightarrow> int \<Rightarrow> bool"
  ge_audit_ok :: bool

datatype storage_error =
    MemoryNotFound string
  | InvalidArgument string
  | PendingActionNotFound string
  | PendingActionStateInvalid string string
  | ApproverLaundering string string string
  | SqlError sql_error
  | OtherError string

section \<open>Namespace standards\<close>

definition memory_get :: "gov_db \<Rightarrow> string \<Rightarrow> memory option" where
  "memory_get db i = select_by m_id i (gd_memories db)"

definition get_namespace_standard :: "gov_db \<Rightarrow> string \<Rightarrow> string option" where
  "get_namespace_standard db ns = map_option nm_standard_id (select_by nm_namespace ns (gd_meta db))"

definition get_namespace_parent :: "gov_db \<Rightarrow> string \<Rightarrow> string option" where
  "get_namespace_parent db ns =
     (case select_by nm_namespace ns (gd_meta db) of None \<Rightarrow> None | Some r \<Rightarrow> nm_parent r)"

definition dash :: char where
  "dash = CHR ''-''"

text \<open>The candidate cut at its last dash.\<close>

definition cut_at_dash :: "string \<Rightarrow> string option" where
  "cut_at_dash s =
     (if dash \<in> set s then Some (rev (tl (dropWhile (\<lambda>c. c \<noteq> dash) (rev s)))) else None)"

lemma cut_at_dash_shorter: "cut_at_dash s = Some p \<Longrightarrow> length p < length s"
proof -
  assume a: "cut_at_dash s = Some p"
  then have "dash \<in> set (rev s)" and p: "p = rev (tl (dropWhile (\<lambda>c. c \<noteq> dash) (rev s)))"
    by (auto simp: cut_at_dash_def split: if_splits)
  then have "dropWhile (\<lambda>c. c \<noteq> dash) (rev s) \<noteq> []"
    by (auto simp: dropWhile_eq_Nil_conv)
  moreover have "length (dropWhile (\<lambda>c. c \<noteq> dash) (rev s)) \<le> length s"
    by (metis length_dropWhile_le length_rev)
  ultimately show ?thesis
    by (cases "dropWhile (\<lambda>c. c \<noteq> dash) (rev s)") (simp_all add: p)
qed

function auto_detect_parent :: "gov_db \<Rightarrow> string \<Rightarrow> string option" where
  "auto_detect_parent db candidate =
     (case cut_at_dash candidate of
        None \<Rightarrow> None
      | Some c \<Rightarrow>
          if c = [] then None
          else if get_namespace_standard db c \<noteq> None then Some c
          else auto_detect_parent db c)"
  by pat_completeness auto
termination
  by (relation "measure (\<lambda>(db, c). length c)") (auto dest: cut_at_dash_shorter)

declare auto_detect_parent.simps [simp del]

definition set_namespace_standard ::
  "string \<Rightarrow> gov_db \<Rightarrow> string \<Rightarrow> string \<Rightarrow> string option \<Rightarrow> storage_error + gov_db" where
  "set_namespace_standard now db namespace standard_id parent =
     (if memory_get db standard_id = None then Inl (MemoryNotFound standard_id)
      else if parent = Some namespace then Inl (InvalidArgument ''namespace cannot be its own parent'')
      else let resolved_parent = (case parent of Some p \<Rightarrow> Some p | None \<Rightarrow> auto_detect_parent db namespace);
               row = \<lparr>nm_namespace = namespace, nm_standard_id = standard_id, nm_parent = resolved_parent, nm_updated_at = now\<rparr>
           in if select_by nm_namespace namespace (gd_meta db) = None
              then Inr (db\<lparr>gd_meta := gd_meta db @ [row]\<rparr>)
              else Inr (db\<lparr>gd_meta := update_where (\<lambda>r. nm_namespace r = namespace) (\<lambda>r. row) (gd_meta db)\<rparr>))"

definition clear_namespace_standard :: "gov_db \<Rightarrow> string \<Rightarrow> gov_db \<times> bool" where
  "clear_namespace_standard db namespace =
     (db\<lparr>gd_meta := delete_where (\<lambda>r. nm_namespace r = namespace) (gd_meta db)\<rparr>,
      count_where (\<lambda>r. nm_namespace r = namespace) (gd_meta db) > 0)"

section \<open>The inheritance chain\<close>

definition max_explicit_depth :: nat where
  "max_explicit_depth = 8"

fun explicit_above :: "gov_db \<Rightarrow> string list \<Rightarrow> nat \<Rightarrow> string \<Rightarrow> string list \<Rightarrow> string list" where
  "explicit_above db hierarchy 0 current up = up"
| "explicit_above db hierarchy (Suc n) current up =
     (case get_namespace_parent db current of
        None \<Rightarrow> up
      | Some p \<Rightarrow>
          if p \<noteq> ''*'' \<and> p \<notin> set up \<and> p \<notin> set hierarchy
          then explicit_above db hierarchy n p (up @ [p])
          else up)"

definition push_new :: "string list \<Rightarrow> string \<Rightarrow> string list" where
  "push_new chain entry = (if entry \<in> set chain then chain else chain @ [entry])"

definition build_namespace_chain :: "gov_db \<Rightarrow> string \<Rightarrow> string list" where
  "build_namespace_chain db namespace =
     (if namespace = ''*'' then [''*'']
      else let hierarchy = rev (namespace_ancestors namespace);
               up = (case hierarchy of [] \<Rightarrow> [] | rt # _ \<Rightarrow> explicit_above db hierarchy max_explicit_depth rt [])
           in foldl push_new (''*'' # rev up) hierarchy)"

section \<open>Policy resolution\<close>

definition policy_from_metadata :: "gate_env \<Rightarrow> json \<Rightarrow> (string + core_policy) option" where
  "policy_from_metadata env metadata =
     (case json_get ''governance'' metadata of
        None \<Rightarrow> None
      | Some gov \<Rightarrow> if gov = JNull then None else Some (ge_policy_from_value env gov))"

definition read_namespace_policy :: "gate_env \<Rightarrow> gov_db \<Rightarrow> string \<Rightarrow> core_policy option" where
  "read_namespace_policy env db namespace =
     (case get_namespace_standard db namespace of
        None \<Rightarrow> None
      | Some standard_id \<Rightarrow>
          (case memory_get db standard_id of
             None \<Rightarrow> None
           | Some mem \<Rightarrow>
               (case policy_from_metadata env (m_metadata mem) of
                  Some (Inr p) \<Rightarrow> Some p
                | Some (Inl e) \<Rightarrow> None
                | None \<Rightarrow> None)))"

fun first_some :: "('a \<Rightarrow> 'b option) \<Rightarrow> 'a list \<Rightarrow> 'b option" where
  "first_some f [] = None"
| "first_some f (x # xs) = (case f x of Some y \<Rightarrow> Some y | None \<Rightarrow> first_some f xs)"

definition resolve_governance_policy :: "gate_env \<Rightarrow> gov_db \<Rightarrow> string \<Rightarrow> core_policy option" where
  "resolve_governance_policy env db namespace =
     first_some (read_namespace_policy env db) (rev (build_namespace_chain db namespace))"

definition metadata_agent_id :: "json \<Rightarrow> string option" where
  "metadata_agent_id metadata = (case json_get ''agent_id'' metadata of None \<Rightarrow> None | Some v \<Rightarrow> json_as_str v)"

definition namespace_owner :: "gov_db \<Rightarrow> string \<Rightarrow> string option" where
  "namespace_owner db namespace =
     first_some (\<lambda>level.
         case get_namespace_standard db level of
           None \<Rightarrow> None
         | Some standard_id \<Rightarrow>
             (case memory_get db standard_id of None \<Rightarrow> None | Some mem \<Rightarrow> metadata_agent_id (m_metadata mem)))
       (rev (build_namespace_chain db namespace))"

section \<open>The gate\<close>

definition agent_registration_title :: "string \<Rightarrow> string" where
  "agent_registration_title agent_id = ''agent:'' @ agent_id"

definition is_registered_agent :: "gov_db \<Rightarrow> string \<Rightarrow> bool" where
  "is_registered_agent db agent_id \<longleftrightarrow>
     (\<exists>m \<in> set (gd_memories db). m_namespace m = ''_agents'' \<and> m_title m = agent_registration_title agent_id)"

definition quote :: "string \<Rightarrow> string" where
  "quote s = [CHR 0x27] @ s @ [CHR 0x27]"

definition evaluate_level ::
  "gov_db \<Rightarrow> governed_action \<Rightarrow> string \<Rightarrow> governance_level \<Rightarrow> string \<Rightarrow> string option \<Rightarrow> string option \<Rightarrow> gov_decision" where
  "evaluate_level db action namespace level agent_id memory_owner ns_owner =
     (case level of
        LvAny \<Rightarrow> GAllow
      | LvRegistered \<Rightarrow>
          if is_registered_agent db agent_id then GAllow
          else GDeny (with_namespace namespace (refusal_new action LvRegistered agent_id
                 (''caller '' @ quote agent_id @ '' is not a registered agent'')))
      | LvOwner \<Rightarrow>
          (case (case memory_owner of Some o' \<Rightarrow> Some o' | None \<Rightarrow> ns_owner) of
             Some o' \<Rightarrow>
               if o' = agent_id then GAllow
               else GDeny (with_owner o' (with_namespace namespace (refusal_new action LvOwner agent_id
                      (''caller '' @ quote agent_id @ '' is not the owner ('' @ quote o' @ '')''))))
           | None \<Rightarrow> GDeny (with_namespace namespace (refusal_new action LvOwner agent_id
                  ''owner-level action has no resolvable owner'')))
      | LvApprove \<Rightarrow> GPending [])"

definition effective_scope :: "json \<Rightarrow> memory_scope" where
  "effective_scope payload =
     (case (case (case json_get ''metadata'' payload of None \<Rightarrow> None | Some m \<Rightarrow> json_get ''scope'' m) of
              None \<Rightarrow> None | Some v \<Rightarrow> json_as_str v) of
        None \<Rightarrow> ScPrivate
      | Some s \<Rightarrow> (case memory_scope_from_str s of None \<Rightarrow> ScPrivate | Some sc \<Rightarrow> sc))"

definition required_scope_refusal ::
  "memory_scope \<Rightarrow> json \<Rightarrow> governed_action \<Rightarrow> governance_level \<Rightarrow> string \<Rightarrow> string \<Rightarrow> governance_refusal option" where
  "required_scope_refusal required payload action denied_level agent_id namespace =
     (let effective = effective_scope payload
      in if effective = required then None
         else Some (with_namespace namespace (refusal_new action denied_level agent_id
                (''namespace requires scope '' @ quote (memory_scope_as_str required) @
                 '' but write declared scope '' @ quote (memory_scope_as_str effective)))))"

definition action_level :: "governed_action \<Rightarrow> core_policy \<Rightarrow> governance_level" where
  "action_level action p =
     (case action of GovStore \<Rightarrow> cp_write p | GovDelete \<Rightarrow> cp_delete p | GovPromote \<Rightarrow> cp_promote p
      | GovReflect \<Rightarrow> cp_write p)"

definition queue_pending_action ::
  "json codec \<Rightarrow> gate_env \<Rightarrow> gov_db \<Rightarrow> governed_action \<Rightarrow> string \<Rightarrow> string option \<Rightarrow> string \<Rightarrow> json \<Rightarrow> gov_db \<times> (storage_error + string)" where
  "queue_pending_action c env db action namespace memory_id requested_by payload =
     (case insert_row pr_id
         \<lparr>pr_id = ge_fresh env, pr_action_type = governed_action_as_str action, pr_memory_id = memory_id,
          pr_namespace = namespace, pr_payload = json_to_string c payload, pr_requested_by = requested_by,
          pr_requested_at = ge_now env, pr_status = ''pending'', pr_decided_by = None, pr_decided_at = None,
          pr_approvals = ''[]'', pr_default_timeout_seconds = None, pr_expired_at = None\<rparr> (gd_pending db) of
        Inl e \<Rightarrow> (db, Inl (SqlError e))
      | Inr rows \<Rightarrow> (db\<lparr>gd_pending := rows\<rparr>, Inr (ge_fresh env)))"

definition policy_decision ::
  "gov_db \<Rightarrow> core_policy \<Rightarrow> governed_action \<Rightarrow> string \<Rightarrow> string \<Rightarrow> string option \<Rightarrow> json \<Rightarrow> gov_decision" where
  "policy_decision db policy action namespace agent_id memory_owner payload =
     (let ns_owner = (if action = GovStore then namespace_owner db namespace else None);
          d = evaluate_level db action namespace (action_level action policy) agent_id memory_owner ns_owner
      in if action = GovStore \<and> d = GAllow
         then (case cp_required_scope policy of
                 None \<Rightarrow> d
               | Some required \<Rightarrow>
                   (case required_scope_refusal required payload action (cp_write policy) agent_id namespace of
                      None \<Rightarrow> d
                    | Some refusal \<Rightarrow> GDeny refusal))
         else d)"

definition enforce_governance ::
  "'x mac_crypto_scheme \<Rightarrow> json codec \<Rightarrow> gate_env \<Rightarrow> gov_db \<Rightarrow> governed_action \<Rightarrow> string \<Rightarrow> string \<Rightarrow> string option
     \<Rightarrow> string option \<Rightarrow> json \<Rightarrow> capability_token option \<Rightarrow> gov_db \<times> (storage_error + gov_decision)" where
  "enforce_governance cr c env db action namespace agent_id memory_id memory_owner payload capability =
     (if ge_mode env = Off then (db, Inr GAllow)
      else case resolve_governance_policy env db namespace of
             None \<Rightarrow> (db, Inr GAllow)
           | Some policy \<Rightarrow>
               let decision = policy_decision db policy action namespace agent_id memory_owner payload
               in if ge_mode env = Advisory then (db, Inr GAllow)
                  else let decision = fst (apply_at_gate cr (ge_caps env) (ge_now_secs env) decision action
                                             namespace agent_id capability)
                       in (case decision of
                             GPending i \<Rightarrow>
                               (case queue_pending_action c env db action namespace memory_id agent_id payload of
                                  (db', Inl e) \<Rightarrow> (db', Inl e)
                                | (db', Inr pending_id) \<Rightarrow> (db', Inr (GPending pending_id)))
                           | _ \<Rightarrow> (db, Inr decision)))"

section \<open>The chain\<close>

lemma ancestors_from_lengths:
  "sorted_wrt (\<lambda>a b. length b < length a) (ancestors_from ns)"
  "a \<in> set (ancestors_from ns) \<Longrightarrow> length a \<le> length ns"
proof (induction ns arbitrary: a rule: ancestors_from.induct)
  case (1 ns)
  { case 2
    then show ?case
      using 1(2) by (cases "namespace_parent ns")
        (fastforce simp: ancestors_from.simps [of ns] dest: namespace_parent_shorter split: if_splits)+ }
  { case 1
    show ?case
    proof (cases "\<exists>p. namespace_parent ns = Some p \<and> p \<noteq> []")
      case True
      then obtain p where p: "namespace_parent ns = Some p" "p \<noteq> []" by blast
      have "length a < length ns" if "a \<in> set (ancestors_from p)" for a
        using "1.IH"(2) [OF p that] namespace_parent_shorter [OF p(1)] by linarith
      then show ?thesis
        using "1.IH"(1) [OF p] p by (simp add: ancestors_from.simps [of ns])
    next
      case False
      then show ?thesis by (auto simp: ancestors_from.simps [of ns] split: option.split)
    qed }
qed

lemma distinct_ancestors: "distinct (namespace_ancestors ns)"
proof -
  have "sorted_wrt (\<lambda>a b. a \<noteq> b) (ancestors_from ns)"
    by (rule sorted_wrt_mono_rel [OF _ ancestors_from_lengths(1)]) auto
  moreover have "sorted_wrt (\<lambda>a b. a \<noteq> b) xs \<Longrightarrow> distinct xs" for xs :: "string list"
    by (induction xs) auto
  ultimately show ?thesis by (simp add: namespace_ancestors_def)
qed

lemma explicit_above_props:
  "set up \<inter> insert ''*'' (set hierarchy) = {} \<Longrightarrow> distinct up \<Longrightarrow>
     set (explicit_above db hierarchy n current up) \<inter> insert ''*'' (set hierarchy) = {} \<and>
     distinct (explicit_above db hierarchy n current up) \<and>
     length (explicit_above db hierarchy n current up) \<le> length up + n"
proof (induction n arbitrary: current up)
  case (Suc n)
  show ?case
  proof (cases "get_namespace_parent db current")
    case (Some p)
    then show ?thesis using Suc.prems Suc.IH [of "up @ [p]" p] by auto
  qed (use Suc.prems in simp)
qed auto

lemma foldl_push_new: "foldl push_new acc es = acc @ fold (\<lambda>e ds. if e \<in> set acc \<or> e \<in> set ds then ds else ds @ [e]) es []"
proof (induction es rule: rev_induct)
  case (snoc e es)
  then show ?case by (simp add: push_new_def)
qed simp

lemma foldl_push_new_distinct:
  "distinct es \<Longrightarrow> foldl push_new acc es = acc @ filter (\<lambda>e. e \<notin> set acc) es"
proof (induction es rule: rev_induct)
  case (snoc e es)
  then show ?case by (simp add: push_new_def)
qed simp

lemma chain_shape:
  assumes "namespace \<noteq> ''*''"
  obtains up where "build_namespace_chain db namespace =
      ''*'' # rev up @ filter (\<lambda>e. e \<noteq> ''*'') (rev (namespace_ancestors namespace))"
    and "set up \<inter> insert ''*'' (set (namespace_ancestors namespace)) = {}" and "distinct up" and "length up \<le> 8"
proof -
  let ?h = "rev (namespace_ancestors namespace)"
  define up where "up = (case ?h of [] \<Rightarrow> [] | rt # _ \<Rightarrow> explicit_above db ?h max_explicit_depth rt [])"
  have up: "set up \<inter> insert ''*'' (set ?h) = {} \<and> distinct up \<and> length up \<le> 8"
  proof (cases ?h)
    case (Cons rt t)
    then show ?thesis
      using explicit_above_props [of "[]" ?h db max_explicit_depth rt]
      by (simp add: up_def max_explicit_depth_def)
  qed (simp add: up_def)
  have "build_namespace_chain db namespace = foldl push_new (''*'' # rev up) ?h"
    using assms by (simp add: build_namespace_chain_def Let_def up_def)
  also have "\<dots> = (''*'' # rev up) @ filter (\<lambda>e. e \<notin> set (''*'' # rev up)) ?h"
    by (rule foldl_push_new_distinct) (simp add: distinct_ancestors)
  also have "filter (\<lambda>e. e \<notin> set (''*'' # rev up)) ?h = filter (\<lambda>e. e \<noteq> ''*'') ?h"
    using up by (intro filter_cong) auto
  finally show ?thesis using up that [of up] by simp
qed

lemma namespace_first:
  assumes "namespace \<noteq> []" and "namespace \<noteq> ''*''"
  shows "\<exists>rest. rev (build_namespace_chain db namespace) = namespace # rest"
proof -
  obtain up where c: "build_namespace_chain db namespace =
      ''*'' # rev up @ filter (\<lambda>e. e \<noteq> ''*'') (rev (namespace_ancestors namespace))"
    using chain_shape [OF assms(2)] by metis
  have "\<exists>t. namespace_ancestors namespace = namespace # t"
    using assms(1) by (simp add: namespace_ancestors_def ancestors_from.simps [of namespace])
  then show ?thesis using assms(2) by (auto simp: c rev_filter)
qed

section \<open>Which policy governs\<close>

lemma first_some_Some:
  "first_some f xs = Some y \<longleftrightarrow> (\<exists>pre x post. xs = pre @ x # post \<and> f x = Some y \<and> (\<forall>z \<in> set pre. f z = None))"
proof (induction xs)
  case (Cons x xs)
  show ?case (is "_ \<longleftrightarrow> (\<exists>pre z post. ?at pre z post)")
  proof (cases "f x")
    case None
    have "(\<exists>pre z post. ?at pre z post) \<longleftrightarrow>
        (\<exists>pre z post. xs = pre @ z # post \<and> f z = Some y \<and> (\<forall>z \<in> set pre. f z = None))" (is "?l \<longleftrightarrow> ?r")
    proof
      assume ?l
      then obtain pre z post where a: "?at pre z post" by blast
      then obtain pre' where "pre = x # pre'" using None by (cases pre) auto
      then show ?r using a by auto
    next
      assume ?r
      then obtain pre z post where "xs = pre @ z # post \<and> f z = Some y \<and> (\<forall>z \<in> set pre. f z = None)" by blast
      then have "?at (x # pre) z post" using None by simp
      then show ?l by blast
    qed
    then show ?thesis using Cons None by simp
  next
    case (Some v)
    have "(\<exists>pre z post. ?at pre z post) \<longleftrightarrow> v = y"
    proof
      assume "\<exists>pre z post. ?at pre z post"
      then obtain pre z post where a: "?at pre z post" by blast
      then show "v = y" using Some by (cases pre) auto
    next
      assume "v = y"
      then have "?at [] x xs" using Some by simp
      then show "\<exists>pre z post. ?at pre z post" by blast
    qed
    then show ?thesis using Some by simp
  qed
qed simp

lemma first_some_None: "first_some f xs = None \<longleftrightarrow> (\<forall>x \<in> set xs. f x = None)"
  by (induction xs) (auto split: option.splits)

lemma distinct_chain: "distinct (build_namespace_chain db namespace)"
proof (cases "namespace = ''*''")
  case False
  then obtain up where "build_namespace_chain db namespace =
      ''*'' # rev up @ filter (\<lambda>e. e \<noteq> ''*'') (rev (namespace_ancestors namespace))"
    "set up \<inter> insert ''*'' (set (namespace_ancestors namespace)) = {}" "distinct up"
    using chain_shape by metis
  then show ?thesis using distinct_ancestors by auto
qed (simp add: build_namespace_chain_def)

text \<open>C19: The most specific policy governs. A namespace is governed exactly when some namespace of its
  inheritance chain carries a readable policy, and the policy that governs is the one of the first such
  namespace from the leaf: its own policy if it has one, then its slash ancestors from the nearest, then
  at most eight explicit parents, then the global one. The walk always ends, on cyclic parents too, and
  visits no namespace twice.\<close>
theorem most_specific_policy:
  "(resolve_governance_policy env db namespace = Some p \<longleftrightarrow>
      (\<exists>pre level post. rev (build_namespace_chain db namespace) = pre @ level # post \<and>
         read_namespace_policy env db level = Some p \<and> (\<forall>l \<in> set pre. read_namespace_policy env db l = None))) \<and>
   distinct (build_namespace_chain db namespace) \<and>
   length (build_namespace_chain db namespace) \<le> 9 + length (namespace_ancestors namespace) \<and>
   (namespace \<noteq> [] \<longrightarrow> hd (rev (build_namespace_chain db namespace)) = namespace)"
proof -
  have "length (build_namespace_chain db namespace) \<le> 9 + length (namespace_ancestors namespace)"
  proof (cases "namespace = ''*''")
    case False
    then obtain up where "build_namespace_chain db namespace =
        ''*'' # rev up @ filter (\<lambda>e. e \<noteq> ''*'') (rev (namespace_ancestors namespace))" "length up \<le> 8"
      using chain_shape by metis
    then show ?thesis
      using length_filter_le [of "\<lambda>e. e \<noteq> ''*''" "rev (namespace_ancestors namespace)"] by simp
  qed (simp add: build_namespace_chain_def)
  moreover have "namespace \<noteq> [] \<longrightarrow> hd (rev (build_namespace_chain db namespace)) = namespace"
  proof (cases "namespace = ''*''")
    case False
    then show ?thesis using namespace_first [of namespace db] by auto
  qed (simp add: build_namespace_chain_def)
  ultimately show ?thesis
    by (simp add: resolve_governance_policy_def first_some_Some distinct_chain)
qed

section \<open>Exactly the permitted writes\<close>

text \<open>What a policy asks of a write, read off its level and its required scope.\<close>

definition permitted ::
  "gov_db \<Rightarrow> core_policy \<Rightarrow> governed_action \<Rightarrow> string \<Rightarrow> string \<Rightarrow> string option \<Rightarrow> json \<Rightarrow> bool" where
  "permitted db p action namespace agent_id memory_owner payload \<longleftrightarrow>
     (case action_level action p of
        LvAny \<Rightarrow> True
      | LvRegistered \<Rightarrow> is_registered_agent db agent_id
      | LvOwner \<Rightarrow> memory_owner = Some agent_id \<or>
          memory_owner = None \<and> action = GovStore \<and> namespace_owner db namespace = Some agent_id
      | LvApprove \<Rightarrow> False) \<and>
     (action = GovStore \<longrightarrow> cp_required_scope p = None \<or> cp_required_scope p = Some (effective_scope payload))"

definition capability_covers ::
  "'x mac_crypto_scheme \<Rightarrow> gate_env \<Rightarrow> governed_action \<Rightarrow> string \<Rightarrow> string \<Rightarrow> capability_token option \<Rightarrow> bool" where
  "capability_covers cr env action namespace agent_id token \<longleftrightarrow>
     cc_enabled (ge_caps env) \<and>
     (\<exists>tok g. token = Some tok \<and> verify cr tok (ge_caps env) \<lparr>rq_action = governed_action_name action,
        rq_namespace = namespace, rq_agent_id = agent_id, rq_now = ge_now_secs env\<rparr> = Inr g)"

definition queued_row :: "json codec \<Rightarrow> gate_env \<Rightarrow> governed_action \<Rightarrow> string \<Rightarrow> string option \<Rightarrow> string \<Rightarrow> json \<Rightarrow> pending_row" where
  "queued_row c env action namespace memory_id requested_by payload =
     \<lparr>pr_id = ge_fresh env, pr_action_type = governed_action_as_str action, pr_memory_id = memory_id,
      pr_namespace = namespace, pr_payload = json_to_string c payload, pr_requested_by = requested_by,
      pr_requested_at = ge_now env, pr_status = ''pending'', pr_decided_by = None, pr_decided_at = None,
      pr_approvals = ''[]'', pr_default_timeout_seconds = None, pr_expired_at = None\<rparr>"

lemma policy_decision_allow:
  "policy_decision db p action namespace agent_id memory_owner payload = GAllow \<longleftrightarrow>
     permitted db p action namespace agent_id memory_owner payload"
  by (auto simp: policy_decision_def permitted_def evaluate_level_def required_scope_refusal_def Let_def
      split: governance_level.splits option.splits if_splits)

lemma policy_decision_pending:
  "(\<exists>i. policy_decision db p action namespace agent_id memory_owner payload = GPending i) \<longleftrightarrow>
     action_level action p = LvApprove"
  by (auto simp: policy_decision_def evaluate_level_def required_scope_refusal_def Let_def
      split: governance_level.splits option.splits if_splits)

lemma enforce_outcome:
  assumes "ge_mode env = Enforce" and "resolve_governance_policy env db namespace = Some p"
  shows "enforce_governance cr c env db action namespace agent_id memory_id memory_owner payload token =
    (if permitted db p action namespace agent_id memory_owner payload \<or>
        capability_covers cr env action namespace agent_id token then (db, Inr GAllow)
     else if action_level action p \<noteq> LvApprove
       then (db, Inr (policy_decision db p action namespace agent_id memory_owner payload))
     else if ge_fresh env \<in> pr_id ` set (gd_pending db) then (db, Inl (SqlError PrimaryKeyViolation))
     else (db\<lparr>gd_pending := gd_pending db @ [queued_row c env action namespace memory_id agent_id payload]\<rparr>,
           Inr (GPending (ge_fresh env))))"
proof -
  let ?d = "policy_decision db p action namespace agent_id memory_owner payload"
  have gate: "fst (apply_at_gate cr (ge_caps env) (ge_now_secs env) ?d action namespace agent_id token) =
      (if ?d \<noteq> GAllow \<and> capability_covers cr env action namespace agent_id token then GAllow else ?d)"
    by (simp add: gate_decision capability_covers_def)
  show ?thesis
  proof (cases "permitted db p action namespace agent_id memory_owner payload \<or>
      capability_covers cr env action namespace agent_id token")
    case True
    then have "fst (apply_at_gate cr (ge_caps env) (ge_now_secs env) ?d action namespace agent_id token) = GAllow"
      unfolding gate by (auto simp: policy_decision_allow)
    then show ?thesis
      using assms True by (simp add: enforce_governance_def Let_def)
  next
    case False
    then have d: "?d \<noteq> GAllow" by (simp add: policy_decision_allow)
    have "fst (apply_at_gate cr (ge_caps env) (ge_now_secs env) ?d action namespace agent_id token) = ?d"
      unfolding gate using False by simp
    then have e: "enforce_governance cr c env db action namespace agent_id memory_id memory_owner payload token =
        (case ?d of GPending i \<Rightarrow>
            (case queue_pending_action c env db action namespace memory_id agent_id payload of
               (db', Inl e) \<Rightarrow> (db', Inl e)
             | (db', Inr pending_id) \<Rightarrow> (db', Inr (GPending pending_id)))
         | _ \<Rightarrow> (db, Inr ?d))"
      using assms by (auto simp: enforce_governance_def Let_def split: gov_decision.split)
    show ?thesis
      using False d policy_decision_pending [of db p action namespace agent_id memory_owner payload]
      unfolding e by (cases ?d) (auto simp: queue_pending_action_def queued_row_def insert_row_def select_by_None_iff)
  qed
qed

text \<open>The permissions as a table of the level.\<close>

lemma ungoverned_outcome:
  "ge_mode env = Off \<or> ge_mode env = Advisory \<or> resolve_governance_policy env db namespace = None \<Longrightarrow>
     enforce_governance cr c env db action namespace agent_id memory_id memory_owner payload token = (db, Inr GAllow)"
  by (auto simp: enforce_governance_def Let_def split: option.split)

text \<open>C18: In enforce mode the gate lets through exactly the permitted writes. The answer is allow exactly when
  no policy governs the namespace, or the caller meets the governing policy's level and, for a store, its
  required scope, or a presented capability verifies for this very request. The database changes only when
  the answer is pending, which happens only at the approve level, and then it has gained exactly one
  undecided row that carries the request, under the fresh identifier the caller is told.\<close>
theorem governed_write_exact:
  assumes "ge_mode env = Enforce"
    and "enforce_governance cr c env db action namespace agent_id memory_id memory_owner payload token = (db', r)"
  shows "(r = Inr GAllow \<longleftrightarrow>
      (case resolve_governance_policy env db namespace of
         None \<Rightarrow> True
       | Some p \<Rightarrow> permitted db p action namespace agent_id memory_owner payload \<or>
           capability_covers cr env action namespace agent_id token)) \<and>
    (db' = db \<and> (\<forall>i. r \<noteq> Inr (GPending i)) \<or>
     (\<exists>p. resolve_governance_policy env db namespace = Some p \<and> action_level action p = LvApprove) \<and>
       r = Inr (GPending (ge_fresh env)) \<and> ge_fresh env \<notin> pr_id ` set (gd_pending db) \<and>
       db' = db\<lparr>gd_pending := gd_pending db @ [queued_row c env action namespace memory_id agent_id payload]\<rparr>)"
proof (cases "resolve_governance_policy env db namespace")
  case None
  then have "enforce_governance cr c env db action namespace agent_id memory_id memory_owner payload token =
      (db, Inr GAllow)"
    by (intro ungoverned_outcome) simp
  then show ?thesis using assms(2) None by simp
next
  case (Some p)
  let ?d = "policy_decision db p action namespace agent_id memory_owner payload"
  have d: "action_level action p \<noteq> LvApprove \<Longrightarrow> ?d \<noteq> GPending i" for i
    using policy_decision_pending [of db p action namespace agent_id memory_owner payload] by blast
  show ?thesis
    using enforce_outcome [OF assms(1) Some, of cr c action agent_id memory_id memory_owner payload token]
    unfolding assms(2)
    using Some d policy_decision_allow [of db p action namespace agent_id memory_owner payload]
    by (auto split: if_splits)
qed

text \<open>A namespace whose standard asks for approval, a write into it, and the row it leaves.\<close>

definition demo_json :: "json codec" where
  "demo_json = \<lparr>json_to_string = (\<lambda>v. ''payload''), json_from_str = (\<lambda>s. Some JNull), json_null = JNull\<rparr>"

definition demo_gate :: gate_env where
  "demo_gate = \<lparr>ge_mode = Enforce, ge_caps = \<lparr>cc_enabled = False, cc_issuers = []\<rparr>, ge_now_secs = 0,
     ge_now = ''t'', ge_fresh = ''p1'',
     ge_policy_from_value = (\<lambda>v. Inr (core_policy_default\<lparr>cp_write := LvApprove\<rparr>)), ge_read_caller = None,
     ge_older = (\<lambda>s n. True), ge_audit_ok = True\<rparr>"

definition demo_standard :: memory where
  "demo_standard =
     \<lparr>m_id = ''s'', m_tier = Long, m_namespace = ''ops'', m_title = ''standard'', m_content = ''c'',
      m_tags = [], m_priority = 5, m_confidence = Finite 1, m_source = ''user'',
      m_access_count = 0, m_created_at = ''2026'', m_updated_at = ''2026'',
      m_last_accessed_at = None, m_expires_at = None, m_metadata = JObj [(''governance'', JObj [])],
      m_reflection_depth = 0, m_memory_kind = Observation, m_entity_id = None,
      m_persona_version = None, m_citations = [], m_source_uri = None, m_source_span = None,
      m_confidence_source = CallerProvided, m_confidence_signals = None,
      m_confidence_decayed_at = None, m_version = 1, m_lifecycle_state = Open, m_cid = None\<rparr>"

definition demo_gov :: gov_db where
  "demo_gov = \<lparr>gd_memories = [demo_standard],
     gd_meta = [\<lparr>nm_namespace = ''ops'', nm_standard_id = ''s'', nm_parent = None, nm_updated_at = ''t''\<rparr>],
     gd_pending = [], gd_events = []\<rparr>"

lemma demo_policy:
  "resolve_governance_policy demo_gate demo_gov ''ops'' = Some (core_policy_default\<lparr>cp_write := LvApprove\<rparr>)"
proof -
  have "ancestors_from ''ops'' = [''ops'']"
    by (simp add: ancestors_from.simps [of "''ops''"] namespace_parent_def slash_def)
  then have "build_namespace_chain demo_gov ''ops'' = [''*'', ''ops'']"
    by (simp add: build_namespace_chain_def namespace_ancestors_def max_explicit_depth_def numeral_eq_Suc
        get_namespace_parent_def demo_gov_def table_simps push_new_def)
  then show ?thesis
    by (simp add: resolve_governance_policy_def read_namespace_policy_def get_namespace_standard_def
        memory_get_def demo_gov_def table_simps demo_standard_def policy_from_metadata_def demo_gate_def
        )
qed

theorem governed_write_exact_witness:
  "enforce_governance demo_mac demo_json demo_gate demo_gov GovStore ''ops'' ''alice'' None None JNull None =
     (demo_gov\<lparr>gd_pending := [queued_row demo_json demo_gate GovStore ''ops'' None ''alice'' JNull]\<rparr>,
      Inr (GPending ''p1''))"
proof -
  have "\<not> permitted demo_gov (core_policy_default\<lparr>cp_write := LvApprove\<rparr>) GovStore ''ops'' ''alice'' None JNull"
    by (simp add: permitted_def action_level_def)
  moreover have "\<not> capability_covers demo_mac demo_gate GovStore ''ops'' ''alice'' None"
    by (simp add: capability_covers_def)
  moreover obtain db' r where e:
    "enforce_governance demo_mac demo_json demo_gate demo_gov GovStore ''ops'' ''alice'' None None JNull None = (db', r)"
    by (metis surj_pair)
  moreover have "ge_mode demo_gate = Enforce" by (simp add: demo_gate_def)
  ultimately show ?thesis
    using governed_write_exact [of demo_gate demo_mac demo_json demo_gov GovStore "''ops''" "''alice''" None None JNull None db' r]
      enforce_outcome [OF _ demo_policy, of demo_mac demo_json GovStore "''alice''" None None JNull None]
    by (auto simp: demo_policy action_level_def demo_gov_def demo_gate_def)
qed

theorem most_specific_policy_witness:
  "\<exists>pre level post. rev (build_namespace_chain demo_gov ''ops'') = pre @ level # post \<and>
     read_namespace_policy demo_gate demo_gov level = Some (core_policy_default\<lparr>cp_write := LvApprove\<rparr>) \<and>
     (\<forall>l \<in> set pre. read_namespace_policy demo_gate demo_gov l = None)"
  using most_specific_policy [of demo_gate demo_gov "''ops''" "core_policy_default\<lparr>cp_write := LvApprove\<rparr>"] demo_policy
  by blast

end
