(* ===== verification/Approvals.thy ===== *)
theory Approvals
  imports Governance Text
begin

text \<open>
  The approval queue of \<^verbatim>\<open>src/storage/mod.rs\<close>: the pending rows the gate leaves behind, the decision
  statement, the approver-aware approve with its human, designated-agent and consensus arms, the timeout
  sweep, the admission checks of an execution and the rows a peer sends.

  A run is a sequence of operations, each with its own environment; the sweep is split into its selection
  and its commit, so that a run may place other operations between them.
\<close>

section \<open>Reading rows\<close>

record pending_action =
  pa_id :: string
  pa_action_type :: string
  pa_memory_id :: "string option"
  pa_namespace :: string
  pa_payload :: json
  pa_requested_by :: string
  pa_requested_at :: string
  pa_status :: string
  pa_decided_by :: "string option"
  pa_decided_at :: "string option"
  pa_approvals :: "approval list"

text \<open>The two text columns are printed and parsed by the JSON library.\<close>

record row_codec =
  rc_payload :: "json codec"
  rc_approvals :: "approval list codec"

definition parse_payload :: "row_codec \<Rightarrow> string \<Rightarrow> json" where
  "parse_payload rc s = (case json_from_str (rc_payload rc) s of Some v \<Rightarrow> v | None \<Rightarrow> JNull)"

definition parse_approvals :: "row_codec \<Rightarrow> string \<Rightarrow> approval list" where
  "parse_approvals rc s = (case json_from_str (rc_approvals rc) s of Some v \<Rightarrow> v | None \<Rightarrow> [])"

definition row_to_pending :: "row_codec \<Rightarrow> pending_row \<Rightarrow> pending_action" where
  "row_to_pending rc r =
     \<lparr>pa_id = pr_id r, pa_action_type = pr_action_type r, pa_memory_id = pr_memory_id r,
      pa_namespace = pr_namespace r, pa_payload = parse_payload rc (pr_payload r),
      pa_requested_by = pr_requested_by r, pa_requested_at = pr_requested_at r, pa_status = pr_status r,
      pa_decided_by = pr_decided_by r, pa_decided_at = pr_decided_at r,
      pa_approvals = parse_approvals rc (pr_approvals r)\<rparr>"

definition get_pending_action :: "row_codec \<Rightarrow> gov_db \<Rightarrow> string \<Rightarrow> pending_action option" where
  "get_pending_action rc db i = map_option (row_to_pending rc) (select_by pr_id i (gd_pending db))"

definition list_pending_actions :: "row_codec \<Rightarrow> gov_db \<Rightarrow> string option \<Rightarrow> nat \<Rightarrow> pending_action list" where
  "list_pending_actions rc db status n =
     map (row_to_pending rc)
       (take n (rev (sort_key pr_requested_at
          (rev (filter (\<lambda>r. status = None \<or> status = Some (pr_status r)) (gd_pending db))))))"

definition count_pending_actions_by_status :: "gov_db \<Rightarrow> string \<Rightarrow> nat" where
  "count_pending_actions_by_status db status = count_where (\<lambda>r. pr_status r = status) (gd_pending db)"

section \<open>Rows from a peer\<close>

definition upsert_pending_action :: "row_codec \<Rightarrow> gov_db \<Rightarrow> pending_action \<Rightarrow> gov_db" where
  "upsert_pending_action rc db pa =
     (let put = (\<lambda>timeout expired.
            \<lparr>pr_id = pa_id pa, pr_action_type = pa_action_type pa, pr_memory_id = pa_memory_id pa,
             pr_namespace = pa_namespace pa, pr_payload = json_to_string (rc_payload rc) (pa_payload pa),
             pr_requested_by = pa_requested_by pa, pr_requested_at = pa_requested_at pa,
             pr_status = pa_status pa, pr_decided_by = pa_decided_by pa, pr_decided_at = pa_decided_at pa,
             pr_approvals = json_to_string (rc_approvals rc) (pa_approvals pa),
             pr_default_timeout_seconds = timeout, pr_expired_at = expired\<rparr>)
      in if select_by pr_id (pa_id pa) (gd_pending db) = None
         then db\<lparr>gd_pending := gd_pending db @ [put None None]\<rparr>
         else db\<lparr>gd_pending := update_where (\<lambda>r. pr_id r = pa_id pa)
                (\<lambda>r. put (pr_default_timeout_seconds r) (pr_expired_at r)) (gd_pending db)\<rparr>)"

section \<open>The audit row of a decision\<close>

definition emit_pending_action_event ::
  "gate_env \<Rightarrow> gov_db \<Rightarrow> pending_action \<Rightarrow> string \<Rightarrow> string option \<Rightarrow> gov_db" where
  "emit_pending_action_event env db pa event_type decided_by_override =
     (let decided_by = (case decided_by_override of Some d \<Rightarrow> d
            | None \<Rightarrow> (case pa_decided_by pa of Some d \<Rightarrow> d | None \<Rightarrow> []));
          payload = [(''action_type'', CText (pa_action_type pa)), (''decided_by'', CText decided_by),
                     (''namespace'', CText (pa_namespace pa)), (''pending_id'', CText (pa_id pa)),
                     (''requested_by'', CText (pa_requested_by pa)), (''status'', CText (pa_status pa)),
                     (''timestamp'', CText (ge_now env))];
          agent_id = (if event_type = ''pending_action.timed_out'' then pa_requested_by pa else decided_by)
      in if ge_audit_ok env
         then db\<lparr>gd_events := gd_events db @ [\<lparr>pe_event_type = event_type, pe_agent_id = agent_id,
                pe_payload = payload, pe_timestamp = ge_now env\<rparr>]\<rparr>
         else db)"

section \<open>Deciding\<close>

definition decide_pending_action ::
  "row_codec \<Rightarrow> gate_env \<Rightarrow> gov_db \<Rightarrow> string \<Rightarrow> bool \<Rightarrow> string \<Rightarrow> gov_db \<times> bool" where
  "decide_pending_action rc env db i approve decided_by =
     (let new_status = (if approve then ''approved'' else ''rejected'');
          hit = (\<lambda>r. pr_id r = i \<and> pr_status r = ''pending'');
          updated = count_where hit (gd_pending db);
          db' = db\<lparr>gd_pending := update_where hit
            (\<lambda>r. r\<lparr>pr_status := new_status, pr_decided_by := Some decided_by, pr_decided_at := Some (ge_now env)\<rparr>)
            (gd_pending db)\<rparr>
      in (if updated > 0 \<and> \<not> approve
          then (case get_pending_action rc db' i of
                  Some pa \<Rightarrow> emit_pending_action_event env db' pa ''pending_action.denied'' (Some decided_by)
                | None \<Rightarrow> db')
          else db', updated > 0))"

definition payload_agent_id :: "json \<Rightarrow> string option" where
  "payload_agent_id payload =
     (case (case json_get ''agent_id'' payload of None \<Rightarrow> None | Some v \<Rightarrow> json_as_str v) of
        Some a \<Rightarrow> Some a
      | None \<Rightarrow> (case (case json_get ''metadata'' payload of None \<Rightarrow> None | Some m \<Rightarrow> json_get ''agent_id'' m) of
                   None \<Rightarrow> None | Some v \<Rightarrow> json_as_str v))"

definition verify_payload_agent_id :: "pending_action \<Rightarrow> storage_error + unit" where
  "verify_payload_agent_id pa =
     (case payload_agent_id (pa_payload pa) of
        Some claimed \<Rightarrow>
          if claimed \<noteq> pa_requested_by pa then Inl (ApproverLaundering (pa_id pa) claimed (pa_requested_by pa))
          else Inr ()
      | None \<Rightarrow> Inr ())"

datatype approve_outcome = ApNotFound | ApRejected string | ApPending nat nat | ApApproved

datatype approve_surface = HttpSurface | LocalOperator

definition self_approval_refused :: string where
  "self_approval_refused = ''self-approval refused: the requester cannot approve their own Human-gated pending action''"

definition decision_write_failed :: string where
  "decision_write_failed = ''decision write failed''"

definition finish_approval :: "string \<Rightarrow> gov_db \<times> bool \<Rightarrow> gov_db \<times> approve_outcome" where
  "finish_approval msg res = (fst res, if snd res then ApApproved else ApRejected msg)"

definition approve_human ::
  "row_codec \<Rightarrow> gate_env \<Rightarrow> gov_db \<Rightarrow> string \<Rightarrow> string \<Rightarrow> approve_surface \<Rightarrow> pending_action \<Rightarrow> gov_db \<times> approve_outcome" where
  "approve_human rc env db pending_id approver via pa =
     (let enforce_human_gate = (case via of HttpSurface \<Rightarrow> True | LocalOperator \<Rightarrow> ge_read_caller env \<noteq> None)
      in if enforce_human_gate \<and> approver = pa_requested_by pa then (db, ApRejected self_approval_refused)
         else if enforce_human_gate \<and> \<not> is_registered_agent db approver
         then (db, ApRejected (''Human approver '' @ quote approver @ '' is not a registered agent''))
         else finish_approval decision_write_failed (decide_pending_action rc env db pending_id True approver))"

definition u32_max :: nat where
  "u32_max = 4294967295"

definition approve_consensus ::
  "row_codec \<Rightarrow> gate_env \<Rightarrow> gov_db \<Rightarrow> string \<Rightarrow> string \<Rightarrow> nat \<Rightarrow> pending_action \<Rightarrow> gov_db \<times> approve_outcome" where
  "approve_consensus rc env db pending_id approver quorum pa =
     (if \<not> is_registered_agent db approver
      then (db, ApRejected (''consensus voter '' @ quote approver @ '' is not a registered agent''))
      else let canonical_id = to_ascii_lowercase approver
           in if \<exists>a \<in> set (pa_approvals pa). to_ascii_lowercase (av_agent_id a) = to_ascii_lowercase canonical_id
              then (db, ApPending (length (pa_approvals pa)) quorum)
              else let approvals = pa_approvals pa @ [\<lparr>av_agent_id = canonical_id, av_approved_at = ge_now env\<rparr>];
                       db' = db\<lparr>gd_pending := update_where (\<lambda>r. pr_id r = pending_id \<and> pr_status r = ''pending'')
                         (\<lambda>r. r\<lparr>pr_approvals := json_to_string (rc_approvals rc) approvals\<rparr>) (gd_pending db)\<rparr>;
                       votes = length approvals
                   in if quorum \<le> min votes u32_max
                      then finish_approval ''decision write failed at consensus threshold''
                             (decide_pending_action rc env db' pending_id True canonical_id)
                      else (db', ApPending votes quorum))"

definition approve_with_approver_type ::
  "row_codec \<Rightarrow> gate_env \<Rightarrow> gov_db \<Rightarrow> string \<Rightarrow> string \<Rightarrow> approve_surface \<Rightarrow> gov_db \<times> approve_outcome" where
  "approve_with_approver_type rc env db pending_id approver via =
     (case get_pending_action rc db pending_id of
        None \<Rightarrow> (db, ApNotFound)
      | Some pa \<Rightarrow>
          if pa_status pa \<noteq> ''pending'' then (db, ApRejected (''already decided: status='' @ pa_status pa))
          else (case (case resolve_governance_policy env db (pa_namespace pa) of
                        None \<Rightarrow> ApHuman | Some p \<Rightarrow> cp_approver p) of
                  ApHuman \<Rightarrow> approve_human rc env db pending_id approver via pa
                | ApAgent required \<Rightarrow>
                    if approver \<noteq> required
                    then (db, ApRejected (''designated approver is '' @ quote required @ ''; got '' @ quote approver))
                    else finish_approval decision_write_failed (decide_pending_action rc env db pending_id True approver)
                | ApConsensus quorum \<Rightarrow> approve_consensus rc env db pending_id approver quorum pa))"

text \<open>The checks an execution makes before it replays a payload.\<close>

definition execute_admission ::
  "row_codec \<Rightarrow> gate_env \<Rightarrow> gov_db \<Rightarrow> string \<Rightarrow> gov_db \<times> (storage_error + pending_action)" where
  "execute_admission rc env db pending_id =
     (case get_pending_action rc db pending_id of
        None \<Rightarrow> (db, Inl (PendingActionNotFound pending_id))
      | Some pa \<Rightarrow>
          if pa_status pa \<noteq> ''approved'' then (db, Inl (PendingActionStateInvalid pending_id (pa_status pa)))
          else (case verify_payload_agent_id pa of
                  Inl e \<Rightarrow> (emit_pending_action_event env db pa ''pending_action.refused_agent_id_mismatch'' None, Inl e)
                | Inr u \<Rightarrow> (db, Inr pa)))"

section \<open>The timeout sweep\<close>

definition overdue :: "gate_env \<Rightarrow> int \<Rightarrow> pending_row \<Rightarrow> bool" where
  "overdue env global_default r \<longleftrightarrow>
     pr_status r = ''pending'' \<and>
     ge_older env (pr_requested_at r)
       (case pr_default_timeout_seconds r of Some s \<Rightarrow> s | None \<Rightarrow> global_default)"

definition sweep_candidates :: "gate_env \<Rightarrow> gov_db \<Rightarrow> int \<Rightarrow> (string \<times> string) list" where
  "sweep_candidates env db global_default =
     (if global_default \<le> 0 then []
      else map (\<lambda>r. (pr_id r, pr_namespace r)) (filter (overdue env global_default) (gd_pending db)))"

definition expire_row :: "gate_env \<Rightarrow> string \<Rightarrow> pending_row list \<Rightarrow> pending_row list" where
  "expire_row env i rows = update_where (\<lambda>r. pr_id r = i \<and> pr_status r = ''pending'')
     (\<lambda>r. r\<lparr>pr_status := ''expired'', pr_expired_at := Some (ge_now env)\<rparr>) rows"

definition emit_timed_out :: "row_codec \<Rightarrow> gate_env \<Rightarrow> gov_db \<Rightarrow> string \<Rightarrow> gov_db" where
  "emit_timed_out rc env db i =
     (case get_pending_action rc db i of
        Some pa \<Rightarrow> emit_pending_action_event env db pa ''pending_action.timed_out'' None
      | None \<Rightarrow> db)"

definition sweep_commit :: "row_codec \<Rightarrow> gate_env \<Rightarrow> gov_db \<Rightarrow> (string \<times> string) list \<Rightarrow> gov_db" where
  "sweep_commit rc env db rows =
     (let db' = db\<lparr>gd_pending := foldl (\<lambda>t e. expire_row env (fst e) t) (gd_pending db) rows\<rparr>
      in foldl (\<lambda>d e. emit_timed_out rc env d (fst e)) db' rows)"

definition sweep_pending_action_timeouts ::
  "row_codec \<Rightarrow> gate_env \<Rightarrow> gov_db \<Rightarrow> int \<Rightarrow> gov_db \<times> (string \<times> string) list" where
  "sweep_pending_action_timeouts rc env db global_default =
     (let rows = sweep_candidates env db global_default
      in if rows = [] then (db, []) else (sweep_commit rc env db rows, rows))"

section \<open>Operations and runs\<close>

datatype queue_op =
    QQueue governed_action string "string option" string json
  | QDecide string bool string
  | QApprove string string approve_surface
  | QSweep int
  | QCommit "(string \<times> string) list"
  | QExecute string

fun queue_step :: "row_codec \<Rightarrow> gov_db \<Rightarrow> gate_env \<times> queue_op \<Rightarrow> gov_db" where
  "queue_step rc db (env, QQueue action namespace mid by payload) =
     fst (queue_pending_action (rc_payload rc) env db action namespace mid by payload)"
| "queue_step rc db (env, QDecide i approve by) = fst (decide_pending_action rc env db i approve by)"
| "queue_step rc db (env, QApprove i approver via) = fst (approve_with_approver_type rc env db i approver via)"
| "queue_step rc db (env, QSweep d) = fst (sweep_pending_action_timeouts rc env db d)"
| "queue_step rc db (env, QCommit rows) = sweep_commit rc env db rows"
| "queue_step rc db (env, QExecute i) = fst (execute_admission rc env db i)"

definition queue_run :: "row_codec \<Rightarrow> gov_db \<Rightarrow> (gate_env \<times> queue_op) list \<Rightarrow> gov_db" where
  "queue_run rc db ops = foldl (queue_step rc) db ops"

lemma queue_run_simps [simp]:
  "queue_run rc db [] = db"
  "queue_run rc db [x] = queue_step rc db x"
  "queue_run rc db (ops @ [x]) = queue_step rc (queue_run rc db ops) x"
  "queue_run rc db (ops @ ops') = queue_run rc (queue_run rc db ops) ops'"
  by (simp_all add: queue_run_def)

definition pending_of :: "gov_db \<Rightarrow> string \<Rightarrow> pending_row option" where
  "pending_of db i = select_by pr_id i (gd_pending db)"

section \<open>How one row moves\<close>

text \<open>A row under an operation: a vote, a decision, an expiry, each only while the row is undecided.\<close>

definition has_voted :: "row_codec \<Rightarrow> string \<Rightarrow> pending_row \<Rightarrow> bool" where
  "has_voted rc a r \<longleftrightarrow> (\<exists>v \<in> set (parse_approvals rc (pr_approvals r)). to_ascii_lowercase (av_agent_id v) = to_ascii_lowercase a)"

inductive row_step :: "row_codec \<Rightarrow> pending_row \<Rightarrow> pending_row \<Rightarrow> bool" for rc where
  row_decided: "pr_status r = ''pending'' \<Longrightarrow> s = ''approved'' \<or> s = ''rejected'' \<Longrightarrow>
     row_step rc r (r\<lparr>pr_status := s, pr_decided_by := Some by', pr_decided_at := Some t\<rparr>)"
| row_voted: "pr_status r = ''pending'' \<Longrightarrow> \<not> has_voted rc a r \<Longrightarrow>
     row_step rc r (r\<lparr>pr_approvals := json_to_string (rc_approvals rc)
       (parse_approvals rc (pr_approvals r) @ [\<lparr>av_agent_id = to_ascii_lowercase a, av_approved_at = t\<rparr>])\<rparr>)"
| row_expired: "pr_status r = ''pending'' \<Longrightarrow>
     row_step rc r (r\<lparr>pr_status := ''expired'', pr_expired_at := Some t\<rparr>)"

inductive_cases row_stepE: "row_step rc r r'"

abbreviation row_moves :: "row_codec \<Rightarrow> pending_row \<Rightarrow> pending_row \<Rightarrow> bool" where
  "row_moves rc \<equiv> (row_step rc)\<^sup>*\<^sup>*"

lemma row_step_keeps:
  "row_step rc r r' \<Longrightarrow> pr_status r = ''pending'' \<and> pr_id r' = pr_id r \<and> pr_namespace r' = pr_namespace r \<and>
     pr_requested_by r' = pr_requested_by r \<and> pr_requested_at r' = pr_requested_at r \<and>
     pr_default_timeout_seconds r' = pr_default_timeout_seconds r"
  by (auto elim: row_stepE)

lemma row_moves_keeps:
  "row_moves rc r r' \<Longrightarrow> pr_id r' = pr_id r \<and> pr_namespace r' = pr_namespace r \<and>
     pr_requested_by r' = pr_requested_by r \<and> pr_requested_at r' = pr_requested_at r \<and>
     pr_default_timeout_seconds r' = pr_default_timeout_seconds r"
  by (induction rule: rtranclp_induct) (auto dest: row_step_keeps)

lemma row_moves_final: "row_moves rc r r' \<Longrightarrow> pr_status r \<noteq> ''pending'' \<Longrightarrow> r' = r"
  by (induction rule: rtranclp_induct) (auto dest: row_step_keeps)

text \<open>A table moves row by row.\<close>

definition table_moves :: "row_codec \<Rightarrow> pending_row list \<Rightarrow> pending_row list \<Rightarrow> bool" where
  "table_moves rc t t' \<longleftrightarrow> list_all2 (row_moves rc) t t'"

lemma table_moves_refl [simp]: "table_moves rc t t"
  by (simp add: table_moves_def list_all2_refl)

lemma table_moves_trans: "table_moves rc t u \<Longrightarrow> table_moves rc u v \<Longrightarrow> table_moves rc t v"
  unfolding table_moves_def by (rule list_all2_trans) auto

lemma table_moves_update:
  "(\<And>r. r \<in> set t \<Longrightarrow> p r \<Longrightarrow> row_step rc r (f r)) \<Longrightarrow> table_moves rc t (update_where p f t)"
  by (auto simp: table_moves_def update_where_def list_all2_conv_all_nth)

lemma table_moves_select:
  assumes "table_moves rc t t'"
  shows "rel_option (row_moves rc) (select_by pr_id i t) (select_by pr_id i t')"
  using assms unfolding table_moves_def
  by (induction rule: list_all2_induct) (auto simp: table_simps dest: row_moves_keeps)

section \<open>What each operation does to the table\<close>

lemma to_ascii_lowercase_idem [simp]: "to_ascii_lowercase (to_ascii_lowercase s) = to_ascii_lowercase s"
  by (auto simp: to_ascii_lowercase_def of_char_of take_bit_eq_mod)

text \<open>The parts of the database the queue operations never write.\<close>

definition same_policies :: "gov_db \<Rightarrow> gov_db \<Rightarrow> bool" where
  "same_policies db db' \<longleftrightarrow> gd_memories db' = gd_memories db \<and> gd_meta db' = gd_meta db"

lemma same_policies_refl [simp]: "same_policies db db"
  by (simp add: same_policies_def)

lemma same_policies_trans: "same_policies a b \<Longrightarrow> same_policies b c \<Longrightarrow> same_policies a c"
  by (simp add: same_policies_def)

lemma same_policies_update [simp]:
  "same_policies db (db\<lparr>gd_pending := t\<rparr>)" "same_policies db (db\<lparr>gd_events := u\<rparr>)"
  by (simp_all add: same_policies_def)

lemma emit_frame [simp]:
  "gd_pending (emit_pending_action_event env db pa e o') = gd_pending db"
  "same_policies db (emit_pending_action_event env db pa e o')"
  "same_policies db' (emit_pending_action_event env db pa e o') = same_policies db' db"
  by (simp_all add: emit_pending_action_event_def Let_def same_policies_def)

lemma decide_pending_table:
  "gd_pending (fst (decide_pending_action rc env db i approve by')) =
     update_where (\<lambda>r. pr_id r = i \<and> pr_status r = ''pending'')
       (\<lambda>r. r\<lparr>pr_status := (if approve then ''approved'' else ''rejected''), pr_decided_by := Some by',
              pr_decided_at := Some (ge_now env)\<rparr>) (gd_pending db)"
  by (simp add: decide_pending_action_def Let_def split: option.split)

lemma decide_frame: "same_policies db (fst (decide_pending_action rc env db i approve by'))"
  by (simp add: decide_pending_action_def Let_def same_policies_def emit_pending_action_event_def split: option.split)

lemma decide_moves: "table_moves rc (gd_pending db) (gd_pending (fst (decide_pending_action rc env db i approve by')))"
  unfolding decide_pending_table by (rule table_moves_update) (auto intro: row_decided)

lemma pending_of_pa: "get_pending_action rc db i = map_option (row_to_pending rc) (pending_of db i)"
  by (simp add: get_pending_action_def pending_of_def)

lemma vote_moves:
  assumes "keys_unique pr_id (gd_pending db)" and "pending_of db i = Some r" and "\<not> has_voted rc a r"
  shows "table_moves rc (gd_pending db) (update_where (\<lambda>r. pr_id r = i \<and> pr_status r = ''pending'')
    (\<lambda>x. x\<lparr>pr_approvals := json_to_string (rc_approvals rc)
      (pa_approvals (row_to_pending rc r) @ [\<lparr>av_agent_id = to_ascii_lowercase a, av_approved_at = t\<rparr>])\<rparr>) (gd_pending db))"
proof (rule table_moves_update)
  fix x
  assume "x \<in> set (gd_pending db)" and x: "pr_id x = i \<and> pr_status x = ''pending''"
  then have "x = r"
    using assms(1,2) by (metis option.inject pending_of_def select_by_unique)
  then show "row_step rc x (x\<lparr>pr_approvals := json_to_string (rc_approvals rc)
      (pa_approvals (row_to_pending rc r) @ [\<lparr>av_agent_id = to_ascii_lowercase a, av_approved_at = t\<rparr>])\<rparr>)"
    using x assms(3) by (simp add: row_to_pending_def row_voted)
qed

lemma expire_moves: "table_moves rc t (expire_row env i t)"
  unfolding expire_row_def by (rule table_moves_update) (auto intro: row_expired)

lemma expire_all_moves: "table_moves rc t (foldl (\<lambda>t e. expire_row env (fst e) t) t rows)"
  by (induction rows rule: rev_induct) (auto intro: table_moves_trans expire_moves)

lemma emit_timed_out_frame [simp]:
  "gd_pending (emit_timed_out rc env db i) = gd_pending db"
  "same_policies db' (emit_timed_out rc env db i) = same_policies db' db"
  by (simp_all add: emit_timed_out_def split: option.split)

lemma emit_all_frame [simp]:
  "gd_pending (foldl (\<lambda>d e. emit_timed_out rc env d (fst e)) db rows) = gd_pending db"
  "same_policies db' (foldl (\<lambda>d e. emit_timed_out rc env d (fst e)) db rows) = same_policies db' db"
  by (induction rows arbitrary: db) simp_all

lemma commit_moves:
  "table_moves rc (gd_pending db) (gd_pending (sweep_commit rc env db rows))"
  "same_policies db (sweep_commit rc env db rows)"
  by (simp_all add: sweep_commit_def Let_def expire_all_moves)

lemma keys_unique_moves: "table_moves rc t t' \<Longrightarrow> keys_unique pr_id t' = keys_unique pr_id t"
proof -
  assume "table_moves rc t t'"
  then have "map pr_id t' = map pr_id t"
    unfolding table_moves_def by (induction rule: list_all2_induct) (auto dest: row_moves_keeps)
  then show ?thesis by (simp add: keys_unique_def)
qed

lemma approve_moves:
  assumes "keys_unique pr_id (gd_pending db)"
  shows "table_moves rc (gd_pending db) (gd_pending (fst (approve_with_approver_type rc env db i approver via)))"
    and "same_policies db (fst (approve_with_approver_type rc env db i approver via))"
proof -
  have "table_moves rc (gd_pending db) (gd_pending (fst (approve_consensus rc env db i approver q (row_to_pending rc r)))) \<and>
      same_policies db (fst (approve_consensus rc env db i approver q (row_to_pending rc r)))"
    if "pending_of db i = Some r" for q r
  proof (cases "has_voted rc approver r \<or> \<not> is_registered_agent db approver")
    case True
    then show ?thesis by (auto simp: approve_consensus_def has_voted_def row_to_pending_def Let_def)
  next
    case False
    then have "table_moves rc (gd_pending db) (update_where (\<lambda>r. pr_id r = i \<and> pr_status r = ''pending'')
        (\<lambda>x. x\<lparr>pr_approvals := json_to_string (rc_approvals rc) (pa_approvals (row_to_pending rc r) @
          [\<lparr>av_agent_id = to_ascii_lowercase approver, av_approved_at = ge_now env\<rparr>])\<rparr>) (gd_pending db))"
      by (intro vote_moves [OF assms that]) auto
    then show ?thesis
      by (auto simp: approve_consensus_def finish_approval_def Let_def
          intro: table_moves_trans [OF _ decide_moves] same_policies_trans [OF _ decide_frame])
  qed
  then show "table_moves rc (gd_pending db) (gd_pending (fst (approve_with_approver_type rc env db i approver via)))"
    and "same_policies db (fst (approve_with_approver_type rc env db i approver via))"
    by (auto simp: approve_with_approver_type_def approve_human_def finish_approval_def pending_of_pa Let_def
        decide_moves decide_frame split: option.split approver_type.split)
qed

lemma queue_table:
  "gd_pending (fst (queue_pending_action c env db action namespace mid by' payload)) =
     (if ge_fresh env \<in> pr_id ` set (gd_pending db) then gd_pending db
      else gd_pending db @ [queued_row c env action namespace mid by' payload])"
  by (simp add: queue_pending_action_def insert_row_def queued_row_def select_by_None_iff)

lemma queue_frame: "same_policies db (fst (queue_pending_action c env db action namespace mid by' payload))"
  by (simp add: queue_pending_action_def insert_row_def)

text \<open>Every operation moves the rows it finds and may add one queued row at the end.\<close>

lemma queue_step_table:
  assumes "keys_unique pr_id (gd_pending db)"
  shows "same_policies db (queue_step rc db (env, x)) \<and>
    (table_moves rc (gd_pending db) (gd_pending (queue_step rc db (env, x))) \<or>
     (\<exists>action namespace mid by' payload. x = QQueue action namespace mid by' payload \<and>
        ge_fresh env \<notin> pr_id ` set (gd_pending db) \<and>
        gd_pending (queue_step rc db (env, x)) =
          gd_pending db @ [queued_row (rc_payload rc) env action namespace mid by' payload]))"
proof (cases x)
  case (QQueue action namespace mid by' payload)
  then show ?thesis by (auto simp: queue_frame queue_table)
next
  case (QDecide i approve by')
  then show ?thesis by (simp add: decide_moves decide_frame)
next
  case (QApprove i a via)
  then show ?thesis using approve_moves [OF assms] by simp
next
  case (QSweep d)
  then show ?thesis by (simp add: sweep_pending_action_timeouts_def Let_def commit_moves)
next
  case (QCommit rows)
  then show ?thesis by (simp add: commit_moves)
next
  case (QExecute i)
  then show ?thesis by (auto simp: execute_admission_def split: option.split sum.split)
qed

lemma queue_step_unique:
  assumes "keys_unique pr_id (gd_pending db)"
  shows "keys_unique pr_id (gd_pending (queue_step rc db e))"
  using queue_step_table [OF assms, of rc "fst e" "snd e"] keys_unique_moves assms
  by (auto simp: keys_unique_def queued_row_def)

lemma queue_step_row:
  assumes "keys_unique pr_id (gd_pending db)" and "pending_of db i = Some r"
  shows "\<exists>r'. pending_of (queue_step rc db e) i = Some r' \<and> row_moves rc r r'"
proof -
  let ?db' = "queue_step rc db e"
  consider "table_moves rc (gd_pending db) (gd_pending ?db')" | q where "gd_pending ?db' = gd_pending db @ [q]"
    using queue_step_table [OF assms(1), of rc "fst e" "snd e"] by auto
  then show ?thesis
  proof cases
    case 1
    from table_moves_select [OF 1, of i] show ?thesis
      using assms(2) by (auto simp: pending_of_def elim: option.rel_cases)
  next
    case 2
    then show ?thesis using assms(2) by (auto simp: pending_of_def table_simps)
  qed
qed

lemma queue_run_unique:
  "keys_unique pr_id (gd_pending db) \<Longrightarrow> keys_unique pr_id (gd_pending (queue_run rc db ops))"
  by (induction ops rule: rev_induct) (auto simp: queue_step_unique)

lemma queue_run_frame:
  "keys_unique pr_id (gd_pending db) \<Longrightarrow> same_policies db (queue_run rc db ops)"
proof (induction ops rule: rev_induct)
  case (snoc e ops)
  then show ?case
    using queue_step_table [OF queue_run_unique [OF snoc.prems], of rc ops rc "fst e" "snd e"]
    by (auto intro: same_policies_trans)
qed simp

lemma queue_run_row:
  "keys_unique pr_id (gd_pending db) \<Longrightarrow> pending_of db i = Some r \<Longrightarrow>
     \<exists>r'. pending_of (queue_run rc db ops) i = Some r' \<and> row_moves rc r r'"
proof (induction ops rule: rev_induct)
  case (snoc e ops)
  then obtain r' where r': "pending_of (queue_run rc db ops) i = Some r'" "row_moves rc r r'" by blast
  from queue_step_row [OF queue_run_unique [OF snoc.prems(1)] r'(1), of rc e] obtain r'' where
    "pending_of (queue_step rc (queue_run rc db ops) e) i = Some r''" "row_moves rc r' r''" by blast
  with r'(2) show ?case by (auto intro: rtranclp_trans)
qed simp

section \<open>A decision is final\<close>

lemma decision_final_row:
  "keys_unique pr_id (gd_pending db) \<Longrightarrow> pending_of db i = Some r \<Longrightarrow> pr_status r \<noteq> ''pending'' \<Longrightarrow>
     pending_of (queue_run rc db ops) i = Some r"
  using queue_run_row [of db i r rc ops] row_moves_final [of rc r] by auto

section \<open>Runs with rows from peers\<close>

text \<open>
  The queue of a federated node also takes whole rows from its peers. \<open>peer_ids\<close> are the
  identifiers those rows carry: on such an identifier the peer decides, on all others the local
  operations do.
\<close>

datatype queue_event = QLocal "gate_env \<times> queue_op" | QPeer pending_action

fun queue_event_step :: "row_codec \<Rightarrow> gov_db \<Rightarrow> queue_event \<Rightarrow> gov_db" where
  "queue_event_step rc db (QLocal e) = queue_step rc db e"
| "queue_event_step rc db (QPeer pa) = upsert_pending_action rc db pa"

definition federated_run :: "row_codec \<Rightarrow> gov_db \<Rightarrow> queue_event list \<Rightarrow> gov_db" where
  "federated_run rc db evs = foldl (queue_event_step rc) db evs"

definition peer_ids :: "queue_event list \<Rightarrow> string set" where
  "peer_ids evs = {pa_id pa | pa. QPeer pa \<in> set evs}"

lemma federated_run_simps [simp]:
  "federated_run rc db [] = db"
  "federated_run rc db [x] = queue_event_step rc db x"
  "federated_run rc db (evs @ [x]) = queue_event_step rc (federated_run rc db evs) x"
  "federated_run rc db (evs @ evs') = federated_run rc (federated_run rc db evs) evs'"
  by (simp_all add: federated_run_def)

lemma peer_ids_simps [simp]:
  "peer_ids [] = {}"
  "peer_ids (QLocal e # evs) = peer_ids evs"
  "peer_ids (QPeer pa # evs) = insert (pa_id pa) (peer_ids evs)"
  "peer_ids (evs @ evs') = peer_ids evs \<union> peer_ids evs'"
  by (auto simp: peer_ids_def)

lemma upsert_table:
  "\<exists>q. pr_id q = pa_id pa \<and> gd_pending (upsert_pending_action rc db pa) = gd_pending db @ [q] \<and>
      pending_of db (pa_id pa) = None \<or>
   (\<exists>f. (\<forall>r. pr_id (f r) = pa_id pa) \<and> gd_pending (upsert_pending_action rc db pa) =
      update_where (\<lambda>r. pr_id r = pa_id pa) f (gd_pending db))"
  unfolding upsert_pending_action_def Let_def pending_of_def
  by (cases "select_by pr_id (pa_id pa) (gd_pending db) = None") (force, force)

lemma upsert_unique:
  assumes "keys_unique pr_id (gd_pending db)"
  shows "keys_unique pr_id (gd_pending (upsert_pending_action rc db pa))"
proof -
  have "map pr_id (update_where (\<lambda>r. pr_id r = pa_id pa) f t) = map pr_id t"
    if "\<forall>r. pr_id (f r) = pa_id pa" for f t
    using that by (induction t) (auto simp: update_where_def)
  then show ?thesis
    using upsert_table [of pa rc db] assms
    unfolding keys_unique_def pending_of_def by (fastforce simp: select_by_None_iff)
qed

lemma upsert_other:
  assumes "i \<noteq> pa_id pa"
  shows "pending_of (upsert_pending_action rc db pa) i = pending_of db i"
proof -
  have "select_by pr_id i (update_where (\<lambda>r. pr_id r = pa_id pa) f t) = select_by pr_id i t"
    if "\<forall>r. pr_id (f r) = pa_id pa" for f t
    using that assms by (induction t) (auto simp: table_simps update_where_def)
  then show ?thesis
    using upsert_table [of pa rc db] assms
    by (auto simp: pending_of_def table_simps split: option.split)
qed

lemma federated_run_unique:
  "keys_unique pr_id (gd_pending db) \<Longrightarrow> keys_unique pr_id (gd_pending (federated_run rc db evs))"
proof (induction evs rule: rev_induct)
  case (snoc e evs)
  then show ?case by (cases e) (simp_all add: queue_step_unique upsert_unique)
qed simp

lemma federated_run_row:
  assumes "keys_unique pr_id (gd_pending db)" and "pending_of db i = Some r" and "i \<notin> peer_ids evs"
  shows "\<exists>r'. pending_of (federated_run rc db evs) i = Some r' \<and> row_moves rc r r'"
  using assms(3)
proof (induction evs rule: rev_induct)
  case Nil
  then show ?case using assms(2) by auto
next
  case (snoc e evs)
  then obtain r' where r': "pending_of (federated_run rc db evs) i = Some r'" "row_moves rc r r'" by auto
  show ?case
  proof (cases e)
    case (QLocal x)
    from queue_step_row [OF federated_run_unique [OF assms(1)] r'(1), of rc x] r'(2) show ?thesis
      using QLocal by (auto intro: rtranclp_trans)
  next
    case (QPeer pa)
    then show ?thesis using r' snoc.prems upsert_other [of i pa] by auto
  qed
qed

text \<open>C20: A decision is final until a peer rewrites the row. However the queue goes on - new requests,
  approvals, direct decisions, sweeps and sweeps whose selection is out of date, executions, rows that peers
  push for other requests, in any order - a row that is approved, rejected or expired keeps every one of its
  columns. A row pushed by a peer under this very identifier is not among these events: it replaces the
  columns (\<open>late_peer_row_reopens\<close> below).\<close>
theorem decision_final:
  assumes "keys_unique pr_id (gd_pending db)" and "pending_of db i = Some r" and "pr_status r \<noteq> ''pending''"
    and "i \<notin> peer_ids evs"
  shows "pending_of (federated_run rc db evs) i = Some r"
  using federated_run_row [OF assms(1,2,4), of rc] row_moves_final [of rc r] assms(3) by auto

section \<open>Well-formed rows\<close>

definition row_typed :: "row_codec \<Rightarrow> pending_row \<Rightarrow> bool" where
  "row_typed rc r \<longleftrightarrow>
     pr_action_type r \<in> range governed_action_as_str \<and>
     pr_status r \<in> {''pending'', ''approved'', ''rejected'', ''expired''} \<and>
     (pr_decided_by r \<noteq> None) = (pr_status r \<in> {''approved'', ''rejected''}) \<and>
     (pr_decided_at r \<noteq> None) = (pr_status r \<in> {''approved'', ''rejected''}) \<and>
     (pr_expired_at r \<noteq> None) = (pr_status r = ''expired'') \<and>
     json_from_str (rc_payload rc) (pr_payload r) \<noteq> None \<and>
     (\<exists>vs. json_from_str (rc_approvals rc) (pr_approvals r) = Some vs \<and> distinct (map av_agent_id vs) \<and>
        (\<forall>v \<in> set vs. to_ascii_lowercase (av_agent_id v) = av_agent_id v))"

definition row_codec_ok :: "row_codec \<Rightarrow> bool" where
  "row_codec_ok rc \<longleftrightarrow>
     (\<forall>v. \<exists>w. json_from_str (rc_payload rc) (json_to_string (rc_payload rc) v) = Some w) \<and> codec_ok (rc_approvals rc) \<and>
     json_from_str (rc_approvals rc) ''[]'' = Some []"

lemma row_codec_okD:
  assumes "row_codec_ok rc"
  shows "\<exists>w. json_from_str (rc_payload rc) (json_to_string (rc_payload rc) v) = Some w"
    and "json_from_str (rc_approvals rc) (json_to_string (rc_approvals rc) w) = Some w"
    and "json_from_str (rc_approvals rc) ''[]'' = Some []"
  using assms by (auto simp: row_codec_ok_def codec_ok_def)

lemma queued_row_typed: "row_codec_ok rc \<Longrightarrow> row_typed rc (queued_row (rc_payload rc) env action namespace mid by' payload)"
  by (auto simp: row_typed_def queued_row_def row_codec_okD)

lemma row_step_typed:
  assumes "row_codec_ok rc" and "row_step rc r r'" and "row_typed rc r"
  shows "row_typed rc r'"
  using assms(2)
proof cases
  case (row_voted a t)
  then obtain vs where vs: "json_from_str (rc_approvals rc) (pr_approvals r) = Some vs" "distinct (map av_agent_id vs)"
      "\<forall>v \<in> set vs. to_ascii_lowercase (av_agent_id v) = av_agent_id v"
    using assms(3) by (auto simp: row_typed_def)
  then have "to_ascii_lowercase a \<notin> av_agent_id ` set vs"
    using row_voted by (auto simp: has_voted_def parse_approvals_def)
  then show ?thesis
    using assms(3) vs by (auto simp: row_typed_def row_voted row_codec_okD [OF assms(1)] parse_approvals_def)
qed (use assms(3) in \<open>auto simp: row_typed_def\<close>)

lemma row_moves_typed: "row_moves rc r r' \<Longrightarrow> row_codec_ok rc \<Longrightarrow> row_typed rc r \<Longrightarrow> row_typed rc r'"
  by (induction rule: rtranclp_induct) (auto intro: row_step_typed)

lemma table_moves_typed:
  assumes "table_moves rc t t'" and "row_codec_ok rc"
    and "\<forall>r \<in> set t. pr_id r \<notin> P \<longrightarrow> row_typed rc r"
  shows "\<forall>r \<in> set t'. pr_id r \<notin> P \<longrightarrow> row_typed rc r"
  using assms unfolding table_moves_def
  by (induction rule: list_all2_induct) (auto intro: row_moves_typed dest: row_moves_keeps)

lemma queue_step_typed:
  assumes "row_codec_ok rc" and "keys_unique pr_id (gd_pending db)"
    and "\<forall>r \<in> set (gd_pending db). pr_id r \<notin> P \<longrightarrow> row_typed rc r"
  shows "\<forall>r \<in> set (gd_pending (queue_step rc db e)). pr_id r \<notin> P \<longrightarrow> row_typed rc r"
proof -
  consider "table_moves rc (gd_pending db) (gd_pending (queue_step rc db e))"
    | env action namespace mid by' payload where "gd_pending (queue_step rc db e) =
        gd_pending db @ [queued_row (rc_payload rc) env action namespace mid by' payload]"
    using queue_step_table [OF assms(2), of rc "fst e" "snd e"] by auto
  then show ?thesis
  proof cases
    case 1
    then show ?thesis by (rule table_moves_typed) (use assms in simp_all)
  next
    case 2
    then show ?thesis using assms queued_row_typed by simp
  qed
qed

lemma upsert_typed:
  assumes "\<forall>r \<in> set (gd_pending db). pr_id r \<notin> P \<longrightarrow> row_typed rc r" and "pa_id pa \<in> P"
  shows "\<forall>r \<in> set (gd_pending (upsert_pending_action rc db pa)). pr_id r \<notin> P \<longrightarrow> row_typed rc r"
  using upsert_table [of pa rc db] assms by (auto simp: update_where_def)

text \<open>C22: The pending table keeps its type. Starting from an empty queue, after any run of local operations
  and rows from peers, identifiers are distinct, and every row whose identifier no peer pushed has one of
  the four governed actions and one of the four statuses; a decider and a decision time are recorded exactly
  on approved and rejected rows and an expiry time exactly on expired ones; payload and votes parse back;
  and the votes are of distinct agents under their lower-case names. A row a peer pushed is stored as it
  came and is not covered.\<close>
theorem pending_rows_typed:
  assumes "row_codec_ok rc" and "gd_pending db = []"
  shows "keys_unique pr_id (gd_pending (federated_run rc db evs)) \<and>
    (\<forall>r \<in> set (gd_pending (federated_run rc db evs)). pr_id r \<notin> peer_ids evs \<longrightarrow> row_typed rc r)"
proof -
  have u: "keys_unique pr_id (gd_pending (federated_run rc db evs'))" for evs'
    by (rule federated_run_unique) (simp add: assms(2))
  have "\<forall>r \<in> set (gd_pending (federated_run rc db evs)). pr_id r \<notin> P \<longrightarrow> row_typed rc r"
    if "peer_ids evs \<subseteq> P" for P
    using that
  proof (induction evs rule: rev_induct)
    case Nil
    then show ?case using assms(2) by simp
  next
    case (snoc e evs)
    then have ih: "\<forall>r \<in> set (gd_pending (federated_run rc db evs)). pr_id r \<notin> P \<longrightarrow> row_typed rc r"
      by simp
    show ?case
    proof (cases e)
      case (QLocal x)
      then show ?thesis using queue_step_typed [OF assms(1) u ih, of x] by simp
    next
      case (QPeer pa)
      then show ?thesis using upsert_typed [OF ih, of pa] snoc.prems by simp
    qed
  qed
  then show ?thesis using u by blast
qed

section \<open>Exactly the permitted approvals\<close>

text \<open>Whose approval the governing policy of a row accepts.\<close>

definition governing_approver :: "gate_env \<Rightarrow> gov_db \<Rightarrow> string \<Rightarrow> approver_type" where
  "governing_approver env db namespace =
     (case resolve_governance_policy env db namespace of None \<Rightarrow> ApHuman | Some p \<Rightarrow> cp_approver p)"

definition settles :: "row_codec \<Rightarrow> gate_env \<Rightarrow> gov_db \<Rightarrow> string \<Rightarrow> approve_surface \<Rightarrow> pending_row \<Rightarrow> bool" where
  "settles rc env db approver via r \<longleftrightarrow>
     (case governing_approver env db (pr_namespace r) of
        ApHuman \<Rightarrow> via = LocalOperator \<and> ge_read_caller env = None \<or>
          approver \<noteq> pr_requested_by r \<and> is_registered_agent db approver
      | ApAgent required \<Rightarrow> approver = required
      | ApConsensus q \<Rightarrow> is_registered_agent db approver \<and> \<not> has_voted rc approver r \<and>
          q \<le> min (Suc (length (parse_approvals rc (pr_approvals r)))) u32_max)"

lemma decide_result:
  "snd (decide_pending_action rc env db i approve by') \<longleftrightarrow> (\<exists>r \<in> set (gd_pending db). pr_id r = i \<and> pr_status r = ''pending'')"
  by (auto simp: decide_pending_action_def Let_def count_where_def filter_empty_conv)

lemma decide_after_vote:
  "snd (decide_pending_action rc env (db\<lparr>gd_pending := update_where p (\<lambda>r. r\<lparr>pr_approvals := s\<rparr>) (gd_pending db)\<rparr>) i a b) =
     snd (decide_pending_action rc env db i a b)"
proof -
  have "(\<exists>r \<in> set (update_where p f t). Q r) \<longleftrightarrow> (\<exists>r \<in> set t. Q (if p r then f r else r))"
    for f :: "pending_row \<Rightarrow> pending_row" and t Q
    by (induction t) (auto simp: update_where_def)
  then show ?thesis by (simp add: decide_result if_distrib cong: conj_cong)
qed

lemma consensus_result:
  assumes "pending_of db i = Some r" and "pr_status r = ''pending''"
  shows "snd (approve_consensus rc env db i approver q (row_to_pending rc r)) = ApApproved \<longleftrightarrow>
    is_registered_agent db approver \<and> \<not> has_voted rc approver r \<and>
    q \<le> min (Suc (length (parse_approvals rc (pr_approvals r)))) u32_max"
proof -
  have "snd (decide_pending_action rc env db i True a)" for a
    using assms by (auto simp: decide_result pending_of_def dest!: select_by_SomeD)
  then show ?thesis
    by (auto simp: approve_consensus_def finish_approval_def has_voted_def row_to_pending_def Let_def decide_after_vote)
qed

lemma approve_result:
  "snd (approve_with_approver_type rc env db i approver via) = ApApproved \<longleftrightarrow>
     (\<exists>r. pending_of db i = Some r \<and> pr_status r = ''pending'' \<and> settles rc env db approver via r)"
proof (cases "pending_of db i")
  case None
  then show ?thesis by (simp add: approve_with_approver_type_def pending_of_pa)
next
  case (Some r)
  show ?thesis
  proof (cases "pr_status r = ''pending''")
    case True
    have "snd (decide_pending_action rc env db i True a)" for a
      using Some True by (auto simp: decide_result pending_of_def dest!: select_by_SomeD)
    moreover have "pa_status (row_to_pending rc r) = ''pending''" "pa_namespace (row_to_pending rc r) = pr_namespace r"
        "pa_requested_by (row_to_pending rc r) = pr_requested_by r"
      using True by (simp_all add: row_to_pending_def)
    ultimately show ?thesis
      using Some True consensus_result [OF Some True]
      by (auto simp: approve_with_approver_type_def pending_of_pa settles_def governing_approver_def approve_human_def
          finish_approval_def Let_def split: option.splits approver_type.splits approve_surface.splits)
  next
    case False
    then show ?thesis using Some
      by (simp add: approve_with_approver_type_def pending_of_pa row_to_pending_def)
  qed
qed

lemma pending_of_update:
  "pending_of (db\<lparr>gd_pending := update_where p f (gd_pending db)\<rparr>) i =
     map_option (\<lambda>r. if p r then f r else r) (pending_of db i)" if "\<And>r. pr_id (f r) = pr_id r"
  using that by (simp add: pending_of_def select_by_update)

lemma decide_row:
  assumes "pending_of db i = Some r"
  shows "pending_of (fst (decide_pending_action rc env db i approve by')) i = Some (if pr_status r = ''pending''
    then r\<lparr>pr_status := (if approve then ''approved'' else ''rejected''), pr_decided_by := Some by',
           pr_decided_at := Some (ge_now env)\<rparr> else r)"
proof -
  have "pr_id r = i" using assms by (auto simp: pending_of_def dest: select_by_SomeD)
  then show ?thesis using assms by (simp add: pending_of_def decide_pending_table select_by_update)
qed

lemma approve_pending:
  assumes "pending_of db i = Some r" and "pr_status r = ''pending''"
  shows "approve_with_approver_type rc env db i approver via =
    (case governing_approver env db (pr_namespace r) of
       ApHuman \<Rightarrow> approve_human rc env db i approver via (row_to_pending rc r)
     | ApAgent required \<Rightarrow>
         if approver \<noteq> required
         then (db, ApRejected (''designated approver is '' @ quote required @ ''; got '' @ quote approver))
         else finish_approval decision_write_failed (decide_pending_action rc env db i True approver)
     | ApConsensus quorum \<Rightarrow> approve_consensus rc env db i approver quorum (row_to_pending rc r))"
proof -
  have "pa_status (row_to_pending rc r) = ''pending''" "pa_namespace (row_to_pending rc r) = pr_namespace r"
    using assms(2) by (simp_all add: row_to_pending_def)
  then show ?thesis
    using assms(1) by (simp add: approve_with_approver_type_def pending_of_pa governing_approver_def)
qed

lemma approve_row:
  assumes "pending_of db i = Some r"
  shows "\<exists>r'. pending_of (fst (approve_with_approver_type rc env db i approver via)) i = Some r' \<and>
    pr_status r' = (if snd (approve_with_approver_type rc env db i approver via) = ApApproved
      then ''approved'' else pr_status r)"
proof (cases "pr_status r = ''pending''")
  case True
  have i: "pr_id r = i" using assms by (auto simp: pending_of_def dest: select_by_SomeD)
  have d: "snd (decide_pending_action rc env db i True a)" for a
    using assms True by (auto simp: decide_result pending_of_def dest!: select_by_SomeD)
  have vote: "pending_of (db\<lparr>gd_pending := update_where (\<lambda>r. pr_id r = i \<and> pr_status r = ''pending'')
      (\<lambda>r. r\<lparr>pr_approvals := s\<rparr>) (gd_pending db)\<rparr>) i = Some (r\<lparr>pr_approvals := s\<rparr>)" for s
    using assms True i by (simp add: pending_of_update)
  have "\<exists>r'. pending_of (fst (approve_consensus rc env db i approver q (row_to_pending rc r))) i = Some r' \<and>
      pr_status r' = (if snd (approve_consensus rc env db i approver q (row_to_pending rc r)) = ApApproved
        then ''approved'' else pr_status r)" for q
    using assms True d decide_row [OF vote]
    by (auto simp: approve_consensus_def finish_approval_def Let_def decide_after_vote vote)
  then show ?thesis
    using assms True d decide_row [OF assms, of rc env True] approve_pending [OF assms True, of rc env approver via]
    by (cases "governing_approver env db (pr_namespace r)")
      (auto simp: approve_human_def finish_approval_def Let_def)
next
  case False
  then show ?thesis using assms
    by (simp add: approve_with_approver_type_def pending_of_pa row_to_pending_def)
qed

text \<open>An approval succeeds exactly when the governing policy's approver is behind it. On a row that is still
  undecided, a human-gated one is approved on the HTTP surface (and locally once a reading agent is
  configured) only by a registered agent other than the requester; a designated one only by the named agent;
  a consensus one only by a registered agent who has not voted yet and whose vote reaches the quorum. In every
  other case the answer is not approval and the row does not become approved; and an approval leaves the
  memories and the policies as they were.\<close>
theorem approval_exact:
  assumes "keys_unique pr_id (gd_pending db)"
  shows "(snd (approve_with_approver_type rc env db i approver via) = ApApproved \<longleftrightarrow>
      (\<exists>r. pending_of db i = Some r \<and> pr_status r = ''pending'' \<and> settles rc env db approver via r)) \<and>
    (\<forall>r. pending_of db i = Some r \<longrightarrow>
      (\<exists>r'. pending_of (fst (approve_with_approver_type rc env db i approver via)) i = Some r' \<and>
        pr_status r' = (if snd (approve_with_approver_type rc env db i approver via) = ApApproved
          then ''approved'' else pr_status r))) \<and>
    same_policies db (fst (approve_with_approver_type rc env db i approver via))"
  using approve_result approve_moves(2) [OF assms] approve_row by blast

section \<open>A consensus needs distinct voters\<close>

lemma explicit_above_cong:
  "gd_meta db' = gd_meta db \<Longrightarrow> explicit_above db' h n cur up = explicit_above db h n cur up"
  by (induction db h n cur up rule: explicit_above.induct) (auto simp: get_namespace_parent_def split: option.split)

lemma governing_cong:
  assumes "same_policies db db'"
  shows "governing_approver env db' ns = governing_approver env db ns"
proof -
  have m: "gd_memories db' = gd_memories db" "gd_meta db' = gd_meta db"
    using assms by (auto simp: same_policies_def)
  have g: "memory_get db' = memory_get db" by (simp add: memory_get_def fun_eq_iff m)
  have "build_namespace_chain db' ns = build_namespace_chain db ns"
    by (simp add: build_namespace_chain_def Let_def explicit_above_cong [OF m(2)] split: list.split)
  moreover have "read_namespace_policy env db' = read_namespace_policy env db"
    by (simp add: fun_eq_iff read_namespace_policy_def get_namespace_standard_def g m split: option.split)
  ultimately show ?thesis
    by (simp add: governing_approver_def resolve_governance_policy_def)
qed

lemma registered_cong: "same_policies db db' \<Longrightarrow> is_registered_agent db' a = is_registered_agent db a"
  by (simp add: same_policies_def is_registered_agent_def)

lemma row_other:
  assumes "i \<noteq> j"
  shows "pending_of (fst (decide_pending_action rc env db j approve by')) i = pending_of db i"
    and "pending_of (fst (approve_with_approver_type rc env db j approver via)) i = pending_of db i"
proof -
  have u: "pending_of (db\<lparr>gd_pending := update_where (\<lambda>r. pr_id r = j \<and> pr_status r = ''pending'') f (gd_pending db)\<rparr>) i
      = pending_of db i" if "\<And>r. pr_id (f r) = pr_id r" for db f
  proof -
    have "select_by pr_id i (update_where (\<lambda>r. pr_id r = j \<and> pr_status r = ''pending'') f t) = select_by pr_id i t" for t
      using assms that by (induction t) (auto simp: table_simps update_where_def)
    then show ?thesis by (simp add: pending_of_def)
  qed
  have d: "pending_of (fst (decide_pending_action rc env db j approve by')) i = pending_of db i" for db approve by'
    using u [of "\<lambda>r. r\<lparr>pr_status := (if approve then ''approved'' else ''rejected''), pr_decided_by := Some by',
       pr_decided_at := Some (ge_now env)\<rparr>" db] by (simp add: pending_of_def decide_pending_table)
  then show "pending_of (fst (decide_pending_action rc env db j approve by')) i = pending_of db i" .
  show "pending_of (fst (approve_with_approver_type rc env db j approver via)) i = pending_of db i"
    by (auto simp: approve_with_approver_type_def approve_human_def approve_consensus_def finish_approval_def Let_def
        d u split: option.split approver_type.split)
qed

lemma expire_all_row:
  assumes "select_by pr_id i t = Some r"
  shows "\<exists>r'. select_by pr_id i (foldl (\<lambda>t e. expire_row env (fst e) t) t rows) = Some r' \<and>
    pr_approvals r' = pr_approvals r \<and> (r' = r \<or> pr_status r' = ''expired'')"
  using assms
proof (induction rows arbitrary: t r)
  case (Cons e rows)
  let ?r = "if pr_id r = fst e \<and> pr_status r = ''pending''
    then r\<lparr>pr_status := ''expired'', pr_expired_at := Some (ge_now env)\<rparr> else r"
  have "select_by pr_id i (expire_row env (fst e) t) = Some ?r"
    using Cons.prems by (simp add: expire_row_def select_by_update)
  from Cons.IH [OF this] show ?case by (auto split: if_splits)
qed auto

lemma commit_row:
  assumes "pending_of db i = Some r"
  shows "\<exists>r'. pending_of (sweep_commit rc env db rows) i = Some r' \<and>
    pr_approvals r' = pr_approvals r \<and> (r' = r \<or> pr_status r' = ''expired'')"
  using expire_all_row [of i "gd_pending db" r env rows] assms
  by (simp add: sweep_commit_def Let_def pending_of_def)

definition approves_row :: "string \<Rightarrow> queue_op \<Rightarrow> bool" where
  "approves_row i x \<longleftrightarrow> (\<exists>a via. x = QApprove i a via) \<or> (\<exists>a. x = QDecide i True a)"

lemma step_without_approval:
  assumes "keys_unique pr_id (gd_pending db)" and "pending_of db i = Some r" and "\<not> approves_row i x"
  shows "\<exists>r'. pending_of (queue_step rc db (env, x)) i = Some r' \<and> pr_approvals r' = pr_approvals r \<and>
    (r' = r \<or> pr_status r' \<noteq> ''approved'')"
proof (cases x)
  case (QQueue action namespace mid by' payload)
  then show ?thesis using assms(2) by (auto simp: pending_of_def queue_table table_simps)
next
  case (QDecide j approve by')
  then show ?thesis
    using assms(2,3) decide_row [OF assms(2), of rc env approve by'] row_other(1) [of i j rc env db approve by']
    by (cases "i = j") (auto simp: approves_row_def)
next
  case (QApprove j a via)
  then show ?thesis using assms(2,3) row_other(2) [of i j rc env db a via] by (auto simp: approves_row_def)
next
  case (QSweep d)
  then show ?thesis using assms(2) commit_row [OF assms(2), of rc env]
    by (fastforce simp: sweep_pending_action_timeouts_def Let_def)
next
  case (QCommit rows)
  then show ?thesis using commit_row [OF assms(2), of rc env rows] by fastforce
next
  case (QExecute j)
  then show ?thesis using assms(2) by (auto simp: execute_admission_def pending_of_def split: option.split sum.split)
qed

text \<open>The agents a run asks to approve a row, among those registered, under their lower-case names.\<close>

definition voters :: "gov_db \<Rightarrow> string \<Rightarrow> (gate_env \<times> queue_op) list \<Rightarrow> string set" where
  "voters db i ops = {to_ascii_lowercase a | env a via. (env, QApprove i a via) \<in> set ops \<and> is_registered_agent db a}"

lemma voters_mono: "voters db i ops \<subseteq> voters db i (ops @ ops')"
  by (auto simp: voters_def)

text \<open>What the votes of a row say in the middle of a run.\<close>

definition votes_sound :: "row_codec \<Rightarrow> nat \<Rightarrow> string set \<Rightarrow> pending_row \<Rightarrow> bool" where
  "votes_sound rc q vs r \<longleftrightarrow>
     (let ids = map av_agent_id (parse_approvals rc (pr_approvals r))
      in distinct ids \<and> set ids \<subseteq> vs \<and> (\<forall>a \<in> set ids. to_ascii_lowercase a = a) \<and>
         (pr_status r = ''approved'' \<longrightarrow> max 1 q \<le> length ids))"

lemma vote_sound:
  assumes ok: "row_codec_ok rc" and r: "pending_of db i = Some r" "pr_status r = ''pending''"
    and sound: "votes_sound rc q vs r" and new: "is_registered_agent db a \<Longrightarrow> to_ascii_lowercase a \<in> vs"
  shows "\<exists>r'. pending_of (fst (approve_consensus rc env db i a q (row_to_pending rc r))) i = Some r' \<and> votes_sound rc q vs r'"
proof (cases "has_voted rc a r \<or> \<not> is_registered_agent db a")
  case True
  then have "fst (approve_consensus rc env db i a q (row_to_pending rc r)) = db"
    by (auto simp: approve_consensus_def has_voted_def row_to_pending_def Let_def)
  then show ?thesis using r sound by simp
next
  case False
  let ?new = "parse_approvals rc (pr_approvals r) @ [\<lparr>av_agent_id = to_ascii_lowercase a, av_approved_at = ge_now env\<rparr>]"
  let ?s = "json_to_string (rc_approvals rc) ?new"
  let ?db = "db\<lparr>gd_pending := update_where (\<lambda>r. pr_id r = i \<and> pr_status r = ''pending'')
      (\<lambda>r. r\<lparr>pr_approvals := ?s\<rparr>) (gd_pending db)\<rparr>"
  have i: "pr_id r = i" using r(1) by (auto simp: pending_of_def dest: select_by_SomeD)
  have v: "pending_of ?db i = Some (r\<lparr>pr_approvals := ?s\<rparr>)"
    using r i by (simp add: pending_of_update)
  have p: "parse_approvals rc ?s = ?new"
    by (simp add: parse_approvals_def row_codec_okD [OF ok])
  have fresh: "to_ascii_lowercase a \<notin> av_agent_id ` set (parse_approvals rc (pr_approvals r))"
    using False sound by (auto simp: has_voted_def votes_sound_def Let_def)
  have sound': "votes_sound rc q vs (r'\<lparr>pr_approvals := ?s\<rparr>)"
    if "pr_status r' = ''approved'' \<Longrightarrow> q \<le> Suc (length (parse_approvals rc (pr_approvals r)))" for r'
    using sound that fresh new False by (auto simp: votes_sound_def p Let_def)
  have e: "approve_consensus rc env db i a q (row_to_pending rc r) =
      (if q \<le> min (length ?new) u32_max
       then finish_approval ''decision write failed at consensus threshold''
         (decide_pending_action rc env ?db i True (to_ascii_lowercase a))
       else (?db, ApPending (length ?new) q))"
    using False by (simp add: approve_consensus_def has_voted_def row_to_pending_def Let_def)
  show ?thesis
  proof (cases "q \<le> min (length ?new) u32_max")
    case True
    then have "pending_of (fst (approve_consensus rc env db i a q (row_to_pending rc r))) i =
        Some (r\<lparr>pr_status := ''approved'', pr_decided_by := Some (to_ascii_lowercase a),
                pr_decided_at := Some (ge_now env)\<rparr>\<lparr>pr_approvals := ?s\<rparr>)"
      unfolding e using decide_row [OF v, of rc env True "to_ascii_lowercase a"] r(2)
      by (simp add: finish_approval_def)
    then show ?thesis using sound' True by auto
  next
    case False
    then have "pending_of (fst (approve_consensus rc env db i a q (row_to_pending rc r))) i = Some (r\<lparr>pr_approvals := ?s\<rparr>)"
      by (simp only: e if_False fst_conv v)
    then show ?thesis using sound' [of r] r(2) by auto
  qed
qed

lemma consensus_run:
  assumes ok: "row_codec_ok rc" and u: "keys_unique pr_id (gd_pending db)"
    and r: "pending_of db i = Some r" "pr_status r = ''pending''" "pr_approvals r = ''[]''"
    and ops: "\<And>env x. (env, x) \<in> set ops \<Longrightarrow> governing_approver env db (pr_namespace r) = ApConsensus q \<and>
      (\<forall>a. x \<noteq> QDecide i True a)"
  shows "\<exists>r'. pending_of (queue_run rc db ops) i = Some r' \<and> row_moves rc r r' \<and> votes_sound rc q (voters db i ops) r'"
  using ops
proof (induction ops rule: rev_induct)
  case Nil
  then show ?case using r by (simp add: votes_sound_def parse_approvals_def row_codec_okD [OF ok])
next
  case (snoc e ops)
  obtain env x where e: "e = (env, x)" by fastforce
  let ?db = "queue_run rc db ops"
  have frame: "same_policies db ?db" and u': "keys_unique pr_id (gd_pending ?db)"
    using queue_run_frame [OF u] queue_run_unique [OF u] by blast+
  obtain r1 where r1: "pending_of ?db i = Some r1" "row_moves rc r r1" "votes_sound rc q (voters db i ops) r1"
    using snoc by force
  have mono: "votes_sound rc q (voters db i (ops @ [e])) r1"
    using r1(3) voters_mono [of db i ops "[e]"] by (auto simp: votes_sound_def Let_def)
  obtain r2 where r2: "pending_of (queue_step rc ?db e) i = Some r2" "row_moves rc r1 r2"
    using queue_step_row [OF u' r1(1)] by blast
  have "votes_sound rc q (voters db i (ops @ [e])) r2"
  proof (cases "pr_status r1 = ''pending'' \<and> approves_row i x")
    case True
    then obtain a via where x: "x = QApprove i a via"
      using snoc.prems [of env x] e by (auto simp: approves_row_def)
    have "governing_approver env ?db (pr_namespace r1) = ApConsensus q"
      using snoc.prems [of env x] e row_moves_keeps [OF r1(2)] governing_cong [OF frame] by simp
    then have "queue_step rc ?db e = fst (approve_consensus rc env ?db i a q (row_to_pending rc r1))"
      using approve_pending [OF r1(1)] True by (simp add: e x)
    moreover have "is_registered_agent ?db a \<Longrightarrow> to_ascii_lowercase a \<in> voters db i (ops @ [e])"
      using registered_cong [OF frame] by (auto simp: voters_def e x)
    ultimately show ?thesis
      using vote_sound [OF ok r1(1) _ mono, of a env] True r2(1) by auto
  next
    case False
    show ?thesis
    proof (cases "pr_status r1 = ''pending''")
      case True
      with False have "\<not> approves_row i x" by simp
      from step_without_approval [OF u' r1(1) this, of rc env] r2(1) mono show ?thesis
        by (auto simp: votes_sound_def e Let_def)
    next
      case False
      then show ?thesis using row_moves_final [OF r2(2)] mono by simp
    qed
  qed
  then show ?case using r1(2) r2 by (auto intro: rtranclp_trans)
qed

text \<open>C21: A consensus needs that many distinct voters. Start from a freshly queued row, which has no votes,
  whose namespace asks for a consensus of q whenever the run reads its policy, and let the local queue go on
  in any way without a direct approving decision of this row and without rows from peers. If the row ends up
  approved, at least q agents - and at least one - that are registered and differ in more than the case of
  their letters were asked for their approval in that run. (Votes inside a peer's row are counted as they
  come: \<open>relayed_votes_count\<close> below.)\<close>
theorem consensus_needs_distinct_voters:
  assumes "row_codec_ok rc" and "keys_unique pr_id (gd_pending db)"
    and "pending_of db i = Some r" "pr_status r = ''pending''" "pr_approvals r = ''[]''"
    and "\<And>env x. (env, x) \<in> set ops \<Longrightarrow> governing_approver env db (pr_namespace r) = ApConsensus q \<and>
      (\<forall>a. x \<noteq> QDecide i True a)"
    and "pending_of (queue_run rc db ops) i = Some r'" "pr_status r' = ''approved''"
  shows "max 1 q \<le> card (voters db i ops)"
proof -
  have "votes_sound rc q (voters db i ops) r'"
    using consensus_run [OF assms(1-5), of ops q] assms(6,7) by auto
  then obtain ids where "distinct ids" "set ids \<subseteq> voters db i ops" "max 1 q \<le> length ids"
    using assms(8) unfolding votes_sound_def Let_def by blast
  moreover have "finite (voters db i ops)"
    by (rule finite_subset [of _ "(\<lambda>(e, x). case x of QApprove j a v \<Rightarrow> to_ascii_lowercase a | _ \<Rightarrow> []) ` set ops"])
      (force simp: voters_def image_iff)+
  ultimately show ?thesis
    by (metis card_mono distinct_card order_trans)
qed

section \<open>An overdue action settles\<close>

lemma expire_all_settles:
  assumes "select_by pr_id i t = Some r" and "i \<in> fst ` set rows"
  shows "\<exists>r'. select_by pr_id i (foldl (\<lambda>t e. expire_row env (fst e) t) t rows) = Some r' \<and> pr_status r' \<noteq> ''pending''"
  using assms
proof (induction rows arbitrary: t r)
  case (Cons e rows)
  let ?r = "if pr_id r = fst e \<and> pr_status r = ''pending''
    then r\<lparr>pr_status := ''expired'', pr_expired_at := Some (ge_now env)\<rparr> else r"
  have i: "pr_id r = i" using Cons.prems(1) by (auto dest: select_by_SomeD)
  have e: "select_by pr_id i (expire_row env (fst e) t) = Some ?r"
    using Cons.prems(1) by (simp add: expire_row_def select_by_update)
  show ?case
  proof (cases "i = fst e")
    case True
    then have "pr_status ?r \<noteq> ''pending''" using i by simp
    then show ?thesis using expire_all_row [OF e, of env rows] by auto
  next
    case False
    then show ?thesis using Cons.IH [OF e] Cons.prems(2) by auto
  qed
qed simp

lemma sweep_settles:
  assumes "pending_of db i = Some r" and "0 < g"
    and "ge_older env (pr_requested_at r) (case pr_default_timeout_seconds r of Some s \<Rightarrow> s | None \<Rightarrow> g)"
  shows "\<exists>r'. pending_of (queue_step rc db (env, QSweep g)) i = Some r' \<and> pr_status r' \<noteq> ''pending''"
proof (cases "pr_status r = ''pending''")
  case True
  have "r \<in> set (gd_pending db)" "pr_id r = i"
    using assms(1) by (auto simp: pending_of_def dest: select_by_SomeD)
  then have "i \<in> fst ` set (sweep_candidates env db g)"
    using True assms(2,3) by (force simp: sweep_candidates_def overdue_def)
  then show ?thesis
    using expire_all_settles [of i "gd_pending db" r "sweep_candidates env db g" env] assms(1)
    by (auto simp: sweep_pending_action_timeouts_def sweep_commit_def pending_of_def Let_def)
next
  case False
  then show ?thesis
    using assms(1) commit_row [OF assms(1), of rc env "sweep_candidates env db g"]
    by (auto simp: sweep_pending_action_timeouts_def Let_def)
qed

definition queue_state :: "row_codec \<Rightarrow> gov_db \<Rightarrow> (nat \<Rightarrow> gate_env \<times> queue_op) \<Rightarrow> nat \<Rightarrow> gov_db" where
  "queue_state rc db trace n = queue_run rc db (map trace [0..<n])"


section \<open>Executions\<close>

lemma step_without_approval_status:
  assumes "keys_unique pr_id (gd_pending db)" and "\<not> approves_row i x"
    and "\<forall>r. pending_of db i = Some r \<longrightarrow> pr_status r \<noteq> ''approved''"
    and "pending_of (queue_step rc db (env, x)) i = Some r'"
  shows "pr_status r' \<noteq> ''approved''"
proof (cases "pending_of db i")
  case (Some r)
  then show ?thesis using step_without_approval [OF assms(1) Some assms(2), of rc env] assms(3,4) by auto
next
  case None
  from queue_step_table [OF assms(1), of rc env x]
  consider "table_moves rc (gd_pending db) (gd_pending (queue_step rc db (env, x)))"
    | action namespace mid by' payload where "gd_pending (queue_step rc db (env, x)) =
        gd_pending db @ [queued_row (rc_payload rc) env action namespace mid by' payload]" by blast
  then show ?thesis
  proof cases
    case 1
    from table_moves_select [OF 1, of i] show ?thesis using None assms(4) by (simp add: pending_of_def)
  next
    case 2
    then show ?thesis
      using None assms(4) by (auto simp: pending_of_def table_simps queued_row_def split: if_splits)
  qed
qed

lemma run_without_approval:
  assumes "gd_pending db = []" and "i \<notin> peer_ids evs"
    and "\<And>env x. QLocal (env, x) \<in> set evs \<Longrightarrow> \<not> approves_row i x"
  shows "\<forall>r. pending_of (federated_run rc db evs) i = Some r \<longrightarrow> pr_status r \<noteq> ''approved''"
  using assms(2,3)
proof (induction evs rule: rev_induct)
  case Nil
  then show ?case using assms(1) by (simp add: pending_of_def table_simps)
next
  case (snoc e evs)
  have u: "keys_unique pr_id (gd_pending (federated_run rc db evs))"
    by (rule federated_run_unique) (simp add: assms(1))
  have ih: "\<forall>r. pending_of (federated_run rc db evs) i = Some r \<longrightarrow> pr_status r \<noteq> ''approved''"
    by (rule snoc.IH) (use snoc.prems in auto)
  show ?case
  proof (cases e)
    case (QLocal x)
    then have "\<not> approves_row i (snd x)" using snoc.prems(2) [of "fst x" "snd x"] by simp
    from step_without_approval_status [OF u this ih, of rc "fst x"] show ?thesis using QLocal by simp
  next
    case (QPeer pa)
    then show ?thesis using ih snoc.prems(1) upsert_other [of i pa] by simp
  qed
qed

lemma execute_admission_Inr:
  "snd (execute_admission rc env db i) = Inr pa \<longleftrightarrow>
     (\<exists>r. pending_of db i = Some r \<and> pr_status r = ''approved'' \<and> pa = row_to_pending rc r \<and>
        (\<forall>a. payload_agent_id (pa_payload pa) = Some a \<longrightarrow> a = pr_requested_by r))"
  by (auto simp: execute_admission_def pending_of_pa verify_payload_agent_id_def row_to_pending_def
      split: option.splits if_splits)

text \<open>C24: Nothing executes without an approval. If an execution is admitted after some run from an empty
  queue, of local operations and of rows peers push for other requests, then that run contains an approval or
  an approving decision of this very row, and the admission changed nothing. The agent named in the payload -
  its top-level \<open>agent_id\<close> where that is a string, the \<open>agent_id\<close> of its metadata only where it is not - is
  the requester, if there is one. (A row pushed by a peer under this identifier can arrive approved, and a
  matching top-level \<open>agent_id\<close> leaves the metadata unread: \<open>metadata_claim_unchecked\<close> below.)\<close>
theorem execution_needs_approval:
  assumes "gd_pending db = []" and "i \<notin> peer_ids evs"
    and "snd (execute_admission rc env (federated_run rc db evs) i) = Inr pa"
  shows "(\<exists>e x. QLocal (e, x) \<in> set evs \<and> approves_row i x) \<and>
    payload_agent_id (pa_payload pa) \<in> {None, Some (pa_requested_by pa)} \<and>
    fst (execute_admission rc env (federated_run rc db evs) i) = federated_run rc db evs"
proof -
  obtain r where r: "pending_of (federated_run rc db evs) i = Some r" "pr_status r = ''approved''"
      "pa = row_to_pending rc r" "\<forall>a. payload_agent_id (pa_payload pa) = Some a \<longrightarrow> a = pr_requested_by r"
    using assms(3) unfolding execute_admission_Inr by blast
  have "\<exists>e x. QLocal (e, x) \<in> set evs \<and> approves_row i x"
    using run_without_approval [OF assms(1,2), of rc] r(1,2) by blast
  moreover have "payload_agent_id (pa_payload pa) \<in> {None, Some (pa_requested_by pa)}"
    using r(3,4) by (cases "payload_agent_id (pa_payload pa)") (auto simp: row_to_pending_def)
  moreover have "fst (execute_admission rc env (federated_run rc db evs) i) = federated_run rc db evs"
    using assms(3) by (auto simp: execute_admission_def split: option.splits if_splits sum.splits)
  ultimately show ?thesis by blast
qed

section \<open>Where the comments and the code part\<close>

text \<open>An executed action stays approved and is admitted again, however often and however late.\<close>

lemma executed_action_admitted_again:
  assumes "keys_unique pr_id (gd_pending db)" and "snd (execute_admission rc env db i) = Inr pa"
  shows "snd (execute_admission rc env' (queue_run rc db ops) i) = Inr pa"
proof -
  obtain r where r: "pending_of db i = Some r" "pr_status r = ''approved''" "pa = row_to_pending rc r"
      "\<forall>a. payload_agent_id (pa_payload pa) = Some a \<longrightarrow> a = pr_requested_by r"
    using assms(2) unfolding execute_admission_Inr by blast
  then have "pending_of (queue_run rc db ops) i = Some r"
    by (intro decision_final_row [OF assms(1)]) auto
  then show ?thesis using r unfolding execute_admission_Inr by blast
qed

text \<open>The row a peer recorded when the action was queued, arriving again after the decision, reopens it.\<close>

lemma late_peer_row_reopens:
  assumes "pending_of db (pa_id pa) = Some r" and "pa_status pa = ''pending''"
  shows "\<exists>r'. pending_of (upsert_pending_action rc db pa) (pa_id pa) = Some r' \<and> pr_status r' = ''pending''"
proof -
  have "pr_id r = pa_id pa" using assms(1) by (auto simp: pending_of_def dest: select_by_SomeD)
  have "select_by pr_id (pa_id pa) (update_where (\<lambda>r. pr_id r = pa_id pa) f t) =
      map_option (\<lambda>r. f r) (select_by pr_id (pa_id pa) t)"
    if "\<And>r. pr_id (f r) = pa_id pa" for f t
    using that by (induction t) (auto simp: table_simps update_where_def)
  from this [of "\<lambda>r. \<lparr>pr_id = pa_id pa, pr_action_type = pa_action_type pa, pr_memory_id = pa_memory_id pa,
      pr_namespace = pa_namespace pa, pr_payload = json_to_string (rc_payload rc) (pa_payload pa),
      pr_requested_by = pa_requested_by pa, pr_requested_at = pa_requested_at pa, pr_status = ''pending'',
      pr_decided_by = pa_decided_by pa, pr_decided_at = pa_decided_at pa,
      pr_approvals = json_to_string (rc_approvals rc) (pa_approvals pa),
      pr_default_timeout_seconds = pr_default_timeout_seconds r, pr_expired_at = pr_expired_at r\<rparr>" "gd_pending db"]
  show ?thesis
    using assms by (simp add: upsert_pending_action_def pending_of_def Let_def)
qed

text \<open>A payload that names the requester at its top level passes whatever its metadata claims.\<close>

lemma metadata_claim_unchecked:
  "json_get ''agent_id'' (pa_payload pa) = Some (JStr (pa_requested_by pa)) \<Longrightarrow> verify_payload_agent_id pa = Inr ()"
  by (simp add: verify_payload_agent_id_def payload_agent_id_def)

text \<open>A row decided between the sweep's selection and its commit keeps the decision, but the audit trail
  records that it timed out.\<close>

lemma decided_row_reported_expired:
  assumes "pending_of db i = Some r" and "pr_status r \<noteq> ''pending''" and "ge_audit_ok env"
  shows "pending_of (sweep_commit rc env db [(i, ns)]) i = Some r \<and>
    gd_events (sweep_commit rc env db [(i, ns)]) \<noteq> [] \<and>
    pe_event_type (last (gd_events (sweep_commit rc env db [(i, ns)]))) = ''pending_action.timed_out''"
proof -
  have r: "select_by pr_id i (expire_row env i (gd_pending db)) = Some r"
    using assms(1,2) by (simp add: expire_row_def select_by_update pending_of_def)
  then show ?thesis
    using assms(3) by (simp add: sweep_commit_def Let_def emit_timed_out_def pending_of_def get_pending_action_def
        emit_pending_action_event_def)
qed

text \<open>Votes that arrive inside a peer's row count towards the quorum, registered or not.\<close>

lemma relayed_votes_count:
  assumes "row_codec_ok rc" and "pending_of db (pa_id pa) = None" and "pa_status pa = ''pending''"
    and "governing_approver env db (pa_namespace pa) = ApConsensus q"
    and "is_registered_agent db a" and "to_ascii_lowercase a \<notin> (\<lambda>v. to_ascii_lowercase (av_agent_id v)) ` set (pa_approvals pa)"
    and "q \<le> min (Suc (length (pa_approvals pa))) u32_max"
  shows "snd (approve_with_approver_type rc env (upsert_pending_action rc db pa) (pa_id pa) a via) = ApApproved"
proof -
  let ?db = "upsert_pending_action rc db pa"
  have frame: "same_policies db ?db"
    by (simp add: upsert_pending_action_def same_policies_def Let_def)
  obtain r where r: "pending_of ?db (pa_id pa) = Some r" "pr_status r = ''pending''" "pr_namespace r = pa_namespace pa"
      "pr_approvals r = json_to_string (rc_approvals rc) (pa_approvals pa)"
    using assms(2,3) by (auto simp: upsert_pending_action_def pending_of_def Let_def table_simps)
  have "parse_approvals rc (pr_approvals r) = pa_approvals pa"
    by (simp add: r parse_approvals_def row_codec_okD [OF assms(1)])
  then show ?thesis
    using r assms(4-7) governing_cong [OF frame] registered_cong [OF frame]
    by (auto simp: approve_result settles_def has_voted_def image_iff)
qed

section \<open>Witnesses\<close>

text \<open>A printer for vote lists that parses back: every character is marked with an \<open>x\<close>, every string ends in \<open>ee\<close>.\<close>

definition print_str :: "string \<Rightarrow> string" where
  "print_str s = concat (map (\<lambda>c. [CHR ''x'', c]) s) @ ''ee''"

fun parse_strs :: "string \<Rightarrow> string \<Rightarrow> string list" where
  "parse_strs acc (m # c # r) = (if m = CHR ''x'' then parse_strs (acc @ [c]) r else acc # parse_strs [] r)"
| "parse_strs acc _ = []"

fun pair_votes :: "string list \<Rightarrow> approval list" where
  "pair_votes (a # t # r) = \<lparr>av_agent_id = a, av_approved_at = t\<rparr> # pair_votes r"
| "pair_votes _ = []"

definition print_votes :: "approval list \<Rightarrow> string" where
  "print_votes vs = (if vs = [] then ''[]'' else concat (map (\<lambda>v. print_str (av_agent_id v) @ print_str (av_approved_at v)) vs))"

definition parse_votes :: "string \<Rightarrow> approval list option" where
  "parse_votes s = Some (if s = ''[]'' then [] else pair_votes (parse_strs [] s))"

lemma parse_print_str: "parse_strs acc (print_str s @ r) = (acc @ s) # parse_strs [] r"
  by (induction s arbitrary: acc) (auto simp: print_str_def)

lemma parse_print_votes: "pair_votes (parse_strs [] (concat (map (\<lambda>v. print_str (av_agent_id v) @ print_str (av_approved_at v)) vs))) = vs"
  by (induction vs) (auto simp: parse_print_str)

lemma print_str_head: "print_str s @ r \<noteq> ''[]''"
  by (cases s) (auto simp: print_str_def)

definition demo_codec :: row_codec where
  "demo_codec = \<lparr>rc_payload = \<lparr>json_to_string = (\<lambda>v. ''null''), json_from_str = (\<lambda>s. Some JNull), json_null = JNull\<rparr>,
     rc_approvals = \<lparr>json_to_string = print_votes, json_from_str = parse_votes, json_null = []\<rparr>\<rparr>"

lemma demo_codec_ok: "row_codec_ok demo_codec"
proof -
  have "parse_votes (print_votes vs) = Some vs" for vs
  proof (cases vs)
    case (Cons v us)
    then have "print_votes vs \<noteq> ''[]''"
      using print_str_head [of "av_agent_id v"] by (simp add: print_votes_def)
    then show ?thesis using Cons parse_print_votes [of vs] by (simp add: parse_votes_def print_votes_def)
  qed (simp add: parse_votes_def print_votes_def)
  then show ?thesis
    by (simp add: row_codec_ok_def codec_ok_def demo_codec_def) (simp add: parse_votes_def)
qed

text \<open>One namespace that asks for a consensus of one, one registered agent and one queued request.\<close>

definition demo_env :: gate_env where
  "demo_env = demo_gate\<lparr>ge_policy_from_value := (\<lambda>v. Inr (core_policy_default\<lparr>cp_approver := ApConsensus 1\<rparr>))\<rparr>"

definition demo_queued :: pending_row where
  "demo_queued = queued_row (rc_payload demo_codec) demo_gate GovStore ''ops'' None ''alice'' JNull"

definition demo_db :: gov_db where
  "demo_db = demo_gov\<lparr>gd_memories := [demo_standard, demo_standard\<lparr>m_id := ''a'', m_namespace := ''_agents'', m_title := ''agent:bob''\<rparr>],
     gd_pending := [demo_queued]\<rparr>"

lemma demo_db_unique: "keys_unique pr_id (gd_pending demo_db)"
  by (simp add: demo_db_def keys_unique_def)

lemma demo_db_row: "pending_of demo_db ''p1'' = Some demo_queued"
  by (simp add: demo_db_def pending_of_def table_simps demo_queued_def queued_row_def demo_gate_def)

lemma demo_queued_fields:
  "pr_status demo_queued = ''pending''" "pr_approvals demo_queued = ''[]''" "pr_namespace demo_queued = ''ops''"
  "pr_requested_at demo_queued = ''t''" "pr_default_timeout_seconds demo_queued = None"
  by (simp_all add: demo_queued_def queued_row_def demo_gate_def)

lemma demo_governing: "governing_approver demo_env demo_db ''ops'' = ApConsensus 1"
proof -
  have "ancestors_from ''ops'' = [''ops'']"
    by (simp add: ancestors_from.simps [of "''ops''"] namespace_parent_def slash_def)
  then have "build_namespace_chain demo_db ''ops'' = [''*'', ''ops'']"
    by (simp add: build_namespace_chain_def namespace_ancestors_def max_explicit_depth_def numeral_eq_Suc
        get_namespace_parent_def demo_db_def demo_gov_def table_simps push_new_def)
  then show ?thesis
    by (simp add: governing_approver_def resolve_governance_policy_def read_namespace_policy_def
        get_namespace_standard_def memory_get_def demo_db_def demo_gov_def table_simps demo_standard_def
        policy_from_metadata_def demo_env_def demo_gate_def)
qed

lemma demo_registered: "is_registered_agent demo_db ''bob''"
  by (simp add: is_registered_agent_def demo_db_def agent_registration_title_def)

lemma demo_settles: "settles demo_codec demo_env demo_db ''bob'' HttpSurface demo_queued"
  by (simp add: settles_def demo_queued_fields demo_governing demo_registered has_voted_def parse_approvals_def
      row_codec_okD [OF demo_codec_ok] u32_max_def)

lemma demo_approved:
  "\<exists>r. pending_of (queue_run demo_codec demo_db [(demo_env, QApprove ''p1'' ''bob'' HttpSurface)]) ''p1'' = Some r \<and>
     pr_status r = ''approved''"
proof -
  have "snd (approve_with_approver_type demo_codec demo_env demo_db ''p1'' ''bob'' HttpSurface) = ApApproved"
    using demo_settles demo_db_row demo_queued_fields(1) by (auto simp: approve_result)
  then show ?thesis
    using approve_row [OF demo_db_row, of demo_codec demo_env "''bob''" HttpSurface] by simp
qed

theorem consensus_needs_distinct_voters_witness:
  "max 1 1 \<le> card (voters demo_db ''p1'' [(demo_env, QApprove ''p1'' ''bob'' HttpSurface)])"
proof -
  obtain r where r: "pending_of (queue_run demo_codec demo_db [(demo_env, QApprove ''p1'' ''bob'' HttpSurface)]) ''p1'' = Some r"
      "pr_status r = ''approved''" using demo_approved by blast
  show ?thesis
    by (rule consensus_needs_distinct_voters [OF demo_codec_ok demo_db_unique demo_db_row demo_queued_fields(1,2) _ r])
      (auto simp: demo_queued_fields demo_governing)
qed

theorem decision_final_witness:
  "\<exists>r. pending_of (federated_run demo_codec (queue_run demo_codec demo_db [(demo_env, QApprove ''p1'' ''bob'' HttpSurface)])
      [QLocal (demo_env, QDecide ''p1'' False ''eve'')]) ''p1'' = Some r \<and> pr_status r = ''approved''"
proof -
  obtain r where r: "pending_of (queue_run demo_codec demo_db [(demo_env, QApprove ''p1'' ''bob'' HttpSurface)]) ''p1'' = Some r"
      "pr_status r = ''approved''" using demo_approved by blast
  from decision_final [OF queue_run_unique [OF demo_db_unique] this(1), of "[QLocal (demo_env, QDecide ''p1'' False ''eve'')]" demo_codec]
  show ?thesis using r(2) by auto
qed

theorem approval_exact_witness:
  "snd (approve_with_approver_type demo_codec demo_env demo_db ''p1'' ''bob'' HttpSurface) = ApApproved"
  using approval_exact [OF demo_db_unique, of demo_codec demo_env "''p1''" "''bob''" HttpSurface]
    demo_settles demo_db_row demo_queued_fields(1) by auto

theorem pending_rows_typed_witness:
  "row_typed demo_codec demo_queued"
proof -
  have "gd_pending (federated_run demo_codec demo_gov [QLocal (demo_gate, QQueue GovStore ''ops'' None ''alice'' JNull)]) = [demo_queued]"
    by (simp add: queue_table demo_queued_def demo_gov_def)
  then show ?thesis
    using pending_rows_typed [OF demo_codec_ok, of demo_gov "[QLocal (demo_gate, QQueue GovStore ''ops'' None ''alice'' JNull)]"]
    by (simp add: demo_gov_def)
qed


theorem execution_needs_approval_witness:
  "\<exists>pa. snd (execute_admission demo_codec demo_env (federated_run demo_codec (demo_db\<lparr>gd_pending := []\<rparr>)
      [QLocal (demo_gate, QQueue GovStore ''ops'' None ''alice'' JNull), QLocal (demo_env, QApprove ''p1'' ''bob'' HttpSurface)])
      ''p1'') = Inr pa \<and> payload_agent_id (pa_payload pa) \<in> {None, Some (pa_requested_by pa)}"
proof -
  let ?db = "demo_db\<lparr>gd_pending := []\<rparr>"
  let ?evs = "[QLocal (demo_gate, QQueue GovStore ''ops'' None ''alice'' JNull), QLocal (demo_env, QApprove ''p1'' ''bob'' HttpSurface)]"
  have "queue_step demo_codec ?db (demo_gate, QQueue GovStore ''ops'' None ''alice'' JNull) = demo_db"
    by (simp add: queue_pending_action_def insert_row_def table_simps demo_db_def demo_queued_def queued_row_def)
  then have run: "federated_run demo_codec ?db ?evs =
      queue_run demo_codec demo_db [(demo_env, QApprove ''p1'' ''bob'' HttpSurface)]"
    by (simp add: federated_run_def)
  obtain r where r: "pending_of (federated_run demo_codec ?db ?evs) ''p1'' = Some r" "pr_status r = ''approved''"
    using demo_approved unfolding run by blast
  have "payload_agent_id (pa_payload (row_to_pending demo_codec r)) = None"
    by (simp add: row_to_pending_def parse_payload_def demo_codec_def payload_agent_id_def)
  then have "snd (execute_admission demo_codec demo_env (federated_run demo_codec ?db ?evs) ''p1'') =
      Inr (row_to_pending demo_codec r)"
    using r unfolding execute_admission_Inr by auto
  with execution_needs_approval [OF _ _ this] show ?thesis by auto
qed

end
