(* ===== verification/AgentRules.thy ===== *)
theory AgentRules
  imports Glob Json Text SignedEvents
begin

text \<open>
  The agent-action rules engine of \<^verbatim>\<open>src/governance/agent_action.rs\<close> and its rule table
  \<^verbatim>\<open>src/governance/rules_store.rs\<close>: the actions an agent proposes, the per-kind matchers, the
  first-blocking-rule evaluation, the load-time signature gate and the plain table operations.

  The JSON parser and printer, the signature scheme and the free-disk probe are the fields of
  \<open>rule_env\<close>.
\<close>

section \<open>Actions, decisions, severities\<close>

datatype agent_action =
    ActBash string "string option"
  | ActFilesystemWrite string "nat option"
  | ActNetworkRequest string string
  | ActProcessSpawn string "string list"
  | ActCustom string json
  | ActRead string "string option" "string option"

fun agent_action_kind :: "agent_action \<Rightarrow> string" where
  "agent_action_kind (ActBash _ _) = ''bash''"
| "agent_action_kind (ActFilesystemWrite _ _) = ''filesystem_write''"
| "agent_action_kind (ActNetworkRequest _ _) = ''network_request''"
| "agent_action_kind (ActProcessSpawn _ _) = ''process_spawn''"
| "agent_action_kind (ActCustom _ _) = ''custom''"
| "agent_action_kind (ActRead _ _ _) = ''read_action''"

datatype rule_verdict =
  VdAllow | VdRefuse string string | VdWarn string string | VdEscalate string string

definition is_refusal :: "rule_verdict \<Rightarrow> bool" where
  "is_refusal d = (case d of VdRefuse _ _ \<Rightarrow> True | _ \<Rightarrow> False)"

definition is_escalation :: "rule_verdict \<Rightarrow> bool" where
  "is_escalation d = (case d of VdEscalate _ _ \<Rightarrow> True | _ \<Rightarrow> False)"

definition is_blocking :: "rule_verdict \<Rightarrow> bool" where
  "is_blocking d = (case d of VdRefuse _ _ \<Rightarrow> True | VdEscalate _ _ \<Rightarrow> True | _ \<Rightarrow> False)"

definition is_allowed :: "rule_verdict \<Rightarrow> bool" where
  "is_allowed d = (case d of VdAllow \<Rightarrow> True | VdWarn _ _ \<Rightarrow> True | _ \<Rightarrow> False)"

fun decision_wire_parts :: "rule_verdict \<Rightarrow> string \<times> string \<times> string" where
  "decision_wire_parts VdAllow = (''allow'', [], [])"
| "decision_wire_parts (VdRefuse i r) = (''refuse'', i, r)"
| "decision_wire_parts (VdWarn i r) = (''warn'', i, r)"
| "decision_wire_parts (VdEscalate i r) = (''escalate'', i, r)"

datatype severity = SevRefuse | SevWarn | SevLog | SevEscalate

fun severity_as_str :: "severity \<Rightarrow> string" where
  "severity_as_str SevRefuse = ''refuse''"
| "severity_as_str SevWarn = ''warn''"
| "severity_as_str SevLog = ''log''"
| "severity_as_str SevEscalate = ''escalate''"

definition severity_from_str :: "string \<Rightarrow> severity option" where
  "severity_from_str s =
     (if s = ''refuse'' then Some SevRefuse
      else if s = ''warn'' then Some SevWarn
      else if s = ''log'' then Some SevLog
      else if s = ''escalate'' then Some SevEscalate
      else None)"

interpretation severity: wire_enum severity_as_str severity_from_str
proof unfold_locales
  show "severity_from_str (severity_as_str e) = Some e" for e
    by (cases e) (simp_all add: severity_from_str_def)
qed (auto simp: severity_from_str_def split: if_splits)

section \<open>Rules\<close>

record rule =
  ru_id :: string
  ru_kind :: string
  ru_matcher :: string
  ru_severity :: string
  ru_reason :: string
  ru_namespace :: string
  ru_created_by :: string
  ru_created_at :: int
  ru_enabled :: bool
  ru_signature :: "bytes option"
  ru_attest_level :: string

record rule_env =
  re_crypto :: crypto
  re_parse_json :: "string \<Rightarrow> json option"
  re_print_json :: "json \<Rightarrow> bytes"
  re_disk_free_gib :: "nat option"
  re_operator_pubkey :: "bytes option"

section \<open>Matchers\<close>

text \<open>A field of the matcher that is a string.\<close>

definition str_field :: "string \<Rightarrow> json \<Rightarrow> string option" where
  "str_field k m = Option.bind (json_get k m) json_as_str"

definition json_as_bool :: "json \<Rightarrow> bool option" where
  "json_as_bool v = (case v of JBool b \<Rightarrow> Some b | _ \<Rightarrow> None)"

definition is_digit :: "char \<Rightarrow> bool" where
  "is_digit c \<longleftrightarrow> 48 \<le> (of_char c :: nat) \<and> (of_char c :: nat) \<le> 57"

definition digits_value :: "string \<Rightarrow> nat" where
  "digits_value s = foldl (\<lambda>n c. 10 * n + (of_char c - 48)) 0 s"

text \<open>A number whose literal is a plain integer of 64 bits.\<close>

definition json_as_u64 :: "json \<Rightarrow> nat option" where
  "json_as_u64 v =
     (case v of
        JNum s \<Rightarrow> if s \<noteq> [] \<and> list_all is_digit s \<and> digits_value s < 2 ^ 64 then Some (digits_value s) else None
      | _ \<Rightarrow> None)"

fun str_contains :: "string \<Rightarrow> string \<Rightarrow> bool" where
  "str_contains [] needle = (needle = [])"
| "str_contains (c # s) needle = (starts_with (c # s) needle \<or> str_contains s needle)"

fun join_space :: "string list \<Rightarrow> string" where
  "join_space [] = []"
| "join_space [s] = s"
| "join_space (s # t # r) = s @ '' '' @ join_space (t # r)"

text \<open>A narrowing field: absent it does not constrain, present it needs the dimension and the test.\<close>

definition narrows :: "(string \<Rightarrow> string \<Rightarrow> bool) \<Rightarrow> string option \<Rightarrow> string option \<Rightarrow> bool" where
  "narrows test field dimension =
     (case field of None \<Rightarrow> True | Some f \<Rightarrow> (case dimension of None \<Rightarrow> False | Some d \<Rightarrow> test f d))"

definition match_read :: "json \<Rightarrow> string \<Rightarrow> string option \<Rightarrow> string option \<Rightarrow> bool" where
  "match_read matcher surface_name namespace query =
     (let f_surface = str_field ''surface'' matcher; f_ns = str_field ''namespace'' matcher;
          f_query = str_field ''query_substring'' matcher
      in if \<not> narrows glob_matches f_surface (Some surface_name) then False
         else if \<not> narrows glob_matches f_ns namespace then False
         else if \<not> narrows (\<lambda>needle q. str_contains q needle) f_query query then False
         else if f_surface \<noteq> None \<or> f_ns \<noteq> None \<or> f_query \<noteq> None then True
         else (case Option.bind (json_get ''all'' matcher) json_as_bool of Some b \<Rightarrow> b | None \<Rightarrow> False))"

definition match_bash :: "json \<Rightarrow> string \<Rightarrow> bool" where
  "match_bash matcher command =
     (case Option.bind (case json_get ''command_substring'' matcher of
                          Some v \<Rightarrow> Some v | None \<Rightarrow> json_get ''command_regex'' matcher) json_as_str of
        None \<Rightarrow> False
      | Some needle \<Rightarrow> str_contains command needle)"

definition match_filesystem_write :: "json \<Rightarrow> string \<Rightarrow> bool" where
  "match_filesystem_write matcher path =
     (case str_field ''glob'' matcher of None \<Rightarrow> False | Some g \<Rightarrow> glob_matches g path)"

definition match_network_request :: "json \<Rightarrow> string \<Rightarrow> bool" where
  "match_network_request matcher host =
     (case str_field ''host'' matcher of None \<Rightarrow> False | Some h \<Rightarrow> glob_matches h host)"

definition match_process_spawn :: "nat option \<Rightarrow> json \<Rightarrow> string \<Rightarrow> string list \<Rightarrow> bool" where
  "match_process_spawn disk matcher binary args =
     (case str_field ''binary'' matcher of
        None \<Rightarrow> False
      | Some target_binary \<Rightarrow>
          if target_binary \<noteq> binary then False
          else if (case str_field ''args_contain'' matcher of
                     Some needle \<Rightarrow> \<not> str_contains (join_space args) needle | None \<Rightarrow> False) then False
          else (case Option.bind (json_get ''disk_free_min_gib'' matcher) json_as_u64 of
                  Some threshold \<Rightarrow> (case disk of Some g \<Rightarrow> g < threshold | None \<Rightarrow> False)
                | None \<Rightarrow> True))"

definition match_custom :: "json \<Rightarrow> string \<Rightarrow> json \<Rightarrow> bool" where
  "match_custom matcher kind payload =
     (case str_field ''kind'' matcher of
        None \<Rightarrow> False
      | Some target_kind \<Rightarrow>
          if target_kind \<noteq> kind then False
          else if \<not> narrows glob_matches (str_field ''namespace_glob'' matcher) (str_field ''namespace'' payload) then False
          else if \<not> narrows (=) (str_field ''tier'' matcher) (str_field ''tier'' payload) then False
          else narrows (\<lambda>needle t. str_contains t needle) (str_field ''title_contains'' matcher) (str_field ''title'' payload))"

definition matcher_applies :: "rule_env \<Rightarrow> rule \<Rightarrow> agent_action \<Rightarrow> bool" where
  "matcher_applies env r action =
     (if ru_kind r \<noteq> agent_action_kind action then False
      else case re_parse_json env (ru_matcher r) of
             None \<Rightarrow> False
           | Some matcher \<Rightarrow>
               (case action of
                  ActBash command cwd \<Rightarrow> match_bash matcher command
                | ActFilesystemWrite path estimate \<Rightarrow> match_filesystem_write matcher path
                | ActNetworkRequest host scheme \<Rightarrow> match_network_request matcher host
                | ActProcessSpawn binary args \<Rightarrow> match_process_spawn (re_disk_free_gib env) matcher binary args
                | ActCustom custom_kind payload \<Rightarrow> match_custom matcher custom_kind payload
                | ActRead surface_name namespace query \<Rightarrow> match_read matcher surface_name namespace query))"

text \<open>The operator-facing check of a substring: the first metacharacter and its position.\<close>

definition regex_metacharacters :: string where
  "regex_metacharacters = ''.*+?[]()^$|'' @ [CHR 0x5C]"

datatype substring_error = SubstringEmpty | SubstringMetacharacter char nat

definition validate_command_substring :: "string \<Rightarrow> substring_error + unit" where
  "validate_command_substring value =
     (if value = [] then Inl SubstringEmpty
      else let pos = length (takeWhile (\<lambda>c. c \<notin> set regex_metacharacters) value)
           in if pos < length value then Inl (SubstringMetacharacter (value ! pos) pos) else Inr ())"

section \<open>Evaluation\<close>

definition rule_severity :: "rule \<Rightarrow> severity" where
  "rule_severity r = (case severity_from_str (ru_severity r) of Some s \<Rightarrow> s | None \<Rightarrow> SevLog)"

fun evaluate_rules :: "rule_env \<Rightarrow> rule list \<Rightarrow> agent_action \<Rightarrow> (string \<times> string) option \<Rightarrow> rule_verdict" where
  "evaluate_rules env [] action first_warn =
     (case first_warn of Some (i, reason) \<Rightarrow> VdWarn i reason | None \<Rightarrow> VdAllow)"
| "evaluate_rules env (r # rs) action first_warn =
     (if \<not> matcher_applies env r action then evaluate_rules env rs action first_warn
      else case rule_severity r of
             SevRefuse \<Rightarrow> VdRefuse (ru_id r) (ru_reason r)
           | SevEscalate \<Rightarrow> VdEscalate (ru_id r) (ru_reason r)
           | SevWarn \<Rightarrow> evaluate_rules env rs action
               (if first_warn = None then Some (ru_id r, ru_reason r) else first_warn)
           | SevLog \<Rightarrow> evaluate_rules env rs action first_warn)"

definition engine_evaluate :: "rule_env \<Rightarrow> rule list \<Rightarrow> agent_action \<Rightarrow> rule_verdict" where
  "engine_evaluate env rules action = evaluate_rules env rules action None"

section \<open>The rule table\<close>

type_synonym rule_table = "rule list"

datatype rules_error = RulesSql sql_error | RulesCheck | RulesAudit audit_error

definition rule_insert :: "rule_table \<Rightarrow> rule \<Rightarrow> rules_error + rule_table" where
  "rule_insert t r =
     (if severity_from_str (ru_severity r) = None then Inl RulesCheck
      else case insert_row ru_id r t of Inl e \<Rightarrow> Inl (RulesSql e) | Inr t' \<Rightarrow> Inr t')"

definition rule_get :: "rule_table \<Rightarrow> string \<Rightarrow> rule option" where
  "rule_get t i = select_by ru_id i t"

definition rule_list :: "rule_table \<Rightarrow> rule list" where
  "rule_list t = sort_key ru_id t"

definition rule_remove :: "rule_table \<Rightarrow> string \<Rightarrow> rule_table \<times> bool" where
  "rule_remove t i = (delete_where (\<lambda>r. ru_id r = i) t, count_where (\<lambda>r. ru_id r = i) t > 0)"

definition set_enabled :: "rule_table \<Rightarrow> string \<Rightarrow> bool \<Rightarrow> rule_table \<times> bool" where
  "set_enabled t i enabled =
     (update_where (\<lambda>r. ru_id r = i) (\<lambda>r. r\<lparr>ru_enabled := enabled\<rparr>) t, count_where (\<lambda>r. ru_id r = i) t > 0)"

definition update_signature :: "rule_table \<Rightarrow> string \<Rightarrow> bytes \<Rightarrow> string \<Rightarrow> rule_table \<times> bool" where
  "update_signature t i sig level =
     (update_where (\<lambda>r. ru_id r = i) (\<lambda>r. r\<lparr>ru_signature := Some sig, ru_attest_level := level\<rparr>) t,
      count_where (\<lambda>r. ru_id r = i) t > 0)"

definition count_enabled_rules :: "rule_table \<Rightarrow> nat" where
  "count_enabled_rules t = count_where ru_enabled t"

section \<open>The signature gate\<close>

definition operator_signed :: string where
  "operator_signed = ''operator_signed''"

definition rule_json :: "rule \<Rightarrow> json" where
  "rule_json r = JObj
     [(''created_by'', JStr (ru_created_by r)), (''enabled'', JBool (ru_enabled r)), (''id'', JStr (ru_id r)),
      (''kind'', JStr (ru_kind r)), (''matcher'', JStr (ru_matcher r)), (''namespace'', JStr (ru_namespace r)),
      (''reason'', JStr (ru_reason r)), (''severity'', JStr (ru_severity r))]"

definition canonical_bytes_for_signing :: "rule_env \<Rightarrow> rule \<Rightarrow> bytes" where
  "canonical_bytes_for_signing env r = re_print_json env (rule_json r)"

definition verify_rule_signature :: "rule_env \<Rightarrow> rule \<Rightarrow> bytes \<Rightarrow> bool" where
  "verify_rule_signature env r pk =
     (case ru_signature r of
        None \<Rightarrow> False
      | Some sig \<Rightarrow> length sig = 64 \<and> ed_verify_strict (re_crypto env) pk (canonical_bytes_for_signing env r) sig)"

definition enforced_rule_passes :: "rule_env \<Rightarrow> rule \<Rightarrow> bool" where
  "enforced_rule_passes env r =
     (case re_operator_pubkey env of
        Some pk \<Rightarrow> ru_attest_level r = operator_signed \<and> verify_rule_signature env r pk
      | None \<Rightarrow> True)"

definition list_enabled_by_kind :: "rule_env \<Rightarrow> rule_table \<Rightarrow> string \<Rightarrow> rule list" where
  "list_enabled_by_kind env t kind =
     filter (enforced_rule_passes env) (sort_key ru_id (filter (\<lambda>r. ru_kind r = kind \<and> ru_enabled r) t))"

definition load_for_action :: "rule_env \<Rightarrow> rule_table \<Rightarrow> agent_action \<Rightarrow> rule list" where
  "load_for_action env t action = list_enabled_by_kind env t (agent_action_kind action)"

definition count_matching_rules :: "rule_env \<Rightarrow> rule_table \<Rightarrow> agent_action \<Rightarrow> nat" where
  "count_matching_rules env t action =
     length (filter (\<lambda>r. matcher_applies env r action) (load_for_action env t action))"

text \<open>The verdict on an action, without the audit row.\<close>

definition check_agent_action_no_audit :: "rule_env \<Rightarrow> rule_table \<Rightarrow> agent_action \<Rightarrow> rule_verdict" where
  "check_agent_action_no_audit env t action = engine_evaluate env (load_for_action env t action) action"

section \<open>The first blocking rule decides\<close>

definition blocking_severity :: "rule \<Rightarrow> bool" where
  "blocking_severity r \<longleftrightarrow> rule_severity r = SevRefuse \<or> rule_severity r = SevEscalate"

definition rule_verdict_of :: "rule \<Rightarrow> rule_verdict" where
  "rule_verdict_of r = (case rule_severity r of
     SevRefuse \<Rightarrow> VdRefuse (ru_id r) (ru_reason r) | SevEscalate \<Rightarrow> VdEscalate (ru_id r) (ru_reason r)
   | SevWarn \<Rightarrow> VdWarn (ru_id r) (ru_reason r) | SevLog \<Rightarrow> VdAllow)"

lemma evaluate_rules_spec:
  "evaluate_rules env rs a w =
     (case find (\<lambda>r. matcher_applies env r a \<and> blocking_severity r) rs of
        Some r \<Rightarrow> rule_verdict_of r
      | None \<Rightarrow>
          (case w of
             Some (i, reason) \<Rightarrow> VdWarn i reason
           | None \<Rightarrow>
               (case find (\<lambda>r. matcher_applies env r a \<and> rule_severity r = SevWarn) rs of
                  Some r \<Rightarrow> rule_verdict_of r
                | None \<Rightarrow> VdAllow)))"
  by (induction rs arbitrary: w)
    (auto simp: blocking_severity_def rule_verdict_of_def split: severity.splits option.splits)

lemma is_blocking_iff: "is_blocking d \<longleftrightarrow> is_refusal d \<or> is_escalation d" "is_allowed d \<longleftrightarrow> \<not> is_blocking d"
  by (cases d; simp add: is_blocking_def is_refusal_def is_escalation_def is_allowed_def)+

lemma blocking_verdict [simp]: "blocking_severity r \<Longrightarrow> is_blocking (rule_verdict_of r)"
  by (auto simp: blocking_severity_def rule_verdict_of_def is_blocking_def)

lemma find_SomeD: "find P xs = Some x \<Longrightarrow> x \<in> set xs \<and> P x"
  by (induction xs) (auto split: if_splits)

lemma find_None: "find P xs = None \<longleftrightarrow> (\<forall>x \<in> set xs. \<not> P x)"
  by (induction xs) auto

lemma find_sorted:
  "sorted_wrt (\<lambda>a b. key a \<le> key b) xs \<Longrightarrow> find P xs = Some x \<Longrightarrow> y \<in> set xs \<Longrightarrow> P y \<Longrightarrow> (key x :: 'k::linorder) \<le> key y"
  by (induction xs) (auto split: if_splits)

lemma evaluate_blocking:
  "is_blocking (engine_evaluate env rs a) \<longleftrightarrow> (\<exists>r \<in> set rs. matcher_applies env r a \<and> blocking_severity r)"
proof (cases "find (\<lambda>r. matcher_applies env r a \<and> blocking_severity r) rs")
  case None
  have "\<not> is_blocking (engine_evaluate env rs a)"
    by (auto simp: engine_evaluate_def evaluate_rules_spec None is_blocking_def rule_verdict_of_def
        dest!: find_SomeD split: option.splits)
  then show ?thesis using None by (auto simp: find_None)
next
  case (Some r)
  then show ?thesis
    using find_SomeD [OF Some] by (auto simp: engine_evaluate_def evaluate_rules_spec)
qed

text \<open>A rule of the table that stops an action.\<close>

definition blocks :: "rule_env \<Rightarrow> agent_action \<Rightarrow> rule \<Rightarrow> bool" where
  "blocks env a r \<longleftrightarrow>
     ru_enabled r \<and> enforced_rule_passes env r \<and> matcher_applies env r a \<and> blocking_severity r"

lemma set_load_for_action:
  "set (load_for_action env t a) =
     {r \<in> set t. ru_kind r = agent_action_kind a \<and> ru_enabled r \<and> enforced_rule_passes env r}"
  by (auto simp: load_for_action_def list_enabled_by_kind_def)

lemma sorted_load_for_action:
  "sorted_wrt (\<lambda>a b. ru_id a \<le> ru_id b) (load_for_action env t a)"
proof -
  have "sorted (map ru_id (sort_key ru_id (filter P t)))" for P by (rule sorted_sort_key)
  then show ?thesis
    by (simp add: load_for_action_def list_enabled_by_kind_def sorted_wrt_filter sorted_map)
qed

lemma blocks_loaded:
  "(\<exists>r \<in> set (load_for_action env t a). matcher_applies env r a \<and> blocking_severity r) \<longleftrightarrow> (\<exists>r \<in> set t. blocks env a r)"
  by (auto simp: set_load_for_action blocks_def matcher_applies_def split: if_splits)

lemma blocked_by:
  assumes "is_blocking (check_agent_action_no_audit env t a)"
  shows "\<exists>r \<in> set t. blocks env a r \<and> check_agent_action_no_audit env t a = rule_verdict_of r \<and>
    (\<forall>r' \<in> set t. blocks env a r' \<longrightarrow> ru_id r \<le> ru_id r')"
proof -
  let ?rs = "load_for_action env t a"
  have "\<exists>r \<in> set ?rs. matcher_applies env r a \<and> blocking_severity r"
    using assms unfolding check_agent_action_no_audit_def evaluate_blocking .
  then obtain r where r: "find (\<lambda>r. matcher_applies env r a \<and> blocking_severity r) ?rs = Some r"
    by (cases "find (\<lambda>r. matcher_applies env r a \<and> blocking_severity r) ?rs") (auto simp: find_None)
  have "blocks env a r" "r \<in> set t"
    using find_SomeD [OF r] by (auto simp: set_load_for_action blocks_def)
  moreover have "check_agent_action_no_audit env t a = rule_verdict_of r"
    by (simp add: check_agent_action_no_audit_def engine_evaluate_def evaluate_rules_spec r)
  moreover have "ru_id r \<le> ru_id r'" if "r' \<in> set t" "blocks env a r'" for r'
  proof (rule find_sorted [OF sorted_load_for_action r])
    show "r' \<in> set ?rs" "matcher_applies env r' a \<and> blocking_severity r'"
      using that by (auto simp: set_load_for_action blocks_def matcher_applies_def split: if_splits)
  qed
  ultimately show ?thesis by blast
qed

text \<open>A matching rule that escalates, in the same sense as \<open>blocks\<close>.\<close>

definition escalates :: "rule_env \<Rightarrow> agent_action \<Rightarrow> rule \<Rightarrow> bool" where
  "escalates env a r \<longleftrightarrow> blocks env a r \<and> rule_severity r = SevEscalate"

text \<open>C30: The rules decide exactly. An action is stopped exactly when some enabled rule of its kind that passes
  the signature gate matches it at a refusing or escalating severity. Unless one of the matching rules
  escalates, the answer of a stopped action is the refusal by the matching refuse rule with the least
  identifier, with its reason; and an action that is not stopped proceeds with the first matching warning, or
  is allowed if there is none. Nothing else in the table matters, in whatever order it is stored.\<close>
theorem rules_decide_exactly:
  "(is_blocking (check_agent_action_no_audit env t a) \<longleftrightarrow> (\<exists>r \<in> set t. blocks env a r)) \<and>
   (is_blocking (check_agent_action_no_audit env t a) \<and> (\<forall>r \<in> set t. \<not> escalates env a r) \<longrightarrow>
      (\<exists>r \<in> set t. blocks env a r \<and>
         check_agent_action_no_audit env t a = VdRefuse (ru_id r) (ru_reason r) \<and>
         (\<forall>r' \<in> set t. blocks env a r' \<longrightarrow> ru_id r \<le> ru_id r'))) \<and>
   (\<not> is_blocking (check_agent_action_no_audit env t a) \<longrightarrow>
      check_agent_action_no_audit env t a =
        (case find (\<lambda>r. matcher_applies env r a \<and> rule_severity r = SevWarn) (load_for_action env t a) of
           Some r \<Rightarrow> VdWarn (ru_id r) (ru_reason r) | None \<Rightarrow> VdAllow))"
proof -
  have "is_blocking (check_agent_action_no_audit env t a) \<longleftrightarrow> (\<exists>r \<in> set t. blocks env a r)"
    unfolding check_agent_action_no_audit_def evaluate_blocking by (rule blocks_loaded)
  moreover have "check_agent_action_no_audit env t a =
      (case find (\<lambda>r. matcher_applies env r a \<and> rule_severity r = SevWarn) (load_for_action env t a) of
         Some r \<Rightarrow> VdWarn (ru_id r) (ru_reason r) | None \<Rightarrow> VdAllow)"
    if "\<not> is_blocking (check_agent_action_no_audit env t a)"
  proof -
    have "find (\<lambda>r. matcher_applies env r a \<and> blocking_severity r) (load_for_action env t a) = None"
      using that unfolding check_agent_action_no_audit_def evaluate_blocking find_None by blast
    then show ?thesis
      by (auto simp: check_agent_action_no_audit_def engine_evaluate_def evaluate_rules_spec rule_verdict_of_def
          dest: find_SomeD split: option.split)
  qed
  moreover have "\<exists>r \<in> set t. blocks env a r \<and>
      check_agent_action_no_audit env t a = VdRefuse (ru_id r) (ru_reason r) \<and>
      (\<forall>r' \<in> set t. blocks env a r' \<longrightarrow> ru_id r \<le> ru_id r')"
    if b: "is_blocking (check_agent_action_no_audit env t a)" and ne: "\<forall>r \<in> set t. \<not> escalates env a r"
  proof -
    obtain r where r: "r \<in> set t" "blocks env a r" "check_agent_action_no_audit env t a = rule_verdict_of r"
      "\<forall>r' \<in> set t. blocks env a r' \<longrightarrow> ru_id r \<le> ru_id r'" using blocked_by [OF b] by blast
    then have "rule_verdict_of r = VdRefuse (ru_id r) (ru_reason r)"
      using ne by (auto simp: escalates_def blocks_def blocking_severity_def rule_verdict_of_def)
    with r show ?thesis by auto
  qed
  ultimately show ?thesis by blast
qed

section \<open>Only signed rules are enforced\<close>

lemma rule_json_inject: "rule_json r = rule_json s \<longleftrightarrow>
   ru_id r = ru_id s \<and> ru_kind r = ru_kind s \<and> ru_matcher r = ru_matcher s \<and> ru_severity r = ru_severity s \<and>
   ru_reason r = ru_reason s \<and> ru_namespace r = ru_namespace s \<and> ru_created_by r = ru_created_by s \<and>
   ru_enabled r = ru_enabled s"
  by (auto simp: rule_json_def)

text \<open>Once an operator key is enrolled, only what the operator signed stops or colours an action. If the
  key verifies no bytes but the canonical bytes of the rules \<open>R\<close> the operator signed, then every rule the
  engine evaluates carries the identifier, kind, matcher, severity, reason, namespace, author and enabled
  flag of a rule in \<open>R\<close>: no direct edit of the table can bring in a rule, change one or switch one on.\<close>
theorem enforced_rules_signed:
  assumes "re_operator_pubkey env = Some pk" and "inj (re_print_json env)"
    and "\<And>m sig. ed_verify_strict (re_crypto env) pk m sig \<Longrightarrow> m \<in> canonical_bytes_for_signing env ` R"
    and "r \<in> set (load_for_action env t a)"
  shows "\<exists>s \<in> R. rule_json r = rule_json s \<and> ru_enabled s"
proof -
  have e: "enforced_rule_passes env r" "ru_enabled r" using assms(4) by (auto simp: set_load_for_action)
  then obtain sig where "ed_verify_strict (re_crypto env) pk (canonical_bytes_for_signing env r) sig"
    using assms(1) by (auto simp: enforced_rule_passes_def verify_rule_signature_def split: option.splits)
  then obtain s where s: "s \<in> R" "canonical_bytes_for_signing env r = canonical_bytes_for_signing env s"
    using assms(3) by blast
  then have "rule_json r = rule_json s"
    using assms(2) by (auto simp: canonical_bytes_for_signing_def dest: injD)
  then show ?thesis using s(1) e(2) by (auto simp: rule_json_inject)
qed

section \<open>Where the documents and the code part\<close>

text \<open>Switching rules off needs no signature: a table whose rows are all disabled stops nothing.\<close>

lemma unsigned_disable_unblocks:
  "check_agent_action_no_audit env (update_where P (\<lambda>r. r\<lparr>ru_enabled := False\<rparr>) t) a =
   check_agent_action_no_audit env (filter (\<lambda>r. \<not> P r) t) a"
proof -
  have "filter (\<lambda>r. ru_kind r = k \<and> ru_enabled r) (update_where P (\<lambda>r. r\<lparr>ru_enabled := False\<rparr>) t) =
      filter (\<lambda>r. ru_kind r = k \<and> ru_enabled r) (filter (\<lambda>r. \<not> P r) t)" for k
    by (induction t) (auto simp: update_where_def)
  then show ?thesis
    by (simp add: check_agent_action_no_audit_def load_for_action_def list_enabled_by_kind_def del: filter_filter)
qed

text \<open>An escalation with a smaller identifier hides a refusal that matches as well.\<close>

lemma escalation_hides_refusal:
  assumes "matcher_applies env r a" and "rule_severity r = SevEscalate" and "enforced_rule_passes env r" and "ru_enabled r"
    and "\<forall>s \<in> set t. ru_id r < ru_id s"
  shows "check_agent_action_no_audit env (r # t) a = VdEscalate (ru_id r) (ru_reason r)"
proof -
  have b: "blocks env a r" using assms by (simp add: blocks_def blocking_severity_def)
  then have "is_blocking (check_agent_action_no_audit env (r # t) a)"
    unfolding check_agent_action_no_audit_def evaluate_blocking blocks_loaded by simp
  from blocked_by [OF this] b obtain s where s: "s \<in> set (r # t)" "ru_id s \<le> ru_id r"
      "check_agent_action_no_audit env (r # t) a = rule_verdict_of s" by fastforce
  then have "s = r" using assms(5) by fastforce
  then show ?thesis using s(3) assms(2) by (simp add: rule_verdict_of_def)
qed

section \<open>A small rule table\<close>

instance json :: countable
  by countable_datatype

definition demo_rule :: "string \<Rightarrow> string \<Rightarrow> rule" where
  "demo_rule i sev =
     \<lparr>ru_id = i, ru_kind = ''bash'', ru_matcher = ''rm'', ru_severity = sev, ru_reason = ''no deletes'',
      ru_namespace = ''global'', ru_created_by = ''operator'', ru_created_at = 0, ru_enabled = True,
      ru_signature = Some (replicate 64 (CHR 0x01)), ru_attest_level = operator_signed\<rparr>"

text \<open>A signature scheme that accepts exactly the canonical bytes of the given rules.\<close>

definition demo_rule_env :: "rule set \<Rightarrow> rule_env" where
  "demo_rule_env R =
     \<lparr>re_crypto = demo_crypto\<lparr>ed_verify_strict := \<lambda>pk m s. m \<in> (\<lambda>r. replicate (to_nat (rule_json r)) (CHR 0x00)) ` R\<rparr>,
      re_parse_json = (\<lambda>s. Some (JObj [(''command_substring'', JStr s)])),
      re_print_json = (\<lambda>v. replicate (to_nat v) (CHR 0x00)), re_disk_free_gib = None,
      re_operator_pubkey = Some (replicate 32 (CHR 0x02))\<rparr>"

definition demo_rule_table :: rule_table where
  "demo_rule_table = [demo_rule ''r2'' ''refuse'', demo_rule ''r3'' ''refuse'', demo_rule ''r1'' ''warn'']"

lemma demo_rule_blocks:
  "demo_rule i sev \<in> R \<Longrightarrow>
   blocks (demo_rule_env R) (ActBash ''rm -rf'' None) (demo_rule i sev) \<longleftrightarrow> sev = ''refuse'' \<or> sev = ''escalate''"
  by (auto simp: blocks_def demo_rule_def demo_rule_env_def enforced_rule_passes_def verify_rule_signature_def
      canonical_bytes_for_signing_def matcher_applies_def match_bash_def blocking_severity_def rule_severity_def
      severity_from_str_def)

theorem rules_decide_exactly_witness:
  "check_agent_action_no_audit (demo_rule_env (set demo_rule_table)) demo_rule_table (ActBash ''rm -rf'' None) =
     VdRefuse ''r2'' ''no deletes''"
proof -
  let ?env = "demo_rule_env (set demo_rule_table)" and ?a = "ActBash ''rm -rf'' None"
  have mem: "demo_rule ''r2'' ''refuse'' \<in> set demo_rule_table" "demo_rule ''r3'' ''refuse'' \<in> set demo_rule_table"
      "demo_rule ''r1'' ''warn'' \<in> set demo_rule_table"
    by (simp_all add: demo_rule_table_def)
  have "\<forall>r \<in> set demo_rule_table. \<not> escalates ?env ?a r"
    by (simp add: demo_rule_table_def demo_rule_def escalates_def rule_severity_def severity_from_str_def)
  then obtain r where r: "r \<in> set demo_rule_table" "blocks ?env ?a r"
      "check_agent_action_no_audit ?env demo_rule_table ?a = VdRefuse (ru_id r) (ru_reason r)" "ru_id r \<le> ''r2''"
    using rules_decide_exactly [of ?env demo_rule_table ?a] demo_rule_blocks [OF mem(1)] mem(1)
    by (fastforce simp: demo_rule_def)
  have "r = demo_rule ''r2'' ''refuse''"
    using r(1,2,4) demo_rule_blocks [OF mem(3)] by (auto simp: demo_rule_table_def, simp add: demo_rule_def)
  then show ?thesis using r(3) by (simp add: demo_rule_def)
qed

theorem enforced_rules_signed_witness:
  "load_for_action (demo_rule_env (set demo_rule_table)) demo_rule_table (ActBash ''rm'' None) \<noteq> [] \<and>
   (\<exists>s \<in> set demo_rule_table.
      rule_json (hd (load_for_action (demo_rule_env (set demo_rule_table)) demo_rule_table (ActBash ''rm'' None))) = rule_json s)"
proof -
  let ?env = "demo_rule_env (set demo_rule_table)" and ?a = "ActBash ''rm'' None"
  have "demo_rule ''r2'' ''refuse'' \<in> set (load_for_action ?env demo_rule_table ?a)"
    by (auto simp: set_load_for_action demo_rule_def demo_rule_env_def enforced_rule_passes_def
        verify_rule_signature_def canonical_bytes_for_signing_def demo_rule_table_def)
  then have ne: "load_for_action ?env demo_rule_table ?a \<noteq> []" by auto
  have "\<exists>s \<in> set demo_rule_table. rule_json (hd (load_for_action ?env demo_rule_table ?a)) = rule_json s \<and> ru_enabled s"
  proof (rule enforced_rules_signed [of ?env "replicate 32 (CHR 0x02)" _ _ demo_rule_table ?a])
    show "hd (load_for_action ?env demo_rule_table ?a) \<in> set (load_for_action ?env demo_rule_table ?a)"
      using ne by simp
  qed (auto simp: demo_rule_env_def inj_def canonical_bytes_for_signing_def)
  then show ?thesis using ne by blast
qed

end
