(* ===== verification/Deferred.thy ===== *)
theory Deferred
  imports AgentRules
begin

text \<open>
  The deferred audit path of \<^verbatim>\<open>src/governance/deferred_audit.rs\<close>: the refusal events with their
  JSON, the crash-durable journal down to its bytes, the queue, the sink that appends to the audit
  table or to the dead-letter table, and the recovery at boot.

  The JSON text of an event is printed and parsed by the library (\<open>re_print_json\<close>,
  \<open>re_parse_json\<close>); reading a time back is the parameter \<open>parse_time\<close>. Times are the text they print
  as. The tasks that pump the channel are not modelled.
\<close>

section \<open>Events as JSON\<close>

text \<open>The JSON of the derived serialisers; optional fields that are absent are skipped.\<close>

definition json_object :: "(string \<times> json) list \<Rightarrow> json" where
  "json_object kvs = JObj (fold (\<lambda>(k, v) m. bt_insert k v m) kvs [])"

definition optional_field :: "string \<Rightarrow> ('a \<Rightarrow> json) \<Rightarrow> 'a option \<Rightarrow> (string \<times> json) list" where
  "optional_field k f v = (case v of None \<Rightarrow> [] | Some x \<Rightarrow> [(k, f x)])"

fun action_json :: "agent_action \<Rightarrow> json" where
  "action_json (ActBash command cwd) =
     json_object ([(''kind'', JStr ''bash''), (''command'', JStr command)] @ optional_field ''cwd'' JStr cwd)"
| "action_json (ActFilesystemWrite path estimate) =
     json_object ([(''kind'', JStr ''filesystem_write''), (''path'', JStr path)] @
       optional_field ''byte_estimate'' (\<lambda>n. JNum (nat_to_string n)) estimate)"
| "action_json (ActNetworkRequest host scheme) =
     json_object [(''kind'', JStr ''network_request''), (''host'', JStr host), (''scheme'', JStr scheme)]"
| "action_json (ActProcessSpawn binary args) =
     json_object [(''kind'', JStr ''process_spawn''), (''binary'', JStr binary), (''args'', JArr (map JStr args))]"
| "action_json (ActCustom custom_kind payload) =
     json_object [(''kind'', JStr ''custom''), (''custom_kind'', JStr custom_kind), (''payload'', payload)]"
| "action_json (ActRead surface_name namespace query) =
     json_object ([(''kind'', JStr ''read_action''), (''surface'', JStr surface_name)] @
       optional_field ''namespace'' JStr namespace @ optional_field ''query'' JStr query)"

fun verdict_json :: "rule_verdict \<Rightarrow> json" where
  "verdict_json VdAllow = json_object [(''decision'', JStr ''allow'')]"
| "verdict_json (VdRefuse i r) =
     json_object [(''decision'', JStr ''refuse''), (''rule_id'', JStr i), (''reason'', JStr r)]"
| "verdict_json (VdWarn i r) =
     json_object [(''decision'', JStr ''warn''), (''rule_id'', JStr i), (''reason'', JStr r)]"
| "verdict_json (VdEscalate i r) =
     json_object [(''decision'', JStr ''escalate''), (''rule_id'', JStr i), (''reason'', JStr r)]"

text \<open>The derived deserialisers: fields by name, unknown ones ignored, an absent or null option is \<open>None\<close>.\<close>

definition string_field :: "string \<Rightarrow> json \<Rightarrow> string option" where
  "string_field k v = Option.bind (json_get k v) json_as_str"

definition opt_string_field :: "string \<Rightarrow> json \<Rightarrow> string option option" where
  "opt_string_field k v =
     (case json_get k v of None \<Rightarrow> Some None | Some JNull \<Rightarrow> Some None
      | Some x \<Rightarrow> map_option Some (json_as_str x))"

definition opt_u64_field :: "string \<Rightarrow> json \<Rightarrow> nat option option" where
  "opt_u64_field k v =
     (case json_get k v of None \<Rightarrow> Some None | Some JNull \<Rightarrow> Some None
      | Some x \<Rightarrow> map_option Some (json_as_u64 x))"

fun json_strings :: "json list \<Rightarrow> string list option" where
  "json_strings [] = Some []"
| "json_strings (x # xs) =
     (case json_as_str x of None \<Rightarrow> None | Some s \<Rightarrow> map_option ((#) s) (json_strings xs))"

definition strings_field :: "string \<Rightarrow> json \<Rightarrow> string list option" where
  "strings_field k v =
     (case json_get k v of None \<Rightarrow> Some [] | Some (JArr xs) \<Rightarrow> json_strings xs | Some _ \<Rightarrow> None)"

definition action_of_json :: "json \<Rightarrow> agent_action option" where
  "action_of_json v =
     Option.bind (string_field ''kind'' v) (\<lambda>kind.
       if kind = ''bash'' then
         Option.bind (string_field ''command'' v) (\<lambda>command. map_option (ActBash command) (opt_string_field ''cwd'' v))
       else if kind = ''filesystem_write'' then
         Option.bind (string_field ''path'' v) (\<lambda>path. map_option (ActFilesystemWrite path) (opt_u64_field ''byte_estimate'' v))
       else if kind = ''network_request'' then
         Option.bind (string_field ''host'' v) (\<lambda>host.
           case json_get ''scheme'' v of None \<Rightarrow> Some (ActNetworkRequest host [])
           | Some x \<Rightarrow> map_option (ActNetworkRequest host) (json_as_str x))
       else if kind = ''process_spawn'' then
         Option.bind (string_field ''binary'' v) (\<lambda>binary. map_option (ActProcessSpawn binary) (strings_field ''args'' v))
       else if kind = ''custom'' then
         Option.bind (string_field ''custom_kind'' v) (\<lambda>custom_kind. map_option (ActCustom custom_kind) (json_get ''payload'' v))
       else if kind = ''read_action'' then
         Option.bind (string_field ''surface'' v) (\<lambda>surface_name.
           Option.bind (opt_string_field ''namespace'' v) (\<lambda>namespace.
             map_option (ActRead surface_name namespace) (opt_string_field ''query'' v)))
       else None)"

definition verdict_of_json :: "json \<Rightarrow> rule_verdict option" where
  "verdict_of_json v =
     Option.bind (string_field ''decision'' v) (\<lambda>tag.
       if tag = ''allow'' then Some VdAllow
       else Option.bind (string_field ''rule_id'' v) (\<lambda>i. Option.bind (string_field ''reason'' v) (\<lambda>r.
         if tag = ''refuse'' then Some (VdRefuse i r)
         else if tag = ''warn'' then Some (VdWarn i r)
         else if tag = ''escalate'' then Some (VdEscalate i r)
         else None)))"

section \<open>Refusal events\<close>

record deferred_event =
  de_agent_id :: string
  de_action :: agent_action
  de_decision :: rule_verdict
  de_timestamp :: string

definition from_refusal :: "string \<Rightarrow> string \<Rightarrow> agent_action \<Rightarrow> rule_verdict \<Rightarrow> deferred_event option" where
  "from_refusal timestamp agent_id action decision =
     (if \<not> is_blocking decision then None
      else Some \<lparr>de_agent_id = agent_id, de_action = action, de_decision = decision, de_timestamp = timestamp\<rparr>)"

definition event_json :: "deferred_event \<Rightarrow> json" where
  "event_json e = json_object
     [(''action'', action_json (de_action e)), (''decision'', verdict_json (de_decision e)),
      (''agent_id'', JStr (de_agent_id e)), (''timestamp'', JStr (de_timestamp e))]"

definition event_canonical_bytes :: "rule_env \<Rightarrow> deferred_event \<Rightarrow> bytes" where
  "event_canonical_bytes env e = re_print_json env (event_json e)"

definition from_canonical_bytes :: "rule_env \<Rightarrow> (string \<Rightarrow> string option) \<Rightarrow> bytes \<Rightarrow> deferred_event option" where
  "from_canonical_bytes env parse_time bs =
     Option.bind (re_parse_json env bs) (\<lambda>v.
       Option.bind (Option.bind (json_get ''action'' v) action_of_json) (\<lambda>action.
         Option.bind (Option.bind (json_get ''decision'' v) verdict_of_json) (\<lambda>decision.
           Option.bind (string_field ''agent_id'' v) (\<lambda>agent_id.
             Option.bind (Option.bind (string_field ''timestamp'' v) parse_time) (\<lambda>timestamp.
               Some \<lparr>de_agent_id = agent_id, de_action = action, de_decision = decision,
                     de_timestamp = timestamp\<rparr>)))))"

section \<open>The journal file\<close>

definition le32 :: "nat \<Rightarrow> bytes" where
  "le32 n = [char_of n, char_of (n div 256), char_of (n div 65536), char_of (n div 16777216)]"

definition from_le32 :: "bytes \<Rightarrow> nat" where
  "from_le32 bs = of_char (bs ! 0) + of_char (bs ! 1) * 256 + of_char (bs ! 2) * 65536 + of_char (bs ! 3) * 16777216"

definition journal_frame :: "rule_env \<Rightarrow> deferred_event \<Rightarrow> bytes" where
  "journal_frame env e =
     (let payload = event_canonical_bytes env e
      in le32 (length payload) @ payload @ sha256 (re_crypto env) payload)"

text \<open>An append: the file afterwards and whether the call succeeded. \<open>Some k\<close> is a disk that takes only
  \<open>k\<close> more bytes.\<close>

definition journal_append ::
  "rule_env \<Rightarrow> nat option \<Rightarrow> deferred_event \<Rightarrow> bytes \<Rightarrow> bytes \<times> bool" where
  "journal_append env disk e file =
     (if length (event_canonical_bytes env e) \<ge> 2 ^ 32 then (file, False)
      else let frame = journal_frame env e
           in case disk of
                None \<Rightarrow> (file @ frame, True)
              | Some k \<Rightarrow> if length frame \<le> k then (file @ frame, True) else (file @ take k frame, False))"

function journal_replay :: "rule_env \<Rightarrow> (string \<Rightarrow> string option) \<Rightarrow> bytes \<Rightarrow> deferred_event list" where
  "journal_replay env parse_time buf =
     (if length buf < 4 then []
      else let len = from_le32 (take 4 buf);
               payload = take len (drop 4 buf);
               stored_hash = take 32 (drop (4 + len) buf)
           in if length buf < 4 + len + 32 then []
              else if sha256 (re_crypto env) payload \<noteq> stored_hash then []
              else case from_canonical_bytes env parse_time payload of
                     None \<Rightarrow> []
                   | Some e \<Rightarrow> e # journal_replay env parse_time (drop (4 + len + 32) buf))"
  by pat_completeness auto
termination by (relation "measure (\<lambda>(_, _, buf). length buf)") auto

declare journal_replay.simps [simp del]

section \<open>The queue\<close>

text \<open>The channel with its receiver attached or gone, the counters, and the journal file if there is one
  with the state of its disk.\<close>

record deferred_queue =
  dq_open :: bool
  dq_channel :: "deferred_event list"
  dq_submitted :: nat
  dq_send_failures :: nat
  dq_journal :: "bytes option"
  dq_disk :: "nat option"

definition submit :: "rule_env \<Rightarrow> deferred_event \<Rightarrow> deferred_queue \<Rightarrow> deferred_queue \<times> bool" where
  "submit env e q =
     (let q1 = q\<lparr>dq_submitted := dq_submitted q + 1,
                dq_journal := map_option (\<lambda>file. fst (journal_append env (dq_disk q) e file)) (dq_journal q)\<rparr>
      in if dq_open q1 then (q1\<lparr>dq_channel := dq_channel q1 @ [e]\<rparr>, True)
         else (q1\<lparr>dq_send_failures := dq_send_failures q1 + 1\<rparr>, False))"

definition submit_refusal ::
  "rule_env \<Rightarrow> string \<Rightarrow> string \<Rightarrow> agent_action \<Rightarrow> rule_verdict \<Rightarrow> deferred_queue \<Rightarrow> deferred_queue \<times> bool" where
  "submit_refusal env timestamp agent_id action decision q =
     (case from_refusal timestamp agent_id action decision of None \<Rightarrow> (q, False) | Some e \<Rightarrow> submit env e q)"

section \<open>The sink\<close>

text \<open>The audit table, the dead-letter table without the failure text, and whether the dead-letter table
  takes rows. \<open>race n\<close> says that another writer took the sequence number of attempt \<open>n\<close>; \<open>fresh\<close> is the
  new identifier. The metric counters are left out.\<close>

record sink_state =
  sk_audit :: audit_state
  sk_dlq :: "signed_event list"
  sk_dlq_ok :: bool

datatype append_outcome = Appended | DlqLanded

definition governance_refusal_event_type :: string where
  "governance_refusal_event_type = ''governance.refusal''"

definition append_unique_race_max_retries :: nat where
  "append_unique_race_max_retries = 5"

definition sink_event :: "rule_env \<Rightarrow> bytes option \<Rightarrow> string \<Rightarrow> deferred_event \<Rightarrow> signed_event" where
  "sink_event env daemon_key fresh e =
     (let hash = sha256 (re_crypto env) (event_canonical_bytes env e);
          (signature, level) = (case try_sign_audit_payload (re_crypto env) daemon_key hash of
             Some (sig, level) \<Rightarrow> (Some sig, level) | None \<Rightarrow> (None, link_attest_as_str Unsigned))
      in \<lparr>ev_id = fresh, ev_agent_id = de_agent_id e, ev_event_type = governance_refusal_event_type,
          ev_payload_hash = hash, ev_signature = signature, ev_attest_level = level,
          ev_timestamp = de_timestamp e, ev_prev_hash = [], ev_sequence = 0, ev_cause_hash = None\<rparr>)"

function sink_attempt ::
  "rule_env \<Rightarrow> bytes option \<Rightarrow> (nat \<Rightarrow> bool) \<Rightarrow> signed_event \<Rightarrow> nat \<Rightarrow> sink_state \<Rightarrow> sink_state \<times> bool" where
  "sink_attempt env daemon_key race signed attempt s =
     (if race attempt then
        if attempt < append_unique_race_max_retries
        then sink_attempt env daemon_key race signed (attempt + 1) s
        else (s, False)
      else case append_signed_event (re_crypto env) daemon_key signed (sk_audit s) of
             Inr a \<Rightarrow> (s\<lparr>sk_audit := a\<rparr>, True)
           | Inl _ \<Rightarrow> (s, False))"
  by pat_completeness auto
termination
  by (relation "measure (\<lambda>(_, _, _, _, attempt, _). append_unique_race_max_retries - attempt)") auto

declare sink_attempt.simps [simp del]

definition sink_append ::
  "rule_env \<Rightarrow> bytes option \<Rightarrow> (nat \<Rightarrow> bool) \<Rightarrow> string \<Rightarrow> deferred_event \<Rightarrow> sink_state \<Rightarrow> sink_state \<times> append_outcome option" where
  "sink_append env daemon_key race fresh e s =
     (let signed = sink_event env daemon_key fresh e
      in case sink_attempt env daemon_key race signed 0 s of
           (s1, True) \<Rightarrow> (s1, Some Appended)
         | (s1, False) \<Rightarrow>
             if sk_dlq_ok s1 then (s1\<lparr>sk_dlq := sk_dlq s1 @ [signed]\<rparr>, Some DlqLanded) else (s1, None))"

section \<open>Recovery at boot\<close>

text \<open>One journaled event: skipped when a refusal row with its payload hash is in the table.\<close>

definition recover_event ::
  "rule_env \<Rightarrow> bytes option \<Rightarrow> (nat \<Rightarrow> bool) \<Rightarrow> string \<times> deferred_event \<Rightarrow> sink_state \<times> nat \<Rightarrow> sink_state \<times> nat" where
  "recover_event env daemon_key race fe x =
     (let (fresh, e) = fe; (s, recovered) = x;
          hash = sha256 (re_crypto env) (event_canonical_bytes env e)
      in if \<exists>r \<in> set (au_events (sk_audit s)). ev_event_type r = governance_refusal_event_type \<and> ev_payload_hash r = hash
         then (s, recovered)
         else case sink_append env daemon_key race fresh e s of
                (s', Some _) \<Rightarrow> (s', recovered + 1)
              | (s', None) \<Rightarrow> (s', recovered))"

text \<open>The tables, the journal file afterwards and the number of records recovered; \<open>fresh n\<close> is the
  identifier drawn for record \<open>n\<close>. \<open>None\<close> is a journal that does not exist.\<close>

definition recover_deferred_audit ::
  "rule_env \<Rightarrow> (string \<Rightarrow> string option) \<Rightarrow> bytes option \<Rightarrow> (nat \<Rightarrow> bool) \<Rightarrow> (nat \<Rightarrow> string) \<Rightarrow>
   bytes option \<Rightarrow> sink_state \<Rightarrow> sink_state \<times> bytes option \<times> nat" where
  "recover_deferred_audit env parse_time daemon_key race fresh journal s =
     (case journal of
        None \<Rightarrow> (s, None, 0)
      | Some file \<Rightarrow>
          (let events = journal_replay env parse_time file;
               (s', recovered) = fold (recover_event env daemon_key race) (zip (map fresh [0..<length events]) events) (s, 0)
           in (s', Some [], recovered)))"

section \<open>Events survive printing and parsing\<close>

declare nat_to_string.simps [simp del]

lemma json_object_map:
  "bt_wf m \<Longrightarrow> map_of (fold (\<lambda>(k, v) m. bt_insert k v m) kvs m) = fold (\<lambda>(k, v) f. f(k \<mapsto> v)) kvs (map_of m)"
  by (induction kvs arbitrary: m) auto

lemma json_get_object [simp]: "json_get k (json_object kvs) = fold (\<lambda>(k, v) f. f(k \<mapsto> v)) kvs Map.empty k"
  by (simp add: json_object_def json_object_map)


lemma wf_json_fold:
  "wf_json (JObj m) \<Longrightarrow> \<forall>e \<in> set kvs. wf_json (snd e) \<Longrightarrow> wf_json (JObj (fold (\<lambda>(k, v) m. bt_insert k v m) kvs m))"
proof (induction kvs arbitrary: m)
  case (Cons kv kvs)
  then show ?case using wf_json_insert [of m "snd kv" "fst kv"] by (simp add: case_prod_beta del: wf_json.simps)
qed simp

lemma wf_json_object [simp]: "\<forall>e \<in> set kvs. wf_json (snd e) \<Longrightarrow> wf_json (json_object kvs)"
  unfolding json_object_def by (rule wf_json_fold) simp_all

lemma nat_digits: "list_all is_digit (nat_to_string n) \<and> nat_to_string n \<noteq> [] \<and> digits_value (nat_to_string n) = n"
proof (induction n rule: nat_to_string.induct)
  case (1 n)
  have d: "of_char (char_of (48 + k) :: char) = 48 + k" if "k < 10" for k :: nat
    using that by (simp add: of_char_of)
  show ?case
  proof (cases "n < 10")
    case True
    then show ?thesis by (subst nat_to_string.simps, subst nat_to_string.simps, subst nat_to_string.simps)
      (simp add: is_digit_def digits_value_def d)
  next
    case False
    then have n: "nat_to_string n = nat_to_string (n div 10) @ [char_of (48 + n mod 10)]"
      by (subst nat_to_string.simps) simp
    show ?thesis using 1 [OF False] unfolding n
      by (simp add: is_digit_def digits_value_def d)
  qed
qed

definition sendable :: "agent_action \<Rightarrow> bool" where
  "sendable a = (case a of ActFilesystemWrite _ (Some n) \<Rightarrow> n < 2 ^ 64 | ActCustom _ payload \<Rightarrow> wf_json payload | _ \<Rightarrow> True)"

lemma json_strings_map [simp]: "json_strings (map JStr xs) = Some xs"
  by (induction xs) simp_all

lemma action_of_json_of: "sendable a \<Longrightarrow> action_of_json (action_json a) = Some a"
  by (cases a)
    (auto simp: action_of_json_def string_field_def opt_string_field_def opt_u64_field_def strings_field_def
      optional_field_def sendable_def json_as_u64_def nat_digits split: option.splits)

lemma verdict_of_json_of: "verdict_of_json (verdict_json d) = Some d"
  by (cases d) (simp_all add: verdict_of_json_def string_field_def)

lemma wf_event_json: "sendable (de_action e) \<Longrightarrow> wf_json (event_json e)"
proof -
  assume "sendable (de_action e)"
  then have "wf_json (action_json (de_action e))"
    by (cases "de_action e") (auto simp: sendable_def optional_field_def split: option.splits)
  moreover have "wf_json (verdict_json (de_decision e))" by (cases "de_decision e") simp_all
  ultimately show ?thesis by (simp add: event_json_def)
qed

definition faithful_json :: "rule_env \<Rightarrow> bool" where
  "faithful_json env \<longleftrightarrow> (\<forall>v. wf_json v \<longrightarrow> re_parse_json env (re_print_json env v) = Some v)"

lemma canonical_roundtrip:
  assumes "faithful_json env" and "sendable (de_action e)" and "parse_time (de_timestamp e) = Some (de_timestamp e)"
  shows "from_canonical_bytes env parse_time (event_canonical_bytes env e) = Some e"
  using assms(1,3) wf_event_json [OF assms(2)]
  by (simp add: from_canonical_bytes_def event_canonical_bytes_def faithful_json_def)
    (simp add: event_json_def action_of_json_of [OF assms(2)] verdict_of_json_of string_field_def)

section \<open>The journal survives a crash\<close>

lemma length_le32 [simp]: "length (le32 n) = 4"
  by (simp add: le32_def)

lemma from_le32_le32:
  assumes "n < 2 ^ 32"
  shows "from_le32 (le32 n @ r) = n"
proof -
  have "from_le32 (le32 n @ r) = n mod 256 + (n div 256 mod 256) * 256 + (n div 65536 mod 256) * 65536 +
      (n div 16777216 mod 256) * 16777216"
    by (simp add: from_le32_def le32_def)
  moreover have "n div 65536 = n div 256 div 256" "n div 16777216 = n div 256 div 256 div 256"
    by (simp_all add: div_mult2_eq [symmetric])
  moreover have "n div 16777216 < 256" using assms by (simp add: less_mult_imp_div_less)
  moreover have "a + b * 256 + c * 65536 + d * 16777216 = n"
    if "q * 256 + a = n" "q' * 256 + b = q" "d * 256 + c = q'" for a b c d q q' :: nat using that by simp
  note this [OF div_mult_mod_eq div_mult_mod_eq div_mult_mod_eq]
  ultimately show ?thesis by simp
qed

lemma from_le32_take: "from_le32 (take 4 b) = from_le32 b"
  by (simp add: from_le32_def)

definition recoverable :: "rule_env \<Rightarrow> (string \<Rightarrow> string option) \<Rightarrow> deferred_event \<Rightarrow> bool" where
  "recoverable env parse_time e \<longleftrightarrow>
     from_canonical_bytes env parse_time (event_canonical_bytes env e) = Some e \<and>
     length (event_canonical_bytes env e) < 2 ^ 32"

definition hash32 :: "rule_env \<Rightarrow> bool" where
  "hash32 env \<longleftrightarrow> (\<forall>b. length (sha256 (re_crypto env) b) = 32)"

lemma length_frame: "hash32 env \<Longrightarrow> length (journal_frame env e) = 36 + length (event_canonical_bytes env e)"
  by (simp add: journal_frame_def Let_def hash32_def)

lemma replay_frame:
  assumes "hash32 env" and "recoverable env parse_time e"
  shows "journal_replay env parse_time (journal_frame env e @ rest) = e # journal_replay env parse_time rest"
proof -
  let ?p = "event_canonical_bytes env e"
  have l: "length (sha256 (re_crypto env) ?p) = 32" using assms(1) by (simp add: hash32_def)
  have n: "from_le32 (take 4 (journal_frame env e @ rest)) = length ?p"
    using assms(2) by (simp add: journal_frame_def from_le32_take from_le32_le32 recoverable_def Let_def del: take_append)
  have d: "take (length ?p) (drop 4 (journal_frame env e @ rest)) = ?p"
    "take 32 (drop (4 + length ?p) (journal_frame env e @ rest)) = sha256 (re_crypto env) ?p"
    "drop (4 + length ?p + 32) (journal_frame env e @ rest) = rest"
    using l by (simp_all add: journal_frame_def Let_def)
  have "length (journal_frame env e @ rest) = 36 + length ?p + length rest"
    by (simp add: length_frame [OF assms(1)])
  then show ?thesis
    using assms(2) by (subst journal_replay.simps) (simp only: n d Let_def, simp add: recoverable_def)
qed

lemma replay_torn:
  assumes "hash32 env" and "length (event_canonical_bytes env e) < 2 ^ 32" and "n < length (journal_frame env e)"
  shows "journal_replay env parse_time (take n (journal_frame env e)) = []"
proof (cases "n < 4")
  case False
  have "take 4 (take n (journal_frame env e)) = le32 (length (event_canonical_bytes env e)) @ []"
    using False by (simp add: journal_frame_def Let_def)
  then have t: "from_le32 (take 4 (take n (journal_frame env e))) = length (event_canonical_bytes env e)"
    using from_le32_le32 [OF assms(2), of "[]"] by metis
  have "length (take n (journal_frame env e)) < 4 + length (event_canonical_bytes env e) + 32"
    using assms(3) length_frame [OF assms(1), of e] by simp
  then show ?thesis by (subst journal_replay.simps) (simp only: t Let_def if_True simp_thms split: if_split)
next
  case True
  then have "length (take n (journal_frame env e)) < 4" by simp
  then show ?thesis by (subst journal_replay.simps) (simp only: if_True)
qed

lemma replay_frames:
  assumes "hash32 env" and "\<forall>e \<in> set es. recoverable env parse_time e"
  shows "journal_replay env parse_time (concat (map (journal_frame env) es) @ rest) = es @ journal_replay env parse_time rest"
  using assms(2) by (induction es) (simp_all add: replay_frame [OF assms(1)])

text \<open>C31: The journal survives a crash at any byte. If the file is cut after any number of bytes, the replay
  returns exactly the events whose frames are whole, in order and unchanged: a prefix of what was
  journaled that holds every event whose append had finished before the cut.\<close>
theorem journal_survives_crash:
  assumes "hash32 env" and "\<forall>e \<in> set es. recoverable env parse_time e"
  shows "\<exists>k \<le> length es. journal_replay env parse_time (take n (concat (map (journal_frame env) es))) = take k es \<and>
    length (concat (map (journal_frame env) (take k es))) \<le> n \<and>
    (\<forall>j \<le> length es. length (concat (map (journal_frame env) (take j es))) \<le> n \<longrightarrow> j \<le> k)"
  using assms(2)
proof (induction es arbitrary: n)
  case Nil
  then show ?case by (simp add: journal_replay.simps)
next
  case (Cons e es)
  have e: "recoverable env parse_time e" using Cons.prems by simp
  show ?case
  proof (cases "length (journal_frame env e) \<le> n")
    case True
    obtain k where k: "k \<le> length es"
        "journal_replay env parse_time (take (n - length (journal_frame env e)) (concat (map (journal_frame env) es))) = take k es"
        "length (concat (map (journal_frame env) (take k es))) \<le> n - length (journal_frame env e)"
        "\<forall>j \<le> length es. length (concat (map (journal_frame env) (take j es))) \<le> n - length (journal_frame env e) \<longrightarrow> j \<le> k"
      using Cons.IH [of "n - length (journal_frame env e)"] Cons.prems by auto
    have "take n (concat (map (journal_frame env) (e # es))) =
        journal_frame env e @ take (n - length (journal_frame env e)) (concat (map (journal_frame env) es))"
      using True by simp
    then have "journal_replay env parse_time (take n (concat (map (journal_frame env) (e # es)))) = take (Suc k) (e # es)"
      using k(2) by (simp only: replay_frame [OF assms(1) e] take_Suc_Cons)
    moreover have "j \<le> Suc k" if "j \<le> length (e # es)" "length (concat (map (journal_frame env) (take j (e # es)))) \<le> n" for j
    proof (cases j)
      case (Suc i)
      then have "length (concat (map (journal_frame env) (take i es))) \<le> n - length (journal_frame env e)"
        using that(2) by simp
      then show ?thesis using k(4) that(1) Suc by simp
    qed simp
    ultimately show ?thesis using k(1,3) True by (intro exI [of _ "Suc k"]) auto
  next
    case False
    then have "take n (concat (map (journal_frame env) (e # es))) = take n (journal_frame env e)" by simp
    then have "journal_replay env parse_time (take n (concat (map (journal_frame env) (e # es)))) = []"
      using replay_torn [OF assms(1)] e False by (simp add: recoverable_def)
    moreover have "j = 0" if "length (concat (map (journal_frame env) (take j (e # es)))) \<le> n" for j
      using that False by (cases j) auto
    ultimately show ?thesis by (intro exI [of _ 0]) auto
  qed
qed

section \<open>Recovery lands each refusal once\<close>

definition event_hash :: "rule_env \<Rightarrow> deferred_event \<Rightarrow> bytes" where
  "event_hash env e = sha256 (re_crypto env) (event_canonical_bytes env e)"

definition refusal_rows :: "bytes \<Rightarrow> event_row list \<Rightarrow> nat" where
  "refusal_rows h db = count_where (\<lambda>r. ev_event_type r = governance_refusal_event_type \<and> ev_payload_hash r = h) db"

lemma refusal_rows_pos:
  "(\<exists>r \<in> set db. ev_event_type r = governance_refusal_event_type \<and> ev_payload_hash r = h) \<longleftrightarrow> refusal_rows h db \<noteq> 0"
  by (auto simp: refusal_rows_def count_where_def filter_empty_conv)

lemma sink_event_fields:
  "ev_id (sink_event env key i e) = i" "ev_event_type (sink_event env key i e) = governance_refusal_event_type"
  "ev_payload_hash (sink_event env key i e) = event_hash env e"
  by (simp_all add: sink_event_def event_hash_def Let_def case_prod_beta)

lemma sink_attempt_wins:
  assumes "\<not> race n" and "attempt \<le> n" and "n \<le> append_unique_race_max_retries"
  shows "sink_attempt env key race signed attempt s =
    (case append_signed_event (re_crypto env) key signed (sk_audit s) of
       Inr a \<Rightarrow> (s\<lparr>sk_audit := a\<rparr>, True) | Inl _ \<Rightarrow> (s, False))"
  using assms(2)
proof (induction "n - attempt" arbitrary: attempt)
  case 0
  then show ?case using assms(1) by (subst sink_attempt.simps) simp
next
  case (Suc k)
  then have "sink_attempt env key race signed (attempt + 1) s =
      (case append_signed_event (re_crypto env) key signed (sk_audit s) of
         Inr a \<Rightarrow> (s\<lparr>sk_audit := a\<rparr>, True) | Inl _ \<Rightarrow> (s, False))"
    by (intro Suc.hyps(1)) simp_all
  moreover have "attempt < append_unique_race_max_retries" using Suc.hyps(2) assms(3) by simp
  ultimately show ?case by (subst sink_attempt.simps) simp
qed

definition race_won :: "(nat \<Rightarrow> bool) \<Rightarrow> bool" where
  "race_won race \<longleftrightarrow> (\<exists>n \<le> append_unique_race_max_retries. \<not> race n)"

lemma sink_appends:
  assumes "well_linked (re_crypto env) (au_events (sk_audit s))" and "race_won race"
    and "i \<notin> ev_id ` set (au_events (sk_audit s))"
  shows "\<exists>a r. sink_append env key race i e s = (s\<lparr>sk_audit := a\<rparr>, Some Appended) \<and>
    au_events a = au_events (sk_audit s) @ [r] \<and> ev_id r = i \<and> ev_event_type r = governance_refusal_event_type \<and>
    ev_payload_hash r = event_hash env e \<and> well_linked (re_crypto env) (au_events a)"
proof -
  let ?e = "sink_event env key i e" and ?cr = "re_crypto env"
  have "ev_id (event_to_row (stored_event ?cr key ?e (au_events (sk_audit s)))) = i"
    by (simp add: stored_event_def event_to_row_def sink_event_fields)
  then obtain a where a: "append_signed_event ?cr key ?e (sk_audit s) = Inr a"
    using assms(3) by (auto simp: append_well_linked [OF assms(1)] insert_row_def select_by_None_iff)
  moreover obtain n where "\<not> race n" "n \<le> append_unique_race_max_retries" using assms(2) by (auto simp: race_won_def)
  ultimately have "sink_append env key race i e s = (s\<lparr>sk_audit := a\<rparr>, Some Appended)"
    by (simp add: sink_append_def sink_attempt_wins [of race n 0])
  then show ?thesis
    using append_keeps_linked [OF assms(1) a]
    by (intro exI [of _ a] exI [of _ "event_to_row (stored_event ?cr key ?e (au_events (sk_audit s)))"])
      (simp add: stored_event_def event_to_row_def sink_event_fields)
qed

definition settled :: "rule_env \<Rightarrow> deferred_event list \<Rightarrow> event_row list \<Rightarrow> event_row list \<Rightarrow> bool" where
  "settled env es db db' \<longleftrightarrow> (\<exists>new. db' = db @ new) \<and>
     (\<forall>h. refusal_rows h db' = (if h \<in> event_hash env ` set es then max 1 (refusal_rows h db) else refusal_rows h db))"

lemma recover_events:
  assumes "well_linked (re_crypto env) (au_events (sk_audit s))" and "race_won race"
    and "distinct (map fst fes)" and "fst ` set fes \<inter> ev_id ` set (au_events (sk_audit s)) = {}"
    and "fold (recover_event env key race) fes (s, n) = (s', n')"
  shows "settled env (map snd fes) (au_events (sk_audit s)) (au_events (sk_audit s')) \<and> sk_dlq s' = sk_dlq s \<and>
    well_linked (re_crypto env) (au_events (sk_audit s')) \<and>
    ev_id ` set (au_events (sk_audit s')) \<subseteq> ev_id ` set (au_events (sk_audit s)) \<union> fst ` set fes"
  using assms(1,3-)
proof (induction fes arbitrary: s n)
  case Nil
  then show ?case by (simp add: settled_def)
next
  case (Cons fe fes)
  obtain i e where fe: "fe = (i, e)" by fastforce
  show ?case
  proof (cases "refusal_rows (event_hash env e) (au_events (sk_audit s)) = 0")
    case False
    then have "recover_event env key race fe (s, n) = (s, n)"
      using refusal_rows_pos [of "au_events (sk_audit s)" "event_hash env e"] by (simp add: recover_event_def fe event_hash_def)
    then have "settled env (map snd fes) (au_events (sk_audit s)) (au_events (sk_audit s')) \<and> sk_dlq s' = sk_dlq s \<and>
        well_linked (re_crypto env) (au_events (sk_audit s')) \<and>
        ev_id ` set (au_events (sk_audit s')) \<subseteq> ev_id ` set (au_events (sk_audit s)) \<union> fst ` set fes"
      using Cons.prems by (intro Cons.IH) auto
    then show ?thesis using False by (auto simp: settled_def fe)
  next
    case True
    obtain a r where a: "sink_append env key race i e s = (s\<lparr>sk_audit := a\<rparr>, Some Appended)"
        "au_events a = au_events (sk_audit s) @ [r]" "ev_id r = i" "ev_event_type r = governance_refusal_event_type"
        "ev_payload_hash r = event_hash env e" "well_linked (re_crypto env) (au_events a)"
      using sink_appends [of env s race i key e] Cons.prems(1,3) assms(2) fe by auto
    have "recover_event env key race fe (s, n) = (s\<lparr>sk_audit := a\<rparr>, n + 1)"
      using True refusal_rows_pos [of "au_events (sk_audit s)" "event_hash env e"] a(1)
      by (simp add: recover_event_def fe event_hash_def)
    then have IH: "settled env (map snd fes) (au_events a) (au_events (sk_audit s')) \<and> sk_dlq s' = sk_dlq s \<and>
        well_linked (re_crypto env) (au_events (sk_audit s')) \<and>
        ev_id ` set (au_events (sk_audit s')) \<subseteq> ev_id ` set (au_events a) \<union> fst ` set fes"
      using Cons.IH [of "s\<lparr>sk_audit := a\<rparr>" "n + 1"] Cons.prems a(2,3,6) fe by auto
    have rows: "refusal_rows h (au_events a) = refusal_rows h (au_events (sk_audit s)) + (if h = event_hash env e then 1 else 0)" for h
      by (simp add: refusal_rows_def count_where_def a(2,4,5))
    show ?thesis using IH True rows a(2,3) by (auto simp: settled_def fe)
  qed
qed

text \<open>C32: Recovery lands the refusals its replay returns exactly once, if its appends succeed. After a boot-time
  recovery in which every append wins its race within the retry budget and draws a fresh identifier, each
  event the journal replay returned (the whole frames before the first torn one) has a refusal row with its
  payload hash, exactly one more than before if it had none and no further one if it had one; nothing goes to
  the dead-letter table, the older rows stay in front, the audit chain stays linked, and the journal is empty.
  Recovering the same journal once more, as after a crash before the truncation, changes no count.\<close>
theorem recovery_exactly_once:
  assumes "well_linked (re_crypto env) (au_events (sk_audit s))" and "race_won race"
    and "inj fresh" and "range fresh \<inter> ev_id ` set (au_events (sk_audit s)) = {}"
    and "recover_deferred_audit env parse_time key race fresh (Some file) s = (s', journal, n)"
  shows "settled env (journal_replay env parse_time file) (au_events (sk_audit s)) (au_events (sk_audit s')) \<and>
    sk_dlq s' = sk_dlq s \<and> well_linked (re_crypto env) (au_events (sk_audit s')) \<and> journal = Some [] \<and>
    (\<forall>fresh' s'' journal' n'. inj fresh' \<and> range fresh' \<inter> ev_id ` set (au_events (sk_audit s')) = {} \<and>
       recover_deferred_audit env parse_time key race fresh' (Some file) s' = (s'', journal', n') \<longrightarrow>
       (\<forall>h. refusal_rows h (au_events (sk_audit s'')) = refusal_rows h (au_events (sk_audit s'))))"
proof -
  have one: "settled env (journal_replay env parse_time file) (au_events (sk_audit t)) (au_events (sk_audit t')) \<and>
      sk_dlq t' = sk_dlq t \<and> well_linked (re_crypto env) (au_events (sk_audit t')) \<and> j = Some []"
    if "well_linked (re_crypto env) (au_events (sk_audit t))" "inj f" "range f \<inter> ev_id ` set (au_events (sk_audit t)) = {}"
      "recover_deferred_audit env parse_time key race f (Some file) t = (t', j, m)" for f t t' j m
  proof -
    let ?es = "journal_replay env parse_time file"
    let ?fes = "zip (map f [0..<length ?es]) ?es"
    have fes: "map fst ?fes = map f [0..<length ?es]" "map snd ?fes = ?es" by simp_all
    have "distinct (map fst ?fes)" unfolding fes
      using inj_on_subset [OF that(2), of "{0..<length ?es}"] by (simp add: distinct_map)
    moreover have "fst ` set ?fes \<subseteq> range f" using fes(1) by (metis image_subset_iff list.set_map rangeI imageE)
    then have "fst ` set ?fes \<inter> ev_id ` set (au_events (sk_audit t)) = {}" using that(3) by blast
    moreover have "fold (recover_event env key race) ?fes (t, 0) = (t', m)" "j = Some []"
      using that(4) by (auto simp: recover_deferred_audit_def Let_def split: prod.splits)
    ultimately show ?thesis
      using recover_events [OF that(1) assms(2), of ?fes key 0 t' m] unfolding fes by blast
  qed
  note s' = one [OF assms(1,3,4,5)]
  have "refusal_rows h (au_events (sk_audit s'')) = refusal_rows h (au_events (sk_audit s'))"
    if "inj f" "range f \<inter> ev_id ` set (au_events (sk_audit s')) = {}"
      "recover_deferred_audit env parse_time key race f (Some file) s' = (s'', j, m)" for f s'' j m h
    using one [OF _ that] s' by (auto simp: settled_def)
  then show ?thesis using s' by blast
qed

section \<open>Where the documents and the code part\<close>

text \<open>A record torn by a failed append is not necessarily the last one: later appends go behind it, and the
  replay, which stops at it, returns none of them.\<close>

lemma torn_record_hides_rest:
  assumes "hash32 env" and "\<forall>e \<in> set es. recoverable env parse_time e"
    and "length (event_canonical_bytes env e) < 2 ^ 32" and "4 \<le> k" and "k < length (journal_frame env e)"
    and "tail = take k (journal_frame env e) @ concat (map (journal_frame env) fs)"
    and "sha256 (re_crypto env) (take (length (event_canonical_bytes env e)) (drop 4 tail)) \<noteq>
      take 32 (drop (4 + length (event_canonical_bytes env e)) tail)"
  shows "journal_replay env parse_time (concat (map (journal_frame env) es) @ tail) = es"
proof -
  have "take 4 tail = le32 (length (event_canonical_bytes env e)) @ []"
    using assms(4) by (simp add: assms(6) journal_frame_def Let_def)
  then have n: "from_le32 (take 4 tail) = length (event_canonical_bytes env e)"
    using from_le32_le32 [OF assms(3), of "[]"] by metis
  have "journal_replay env parse_time tail = []"
    using assms(7) by (subst journal_replay.simps) (simp only: n Let_def if_True simp_thms split: if_split)
  then show ?thesis by (simp add: replay_frames [OF assms(1,2)])
qed

text \<open>The journal is emptied even when no table took its records.\<close>

lemma failed_recovery_forgets:
  assumes "\<And>n. race n" and "\<not> sk_dlq_ok s"
  shows "\<exists>n. recover_deferred_audit env parse_time key race fresh (Some file) s = (s, Some [], n)"
proof -
  have a: "sink_attempt env key race signed k s = (s, False)" for signed k
  proof (induction "append_unique_race_max_retries - k" arbitrary: k)
    case (Suc n)
    then show ?case by (subst sink_attempt.simps) (simp add: assms(1))
  qed (subst sink_attempt.simps, simp add: assms(1))
  then have "recover_event env key race fe (s, n) = (s, n)" for fe n
    using assms(2) by (simp add: recover_event_def sink_append_def Let_def case_prod_beta)
  then have "fold (recover_event env key race) fes (s, n) = (s, n)" for fes n by (induction fes) simp_all
  then show ?thesis by (simp add: recover_deferred_audit_def Let_def)
qed

section \<open>A small journal\<close>

definition journal_event :: deferred_event where
  "journal_event = \<lparr>de_agent_id = ''ai'', de_action = ActBash ''rm'' None,
     de_decision = VdRefuse ''r1'' ''no'', de_timestamp = ''t''\<rparr>"

definition journal_env :: rule_env where
  "journal_env =
     \<lparr>re_crypto = chain_crypto,
      re_parse_json = (\<lambda>s. if s = ''x'' then Some (event_json journal_event) else Some (from_nat (length s - 1))),
      re_print_json = (\<lambda>v. if v = event_json journal_event then ''x'' else CHR ''y'' # replicate (to_nat v) (CHR 0x00)),
      re_disk_free_gib = None, re_operator_pubkey = None\<rparr>"

lemma journal_env_ok: "hash32 journal_env" "faithful_json journal_env" "recoverable journal_env Some journal_event"
proof -
  show "hash32 journal_env" by (simp add: hash32_def journal_env_def chain_crypto_ok)
  show f: "faithful_json journal_env" by (simp add: journal_env_def faithful_json_def)
  show "recoverable journal_env Some journal_event"
    using canonical_roundtrip [OF f, of journal_event Some]
    by (simp add: recoverable_def sendable_def journal_event_def event_canonical_bytes_def journal_env_def)
qed

lemma journal_frame_length: "length (journal_frame journal_env journal_event) = 37"
  by (simp add: length_frame journal_env_ok event_canonical_bytes_def) (simp add: journal_env_def)

text \<open>Two records, cut in the middle of the second.\<close>

theorem journal_survives_crash_witness:
  "journal_replay journal_env Some
     (take 42 (concat (map (journal_frame journal_env) [journal_event, journal_event]))) = [journal_event]"
proof -
  obtain k where k: "k \<le> 2"
      "journal_replay journal_env Some (take 42 (concat (map (journal_frame journal_env) [journal_event, journal_event]))) =
         take k [journal_event, journal_event]"
      "length (concat (map (journal_frame journal_env) (take k [journal_event, journal_event]))) \<le> 42"
      "\<forall>j \<le> 2. length (concat (map (journal_frame journal_env) (take j [journal_event, journal_event]))) \<le> 42 \<longrightarrow> j \<le> k"
    using journal_survives_crash [OF journal_env_ok(1), of "[journal_event, journal_event]" Some 42] journal_env_ok(3)
    by (auto simp: numeral_eq_Suc)
  have "k \<noteq> 2" using k(3) by (auto simp: journal_frame_length)
  moreover have "1 \<le> k" using k(4) [rule_format, of 1] by (simp add: journal_frame_length)
  ultimately have "k = 1" using k(1) by simp
  then show ?thesis using k(2) by simp
qed

definition journal_boot :: sink_state where
  "journal_boot = \<lparr>sk_audit = audit_boot, sk_dlq = [], sk_dlq_ok = True\<rparr>"

theorem recovery_exactly_once_witness:
  "\<exists>s' n. recover_deferred_audit journal_env Some None (\<lambda>n. n < 2) (\<lambda>n. replicate n (CHR ''a''))
       (Some (journal_frame journal_env journal_event)) journal_boot = (s', Some [], n) \<and>
     refusal_rows (event_hash journal_env journal_event) (au_events (sk_audit s')) = 1"
proof -
  let ?f = "\<lambda>n. replicate n (CHR ''a'')" and ?file = "journal_frame journal_env journal_event"
  obtain s' j n where r: "recover_deferred_audit journal_env Some None (\<lambda>n. n < 2) ?f (Some ?file) journal_boot = (s', j, n)"
    using prod_cases3 by blast
  have w: "well_linked (re_crypto journal_env) (au_events (sk_audit journal_boot))"
    "range ?f \<inter> ev_id ` set (au_events (sk_audit journal_boot)) = {}" "inj ?f" "race_won (\<lambda>n. n < 2)"
    by (auto simp: journal_boot_def audit_boot_def well_linked_def inj_def race_won_def append_unique_race_max_retries_def
        dest: arg_cong [where f = length])
  have "journal_replay journal_env Some ?file = [journal_event]"
    using replay_frame [OF journal_env_ok(1,3), of "[]"] by (simp add: journal_replay.simps)
  then show ?thesis
    using recovery_exactly_once [OF w(1,4,3,2) r] r
    by (auto simp: settled_def journal_boot_def audit_boot_def refusal_rows_def count_where_def)
qed

end
