(* ===== verification/AgentGate.thy ===== *)
theory AgentGate
  imports Deferred Memory
begin

text \<open>
  Where the agent-action rules are changed and consulted: the operator-signed mutations of
  \<^verbatim>\<open>src/governance/rules_store.rs\<close>, the policy version of \<^verbatim>\<open>src/governance/policy_version.rs\<close>,
  the rule cache of \<^verbatim>\<open>src/governance/rule_cache.rs\<close>, the audited, unaudited, deferred and read
  checks of \<^verbatim>\<open>src/governance/agent_action.rs\<close>, the queue of
  \<^verbatim>\<open>src/governance/deferred_audit.rs\<close> and the two hooks \<^verbatim>\<open>src/daemon_runtime.rs\<close> installs.

  Identifiers and times are arguments. The judge's verdict checkpoint, the forensic log lines and
  poisoned locks are not modelled.
\<close>

section \<open>The governed database\<close>

record gate_state =
  gs_rules :: rule_table
  gs_audit :: audit_state

text \<open>The operator: its signing key and name, and the identifiers and times of the two rows it writes.\<close>

record operator_call =
  oc_key :: bytes
  oc_agent :: string
  oc_row_id :: string
  oc_row_time :: string
  oc_advance_id :: string
  oc_advance_time :: string

definition governance_rule_removed :: string where
  "governance_rule_removed = ''governance.rule_removed''"

definition governance_rule_disabled :: string where
  "governance_rule_disabled = ''governance.rule_disabled''"

definition governance_rule_enabled :: string where
  "governance_rule_enabled = ''governance.rule_enabled''"

definition governance_policy_advanced :: string where
  "governance_policy_advanced = ''governance.policy_version_advanced''"

definition operator_event ::
  "rule_env \<Rightarrow> operator_call \<Rightarrow> string \<Rightarrow> string \<Rightarrow> string \<Rightarrow> bytes \<Rightarrow> signed_event" where
  "operator_event env oc uuid timestamp event_type payload =
     \<lparr>ev_id = uuid, ev_agent_id = oc_agent oc, ev_event_type = event_type, ev_payload_hash = payload,
      ev_signature = Some (ed_sign (re_crypto env) (oc_key oc) payload), ev_attest_level = operator_signed,
      ev_timestamp = timestamp, ev_prev_hash = [], ev_sequence = 0, ev_cause_hash = None\<rparr>"

section \<open>The policy version\<close>

record policy_version =
  pv_seq :: int
  pv_digest :: bytes

definition compute_policy_digest :: "rule_env \<Rightarrow> rule_table \<Rightarrow> bytes" where
  "compute_policy_digest env t =
     sha256 (re_crypto env) (concat (map (canonical_bytes_for_signing env) (filter ru_enabled (rule_list t))))"

definition policy_advance_count :: "event_row list \<Rightarrow> int" where
  "policy_advance_count db = int (count_where (\<lambda>r. ev_event_type r = governance_policy_advanced) db)"

definition current_policy_version :: "rule_env \<Rightarrow> gate_state \<Rightarrow> policy_version" where
  "current_policy_version env s =
     \<lparr>pv_seq = policy_advance_count (au_events (gs_audit s)), pv_digest = compute_policy_digest env (gs_rules s)\<rparr>"

definition advance_signable_bytes :: "int \<Rightarrow> bytes \<Rightarrow> bytes" where
  "advance_signable_bytes seq digest = be64 seq @ digest"

definition append_policy_advance_no_tx ::
  "rule_env \<Rightarrow> bytes option \<Rightarrow> operator_call \<Rightarrow> rule_table \<Rightarrow> audit_state \<Rightarrow> audit_error + audit_state" where
  "append_policy_advance_no_tx env daemon_key oc t a =
     (let digest = compute_policy_digest env t;
          seq = policy_advance_count (au_events a) + 1;
          payload = sha256 (re_crypto env) (advance_signable_bytes seq digest)
      in append_signed_event (re_crypto env) daemon_key
           (operator_event env oc (oc_advance_id oc) (oc_advance_time oc) governance_policy_advanced payload) a)"

definition verify_policy_digest_advisory :: "rule_env \<Rightarrow> gate_state \<Rightarrow> bool" where
  "verify_policy_digest_advisory env s =
     (let live = compute_policy_digest env (gs_rules s);
          seq = policy_advance_count (au_events (gs_audit s))
      in if seq = 0 then True
         else
           (case rev (sort_key (\<lambda>r. ev_sequence (row_to_event r))
                   (filter (\<lambda>r. ev_event_type r = governance_policy_advanced) (au_events (gs_audit s)))) of
              [] \<Rightarrow> False
            | latest # _ \<Rightarrow>
                ev_payload_hash latest = sha256 (re_crypto env) (advance_signable_bytes seq live)))"

section \<open>Signed mutations\<close>

text \<open>A failed transaction leaves both tables as they were; the watermark throttle and the forensic
  files are outside it and keep what an earlier append of the transaction stamped.\<close>

definition rolled_back :: "gate_state \<Rightarrow> audit_state \<Rightarrow> gate_state" where
  "rolled_back s a = s\<lparr>gs_audit := a\<lparr>au_events := au_events (gs_audit s)\<rparr>\<rparr>"

text \<open>The common end of the three mutations: the policy advance over the mutated table, then the commit.\<close>

definition commit_with_advance ::
  "rule_env \<Rightarrow> bytes option \<Rightarrow> operator_call \<Rightarrow> gate_state \<Rightarrow> rule_table \<Rightarrow> audit_state \<Rightarrow> bool \<Rightarrow>
   gate_state \<times> (rules_error + bool)" where
  "commit_with_advance env daemon_key oc s t a result =
     (case append_policy_advance_no_tx env daemon_key oc t a of
        Inl e \<Rightarrow> (rolled_back s a, Inl (RulesAudit e))
      | Inr a' \<Rightarrow> (\<lparr>gs_rules = t, gs_audit = a'\<rparr>, Inr result))"

definition remove_signed ::
  "rule_env \<Rightarrow> bytes option \<Rightarrow> operator_call \<Rightarrow> string \<Rightarrow> gate_state \<Rightarrow> gate_state \<times> (rules_error + bool)" where
  "remove_signed env daemon_key oc i s =
     (case rule_get (gs_rules s) i of
        None \<Rightarrow> (s, Inr False)
      | Some r \<Rightarrow>
          (let payload = sha256 (re_crypto env) (canonical_bytes_for_signing env r)
           in case append_signed_event (re_crypto env) daemon_key
                (operator_event env oc (oc_row_id oc) (oc_row_time oc) governance_rule_removed payload) (gs_audit s) of
                Inl e \<Rightarrow> (s, Inl (RulesAudit e))
              | Inr a \<Rightarrow>
                  (let (t, affected) = rule_remove (gs_rules s) i
                   in commit_with_advance env daemon_key oc s t a affected)))"

definition set_enabled_signed ::
  "rule_env \<Rightarrow> bytes option \<Rightarrow> operator_call \<Rightarrow> string \<Rightarrow> bool \<Rightarrow> gate_state \<Rightarrow> gate_state \<times> (rules_error + bool)" where
  "set_enabled_signed env daemon_key oc i enabled s =
     (case rule_get (gs_rules s) i of
        None \<Rightarrow> (s, Inr False)
      | Some r \<Rightarrow>
          (let canonical = canonical_bytes_for_signing env (r\<lparr>ru_enabled := enabled\<rparr>);
               rule_sig = ed_sign (re_crypto env) (oc_key oc) canonical;
               event_type = (if enabled then governance_rule_enabled else governance_rule_disabled)
           in case append_signed_event (re_crypto env) daemon_key
                (operator_event env oc (oc_row_id oc) (oc_row_time oc) event_type (sha256 (re_crypto env) canonical))
                (gs_audit s) of
                Inl e \<Rightarrow> (s, Inl (RulesAudit e))
              | Inr a \<Rightarrow>
                  commit_with_advance env daemon_key oc s
                    (update_where (\<lambda>r. ru_id r = i)
                       (\<lambda>r. r\<lparr>ru_enabled := enabled, ru_signature := Some rule_sig, ru_attest_level := operator_signed\<rparr>)
                       (gs_rules s)) a True))"

definition insert_signed ::
  "rule_env \<Rightarrow> bytes option \<Rightarrow> operator_call \<Rightarrow> rule \<Rightarrow> gate_state \<Rightarrow> gate_state \<times> (rules_error + bool)" where
  "insert_signed env daemon_key oc r s =
     (case rule_insert (gs_rules s) r of
        Inl e \<Rightarrow> (s, Inl e)
      | Inr t \<Rightarrow> commit_with_advance env daemon_key oc s t (gs_audit s) True)"

section \<open>What a check records\<close>

record check_env =
  ce_rules :: rule_env
  ce_recorder_key :: "bytes option"
  ce_daemon_key :: "bytes option"

definition try_sign_recorder_payload ::
  "crypto \<Rightarrow> bytes option \<Rightarrow> bytes \<Rightarrow> bytes option \<Rightarrow> (bytes \<times> string) option" where
  "try_sign_recorder_payload cr key payload cause =
     map_option (\<lambda>k. (ed_sign cr k (recorder_signing_preimage cr payload cause), link_attest_as_str RecorderSigned)) key"

definition emit_check_event ::
  "check_env \<Rightarrow> string \<Rightarrow> string \<Rightarrow> string \<Rightarrow> agent_action \<Rightarrow> rule_verdict \<Rightarrow> audit_state \<Rightarrow> audit_error + audit_state" where
  "emit_check_event ce uuid timestamp agent_id action decision a =
     (let cr = re_crypto (ce_rules ce);
          canonical = json_object [(''action'', action_json action), (''decision'', verdict_json decision)];
          hash = sha256 cr (re_print_json (ce_rules ce) canonical);
          (signature, level) =
            (case try_sign_recorder_payload cr (ce_recorder_key ce) hash None of
               Some (sig, level) \<Rightarrow> (Some sig, level)
             | None \<Rightarrow>
                 (case try_sign_audit_payload cr (ce_daemon_key ce) hash of
                    Some (sig, level) \<Rightarrow> (Some sig, level)
                  | None \<Rightarrow> (None, link_attest_as_str Unsigned)))
      in append_signed_event cr (ce_daemon_key ce)
           \<lparr>ev_id = uuid, ev_agent_id = agent_id, ev_event_type = governance_check_event_type,
            ev_payload_hash = hash, ev_signature = signature, ev_attest_level = level, ev_timestamp = timestamp,
            ev_prev_hash = [], ev_sequence = 0, ev_cause_hash = None\<rparr> a)"

section \<open>The rule cache\<close>

type_synonym rule_cache = "string \<rightharpoonup> rule list"

text \<open>What a load of the rule table gives: the database's error, or the table.\<close>

type_synonym rule_source = "sql_error + rule_table"

definition get_or_load :: "rule_env \<Rightarrow> rule_source \<Rightarrow> string \<Rightarrow> rule_cache \<Rightarrow> rule_cache \<times> (sql_error + rule list)" where
  "get_or_load env src kind c =
     (case c kind of
        Some rules \<Rightarrow> (c, Inr rules)
      | None \<Rightarrow>
          (case src of
             Inl e \<Rightarrow> (c, Inl e)
           | Inr t \<Rightarrow> (let rules = list_enabled_by_kind env t kind in (c(kind \<mapsto> rules), Inr rules))))"

definition invalidate :: "string \<Rightarrow> rule_cache \<Rightarrow> rule_cache" where
  "invalidate kind c = c(kind := None)"

definition invalidate_all :: "rule_cache \<Rightarrow> rule_cache" where
  "invalidate_all c = Map.empty"

definition load_for_action_cached ::
  "rule_env \<Rightarrow> rule_source \<Rightarrow> rule_cache option \<Rightarrow> agent_action \<Rightarrow> rule_cache option \<times> (sql_error + rule list)" where
  "load_for_action_cached env src cache action =
     (case cache of
        Some c \<Rightarrow> (let (c', r) = get_or_load env src (agent_action_kind action) c in (Some c', r))
      | None \<Rightarrow>
          (None, case src of Inl e \<Rightarrow> Inl e | Inr t \<Rightarrow> Inr (list_enabled_by_kind env t (agent_action_kind action))))"

section \<open>The checks\<close>

datatype check_error = CheckLoad sql_error | CheckAudit audit_error

definition check_agent_action_cached ::
  "check_env \<Rightarrow> rule_cache option \<Rightarrow> string \<Rightarrow> string \<Rightarrow> string \<Rightarrow> agent_action \<Rightarrow> rule_source \<Rightarrow> audit_state \<Rightarrow>
   rule_cache option \<times> audit_state \<times> (check_error + rule_verdict)" where
  "check_agent_action_cached ce cache uuid timestamp agent_id action src a =
     (case load_for_action_cached (ce_rules ce) src cache action of
        (c, Inl e) \<Rightarrow> (c, a, Inl (CheckLoad e))
      | (c, Inr rules) \<Rightarrow>
          (let decision = engine_evaluate (ce_rules ce) rules action
           in case emit_check_event ce uuid timestamp agent_id action decision a of
                Inl e \<Rightarrow> (c, a, Inl (CheckAudit e))
              | Inr a' \<Rightarrow> (c, a', Inr decision)))"

definition check_agent_action ::
  "check_env \<Rightarrow> string \<Rightarrow> string \<Rightarrow> string \<Rightarrow> agent_action \<Rightarrow> rule_source \<Rightarrow> audit_state \<Rightarrow>
   audit_state \<times> (check_error + rule_verdict)" where
  "check_agent_action ce uuid timestamp agent_id action src a =
     snd (check_agent_action_cached ce None uuid timestamp agent_id action src a)"

definition check_agent_action_no_audit_cached ::
  "rule_env \<Rightarrow> rule_cache option \<Rightarrow> agent_action \<Rightarrow> rule_source \<Rightarrow> rule_cache option \<times> (sql_error + rule_verdict)" where
  "check_agent_action_no_audit_cached env cache action src =
     (case load_for_action_cached env src cache action of
        (c, Inl e) \<Rightarrow> (c, Inl e)
      | (c, Inr rules) \<Rightarrow> (c, Inr (engine_evaluate env rules action)))"

section \<open>The deferred check\<close>

definition check_agent_action_deferred_cached ::
  "rule_env \<Rightarrow> rule_cache option \<Rightarrow> string \<Rightarrow> string \<Rightarrow> agent_action \<Rightarrow> rule_source \<Rightarrow> deferred_queue \<Rightarrow>
   rule_cache option \<times> deferred_queue \<times> (sql_error + rule_verdict)" where
  "check_agent_action_deferred_cached env cache timestamp agent_id action src q =
     (case check_agent_action_no_audit_cached env cache action src of
        (c, Inl e) \<Rightarrow> (c, q, Inl e)
      | (c, Inr decision) \<Rightarrow>
          (c, if is_blocking decision then fst (submit_refusal env timestamp agent_id action decision q) else q,
           Inr decision))"

section \<open>The two hooks of the daemon\<close>

text \<open>The state a hook closes over: the cache and the queue. \<open>None\<close> for the connection says that it could
  not be opened at install time.\<close>

definition consultation_unavailable_reason :: "string \<Rightarrow> string" where
  "consultation_unavailable_reason db_path =
     ''governance:consultation_unavailable: rules DB at '' @ db_path @ '' could not be opened at hook install''"

definition governance_consultation_unavailable ::
  "rule_env \<Rightarrow> bool \<Rightarrow> string \<Rightarrow> string \<Rightarrow> string \<Rightarrow> agent_action \<Rightarrow> deferred_queue \<Rightarrow> deferred_queue \<times> (string + unit)" where
  "governance_consultation_unavailable env fail_open db_path timestamp agent_id action q =
     (let reason = consultation_unavailable_reason db_path;
          q' = fst (submit_refusal env timestamp agent_id action (VdRefuse ''governance:consultation_unavailable'' reason) q)
      in (q', if fail_open then Inr () else Inl reason))"

definition consultation_failed_reason :: "agent_action \<Rightarrow> string" where
  "consultation_failed_reason action =
     ''governance:consultation_failed: check_agent_action_no_audit_cached: load engine for '' @ agent_action_kind action"

definition consult ::
  "rule_env \<Rightarrow> bool \<Rightarrow> string \<Rightarrow> string \<Rightarrow> string \<Rightarrow> agent_action \<Rightarrow> rule_source option \<Rightarrow>
   rule_cache \<times> deferred_queue \<Rightarrow> (rule_cache \<times> deferred_queue) \<times> (string + unit)" where
  "consult env fail_open db_path timestamp agent_id action conn cq =
     (case conn of
        None \<Rightarrow>
          (let (q, r) = governance_consultation_unavailable env fail_open db_path timestamp agent_id action (snd cq)
           in ((fst cq, q), r))
      | Some src \<Rightarrow>
          (case check_agent_action_deferred_cached env (Some (fst cq)) timestamp agent_id action src (snd cq) of
             (c, q, Inr (VdRefuse rule_id reason)) \<Rightarrow> ((the c, q), Inl reason)
           | (c, q, Inr (VdEscalate rule_id reason)) \<Rightarrow> ((the c, q), Inl reason)
           | (c, q, Inr VdAllow) \<Rightarrow> ((the c, q), Inr ())
           | (c, q, Inr (VdWarn rule_id reason)) \<Rightarrow> ((the c, q), Inr ())
           | (c, q, Inl e) \<Rightarrow>
               (let reason = consultation_failed_reason action;
                    q' = fst (submit_refusal env timestamp agent_id action (VdRefuse ''governance:consultation_failed'' reason) q)
                in ((the c, q'), if fail_open then Inr () else Inl reason))))"

definition memory_write_action :: "memory \<Rightarrow> agent_action" where
  "memory_write_action m =
     ActCustom ''memory_write'' (json_object
       [(''namespace'', JStr (m_namespace m)), (''tier'', JStr (tier_as_str (m_tier m))),
        (''memory_kind'', JStr (memory_kind_as_str (m_memory_kind m))), (''title'', JStr (m_title m))])"

definition memory_write_agent :: "memory \<Rightarrow> string" where
  "memory_write_agent m =
     (case Option.bind (json_get ''agent_id'' (m_metadata m)) json_as_str of
        Some a \<Rightarrow> a | None \<Rightarrow> ''substrate:pre_write_hook'')"

definition pre_write_hook ::
  "rule_env \<Rightarrow> bool \<Rightarrow> string \<Rightarrow> string \<Rightarrow> memory \<Rightarrow> rule_source option \<Rightarrow> rule_cache \<times> deferred_queue \<Rightarrow>
   (rule_cache \<times> deferred_queue) \<times> (string + unit)" where
  "pre_write_hook env fail_open db_path timestamp m conn cq =
     consult env fail_open db_path timestamp (memory_write_agent m) (memory_write_action m) conn cq"

definition pre_action_hook ::
  "rule_env \<Rightarrow> bool \<Rightarrow> string \<Rightarrow> string \<Rightarrow> agent_action \<Rightarrow> rule_source option \<Rightarrow> rule_cache \<times> deferred_queue \<Rightarrow>
   (rule_cache \<times> deferred_queue) \<times> (string + unit)" where
  "pre_action_hook env fail_open db_path timestamp action conn cq =
     consult env fail_open db_path timestamp ''daemon:wire_action'' action conn cq"

text \<open>Without an installed hook, as in the one-shot commands, every action proceeds.\<close>

definition wire_check ::
  "(agent_action \<Rightarrow> 'st \<Rightarrow> 'st \<times> (string + unit)) option \<Rightarrow> agent_action \<Rightarrow> 'st \<Rightarrow> 'st \<times> (string + unit)" where
  "wire_check hook action st = (case hook of None \<Rightarrow> (st, Inr ()) | Some h \<Rightarrow> h action st)"

section \<open>The read gate\<close>

definition read_unavailable :: string where
  "read_unavailable = ''read governance unavailable (failing closed)''"

definition gate_read ::
  "check_env \<Rightarrow> bool \<Rightarrow> string \<Rightarrow> string \<Rightarrow> string \<Rightarrow> agent_action \<Rightarrow> rule_source \<Rightarrow> audit_state \<Rightarrow>
   audit_state \<times> (string + unit)" where
  "gate_read ce fail_open uuid timestamp agent_id action src a =
     (case snd (load_for_action_cached (ce_rules ce) src None action) of
        Inl e \<Rightarrow> (a, if fail_open then Inr () else Inl read_unavailable)
      | Inr [] \<Rightarrow> (a, Inr ())
      | Inr rules \<Rightarrow>
          (let decision = engine_evaluate (ce_rules ce) rules action;
               a' = (case emit_check_event ce uuid timestamp agent_id action decision a of Inl e \<Rightarrow> a | Inr a' \<Rightarrow> a')
           in (a', case decision of
                 VdRefuse rule_id reason \<Rightarrow> Inl reason
               | VdEscalate rule_id reason \<Rightarrow> Inl reason
               | _ \<Rightarrow> Inr ())))"

definition gate_read_surface ::
  "check_env \<Rightarrow> bool \<Rightarrow> string \<Rightarrow> string \<Rightarrow> string \<Rightarrow> string \<Rightarrow> string option \<Rightarrow> string option \<Rightarrow> rule_source \<Rightarrow>
   audit_state \<Rightarrow> audit_state \<times> (string + unit)" where
  "gate_read_surface ce fail_open uuid timestamp agent_id surface_name namespace query src a =
     gate_read ce fail_open uuid timestamp agent_id (ActRead surface_name namespace query) src a"

section \<open>A hook passes only what the rules it sees let pass\<close>

definition rules_seen :: "rule_env \<Rightarrow> rule_source option \<Rightarrow> rule_cache \<Rightarrow> agent_action \<Rightarrow> rule list option" where
  "rules_seen env conn c action =
     (case conn of
        None \<Rightarrow> None
      | Some src \<Rightarrow>
          (case c (agent_action_kind action) of
             Some rules \<Rightarrow> Some rules
           | None \<Rightarrow> (case src of Inl _ \<Rightarrow> None | Inr t \<Rightarrow> Some (load_for_action env t action))))"

lemma load_seen:
  "load_for_action_cached env src (Some c) action =
     (Some (case c (agent_action_kind action) of
              Some _ \<Rightarrow> c
            | None \<Rightarrow> (case src of Inl _ \<Rightarrow> c
                | Inr t \<Rightarrow> c(agent_action_kind action \<mapsto> load_for_action env t action))),
      case c (agent_action_kind action) of
        Some rules \<Rightarrow> Inr rules
      | None \<Rightarrow> (case src of Inl e \<Rightarrow> Inl e | Inr t \<Rightarrow> Inr (load_for_action env t action)))"
  by (simp add: load_for_action_cached_def get_or_load_def load_for_action_def Let_def split: option.split sum.split)

lemma consult_passes:
  "snd (consult env fail_open p ts agent action conn cq) = Inr () \<longleftrightarrow>
     (case rules_seen env conn (fst cq) action of
        None \<Rightarrow> fail_open
      | Some rules \<Rightarrow> \<not> is_blocking (engine_evaluate env rules action))"
  by (auto simp: consult_def rules_seen_def governance_consultation_unavailable_def
      check_agent_action_deferred_cached_def check_agent_action_no_audit_cached_def load_seen is_blocking_def Let_def
      split: option.split sum.split rule_verdict.split)

definition queued_after :: "rule_env \<Rightarrow> deferred_queue \<Rightarrow> deferred_queue \<Rightarrow> agent_action \<Rightarrow> bool" where
  "queued_after env q q' action \<longleftrightarrow>
     (\<exists>e. de_action e = action \<and> is_blocking (de_decision e) \<and> q' = fst (submit env e q))"

lemma submit_refusal_queues:
  "is_blocking d \<Longrightarrow> queued_after env q (fst (submit_refusal env ts agent action d q)) action"
  by (auto simp: queued_after_def submit_refusal_def from_refusal_def
      intro!: exI [of _ "\<lparr>de_agent_id = agent, de_action = action, de_decision = d, de_timestamp = ts\<rparr>"])

lemma consult_queues:
  assumes "snd (consult env fail_open p ts agent action conn cq) \<noteq> Inr ()"
  shows "queued_after env (snd cq) (snd (fst (consult env fail_open p ts agent action conn cq))) action"
  using assms
  by (auto simp: consult_def governance_consultation_unavailable_def
      check_agent_action_deferred_cached_def check_agent_action_no_audit_cached_def load_seen is_blocking_def Let_def
      intro!: submit_refusal_queues split: option.splits sum.splits rule_verdict.splits if_splits)

text \<open>The queue holds the refusal of an action: in the channel while the receiver lives, and as a whole frame
  at the end of the journal while the disk is healthy.\<close>

definition refusal_kept :: "rule_env \<Rightarrow> deferred_queue \<Rightarrow> deferred_queue \<Rightarrow> agent_action \<Rightarrow> bool" where
  "refusal_kept env q q' action \<longleftrightarrow>
     (\<exists>e. de_action e = action \<and> is_blocking (de_decision e) \<and> dq_submitted q' = dq_submitted q + 1 \<and>
        (dq_open q \<longrightarrow> dq_channel q' = dq_channel q @ [e]) \<and>
        (dq_disk q = None \<and> length (event_canonical_bytes env e) < 2 ^ 32 \<longrightarrow>
           dq_journal q' = map_option (\<lambda>file. file @ journal_frame env e) (dq_journal q)))"

lemma submit_lands: "queued_after env q q' action \<Longrightarrow> refusal_kept env q q' action"
  unfolding queued_after_def refusal_kept_def
  by (elim exE conjE, intro exI conjI, assumption, assumption)
    (auto simp: submit_def journal_append_def Let_def option.map_comp comp_def)

text \<open>C35: The write hook fails the way the operator set it, and by default it fails closed. A memory write
  whose rules can be seen - the hook's connection is there, and the rules for custom actions are in its cache
  or can be loaded - passes exactly when the verdict of those rules on the write does not block, whatever the
  setting. Where the rules cannot be seen, because the connection is missing or the load fails, the write is
  stopped, unless the operator switched fail-open on, and then it passes. Every write the hook stops is
  submitted to the deferred audit queue: it reaches the channel while the receiver lives and, as a whole
  frame, the journal while the disk is healthy.\<close>
theorem write_hook_fails_closed:
  "let (cq', r) = pre_write_hook env fail_open p ts m conn cq
   in (r = Inr () \<longleftrightarrow>
        (case rules_seen env conn (fst cq) (memory_write_action m) of
           None \<Rightarrow> fail_open
         | Some rules \<Rightarrow> \<not> is_blocking (engine_evaluate env rules (memory_write_action m)))) \<and>
      (r \<noteq> Inr () \<longrightarrow> refusal_kept env (snd cq) (snd cq') (memory_write_action m))"
proof -
  let ?a = "memory_write_action m" and ?g = "memory_write_agent m"
  obtain cq' r where c: "consult env fail_open p ts ?g ?a conn cq = (cq', r)" by fastforce
  have "r = Inr () \<longleftrightarrow> (case rules_seen env conn (fst cq) ?a of
      None \<Rightarrow> fail_open | Some rules \<Rightarrow> \<not> is_blocking (engine_evaluate env rules ?a))"
    using consult_passes [of env fail_open p ts ?g ?a conn cq] c by simp
  moreover have "refusal_kept env (snd cq) (snd cq') ?a" if "r \<noteq> Inr ()"
    using consult_queues [of env fail_open p ts ?g ?a conn cq] that c by (intro submit_lands) simp
  ultimately show ?thesis by (simp add: pre_write_hook_def c)
qed

section \<open>The read gate\<close>

lemma gate_read_passes:
  "snd (gate_read ce fail_open uuid ts agent action src a) = Inr () \<longleftrightarrow>
     (case src of
        Inl _ \<Rightarrow> fail_open
      | Inr t \<Rightarrow> \<not> is_blocking (check_agent_action_no_audit (ce_rules ce) t action))"
  by (auto simp: gate_read_def load_for_action_cached_def check_agent_action_no_audit_def load_for_action_def
      engine_evaluate_def is_blocking_def Let_def split: sum.split list.split rule_verdict.split)

section \<open>The policy version follows the rules\<close>

text \<open>The operations on the governed database: the three signed mutations, an audited check, and any other
  event a producer mints.\<close>

datatype gate_op =
    OpRemove operator_call string
  | OpSetEnabled operator_call string bool
  | OpInsert operator_call rule
  | OpCheck string string string agent_action
  | OpAppend mint

definition committed :: "gate_state \<times> (rules_error + bool) \<Rightarrow> gate_state \<times> bool" where
  "committed x = (fst x, snd x = Inr True)"

fun gate_apply :: "check_env \<Rightarrow> gate_op \<Rightarrow> gate_state \<Rightarrow> gate_state \<times> bool" where
  "gate_apply ce (OpRemove oc i) s = committed (remove_signed (ce_rules ce) (ce_daemon_key ce) oc i s)"
| "gate_apply ce (OpSetEnabled oc i b) s = committed (set_enabled_signed (ce_rules ce) (ce_daemon_key ce) oc i b s)"
| "gate_apply ce (OpInsert oc r) s = committed (insert_signed (ce_rules ce) (ce_daemon_key ce) oc r s)"
| "gate_apply ce (OpCheck uuid ts agent action) s =
     (s\<lparr>gs_audit := fst (check_agent_action ce uuid ts agent action (Inr (gs_rules s)) (gs_audit s))\<rparr>, False)"
| "gate_apply ce (OpAppend m) s =
     (s\<lparr>gs_audit := audit_append (re_crypto (ce_rules ce)) (ce_daemon_key ce) (gs_audit s) m\<rparr>, False)"

fun gate_run :: "check_env \<Rightarrow> gate_op list \<Rightarrow> gate_state \<Rightarrow> gate_state \<times> nat" where
  "gate_run ce [] s = (s, 0)"
| "gate_run ce (op # ops) s =
     (let (s1, b) = gate_apply ce op s; (s2, n) = gate_run ce ops s1 in (s2, (if b then 1 else 0) + n))"

abbreviation advances :: "event_row list \<Rightarrow> event_row list" where
  "advances db \<equiv> filter (\<lambda>r. ev_event_type r = governance_policy_advanced) db"

lemma well_linked_sorted:
  assumes "well_linked cr db"
  shows "sorted (map (\<lambda>r. ev_sequence (row_to_event r)) db)"
proof -
  have "linked (event_digest cr) ev_prev_hash ev_sequence 1 zero_hash (map row_to_event db)"
    using assms unfolding well_linked_def by blast
  then have "map (\<lambda>r. ev_sequence (row_to_event r)) db = map (\<lambda>i. 1 + int i) [0..<length db]"
    using linked_ranks by (force simp: comp_def)
  then show ?thesis by (simp add: sorted_iff_nth_mono)
qed

lemma advisory_iff:
  assumes "well_linked cr (au_events (gs_audit s))"
  shows "verify_policy_digest_advisory env s \<longleftrightarrow>
    (let as = advances (au_events (gs_audit s))
     in as = [] \<or> ev_payload_hash (last as) = sha256 (re_crypto env)
          (advance_signable_bytes (int (length as)) (compute_policy_digest env (gs_rules s))))"
proof -
  let ?as = "advances (au_events (gs_audit s))"
  have "sorted (map (\<lambda>r. ev_sequence (row_to_event r)) ?as)"
    using well_linked_sorted [OF assms] by (simp add: sorted_wrt_map sorted_wrt_filter)
  then have "sort_key (\<lambda>r. ev_sequence (row_to_event r)) ?as = ?as" by (rule sort_key_id_if_sorted)
  then show ?thesis
    by (cases ?as rule: rev_cases)
      (simp_all add: verify_policy_digest_advisory_def policy_advance_count_def count_where_def Let_def)
qed

definition gate_ok :: "rule_env \<Rightarrow> gate_state \<Rightarrow> bool" where
  "gate_ok env s \<longleftrightarrow> well_linked (re_crypto env) (au_events (gs_audit s)) \<and> verify_policy_digest_advisory env s"

lemma appended_row:
  assumes "well_linked cr (au_events a)" and "append_signed_event cr key e a = Inr a'"
  shows "\<exists>r. au_events a' = au_events a @ [r] \<and> ev_event_type r = ev_event_type e \<and>
    ev_payload_hash r = ev_payload_hash e \<and> well_linked cr (au_events a')"
  using append_keeps_linked [OF assms] by (simp add: stored_event_def event_to_row_def)

lemma other_event_ok:
  assumes "gate_ok env s" and "append_signed_event (re_crypto env) key e (gs_audit s) = Inr a"
    and "ev_event_type e \<noteq> governance_policy_advanced"
  shows "gate_ok env (s\<lparr>gs_audit := a\<rparr>) \<and> policy_advance_count (au_events a) = policy_advance_count (au_events (gs_audit s))"
proof -
  have wl: "well_linked (re_crypto env) (au_events (gs_audit s))" using assms(1) by (simp add: gate_ok_def)
  obtain r where r: "au_events a = au_events (gs_audit s) @ [r]" "ev_event_type r = ev_event_type e"
      "well_linked (re_crypto env) (au_events a)"
    using appended_row [OF wl assms(2)] by blast
  then have "advances (au_events a) = advances (au_events (gs_audit s))" using assms(3) by simp
  moreover have "verify_policy_digest_advisory env s" using assms(1) by (simp add: gate_ok_def)
  ultimately show ?thesis
    using r(3) advisory_iff [OF wl, of env] advisory_iff [of "re_crypto env" "s\<lparr>gs_audit := a\<rparr>" env]
    by (simp add: gate_ok_def policy_advance_count_def count_where_def Let_def)
qed

lemma advance_ok:
  assumes "well_linked (re_crypto env) (au_events a)" and "append_policy_advance_no_tx env key oc t a = Inr a'"
  shows "gate_ok env \<lparr>gs_rules = t, gs_audit = a'\<rparr>"
    and "policy_advance_count (au_events a') = policy_advance_count (au_events a) + 1"
proof -
  obtain r where r: "au_events a' = au_events a @ [r]" "ev_event_type r = governance_policy_advanced"
      "ev_payload_hash r = sha256 (re_crypto env)
         (advance_signable_bytes (policy_advance_count (au_events a) + 1) (compute_policy_digest env t))"
      "well_linked (re_crypto env) (au_events a')"
    using appended_row [OF assms(1) assms(2) [unfolded append_policy_advance_no_tx_def Let_def]]
    by (auto simp: operator_event_def)
  show n: "policy_advance_count (au_events a') = policy_advance_count (au_events a) + 1"
    using r(1,2) by (simp add: policy_advance_count_def count_where_def)
  have "advances (au_events a') = advances (au_events a) @ [r]" using r(1,2) by simp
  then show "gate_ok env \<lparr>gs_rules = t, gs_audit = a'\<rparr>"
    using r(3,4) advisory_iff [of "re_crypto env" "\<lparr>gs_rules = t, gs_audit = a'\<rparr>" env]
    by (simp add: gate_ok_def Let_def policy_advance_count_def count_where_def add.commute)
qed

lemma rolled_back_ok: "gate_ok env (rolled_back s a) = gate_ok env s"
  by (simp add: gate_ok_def rolled_back_def verify_policy_digest_advisory_def)

text \<open>What one operation does: a committed mutation advances the version by one and leaves it in step; any
  other outcome leaves the rules and the version alone.\<close>

definition step_ok :: "rule_env \<Rightarrow> gate_state \<Rightarrow> gate_state \<times> bool \<Rightarrow> bool" where
  "step_ok env s x \<longleftrightarrow> gate_ok env (fst x) \<and>
     policy_advance_count (au_events (gs_audit (fst x))) =
       policy_advance_count (au_events (gs_audit s)) + (if snd x then 1 else 0) \<and>
     (\<not> snd x \<longrightarrow> gs_rules (fst x) = gs_rules s)"

lemma commit_step:
  assumes "gate_ok env s" and "well_linked (re_crypto env) (au_events a)"
    and "policy_advance_count (au_events a) = policy_advance_count (au_events (gs_audit s))"
  shows "step_ok env s (committed (commit_with_advance env key oc s t a True))"
proof (cases "append_policy_advance_no_tx env key oc t a")
  case (Inr a')
  then show ?thesis using advance_ok [OF assms(2) Inr] assms(3)
    by (simp add: step_ok_def committed_def commit_with_advance_def)
qed (use assms(1) in \<open>simp add: step_ok_def committed_def commit_with_advance_def rolled_back_ok, simp add: rolled_back_def\<close>)

lemma audited_commit_step:
  assumes "gate_ok env s" and "append_signed_event (re_crypto env) key e (gs_audit s) = Inr a"
    and "ev_event_type e \<noteq> governance_policy_advanced"
  shows "step_ok env s (committed (commit_with_advance env key oc s t a True))"
  using other_event_ok [OF assms] assms(1) by (intro commit_step) (simp_all add: gate_ok_def)

lemma event_types_differ [simp]:
  "governance_rule_removed \<noteq> governance_policy_advanced" "governance_rule_disabled \<noteq> governance_policy_advanced"
  "governance_rule_enabled \<noteq> governance_policy_advanced" "governance_check_event_type \<noteq> governance_policy_advanced"
  by (simp_all add: governance_rule_removed_def governance_rule_disabled_def governance_rule_enabled_def
      governance_check_event_type_def governance_policy_advanced_def)

lemma unchanged_step: "gate_ok env s \<Longrightarrow> step_ok env s (s, False)"
  by (simp add: step_ok_def)

lemma other_event_step:
  assumes "gate_ok env s" and "ev_event_type e \<noteq> governance_policy_advanced"
    and "a = (case append_signed_event (re_crypto env) key e (gs_audit s) of Inl _ \<Rightarrow> gs_audit s | Inr a \<Rightarrow> a)"
  shows "step_ok env s (s\<lparr>gs_audit := a\<rparr>, False)"
  using other_event_ok [OF assms(1) _ assms(2), of key] assms(1,3) by (auto simp: step_ok_def split: sum.splits)

lemma rule_get_affected: "rule_get t i = Some r \<Longrightarrow> rule_remove t i = (delete_where (\<lambda>r. ru_id r = i) t, True)"
  using select_by_SomeD [of ru_id i t r]
  by (auto simp: rule_get_def rule_remove_def count_where_def filter_empty_conv)

lemma emit_check_appends:
  "\<exists>e. ev_event_type e = governance_check_event_type \<and>
     emit_check_event ce uuid ts agent action d a = append_signed_event (re_crypto (ce_rules ce)) (ce_daemon_key ce) e a"
  unfolding emit_check_event_def Let_def case_prod_beta by (rule exI, rule conjI [rotated], rule refl, simp)

lemma gate_apply_ok:
  assumes "gate_ok (ce_rules ce) s" and "\<forall>m. op = OpAppend m \<longrightarrow> mi_event_type m \<noteq> governance_policy_advanced"
  shows "step_ok (ce_rules ce) s (gate_apply ce op s)"
proof (cases op)
  case (OpRemove oc i)
  then show ?thesis
    using unchanged_step [OF assms(1)] audited_commit_step [OF assms(1)]
    by (auto simp: remove_signed_def committed_def [of "(s, _)"] operator_event_def Let_def rule_get_affected
        split: option.split sum.split)
next
  case (OpSetEnabled oc i b)
  then show ?thesis
    using unchanged_step [OF assms(1)] audited_commit_step [OF assms(1)]
    by (auto simp: set_enabled_signed_def committed_def [of "(s, _)"] operator_event_def Let_def
        split: option.split sum.split)
next
  case (OpInsert oc r)
  then show ?thesis
    using unchanged_step [OF assms(1)] commit_step [OF assms(1), of "gs_audit s"] assms(1)
    by (auto simp: insert_signed_def committed_def [of "(s, _)"] gate_ok_def split: sum.split)
next
  case (OpAppend m)
  then show ?thesis using assms(2)
    by (simp, intro other_event_step [OF assms(1), where e = "minted (re_crypto (ce_rules ce)) (ce_daemon_key ce) m"])
      (auto simp: audit_append_def minted_def with_daemon_signature_def case_prod_beta)
next
  case (OpCheck uuid ts agent action)
  let ?d = "check_agent_action_no_audit (ce_rules ce) (gs_rules s) action"
  obtain e where e: "ev_event_type e = governance_check_event_type"
      "emit_check_event ce uuid ts agent action ?d (gs_audit s) =
         append_signed_event (re_crypto (ce_rules ce)) (ce_daemon_key ce) e (gs_audit s)"
    using emit_check_appends by blast
  have "fst (check_agent_action ce uuid ts agent action (Inr (gs_rules s)) (gs_audit s)) =
      (case append_signed_event (re_crypto (ce_rules ce)) (ce_daemon_key ce) e (gs_audit s) of
         Inl _ \<Rightarrow> gs_audit s | Inr a \<Rightarrow> a)"
    by (simp add: check_agent_action_def check_agent_action_cached_def load_for_action_cached_def
        check_agent_action_no_audit_def load_for_action_def flip: e(2) split: sum.split)
  then show ?thesis
    using OpCheck other_event_step [OF assms(1), of e] e(1) by simp
qed

text \<open>C33: The policy version stays in step with the rules. Over any run of signed mutations, audited checks
  and other audit events, the advisory check keeps holding: the newest policy advance commits to the rules
  as they are. The sequence grows by exactly one for every committed mutation, and a run that commits
  none, whatever it tried, leaves the rules as they were.\<close>
theorem policy_in_sync:
  assumes "well_linked (re_crypto (ce_rules ce)) (au_events (gs_audit s))"
    and "verify_policy_digest_advisory (ce_rules ce) s"
    and "\<forall>m. OpAppend m \<in> set ops \<longrightarrow> mi_event_type m \<noteq> governance_policy_advanced"
    and "gate_run ce ops s = (s', n)"
  shows "verify_policy_digest_advisory (ce_rules ce) s' \<and>
    pv_seq (current_policy_version (ce_rules ce) s') = pv_seq (current_policy_version (ce_rules ce) s) + int n \<and>
    (n = 0 \<longrightarrow> gs_rules s' = gs_rules s)"
proof -
  have "gate_ok (ce_rules ce) s' \<and>
      policy_advance_count (au_events (gs_audit s')) = policy_advance_count (au_events (gs_audit s)) + int n \<and>
      (n = 0 \<longrightarrow> gs_rules s' = gs_rules s)"
    if "gate_ok (ce_rules ce) s"
    using that assms(3,4)
  proof (induction ops arbitrary: s n)
    case (Cons op ops)
    obtain s1 b where 1: "gate_apply ce op s = (s1, b)" by fastforce
    obtain k where 2: "gate_run ce ops s1 = (s', k)" "n = (if b then 1 else 0) + k"
      using Cons.prems(3) by (auto simp: 1 split: prod.splits)
    have "step_ok (ce_rules ce) s (s1, b)"
      using gate_apply_ok [OF Cons.prems(1), of op] Cons.prems(2) 1 by simp
    then show ?case using Cons.IH [of s1 k] Cons.prems(2) 2 by (auto simp: step_ok_def)
  qed simp
  then show ?thesis using assms(1,2) by (simp add: gate_ok_def current_policy_version_def)
qed

section \<open>Rules changed behind the version are noticed\<close>

definition prefix_free_objects :: "(json \<Rightarrow> bytes) \<Rightarrow> bool" where
  "prefix_free_objects print \<longleftrightarrow> (\<forall>m n x y. print (JObj m) @ x = print (JObj n) @ y \<longrightarrow> m = n)"

lemma prefix_free_concat:
  assumes pf: "prefix_free_objects print"
  shows "concat (map (\<lambda>m. print (JObj m)) ms) = concat (map (\<lambda>m. print (JObj m)) ns) \<longleftrightarrow> ms = ns"
proof (rule iffI)
  have ne: "print (JObj m) \<noteq> []" for m
  proof
    assume e: "print (JObj m) = []"
    obtain n :: "(string \<times> json) list" where "n \<noteq> m" by (cases m) auto
    moreover have "print (JObj m) @ print (JObj n) = print (JObj n) @ []" by (simp add: e)
    ultimately show False using pf unfolding prefix_free_objects_def by blast
  qed
  show "ms = ns" if "concat (map (\<lambda>m. print (JObj m)) ms) = concat (map (\<lambda>m. print (JObj m)) ns)"
    using that
  proof (induction ms arbitrary: ns)
    case (Cons m ms)
    then obtain n ns' where ns: "ns = n # ns'" using ne by (cases ns) auto
    then have "m = n" using Cons.prems pf unfolding prefix_free_objects_def by simp blast
    then show ?case using Cons ns by simp
  qed (use ne in \<open>cases ns; simp\<close>)
qed simp

text \<open>The signed content of the enabled rules, in the order of the digest.\<close>

definition enabled_content :: "rule_table \<Rightarrow> json list" where
  "enabled_content t = map rule_json (filter ru_enabled (rule_list t))"

lemma policy_digest_input:
  assumes "prefix_free_objects (re_print_json env)"
  shows "concat (map (canonical_bytes_for_signing env) (filter ru_enabled (rule_list t))) =
      concat (map (canonical_bytes_for_signing env) (filter ru_enabled (rule_list u))) \<longleftrightarrow>
    enabled_content t = enabled_content u"
proof -
  obtain f where f: "rule_json r = JObj (f r)" for r by (simp add: rule_json_def)
  have "map (canonical_bytes_for_signing env) rs = map (\<lambda>m. re_print_json env (JObj m)) (map f rs)" for rs
    by (simp add: canonical_bytes_for_signing_def f)
  moreover have "map rule_json rs = map JObj (map f rs)" for rs by (simp add: f)
  moreover have "inj JObj" by (simp add: inj_def)
  ultimately show ?thesis
    by (simp add: enabled_content_def prefix_free_concat [OF assms] inj_map_eq_map del: map_map)
qed

text \<open>The bytes the digest of a rule table and the advance row that carries it are hashed from.\<close>

definition digest_input :: "rule_env \<Rightarrow> rule_table \<Rightarrow> string" where
  "digest_input env t = concat (map (canonical_bytes_for_signing env) (filter ru_enabled (rule_list t)))"

definition advance_input :: "rule_env \<Rightarrow> gate_state \<Rightarrow> rule_table \<Rightarrow> string" where
  "advance_input env s t =
     advance_signable_bytes (int (length (advances (au_events (gs_audit s))))) (compute_policy_digest env t)"

text \<open>C34: A rule set changed behind the signed operations is noticed. If the version is in step and an advance
  was ever recorded, then whatever table replaces the rules, the advisory check still passes only if the
  enabled rules of the new table have the signed content of the old ones, in the same order, or these two
  tables are themselves a hash collision: their canonical bytes, or the two advance rows that carry their
  digests, differ and hash to the same value.\<close>
theorem rule_drift_detected:
  assumes "well_linked (re_crypto env) (au_events (gs_audit s))"
    and "verify_policy_digest_advisory env s" and "0 < pv_seq (current_policy_version env s)"
    and "prefix_free_objects (re_print_json env)"
    and "verify_policy_digest_advisory env (s\<lparr>gs_rules := t\<rparr>)"
  shows "enabled_content t = enabled_content (gs_rules s) \<or>
    digest_input env t \<noteq> digest_input env (gs_rules s) \<and>
      sha256 (re_crypto env) (digest_input env t) = sha256 (re_crypto env) (digest_input env (gs_rules s)) \<or>
    advance_input env s t \<noteq> advance_input env s (gs_rules s) \<and>
      sha256 (re_crypto env) (advance_input env s t) = sha256 (re_crypto env) (advance_input env s (gs_rules s))"
proof -
  have ne: "advances (au_events (gs_audit s)) \<noteq> []"
    using assms(3) by (auto simp: current_policy_version_def policy_advance_count_def count_where_def)
  have V: "verify_policy_digest_advisory env (s\<lparr>gs_rules := u\<rparr>) \<longleftrightarrow>
      advances (au_events (gs_audit s)) = [] \<or>
      ev_payload_hash (last (advances (au_events (gs_audit s)))) = sha256 (re_crypto env) (advance_input env s u)" for u
  proof -
    have f: "gs_audit (s\<lparr>gs_rules := u\<rparr>) = gs_audit s" "gs_rules (s\<lparr>gs_rules := u\<rparr>) = u" by simp_all
    show ?thesis
      using advisory_iff [of "re_crypto env" "s\<lparr>gs_rules := u\<rparr>" env] assms(1)
      unfolding Let_def f advance_input_def by blast
  qed
  have self: "s\<lparr>gs_rules := gs_rules s\<rparr> = s" by simp
  have h: "ev_payload_hash (last (advances (au_events (gs_audit s)))) = sha256 (re_crypto env) (advance_input env s u)"
    if "verify_policy_digest_advisory env (s\<lparr>gs_rules := u\<rparr>)" for u
    using that ne V by blast
  note adv = trans [OF h [OF assms(5), symmetric] h [of "gs_rules s", unfolded self, OF assms(2)]]
  show ?thesis
  proof (cases "advance_input env s t = advance_input env s (gs_rules s)")
    case True
    then have dig: "sha256 (re_crypto env) (digest_input env t) = sha256 (re_crypto env) (digest_input env (gs_rules s))"
      unfolding advance_input_def advance_signable_bytes_def same_append_eq compute_policy_digest_def digest_input_def .
    have "enabled_content t = enabled_content (gs_rules s)" if "digest_input env t = digest_input env (gs_rules s)"
      using that by (simp add: policy_digest_input [OF assms(4)] digest_input_def)
    then show ?thesis using dig by blast
  next
    case False
    then show ?thesis using adv by blast
  qed
qed

section \<open>Where the documents and the code part\<close>

text \<open>Operator-signed rows go through the daemon's verifier in the audit walk: where the two keys differ, every
  signed mutation is reported as a signature failure.\<close>

lemma operator_rows_flagged:
  assumes "well_linked cr (au_events a)" and "append_signed_event cr key (operator_event env oc i ts kind payload) a = Inr a'"
    and "kind \<noteq> governance_check_event_type"
    and "re_crypto env = cr" and "\<And>m m'. \<not> ed_verify_strict cr vk m (ed_sign cr (oc_key oc) m')"
  shows "int (length (au_events a)) + 1 \<in> set (rp_signature_failures (verify_chain cr (Some vk) rk (au_events a') None))"
proof -
  let ?e = "stored_event cr key (operator_event env oc i ts kind payload) (au_events a)"
  have ev: "au_events a' = au_events a @ [event_to_row ?e]" and wl: "well_linked cr (au_events a')"
    using append_keeps_linked [OF assms(1,2)] by simp_all
  have e: "ev_attest_level ?e = operator_signed" "ev_event_type ?e = kind" "ev_sequence ?e = int (length (au_events a)) + 1"
      "ev_signature ?e = Some (ed_sign cr (oc_key oc) payload)"
    by (simp_all add: stored_event_def operator_event_def append_signature_def operator_signed_def assms(4))
  have "sv_signature_failure (classify_row_signature cr ?e (Some vk) rk)"
  proof -
    obtain sig where sig: "ed_sign cr (oc_key oc) payload = sig" by blast
    have "ed_verify_strict cr vk m sig = False" for m using assms(5) [of m payload] by (simp add: sig)
    then show ?thesis
      using assms(3) by (auto simp: classify_row_signature_def e sig operator_signed_def no_failure_def split: list.split)
  qed
  moreover have "?e \<in> set (map row_to_event (au_events a'))" by (simp add: ev)
  ultimately show ?thesis
    by (auto simp: verify_chain_def fold_verify_row well_linked_rows [OF wl] e(3) [symmetric])
qed

text \<open>A filled cache answers for the rules it was filled with, whatever becomes of the table.\<close>

lemma cached_rules_stay:
  assumes "c (agent_action_kind action) = Some rules"
  shows "snd (consult env fail_open p ts agent action (Some src) (c, q)) =
    snd (consult env fail_open p ts agent action (Some src') (c, q))"
proof -
  have l: "load_for_action_cached env x (Some c) action = (Some c, Inr rules)" for x
    using assms by (simp add: load_seen)
  show ?thesis
    by (simp add: consult_def check_agent_action_deferred_cached_def check_agent_action_no_audit_cached_def l)
qed

section \<open>A small governed database\<close>

definition gate_rules_env :: rule_env where
  "gate_rules_env =
     \<lparr>re_crypto = demo_crypto, re_parse_json = (\<lambda>s. Some (JObj [(''kind'', JStr ''memory_write'')])),
      re_print_json = (\<lambda>v. replicate (to_nat v) (CHR 0x00) @ [CHR 0x01]), re_disk_free_gib = None,
      re_operator_pubkey = None\<rparr>"

definition gate_check_env :: check_env where
  "gate_check_env = \<lparr>ce_rules = gate_rules_env, ce_recorder_key = None, ce_daemon_key = None\<rparr>"

definition gate_operator :: operator_call where
  "gate_operator = \<lparr>oc_key = [], oc_agent = ''op'', oc_row_id = ''e1'', oc_row_time = ''t1'',
     oc_advance_id = ''e2'', oc_advance_time = ''t2''\<rparr>"

definition gate_rule :: rule where
  "gate_rule = (demo_rule ''r1'' ''refuse'')\<lparr>ru_kind := ''custom''\<rparr>"

definition gate_boot :: gate_state where
  "gate_boot = \<lparr>gs_rules = [], gs_audit = audit_boot\<rparr>"

definition gate_advanced :: gate_state where
  "gate_advanced = fst (gate_run gate_check_env [OpInsert gate_operator gate_rule] gate_boot)"

lemma gate_boot_ok:
  "well_linked cr (au_events (gs_audit gate_boot))" "verify_policy_digest_advisory env gate_boot"
  by (simp_all add: gate_boot_def audit_boot_def well_linked_def verify_policy_digest_advisory_def
      policy_advance_count_def count_where_def)

lemma gate_boot_run:
  "gate_run gate_check_env [OpInsert gate_operator gate_rule] gate_boot = (gate_advanced, 1)"
  "gs_rules gate_advanced = [gate_rule]"
proof -
  have i: "rule_insert [] gate_rule = Inr [gate_rule]"
    by (simp add: rule_insert_def gate_rule_def demo_rule_def severity_from_str_def insert_row_def select_by_def)
  have l: "well_linked cr (au_events audit_boot)" for cr by (simp add: audit_boot_def well_linked_def)
  obtain a where "append_policy_advance_no_tx gate_rules_env None gate_operator [gate_rule] audit_boot = Inr a"
    unfolding append_policy_advance_no_tx_def Let_def append_well_linked [OF l]
    by (simp add: insert_row_def select_by_def audit_boot_def)
  then have "gate_run gate_check_env [OpInsert gate_operator gate_rule] gate_boot = (\<lparr>gs_rules = [gate_rule], gs_audit = a\<rparr>, 1)"
    by (simp add: committed_def insert_signed_def gate_boot_def i commit_with_advance_def gate_check_env_def)
  then show "gate_run gate_check_env [OpInsert gate_operator gate_rule] gate_boot = (gate_advanced, 1)"
    "gs_rules gate_advanced = [gate_rule]" by (simp_all add: gate_advanced_def)
qed

theorem policy_in_sync_witness:
  "verify_policy_digest_advisory gate_rules_env gate_advanced \<and>
   pv_seq (current_policy_version gate_rules_env gate_advanced) = 1"
proof -
  have "pv_seq (current_policy_version gate_rules_env gate_boot) = 0"
    by (simp add: current_policy_version_def policy_advance_count_def count_where_def gate_boot_def audit_boot_def)
  then show ?thesis
    using policy_in_sync [of gate_check_env gate_boot, OF gate_boot_ok _ gate_boot_run(1)]
    by (simp add: gate_check_env_def)
qed

lemma gate_advanced_ok: "gate_ok gate_rules_env gate_advanced"
    "0 < pv_seq (current_policy_version gate_rules_env gate_advanced)"
proof -
  have "step_ok gate_rules_env gate_boot (gate_apply gate_check_env (OpInsert gate_operator gate_rule) gate_boot)"
    using gate_apply_ok [of gate_check_env gate_boot "OpInsert gate_operator gate_rule"] gate_boot_ok
    by (simp add: gate_ok_def gate_check_env_def)
  moreover have "gate_apply gate_check_env (OpInsert gate_operator gate_rule) gate_boot = (gate_advanced, True)"
    using gate_boot_run(1) by (auto simp: Let_def case_prod_beta prod_eq_iff split: if_splits)
  ultimately show "gate_ok gate_rules_env gate_advanced" "0 < pv_seq (current_policy_version gate_rules_env gate_advanced)"
    by (simp_all add: step_ok_def current_policy_version_def policy_advance_count_def count_where_def)
qed

theorem rule_drift_detected_witness:
  "enabled_content [gate_rule\<lparr>ru_created_at := 7\<rparr>] = enabled_content (gs_rules gate_advanced)"
proof -
  let ?t = "[gate_rule\<lparr>ru_created_at := 7\<rparr>]"
  have wl: "well_linked (re_crypto gate_rules_env) (au_events (gs_audit gate_advanced))"
    and v: "verify_policy_digest_advisory gate_rules_env gate_advanced"
    using gate_advanced_ok(1) by (simp_all add: gate_ok_def)
  have "compute_policy_digest gate_rules_env ?t = compute_policy_digest gate_rules_env (gs_rules gate_advanced)"
    by (simp add: gate_boot_run(2) compute_policy_digest_def rule_list_def canonical_bytes_for_signing_def
        rule_json_def gate_rule_def demo_rule_def)
  then have "verify_policy_digest_advisory gate_rules_env (gate_advanced\<lparr>gs_rules := ?t\<rparr>)"
    using v by (simp add: verify_policy_digest_advisory_def Let_def)
  moreover have "prefix_free_objects (re_print_json gate_rules_env)"
  proof -
    have "m = n" if "replicate m (CHR 0x00) @ CHR 0x01 # x = replicate n (CHR 0x00) @ CHR 0x01 # y" for m n :: nat and x y
      using that
    proof (induction m arbitrary: n)
      case (Suc m) then show ?case by (cases n) auto
    next
      case 0
      then show ?case by (cases n) auto
    qed
    note r = this
    have "m = n" if "re_print_json gate_rules_env (JObj m) @ x = re_print_json gate_rules_env (JObj n) @ y" for m n x y
      using r [of "to_nat (JObj m)" x "to_nat (JObj n)" y] that by (simp add: gate_rules_env_def)
    then show ?thesis unfolding prefix_free_objects_def by blast
  qed
  moreover have "sha256 (re_crypto gate_rules_env) x = sha256 (re_crypto gate_rules_env) y \<longleftrightarrow> x = y" for x y
    by (simp add: gate_rules_env_def demo_crypto_def)
  ultimately show ?thesis
    using rule_drift_detected [OF wl v gate_advanced_ok(2), of ?t] by blast
qed

definition gate_memory :: memory where
  "gate_memory =
     \<lparr>m_id = ''m'', m_tier = Long, m_namespace = ''ops'', m_title = ''t'', m_content = ''c'',
      m_tags = [], m_priority = 5, m_confidence = Finite 1, m_source = ''user'',
      m_access_count = 0, m_created_at = ''2026'', m_updated_at = ''2026'',
      m_last_accessed_at = None, m_expires_at = None, m_metadata = JObj [],
      m_reflection_depth = 0, m_memory_kind = Observation, m_entity_id = None,
      m_persona_version = None, m_citations = [], m_source_uri = None, m_source_span = None,
      m_confidence_source = CallerProvided, m_confidence_signals = None,
      m_confidence_decayed_at = None, m_version = 1, m_lifecycle_state = Open, m_cid = None\<rparr>"

definition gate_queue :: deferred_queue where
  "gate_queue = \<lparr>dq_open = True, dq_channel = [], dq_submitted = 0, dq_send_failures = 0,
     dq_journal = None, dq_disk = None\<rparr>"

theorem write_hook_fails_closed_witness:
  "snd (pre_write_hook gate_rules_env False ''db'' ''t'' gate_memory (Some (Inr [gate_rule])) (Map.empty, gate_queue)) \<noteq> Inr () \<and>
   refusal_kept gate_rules_env gate_queue (snd (fst
     (pre_write_hook gate_rules_env False ''db'' ''t'' gate_memory (Some (Inr [gate_rule])) (Map.empty, gate_queue))))
     (memory_write_action gate_memory)"
proof -
  have "load_for_action gate_rules_env [gate_rule] (memory_write_action gate_memory) = [gate_rule]"
    by (simp add: load_for_action_def list_enabled_by_kind_def memory_write_action_def gate_rule_def demo_rule_def
        enforced_rule_passes_def gate_rules_env_def)
  moreover have "is_blocking (engine_evaluate gate_rules_env [gate_rule] (memory_write_action gate_memory))"
    by (simp add: engine_evaluate_def matcher_applies_def memory_write_action_def gate_rule_def demo_rule_def
        gate_rules_env_def match_custom_def str_field_def narrows_def rule_severity_def severity_from_str_def is_blocking_def)
  ultimately show ?thesis
    using write_hook_fails_closed [of gate_rules_env False "''db''" "''t''" gate_memory "Some (Inr [gate_rule])" "(Map.empty, gate_queue)"]
    by (auto simp: rules_seen_def split: prod.splits)
qed

end
