(* ===== verification/MemoryRow.thy ===== *)
theory MemoryRow
  imports Crdt Text Signing
begin

text \<open>
  The row of the memories table and the statements that rewrite one row: the content identifier of
  \<^verbatim>\<open>src/identity/cid.rs\<close>, and from \<^verbatim>\<open>src/storage/mod.rs\<close> the denormalised columns, the row a fresh
  insert writes, the update rules of the two upserts (the local one and the newer-wins one of the
  federation), the access bookkeeping of \<^verbatim>\<open>touch\<close> and its folded form.

  A column holds the value its text encodes: the JSON and enumeration columns are not encoded. Text
  is compared bytewise, as SQLite compares it. At-rest encryption is off, as by default, so the
  content column holds the plaintext. The secret screen, the outer hash of the content identifier,
  the pre-write hook, the metadata validator and the JSON printer are parameters.
\<close>

section \<open>Environment and row\<close>

record 't store_env =
  se_chrono :: "'t chrono"
  se_crypto :: crypto
  se_screen :: "string \<Rightarrow> string option"
  se_blake3_hex :: "bytes \<Rightarrow> string"
  se_node :: string
  se_stopped :: bool
  se_pre_write :: "memory \<Rightarrow> string option"
  se_redact :: "memory \<Rightarrow> memory option"
  se_metadata_ok :: "json \<Rightarrow> bool"
  se_json_text :: "json \<Rightarrow> string"

record mem_row =
  mr_mem :: memory
  mr_genesis :: "bytes option"
  mr_mentioned :: "string option"
  mr_kind_provenance :: "string option"
  mr_embedding :: "bytes option"
  mr_atomised_into :: "int option"
  mr_atom_of :: "string option"

abbreviation row_id :: "mem_row \<Rightarrow> string" where "row_id r \<equiv> m_id (mr_mem r)"
abbreviation row_slot :: "mem_row \<Rightarrow> string \<times> string" where
  "row_slot r \<equiv> (m_title (mr_mem r), m_namespace (mr_mem r))"

section \<open>The content identifier\<close>

definition cid_domain :: bytes where
  "cid_domain = ''memory-cid-v1'' @ [CHR 0x00]"

definition cid_field_sep :: char where
  "cid_field_sep = CHR 0x1F"

definition screened :: "'t store_env \<Rightarrow> string \<Rightarrow> string" where
  "screened env s = (case se_screen env s of None \<Rightarrow> s | Some redacted \<Rightarrow> redacted)"

definition canonical_cid_preimage ::
  "'t store_env \<Rightarrow> string \<Rightarrow> string \<Rightarrow> string \<Rightarrow> string \<Rightarrow> string \<Rightarrow> string \<Rightarrow> bytes" where
  "canonical_cid_preimage env agent_id namespace title kind created_at content =
     cid_domain @ agent_id @ [cid_field_sep] @ namespace @ [cid_field_sep] @ screened env title @ [cid_field_sep] @
     kind @ [cid_field_sep] @ created_at @ [cid_field_sep] @ sha256 (se_crypto env) (screened env content)"

definition compute_cid :: "'t store_env \<Rightarrow> bytes \<Rightarrow> string" where
  "compute_cid env preimage = ''b3:'' @ se_blake3_hex env preimage"

record cid_stamp =
  cs_cid :: string
  cs_genesis :: bytes

definition stamp_cid ::
  "'t store_env \<Rightarrow> string \<Rightarrow> string \<Rightarrow> string \<Rightarrow> string \<Rightarrow> string \<Rightarrow> string \<Rightarrow> cid_stamp" where
  "stamp_cid env agent_id namespace title kind created_at content =
     (let genesis = canonical_cid_preimage env agent_id namespace title kind created_at content
      in \<lparr>cs_cid = compute_cid env genesis, cs_genesis = genesis\<rparr>)"

definition metadata_agent :: "memory \<Rightarrow> string" where
  "metadata_agent m = (case Option.bind (json_get ''agent_id'' (m_metadata m)) json_as_str of Some a \<Rightarrow> a | None \<Rightarrow> [])"

definition stamp_memory_cid :: "'t store_env \<Rightarrow> memory \<Rightarrow> cid_stamp" where
  "stamp_memory_cid env m =
     stamp_cid env (metadata_agent m) (m_namespace m) (m_title m) (memory_kind_as_str (m_memory_kind m))
       (m_created_at m) (m_content m)"

record cid_mismatch =
  cm_stored :: string
  cm_recomputed :: string

definition verify_cid :: "'t store_env \<Rightarrow> string \<Rightarrow> bytes \<Rightarrow> cid_mismatch + unit" where
  "verify_cid env stored_cid stored_genesis =
     (let recomputed = compute_cid env stored_genesis
      in if recomputed = stored_cid then Inr () else Inl \<lparr>cm_stored = stored_cid, cm_recomputed = recomputed\<rparr>)"

section \<open>Denormalised columns\<close>

text \<open>What follows the first occurrence of a pattern.\<close>

fun after_first :: "string \<Rightarrow> string \<Rightarrow> string option" where
  "after_first pat s =
     (case strip_prefix s pat of
        Some rest \<Rightarrow> Some rest
      | None \<Rightarrow> (case s of [] \<Rightarrow> None | c # s' \<Rightarrow> after_first pat s'))"

declare after_first.simps [simp del]

definition title_marker :: "string \<Rightarrow> string option" where
  "title_marker title =
     Option.bind (after_first ''[entity:'' title) (\<lambda>rest.
       if CHR '']'' \<in> set rest then
         (let extracted = trim (takeWhile (\<lambda>c. c \<noteq> CHR '']'') rest)
          in if extracted = [] then None else Some extracted)
       else None)"

definition extract_mentioned_entity_id :: "memory \<Rightarrow> string option" where
  "extract_mentioned_entity_id m =
     (if m_memory_kind m \<noteq> Reflection then None
      else case Option.bind (json_get ''entity_id'' (m_metadata m)) json_as_str of
             Some eid \<Rightarrow> if trim eid \<noteq> [] then Some (trim eid) else title_marker (m_title m)
           | None \<Rightarrow> title_marker (m_title m))"

definition extract_kind_provenance :: "memory \<Rightarrow> string option" where
  "extract_kind_provenance m = map_option kind_provenance_as_str (kind_provenance_from_metadata (m_metadata m))"

section \<open>JSON inside SQL\<close>

text \<open>The merge patch of RFC 7396, which \<^verbatim>\<open>json_patch\<close> applies: a null removes, an object merges, anything
  else replaces.\<close>

fun json_patch :: "json \<Rightarrow> json \<Rightarrow> json"
  and json_patch_entries :: "(string \<times> json) list \<Rightarrow> (string \<times> json) list \<Rightarrow> (string \<times> json) list"
  where
  "json_patch target (JObj p) = JObj (json_patch_entries (case target of JObj m \<Rightarrow> m | _ \<Rightarrow> []) p)"
| "json_patch target p = p"
| "json_patch_entries m [] = m"
| "json_patch_entries m ((k, v) # p) =
     (if v = JNull then json_patch_entries (bt_remove k m) p
      else json_patch_entries
        (bt_insert k (json_patch (case map_of m k of Some x \<Rightarrow> x | None \<Rightarrow> JNull) v) m) p)"

text \<open>The value column of \<^verbatim>\<open>json_each\<close> holds a boolean as an integer.\<close>

fun sql_value :: "json \<Rightarrow> json" where
  "sql_value (JBool b) = JNum (if b then ''1'' else ''0'')"
| "sql_value v = v"

definition provenance_keys :: "string list" where
  "provenance_keys = [''agent_id'', ''derived_from'', ''consolidated_from_agents'']"

definition provenance_overlay :: "json \<Rightarrow> json" where
  "provenance_overlay metadata =
     (case metadata of
        JObj m \<Rightarrow> JObj (map (\<lambda>(k, v). (k, sql_value v)) (filter (\<lambda>(k, v). k \<in> set provenance_keys) m))
      | _ \<Rightarrow> JObj [])"

definition coalesce :: "'a option \<Rightarrow> 'a option \<Rightarrow> 'a option" where
  "coalesce a b = (case a of Some x \<Rightarrow> Some x | None \<Rightarrow> b)"

definition sql_max_real :: "f64 \<Rightarrow> f64 \<Rightarrow> f64" where
  "sql_max_real a b = (if f64_gt b a then b else a)"

section \<open>The row of a fresh insert\<close>

definition fresh_row :: "'t store_env \<Rightarrow> 't \<Rightarrow> memory \<Rightarrow> mem_row" where
  "fresh_row env now m =
     (let stamp = stamp_memory_cid env m
      in \<lparr>mr_mem = m\<lparr>m_expires_at := effective_expires_at (se_chrono env) now m, m_cid := Some (cs_cid stamp)\<rparr>,
          mr_genesis = Some (cs_genesis stamp), mr_mentioned = extract_mentioned_entity_id m,
          mr_kind_provenance = None, mr_embedding = None, mr_atomised_into = None, mr_atom_of = None\<rparr>)"

text \<open>The local insert advances the vector clock of this node in the stored metadata, fills the provenance
  column and leaves the version to the default of the column.\<close>

definition local_row :: "'t store_env \<Rightarrow> 't \<Rightarrow> memory \<Rightarrow> mem_row" where
  "local_row env now m =
     (let r = fresh_row env now m
      in r\<lparr>mr_mem := (mr_mem r)\<lparr>m_metadata := stamp_version_vector (m_metadata m) (se_node env) (m_updated_at m),
                                 m_version := 1\<rparr>,
           mr_kind_provenance := extract_kind_provenance m\<rparr>)"

section \<open>The update rules of the upserts\<close>

definition upsert_tier :: "tier \<Rightarrow> tier \<Rightarrow> tier" where
  "upsert_tier old new =
     (if new = Long then Long else if old = Long then Long else if new = Mid then Mid else old)"

definition upsert_expires :: "memory \<Rightarrow> memory \<Rightarrow> string option" where
  "upsert_expires old new =
     (if m_tier new = Long \<or> m_tier old = Long then None else coalesce (m_expires_at new) (m_expires_at old))"

definition sticky_kind :: "memory_kind \<Rightarrow> memory_kind \<Rightarrow> memory_kind" where
  "sticky_kind old new = (if old = Reflection then Reflection else if old = Persona then Persona else new)"

text \<open>\<^verbatim>\<open>ON CONFLICT(title, namespace) DO UPDATE\<close> of \<^verbatim>\<open>insert\<close>: \<open>old\<close> is the stored row, \<open>new\<close> the excluded one.\<close>

definition upsert_memory :: "memory \<Rightarrow> memory \<Rightarrow> memory" where
  "upsert_memory old new =
     old\<lparr>m_content := m_content new,
         m_tags := m_tags new,
         m_priority := max (m_priority old) (m_priority new),
         m_confidence := sql_max_real (m_confidence old) (m_confidence new),
         m_source := m_source new,
         m_tier := upsert_tier (m_tier old) (m_tier new),
         m_updated_at := m_updated_at new,
         m_expires_at := upsert_expires old new,
         m_metadata := json_patch (m_metadata new) (provenance_overlay (m_metadata old)),
         m_reflection_depth := max (m_reflection_depth old) (m_reflection_depth new),
         m_memory_kind := sticky_kind (m_memory_kind old) (m_memory_kind new),
         m_entity_id := coalesce (m_entity_id old) (m_entity_id new),
         m_persona_version := coalesce (m_persona_version old) (m_persona_version new),
         m_citations := (if m_citations new = [] then m_citations old else m_citations new),
         m_source_uri := coalesce (m_source_uri new) (m_source_uri old),
         m_source_span := coalesce (m_source_span new) (m_source_span old),
         m_confidence_source := (if m_confidence_source new \<noteq> CallerProvided then m_confidence_source new
                                 else m_confidence_source old),
         m_confidence_signals := coalesce (m_confidence_signals new) (m_confidence_signals old),
         m_confidence_decayed_at := coalesce (m_confidence_decayed_at new) (m_confidence_decayed_at old),
         m_version := m_version old + 1\<rparr>"

definition upsert_row :: "mem_row \<Rightarrow> mem_row \<Rightarrow> mem_row" where
  "upsert_row old new =
     old\<lparr>mr_mem := upsert_memory (mr_mem old) (mr_mem new),
         mr_mentioned := coalesce (mr_mentioned new) (mr_mentioned old),
         mr_kind_provenance := coalesce (mr_kind_provenance new) (mr_kind_provenance old)\<rparr>"

text \<open>The update rule of \<^verbatim>\<open>insert_if_newer\<close>.\<close>

definition incoming_wins :: "memory \<Rightarrow> memory \<Rightarrow> bool" where
  "incoming_wins old new \<longleftrightarrow>
     m_updated_at new > m_updated_at old \<or> m_updated_at new = m_updated_at old \<and> m_id new > m_id old"

definition newer_memory :: "memory \<Rightarrow> memory \<Rightarrow> memory" where
  "newer_memory old new =
     (let w = incoming_wins old new
      in old\<lparr>m_content := (if w then m_content new else m_content old),
             m_tags := (if w then m_tags new else m_tags old),
             m_priority := max (m_priority old) (m_priority new),
             m_confidence := sql_max_real (m_confidence old) (m_confidence new),
             m_source := (if w then m_source new else m_source old),
             m_tier := upsert_tier (m_tier old) (m_tier new),
             m_updated_at := max (m_updated_at old) (m_updated_at new),
             m_access_count := max (m_access_count old) (m_access_count new),
             m_expires_at := upsert_expires old new,
             m_metadata := json_patch (if w then m_metadata new else m_metadata old)
               (provenance_overlay (m_metadata old)),
             m_reflection_depth := max (m_reflection_depth old) (m_reflection_depth new),
             m_memory_kind := sticky_kind (m_memory_kind old) (m_memory_kind new),
             m_entity_id := coalesce (m_entity_id old) (m_entity_id new),
             m_persona_version := coalesce (m_persona_version old) (m_persona_version new),
             m_citations := (if w then m_citations new else m_citations old),
             m_source_uri := coalesce (m_source_uri new) (m_source_uri old),
             m_source_span := coalesce (m_source_span new) (m_source_span old),
             m_confidence_source := (if w then m_confidence_source new else m_confidence_source old),
             m_confidence_signals := (if w then m_confidence_signals new else m_confidence_signals old),
             m_confidence_decayed_at := (if w then m_confidence_decayed_at new else m_confidence_decayed_at old),
             m_version := max (m_version old) (m_version new),
             m_lifecycle_state := (if w then m_lifecycle_state new else m_lifecycle_state old)\<rparr>)"

definition newer_row :: "mem_row \<Rightarrow> mem_row \<Rightarrow> mem_row" where
  "newer_row old new =
     old\<lparr>mr_mem := newer_memory (mr_mem old) (mr_mem new),
         mr_mentioned := (if incoming_wins (mr_mem old) (mr_mem new)
                          then coalesce (mr_mentioned new) (mr_mentioned old) else mr_mentioned old)\<rparr>"

section \<open>Access bookkeeping\<close>

definition promotion_threshold :: int where
  "promotion_threshold = 5"

text \<open>The expiry floor of an access: \<open>short_expires\<close> and \<open>mid_expires\<close> are the ends of the two windows.\<close>

definition extend_expiry :: "string \<Rightarrow> string \<Rightarrow> memory \<Rightarrow> string option" where
  "extend_expiry short_expires mid_expires m =
     (case m_tier m of
        Long \<Rightarrow> m_expires_at m
      | Short \<Rightarrow> map_option (\<lambda>e. max e short_expires) (m_expires_at m)
      | Mid \<Rightarrow> map_option (\<lambda>e. max e mid_expires) (m_expires_at m))"

definition bump_memory :: "string \<Rightarrow> string \<Rightarrow> string \<Rightarrow> memory \<Rightarrow> memory" where
  "bump_memory now short_expires mid_expires m =
     m\<lparr>m_access_count := min (m_access_count m + 1) 1000000,
       m_last_accessed_at := Some now,
       m_expires_at := extend_expiry short_expires mid_expires m\<rparr>"

definition promote_memory :: "string \<Rightarrow> memory \<Rightarrow> memory" where
  "promote_memory now m =
     (if m_tier m = Mid \<and> m_access_count m \<ge> promotion_threshold
      then m\<lparr>m_tier := Long, m_expires_at := None, m_updated_at := now\<rparr> else m)"

definition prioritise_memory :: "memory \<Rightarrow> memory" where
  "prioritise_memory m =
     (if m_access_count m > 0 \<and> m_access_count m mod 10 = 0 \<and> m_priority m < 10
      then m\<lparr>m_priority := min (m_priority m + 1) 10\<rparr> else m)"

definition touch_memory :: "string \<Rightarrow> string \<Rightarrow> string \<Rightarrow> memory \<Rightarrow> memory" where
  "touch_memory now short_expires mid_expires m =
     prioritise_memory (promote_memory now (bump_memory now short_expires mid_expires m))"

text \<open>The folded form of \<open>n\<close> accesses, the last at \<open>t_max\<close>. The divisions are those of counters, which are
  never negative.\<close>

definition fold_bump :: "int \<Rightarrow> string \<Rightarrow> string \<Rightarrow> string \<Rightarrow> memory \<Rightarrow> memory" where
  "fold_bump n t_max short_expires mid_expires m =
     m\<lparr>m_access_count := min (m_access_count m + n) 1000000,
       m_priority := min (m_priority m + (min (m_access_count m + n) 1000000 div 10 - m_access_count m div 10)) 10,
       m_last_accessed_at :=
         (case m_last_accessed_at m of
            None \<Rightarrow> Some t_max | Some l \<Rightarrow> if l < t_max then Some t_max else Some l),
       m_expires_at := extend_expiry short_expires mid_expires m\<rparr>"

definition fold_memory :: "string \<Rightarrow> int \<Rightarrow> string \<Rightarrow> string \<Rightarrow> string \<Rightarrow> memory \<Rightarrow> memory" where
  "fold_memory now n t_max short_expires mid_expires m =
     promote_memory now (fold_bump n t_max short_expires mid_expires m)"

section \<open>What a merge patch keeps\<close>

lemma json_patch_entries_wf: "bt_wf m \<Longrightarrow> bt_wf (json_patch_entries m p)"
  by (induction p arbitrary: m) auto

lemma json_patch_entries_get:
  "bt_wf m \<Longrightarrow> distinct (map fst p) \<Longrightarrow>
    map_of (json_patch_entries m p) k =
      (case map_of p k of
         None \<Rightarrow> map_of m k
       | Some v \<Rightarrow> if v = JNull then None
                  else Some (json_patch (case map_of m k of Some x \<Rightarrow> x | None \<Rightarrow> JNull) v))"
proof (induction p arbitrary: m)
  case (Cons e p)
  obtain q v where e: "e = (q, v)" by (cases e)
  have "map_of p q = None" using Cons.prems(2) e by (simp add: map_of_eq_None_iff)
  then show ?case using Cons by (cases "k = q") (auto simp: e split: option.split)
qed simp

lemma sql_value_null [simp]: "sql_value v = JNull \<longleftrightarrow> v = JNull"
  by (cases v) simp_all

lemma overlay_get:
  assumes "wf_json metadata"
  shows "json_get k (provenance_overlay metadata) =
    (if k \<in> set provenance_keys then map_option sql_value (json_get k metadata) else None)"
proof (cases metadata)
  case (JObj m)
  have "map_of (map (\<lambda>(k, v). (k, sql_value v)) (filter (\<lambda>(k, v). k \<in> set provenance_keys) xs)) k =
      (if k \<in> set provenance_keys then map_option sql_value (map_of xs k) else None)" for xs
    by (induction xs) auto
  then show ?thesis by (simp add: provenance_overlay_def JObj)
qed (simp_all add: provenance_overlay_def)

lemma bt_wf_filter: "bt_wf m \<Longrightarrow> bt_wf (filter P m)"
  by (simp add: bt_wf_def sorted_wrt_filter sorted_wrt_map)

lemma keys_sql_value: "map fst (map (\<lambda>(k, v). (k, sql_value v)) xs) = map fst xs"
  by (induction xs) auto

lemma overlay_object: "\<exists>p. provenance_overlay metadata = JObj p \<and> (wf_json metadata \<longrightarrow> distinct (map fst p))"
proof (cases metadata)
  case (JObj m)
  let ?f = "filter (\<lambda>(k, v). k \<in> set provenance_keys) m"
  have "distinct (map fst (map (\<lambda>(k, v). (k, sql_value v)) ?f))" if "wf_json metadata"
    using that JObj by (simp only: keys_sql_value) (simp add: bt_wf_filter bt_wf_distinct)
  then show ?thesis by (simp add: provenance_overlay_def JObj)
qed (simp_all add: provenance_overlay_def)

text \<open>A provenance key of the stored row that holds a string survives every patch of this kind.\<close>

lemma provenance_survives:
  assumes "wf_json old" and "wf_json new" and "k \<in> set provenance_keys" and "json_get k old = Some (JStr s)"
  shows "json_get k (json_patch new (provenance_overlay old)) = Some (JStr s)"
proof -
  obtain p where p: "provenance_overlay old = JObj p" "distinct (map fst p)"
    using overlay_object [of old] assms(1) by blast
  have "map_of p k = Some (JStr s)"
    using overlay_get [OF assms(1), of k] assms(3,4) p(1) by simp
  moreover have "bt_wf (case new of JObj m \<Rightarrow> m | _ \<Rightarrow> [])"
    using assms(2) by (cases new) (simp_all add: bt_wf_def)
  ultimately show ?thesis
    using p by (simp add: json_patch_entries_get)
qed

text \<open>Keys outside the provenance set come from the patched value.\<close>

lemma patch_other_keys:
  assumes "wf_json old" and "wf_json new" and "k \<notin> set provenance_keys" and "json_is_object new"
  shows "json_get k (json_patch new (provenance_overlay old)) = json_get k new"
proof -
  obtain p where p: "provenance_overlay old = JObj p" "distinct (map fst p)"
    using overlay_object [of old] assms(1) by blast
  have "map_of p k = None" using overlay_get [OF assms(1), of k] assms(3) p(1) by simp
  then show ?thesis using p assms(2,4) by (cases new) (simp_all add: json_patch_entries_get)
qed

lemma json_patch_wf:
  "wf_json t \<Longrightarrow> wf_json p \<Longrightarrow> wf_json (json_patch t p)"
  "wf_json (JObj m) \<Longrightarrow> (\<forall>e \<in> set q. wf_json (snd e)) \<Longrightarrow> wf_json (JObj (json_patch_entries m q))"
proof (induction t p and m q rule: json_patch_json_patch_entries.induct)
  case (1 target p)
  then show ?case by (cases target) (simp_all add: bt_wf_def)
next
  case (4 m k v p)
  show ?case
  proof (cases "v = JNull")
    case True
    have "wf_json (JObj (bt_remove k m))"
      using 4(4) by (auto simp: bt_remove_def bt_wf_filter)
    then show ?thesis using 4(1,5) True by simp
  next
    case False
    have "wf_json (case map_of m k of Some x \<Rightarrow> x | None \<Rightarrow> JNull)"
      using wf_json_get [OF 4(4), of k] by (auto split: option.split)
    then have "wf_json (json_patch (case map_of m k of Some x \<Rightarrow> x | None \<Rightarrow> JNull) v)"
      using 4(2) 4(5) False by simp
    then have "wf_json (JObj (bt_insert k (json_patch (case map_of m k of Some x \<Rightarrow> x | None \<Rightarrow> JNull) v) m))"
      using 4(4) wf_json_insert by blast
    then show ?thesis using 4(3,5) False by simp
  qed
qed auto

lemma overlay_wf: "wf_json metadata \<Longrightarrow> wf_json (provenance_overlay metadata)"
proof (cases metadata)
  case (JObj m)
  assume wf: "wf_json metadata"
  let ?f = "filter (\<lambda>(k, v). k \<in> set provenance_keys) m"
  have v: "wf_json (sql_value x) = wf_json x" for x by (cases x) simp_all
  have "bt_wf ?f" using wf JObj by (simp add: bt_wf_filter)
  then have "bt_wf (map (\<lambda>(k, v). (k, sql_value v)) ?f)" by (simp only: bt_wf_def keys_sql_value)
  then show ?thesis using wf JObj by (auto simp: provenance_overlay_def v)
qed (simp_all add: provenance_overlay_def bt_wf_def)

section \<open>Folded and single accesses agree\<close>

text \<open>Equality up to the update stamp, which the promotion sets to the time it happens.\<close>

definition unstamped :: "memory \<Rightarrow> memory" where
  "unstamped m = m\<lparr>m_updated_at := []\<rparr>"

lemma extend_stamp [simp]: "extend_expiry s w (m\<lparr>m_updated_at := u\<rparr>) = extend_expiry s w m"
  by (cases "m_tier m") (simp_all add: extend_expiry_def)

lemma stamp_commutes:
  "prioritise_memory (m\<lparr>m_updated_at := u\<rparr>) = (prioritise_memory m)\<lparr>m_updated_at := u\<rparr>"
  "bump_memory t s w (m\<lparr>m_updated_at := u\<rparr>) = (bump_memory t s w m)\<lparr>m_updated_at := u\<rparr>"
  "(promote_memory t (m\<lparr>m_updated_at := u\<rparr>))\<lparr>m_updated_at := v\<rparr> = (promote_memory t m)\<lparr>m_updated_at := v\<rparr>"
  by (simp_all add: prioritise_memory_def promote_memory_def bump_memory_def)

lemma unstamped_prioritise: "unstamped (prioritise_memory m) = prioritise_memory (unstamped m)"
  by (simp add: unstamped_def stamp_commutes)

lemma unstamped_promote: "unstamped (promote_memory t (unstamped m)) = unstamped (promote_memory t' m)"
  by (simp add: unstamped_def stamp_commutes) (simp add: promote_memory_def)

lemma unstamped_bump: "unstamped (bump_memory t s w m) = bump_memory t s w (unstamped m)"
  by (simp add: unstamped_def stamp_commutes)

lemma touch_unstamped:
  "unstamped (touch_memory t s w m) = prioritise_memory (unstamped (promote_memory t (bump_memory t s w (unstamped m))))"
  by (simp add: touch_memory_def unstamped_prioritise flip: unstamped_bump) (simp only: unstamped_promote [of t _ t])

lemma div_step: "(a + 1) div 10 - a div 10 = (if (a + 1) mod 10 = 0 then 1 else (0::int))"
  by presburger

definition after_tier :: "int \<Rightarrow> memory \<Rightarrow> tier" where
  "after_tier a m = (if m_tier m = Mid \<and> a \<ge> promotion_threshold then Long else m_tier m)"

definition after_expires :: "int \<Rightarrow> string \<Rightarrow> string \<Rightarrow> memory \<Rightarrow> string option" where
  "after_expires a s w m = (if m_tier m = Mid \<and> a \<ge> promotion_threshold then None else extend_expiry s w m)"

definition accessed :: "int \<Rightarrow> int \<Rightarrow> string \<Rightarrow> string \<Rightarrow> string \<Rightarrow> memory \<Rightarrow> memory" where
  "accessed a p t s w m =
     m\<lparr>m_tier := after_tier a m, m_priority := p, m_access_count := a, m_updated_at := [],
       m_last_accessed_at := Some t, m_expires_at := after_expires a s w m\<rparr>"

lemma unstamped_accessed: "unstamped (accessed a p t s w m) = accessed a p t s w m"
  by (simp add: unstamped_def accessed_def)

lemma touch_form:
  "unstamped (touch_memory t s w m) = accessed (min (m_access_count m + 1) 1000000)
     (let a = min (m_access_count m + 1) 1000000
      in if a > 0 \<and> a mod 10 = 0 \<and> m_priority m < 10 then min (m_priority m + 1) 10 else m_priority m) t s w m"
  by (simp add: unstamped_def touch_memory_def prioritise_memory_def promote_memory_def bump_memory_def
      accessed_def after_tier_def after_expires_def Let_def)

lemma fold_form:
  assumes "\<forall>l. m_last_accessed_at m = Some l \<longrightarrow> l \<le> t" and "m_access_count m + n \<le> 1000000"
  shows "unstamped (fold_memory now n t s w m) = accessed (m_access_count m + n)
    (min (m_priority m + ((m_access_count m + n) div 10 - m_access_count m div 10)) 10) t s w m"
proof -
  have l: "(case m_last_accessed_at m of None \<Rightarrow> Some t | Some l \<Rightarrow> if l < t then Some t else Some l) = Some t"
    using assms(1) by (auto split: option.split)
  have a: "min (m_access_count m + n) 1000000 = m_access_count m + n" using assms(2) by simp
  show ?thesis
    by (simp add: unstamped_def fold_memory_def promote_memory_def fold_bump_def accessed_def after_tier_def
      after_expires_def l a)
qed

lemma fold_first:
  assumes "0 \<le> m_access_count m" and "m_access_count m + 1 \<le> 1000000" and "m_priority m \<le> 10"
    and "\<forall>l. m_last_accessed_at m = Some l \<longrightarrow> l \<le> t"
  shows "unstamped (touch_memory t s w m) = unstamped (fold_memory now 1 t s w m)"
proof -
  have a: "min (m_access_count m + 1) 1000000 = m_access_count m + 1" using assms(2) by simp
  have "(let a = min (m_access_count m + 1) 1000000
      in if a > 0 \<and> a mod 10 = 0 \<and> m_priority m < 10 then min (m_priority m + 1) 10 else m_priority m) =
    min (m_priority m + ((m_access_count m + 1) div 10 - m_access_count m div 10)) 10"
    using assms(1,3) unfolding div_step Let_def a by auto
  then show ?thesis using fold_form [OF assms(4,2)] by (simp only: touch_form a)
qed

lemma accessed_again:
  assumes "a \<le> b" and "s \<le> s'" and "w \<le> w'"
  shows "accessed b q t' s' w' (accessed a p t s w m) = accessed b q t' s' w' m"
proof -
  have e: "map_option (\<lambda>e. max (max e s) s') x = map_option (\<lambda>e. max e s') x"
    "map_option (\<lambda>e. max (max e w) w') x = map_option (\<lambda>e. max e w') x" for x
    using assms(2,3) by (simp_all add: max.absorb2 max.assoc)
  have "after_tier b (accessed a p t s w m) = after_tier b m"
    using assms(1) by (auto simp: accessed_def after_tier_def)
  moreover have "after_expires b s' w' (accessed a p t s w m) = after_expires b s' w' m"
    using assms(1) by (cases "m_tier m")
      (auto simp: accessed_def after_tier_def after_expires_def extend_expiry_def option.map_comp comp_def e)
  ultimately show ?thesis unfolding accessed_def [of b] by (simp add: accessed_def)
qed

lemma fold_next:
  assumes "0 \<le> m_access_count m" and "0 \<le> n" and "m_access_count m + n + 1 \<le> 1000000" and "m_priority m \<le> 10"
    and "\<forall>l. m_last_accessed_at m = Some l \<longrightarrow> l \<le> t0" and "t0 \<le> t" and "s0 \<le> s" and "w0 \<le> w"
  shows "unstamped (touch_memory t s w (fold_memory now n t0 s0 w0 m)) = unstamped (fold_memory now (n + 1) t s w m)"
proof -
  let ?a = "m_access_count m"
  let ?p = "min (m_priority m + ((?a + n) div 10 - ?a div 10)) 10"
  have f: "unstamped (fold_memory now n t0 s0 w0 m) = accessed (?a + n) ?p t0 s0 w0 m"
    using assms(3,5) by (intro fold_form) simp_all
  have "unstamped (touch_memory t s w (fold_memory now n t0 s0 w0 m)) =
      unstamped (touch_memory t s w (accessed (?a + n) ?p t0 s0 w0 m))"
    unfolding touch_unstamped f unstamped_accessed ..
  also have "\<dots> = accessed (?a + n + 1)
      (if (?a + n + 1) mod 10 = 0 \<and> ?p < 10 then min (?p + 1) 10 else ?p) t s w (accessed (?a + n) ?p t0 s0 w0 m)"
  proof -
    have c: "m_access_count (accessed (?a + n) ?p t0 s0 w0 m) = ?a + n" "m_priority (accessed (?a + n) ?p t0 s0 w0 m) = ?p"
      by (simp_all add: accessed_def)
    have "min (?a + n + 1) 1000000 = ?a + n + 1" "0 < ?a + n + 1" using assms(1-3) by simp_all
    then show ?thesis by (simp only: touch_form c Let_def) simp
  qed
  also have "\<dots> = accessed (?a + n + 1) (min (m_priority m + ((?a + n + 1) div 10 - ?a div 10)) 10) t s w m"
  proof -
    have "(?a + n + 1) div 10 - ?a div 10 = (?a + n) div 10 - ?a div 10 + (if (?a + n + 1) mod 10 = 0 then 1 else 0)"
      using div_step [of "?a + n"] by linarith
    then have "(if (?a + n + 1) mod 10 = 0 \<and> ?p < 10 then min (?p + 1) 10 else ?p) =
        min (m_priority m + ((?a + n + 1) div 10 - ?a div 10)) 10"
      by (auto simp: min_def)
    then show ?thesis using accessed_again [of "?a + n" "?a + n + 1" s0 s w0 w] assms(7,8) by simp
  qed
  also have "\<dots> = unstamped (fold_memory now (n + 1) t s w m)"
    using fold_form [of m t "n + 1" now s w] assms(3,5,6) by (force simp: add.assoc)
  finally show ?thesis .
qed

definition touches :: "(string \<times> string \<times> string) list \<Rightarrow> memory \<Rightarrow> memory" where
  "touches ts m = fold (\<lambda>(t, s, w) m. touch_memory t s w m) ts m"

lemma fold_is_touches:
  assumes "ts \<noteq> []" and "last ts = (t, s, w)"
    and "sorted_wrt (\<lambda>(t, s, w) (t', s', w'). t \<le> t' \<and> s \<le> s' \<and> w \<le> w') ts"
    and "0 \<le> m_access_count m" and "m_access_count m + int (length ts) \<le> 1000000" and "m_priority m \<le> 10"
    and "\<forall>l. m_last_accessed_at m = Some l \<longrightarrow> l \<le> fst (hd ts)"
  shows "unstamped (touches ts m) = unstamped (fold_memory now (int (length ts)) t s w m)"
  using assms
proof (induction ts arbitrary: t s w rule: rev_induct)
  case (snoc x ts)
  have x: "x = (t, s, w)" using snoc.prems(2) by simp
  show ?case
  proof (cases "ts = []")
    case True
    then show ?thesis using snoc.prems fold_first [of m t s w now] by (simp add: touches_def x)
  next
    case False
    obtain t0 s0 w0 where y: "last ts = (t0, s0, w0)" by (metis prod_cases3)
    have "(t0, s0, w0) \<in> set ts" using y last_in_set [OF False] by simp
    then have le: "t0 \<le> t" "s0 \<le> s" "w0 \<le> w" using snoc.prems(3) x by (auto simp: sorted_wrt_append)
    have "fst (hd ts) \<le> t0"
    proof (cases ts)
      case (Cons z zs)
      then have "\<forall>u \<in> set zs. fst z \<le> fst u" using snoc.prems(3) by (auto simp: sorted_wrt_append)
      then show ?thesis using Cons y last_in_set [of zs] by (cases "zs = []") force+
    qed (use False in simp)
    then have l: "\<forall>l. m_last_accessed_at m = Some l \<longrightarrow> l \<le> t0"
      using snoc.prems(7) False by (auto simp: hd_append)
    have "unstamped (touches ts m) = unstamped (fold_memory now (int (length ts)) t0 s0 w0 m)"
      using snoc.prems False by (intro snoc.IH [OF False y]) (auto simp: sorted_wrt_append hd_append)
    then have "unstamped (touches (ts @ [x]) m) = unstamped (touch_memory t s w (fold_memory now (int (length ts)) t0 s0 w0 m))"
      unfolding touches_def by (simp add: x) (metis touch_unstamped)
    also have "\<dots> = unstamped (fold_memory now (int (length ts) + 1) t s w m)"
      using snoc.prems(4-6) l le by (intro fold_next) simp_all
    finally show ?thesis by (simp add: add.commute)
  qed
qed simp

end
