(* ===== verification/MemoryStore.thy ===== *)
theory MemoryStore
  imports MemoryRow
begin

text \<open>
  The memory store of \<^verbatim>\<open>src/storage/mod.rs\<close> on one connection: the write funnels with their gates, the
  reads, the optimistic update and the append-and-archive update, deletion and forgetting, the archive
  with its two collectors and the restore, the access ledger, and the two inbound paths of the
  federation. A handler returns the database it leaves behind with its result; a failed transaction
  leaves the database it started from.

  The unique index on title and namespace, the primary keys and the \<^verbatim>\<open>atom_of\<close> foreign key are checked
  as SQLite checks them at the end of a statement. The link tables, the revision leaves, the audit
  rows and the queue purges of a forget belong to other parts and are left out, as are concurrent
  writers between two statements of one call. Full-text matching is a parameter of \<open>forget\<close>.
\<close>

section \<open>State\<close>

record archived_row =
  ar_row :: mem_row
  ar_archived_at :: string
  ar_reason :: string
  ar_original_tier :: "tier option"
  ar_original_expires_at :: "string option"

abbreviation archived_id :: "archived_row \<Rightarrow> string" where "archived_id a \<equiv> row_id (ar_row a)"

record tombstone =
  ts_memory_id :: string
  ts_namespace :: string
  ts_forgotten_at :: string
  ts_agent_id :: "string option"

record mem_db =
  md_rows :: "mem_row list"
  md_archive :: "archived_row list"
  md_standards :: "(string \<times> string) list"
  md_tombstones :: "tombstone list"

datatype store_error =
    StRecordStopped
  | GovernanceRefused string
  | ConflictError string string string
  | VersionConflict string int int
  | InvalidTransition string lifecycle_state lifecycle_state
  | UniqueConflict
  | UniqueViolation
  | StoreNotFound string
  | PermissionDenied
  | AmbiguousIdPrefix string "string list"
  | RestoreCollision string
  | ArchiveSupersedeFailed string
  | InvalidArgument
  | StoreSql sql_error

type_synonym 'a store_result = "mem_db \<times> (store_error + 'a)"

text \<open>The end of a transaction: commit the state of a success, roll back on an error.\<close>

definition in_transaction :: "mem_db \<Rightarrow> store_error + (mem_db \<times> 'a) \<Rightarrow> 'a store_result" where
  "in_transaction db x = (case x of Inl e \<Rightarrow> (db, Inl e) | Inr (db', v) \<Rightarrow> (db', Inr v))"

definition consult_governance_pre_write :: "'t store_env \<Rightarrow> memory \<Rightarrow> store_error + unit" where
  "consult_governance_pre_write env m =
     (case se_pre_write env m of Some reason \<Rightarrow> Inl (GovernanceRefused reason) | None \<Rightarrow> Inr ())"

definition stored_form :: "'t store_env \<Rightarrow> memory \<Rightarrow> memory" where
  "stored_form env m = (case se_redact env m of Some redacted \<Rightarrow> redacted | None \<Rightarrow> m)"

abbreviation stamp_of :: "'t store_env \<Rightarrow> 't \<Rightarrow> string" where
  "stamp_of env now \<equiv> to_rfc3339 (se_chrono env) now"

section \<open>Statements\<close>

definition find_row :: "string \<Rightarrow> mem_db \<Rightarrow> mem_row option" where
  "find_row i db = select_by row_id i (md_rows db)"

definition find_slot :: "string \<times> string \<Rightarrow> mem_db \<Rightarrow> mem_row option" where
  "find_slot slot db = select_by row_slot slot (md_rows db)"

definition plain_insert :: "mem_row \<Rightarrow> mem_db \<Rightarrow> store_error + (mem_db \<times> string)" where
  "plain_insert r db =
     (if find_row (row_id r) db \<noteq> None \<or> find_slot (row_slot r) db \<noteq> None then Inl UniqueViolation
      else if (case mr_atom_of r of None \<Rightarrow> False | Some p \<Rightarrow> p \<noteq> row_id r \<and> find_row p db = None)
           then Inl (StoreSql ForeignKeyViolation)
      else Inr (db\<lparr>md_rows := md_rows db @ [r]\<rparr>, row_id r))"

text \<open>\<^verbatim>\<open>INSERT ... ON CONFLICT(title, namespace) DO UPDATE\<close>: the conflict target is checked before the other
  constraints.\<close>

definition upsert_statement ::
  "(mem_row \<Rightarrow> mem_row \<Rightarrow> mem_row) \<Rightarrow> mem_row \<Rightarrow> mem_db \<Rightarrow> store_error + (mem_db \<times> string)" where
  "upsert_statement merge r db =
     (case find_slot (row_slot r) db of
        Some old \<Rightarrow> Inr (db\<lparr>md_rows := update_where (\<lambda>s. row_slot s = row_slot r) (\<lambda>s. merge s r) (md_rows db)\<rparr>,
                       row_id old)
      | None \<Rightarrow> plain_insert r db)"

text \<open>\<^verbatim>\<open>UPDATE memories ... WHERE id = ?\<close> with a new title or namespace.\<close>

definition update_by_id :: "string \<Rightarrow> (mem_row \<Rightarrow> mem_row) \<Rightarrow> mem_db \<Rightarrow> store_error + mem_db" where
  "update_by_id i f db =
     (case find_row i db of
        None \<Rightarrow> Inr db
      | Some r \<Rightarrow>
          if \<exists>s \<in> set (md_rows db). row_id s \<noteq> i \<and> row_slot s = row_slot (f r) then Inl UniqueViolation
          else Inr (db\<lparr>md_rows := update_where (\<lambda>s. row_id s = i) f (md_rows db)\<rparr>))"

definition delete_rows :: "(mem_row \<Rightarrow> bool) \<Rightarrow> mem_db \<Rightarrow> store_error + (mem_db \<times> nat)" where
  "delete_rows p db =
     (let gone = row_id ` set (filter p (md_rows db)); kept = delete_where p (md_rows db)
      in if \<exists>r \<in> set kept. \<exists>i \<in> gone. mr_atom_of r = Some i then Inl (StoreSql ForeignKeyViolation)
         else Inr (db\<lparr>md_rows := kept\<rparr>, count_where p (md_rows db)))"

definition delete_standard :: "string \<Rightarrow> mem_db \<Rightarrow> mem_db" where
  "delete_standard i db = db\<lparr>md_standards := delete_where (\<lambda>s. snd s = i) (md_standards db)\<rparr>"

text \<open>The archive table has no columns for the content identifier, its pre-image and the provenance.\<close>

definition archived_copy :: "string \<Rightarrow> string \<Rightarrow> mem_row \<Rightarrow> archived_row" where
  "archived_copy now reason r =
     \<lparr>ar_row = r\<lparr>mr_mem := (mr_mem r)\<lparr>m_cid := None\<rparr>, mr_genesis := None, mr_kind_provenance := None\<rparr>,
      ar_archived_at = now, ar_reason = reason, ar_original_tier = Some (m_tier (mr_mem r)),
      ar_original_expires_at = m_expires_at (mr_mem r)\<rparr>"

definition archive_put :: "archived_row \<Rightarrow> mem_db \<Rightarrow> mem_db" where
  "archive_put a db =
     db\<lparr>md_archive := delete_where (\<lambda>b. archived_id b = archived_id a) (md_archive db) @ [a]\<rparr>"

definition archive_rows :: "string \<Rightarrow> string \<Rightarrow> mem_row list \<Rightarrow> mem_db \<Rightarrow> mem_db" where
  "archive_rows now reason rs db = fold (\<lambda>r. archive_put (archived_copy now reason r)) rs db"

definition json_text_field :: "string \<Rightarrow> memory \<Rightarrow> string option" where
  "json_text_field k m = Option.bind (json_get k (m_metadata m)) json_as_str"

definition record_tombstone :: "string \<Rightarrow> mem_row \<Rightarrow> mem_db \<Rightarrow> mem_db" where
  "record_tombstone now r db =
     (if row_id r \<in> ts_memory_id ` set (md_tombstones db) then db
      else db\<lparr>md_tombstones := md_tombstones db @
        [\<lparr>ts_memory_id = row_id r, ts_namespace = m_namespace (mr_mem r), ts_forgotten_at = now,
          ts_agent_id = json_text_field ''agent_id'' (mr_mem r)\<rparr>]\<rparr>)"

definition memory_is_tombstoned :: "string \<Rightarrow> mem_db \<Rightarrow> bool" where
  "memory_is_tombstoned i db = (i \<in> ts_memory_id ` set (md_tombstones db))"

section \<open>Reads\<close>

definition get_memory :: "string \<Rightarrow> mem_db \<Rightarrow> memory option" where
  "get_memory i db = map_option mr_mem (find_row i db)"

text \<open>\<^verbatim>\<open>LIKE ... ESCAPE\<close> with the backslash as escape; letters of the ASCII range match in either case.\<close>

fun sql_like :: "string \<Rightarrow> string \<Rightarrow> bool" where
  "sql_like [] s = (s = [])"
| "sql_like (p # ps) s =
     (if p = CHR 0x5C then
        (case ps of
           [] \<Rightarrow> False
         | q # qs \<Rightarrow> (case s of [] \<Rightarrow> False
             | c # cs \<Rightarrow> to_ascii_lowercase [c] = to_ascii_lowercase [q] \<and> sql_like qs cs))
      else if p = CHR ''%'' then
        (sql_like ps s \<or> (case s of [] \<Rightarrow> False | c # cs \<Rightarrow> sql_like (p # ps) cs))
      else (case s of [] \<Rightarrow> False
          | c # cs \<Rightarrow> (p = CHR ''_'' \<or> to_ascii_lowercase [c] = to_ascii_lowercase [p]) \<and> sql_like ps cs))"

definition escape_like :: "string \<Rightarrow> string" where
  "escape_like s = concat (map (\<lambda>c. if c = CHR ''%'' \<or> c = CHR ''_'' then [CHR 0x5C, c] else [c]) s)"

definition get_by_prefix :: "string \<Rightarrow> mem_db \<Rightarrow> store_error + memory option" where
  "get_by_prefix pre db =
     (case filter (\<lambda>r. sql_like (escape_like pre @ ''%'') (row_id r)) (md_rows db) of
        [] \<Rightarrow> Inr None
      | [r] \<Rightarrow> Inr (Some (mr_mem r))
      | rs \<Rightarrow> Inl (AmbiguousIdPrefix pre (map row_id rs)))"

definition resolve_id :: "string \<Rightarrow> mem_db \<Rightarrow> store_error + memory option" where
  "resolve_id i db = (case get_memory i db of Some m \<Rightarrow> Inr (Some m) | None \<Rightarrow> get_by_prefix i db)"

definition find_by_title_namespace :: "string \<Rightarrow> string \<Rightarrow> mem_db \<Rightarrow> string option" where
  "find_by_title_namespace title namespace db = map_option row_id (find_slot (title, namespace) db)"

definition max_version_suffix :: nat where
  "max_version_suffix = 1024"

definition versioned_title :: "string \<Rightarrow> nat \<Rightarrow> string" where
  "versioned_title base n = base @ '' ('' @ nat_to_string n @ '')''"

definition next_versioned_title :: "string \<Rightarrow> string \<Rightarrow> mem_db \<Rightarrow> store_error + string" where
  "next_versioned_title base namespace db =
     (if find_by_title_namespace base namespace db = None then Inr base
      else case find (\<lambda>c. find_by_title_namespace c namespace db = None)
                  (map (versioned_title base) [2..<max_version_suffix + 1]) of
             Some c \<Rightarrow> Inr c
           | None \<Rightarrow> Inl UniqueConflict)"

section \<open>Inserting\<close>

definition insert_memory :: "'t store_env \<Rightarrow> 't \<Rightarrow> memory \<Rightarrow> mem_db \<Rightarrow> string store_result" where
  "insert_memory env now m db =
     (if se_stopped env then (db, Inl StRecordStopped)
      else case consult_governance_pre_write env m of
             Inl e \<Rightarrow> (db, Inl e)
           | Inr _ \<Rightarrow> in_transaction db (upsert_statement upsert_row (local_row env now (stored_form env m)) db))"

datatype conflict_mode = CmError | CmMerge | CmVersion

text \<open>The error mode writes the row itself: without the redaction, the vector-clock stamp and the provenance
  column. A unique violation, whichever index it comes from, is reported without the existing id.\<close>

definition conflict_of_violation :: "memory \<Rightarrow> store_error + 'a \<Rightarrow> store_error + 'a" where
  "conflict_of_violation m x =
     (case x of
        Inl e \<Rightarrow> Inl (if e = UniqueViolation then ConflictError [] (m_title m) (m_namespace m) else e)
      | Inr v \<Rightarrow> Inr v)"

definition insert_with_conflict :: "'t store_env \<Rightarrow> 't \<Rightarrow> conflict_mode \<Rightarrow> memory \<Rightarrow> mem_db \<Rightarrow> string store_result" where
  "insert_with_conflict env now mode m db =
     (if se_stopped env then (db, Inl StRecordStopped)
      else case mode of
        CmMerge \<Rightarrow> insert_memory env now m db
      | CmError \<Rightarrow>
          (case consult_governance_pre_write env m of
             Inl e \<Rightarrow> (db, Inl e)
           | Inr _ \<Rightarrow>
               (case find_by_title_namespace (m_title m) (m_namespace m) db of
                  Some existing \<Rightarrow> (db, Inl (ConflictError existing (m_title m) (m_namespace m)))
                | None \<Rightarrow>
                    in_transaction db (conflict_of_violation m
                      (plain_insert ((fresh_row env now m)\<lparr>mr_mem := (mr_mem (fresh_row env now m))\<lparr>m_version := 1\<rparr>\<rparr>) db))))
      | CmVersion \<Rightarrow>
          (case next_versioned_title (m_title m) (m_namespace m) db of
             Inl e \<Rightarrow> (db, Inl e)
           | Inr title \<Rightarrow> insert_memory env now (m\<lparr>m_title := title\<rparr>) db))"

section \<open>Accesses\<close>

definition update_row :: "string \<Rightarrow> (memory \<Rightarrow> memory) \<Rightarrow> mem_db \<Rightarrow> mem_db" where
  "update_row i f db = db\<lparr>md_rows := update_where (\<lambda>r. row_id r = i) (\<lambda>r. r\<lparr>mr_mem := f (mr_mem r)\<rparr>) (md_rows db)\<rparr>"

definition touch :: "'t store_env \<Rightarrow> 't \<Rightarrow> int \<Rightarrow> int \<Rightarrow> string \<Rightarrow> mem_db \<Rightarrow> mem_db" where
  "touch env now short_extend mid_extend i db =
     (let ch = se_chrono env;
          short_expires = to_rfc3339 ch (add_seconds ch now short_extend);
          mid_expires = to_rfc3339 ch (add_seconds ch now mid_extend);
          db1 = update_row i (bump_memory (stamp_of env now) short_expires mid_expires) db;
          db2 = update_row i (promote_memory (stamp_of env now)) db1
      in update_row i prioritise_memory db2)"

text \<open>On a connection that may only read, the batch does nothing.\<close>

definition touch_many :: "'t store_env \<Rightarrow> 't \<Rightarrow> bool \<Rightarrow> int \<Rightarrow> int \<Rightarrow> string list \<Rightarrow> mem_db \<Rightarrow> mem_db \<times> nat" where
  "touch_many env now query_only short_extend mid_extend ids db =
     (if ids = [] \<or> query_only then (db, 0)
      else (fold (touch env now short_extend mid_extend) ids db, length ids))"

text \<open>The ledger of recall observations and its fold, with the confidence decay off, as by default. One
  transaction takes the unfolded observations of at most a thousand memories.\<close>

record observation =
  ob_memory_id :: string
  ob_observed_at :: string
  ob_folded :: bool

definition fold_chunk_memories :: nat where
  "fold_chunk_memories = 1000"

definition unfolded_of :: "string \<Rightarrow> observation list \<Rightarrow> observation list" where
  "unfolded_of i obs = filter (\<lambda>o'. \<not> ob_folded o' \<and> ob_memory_id o' = i) obs"

definition fold_group :: "'t store_env \<Rightarrow> 't \<Rightarrow> int \<Rightarrow> int \<Rightarrow> string \<Rightarrow> mem_db \<times> observation list \<Rightarrow> mem_db \<times> observation list" where
  "fold_group env now short_extend mid_extend i x =
     (let (db, obs) = x; ch = se_chrono env;
          raw = Max (ob_observed_at ` set (unfolded_of i obs));
          t_max = (case parse_rfc3339 ch raw of Some t \<Rightarrow> with_utc ch t | None \<Rightarrow> now);
          short_exp = to_rfc3339 ch (add_seconds ch t_max short_extend);
          mid_exp = to_rfc3339 ch (add_seconds ch t_max mid_extend);
          n = int (length (unfolded_of i obs));
          db1 = update_row i (fold_bump n (to_rfc3339 ch t_max) short_exp mid_exp) db;
          db2 = update_row i (promote_memory (stamp_of env now)) db1
      in (db2, update_where (\<lambda>o'. \<not> ob_folded o' \<and> ob_memory_id o' = i) (\<lambda>o'. o'\<lparr>ob_folded := True\<rparr>) obs))"

definition fold_agenda :: "observation list \<Rightarrow> string list" where
  "fold_agenda obs = take fold_chunk_memories (sort (remdups (map ob_memory_id (filter (\<lambda>o'. \<not> ob_folded o') obs))))"

section \<open>Lifecycle\<close>

definition set_lifecycle_state :: "'t store_env \<Rightarrow> 't \<Rightarrow> string \<Rightarrow> lifecycle_state \<Rightarrow> mem_db \<Rightarrow> bool store_result" where
  "set_lifecycle_state env now i state db =
     (case find_row i db of
        None \<Rightarrow> (db, Inr False)
      | Some r \<Rightarrow>
          (let from = m_lifecycle_state (mr_mem r)
           in if from = state then (db, Inr True)
              else if \<not> lifecycle_can_transition_to from state then (db, Inl (InvalidTransition i from state))
              else (update_row i (\<lambda>m. m\<lparr>m_lifecycle_state := state, m_updated_at := stamp_of env now,
                                      m_version := m_version m + 1\<rparr>) db, Inr True)))"

definition dequarantine :: "'t store_env \<Rightarrow> 't \<Rightarrow> string \<Rightarrow> mem_db \<Rightarrow> bool store_result" where
  "dequarantine env now i db =
     (let p = (\<lambda>r. row_id r = i \<and> m_lifecycle_state (mr_mem r) = Quarantined)
      in (db\<lparr>md_rows := update_where p
            (\<lambda>r. r\<lparr>mr_mem := (mr_mem r)\<lparr>m_lifecycle_state := Open, m_updated_at := stamp_of env now,
                                       m_version := m_version (mr_mem r) + 1\<rparr>\<rparr>) (md_rows db)\<rparr>,
          Inr (count_where p (md_rows db) > 0)))"

section \<open>Updating\<close>

record patch =
  pt_title :: "string option"
  pt_content :: "string option"
  pt_tier :: "tier option"
  pt_namespace :: "string option"
  pt_tags :: "string list option"
  pt_priority :: "int option"
  pt_confidence :: "f64 option"
  pt_expires_at :: "string option"
  pt_metadata :: "json option"
  pt_source_uri :: "string option"

definition value_or :: "'a \<Rightarrow> 'a option \<Rightarrow> 'a" where
  "value_or d x = (case x of Some v \<Rightarrow> v | None \<Rightarrow> d)"

fun effective_tier :: "tier option \<Rightarrow> tier \<Rightarrow> tier" where
  "effective_tier None existing = existing"
| "effective_tier (Some requested) Long = Long"
| "effective_tier (Some Short) Mid = Mid"
| "effective_tier (Some requested) existing = requested"

definition patched_expiry :: "string option \<Rightarrow> string option \<Rightarrow> string option" where
  "patched_expiry requested existing =
     (case requested of
        Some v \<Rightarrow> if v = [] \<or> v = ''null'' then None else Some v
      | None \<Rightarrow> existing)"

text \<open>The candidate both update paths show to the hook; it inherits what the patch leaves out.\<close>

definition patched_memory :: "patch \<Rightarrow> memory \<Rightarrow> memory" where
  "patched_memory p m =
     m\<lparr>m_title := value_or (m_title m) (pt_title p),
       m_content := value_or (m_content m) (pt_content p),
       m_tier := effective_tier (pt_tier p) (m_tier m),
       m_namespace := value_or (m_namespace m) (pt_namespace p),
       m_tags := value_or (m_tags m) (pt_tags p),
       m_priority := value_or (m_priority m) (pt_priority p),
       m_confidence := value_or (m_confidence m) (pt_confidence p),
       m_expires_at := patched_expiry (pt_expires_at p) (m_expires_at m),
       m_metadata := value_or (m_metadata m) (pt_metadata p),
       m_source_uri := coalesce (pt_source_uri p) (m_source_uri m)\<rparr>"

definition content_changed :: "patch \<Rightarrow> memory \<Rightarrow> bool" where
  "content_changed p m \<longleftrightarrow>
     value_or (m_title m) (pt_title p) \<noteq> m_title m \<or> value_or (m_content m) (pt_content p) \<noteq> m_content m"

definition archive_memory_insert_only :: "string \<Rightarrow> string \<Rightarrow> string \<Rightarrow> mem_db \<Rightarrow> mem_db" where
  "archive_memory_insert_only now reason i db =
     (case find_row i db of None \<Rightarrow> db | Some r \<Rightarrow> archive_put (archived_copy now reason r) db)"

text \<open>The result is whether the memory was found and whether its text changed.\<close>

definition update_with_expected_version ::
  "'t store_env \<Rightarrow> 't \<Rightarrow> string \<Rightarrow> patch \<Rightarrow> int option \<Rightarrow> mem_db \<Rightarrow> (bool \<times> bool) store_result" where
  "update_with_expected_version env now i p expected db =
     (if se_stopped env then (db, Inl StRecordStopped)
      else case find_row i db of
        None \<Rightarrow> (db, Inr (False, False))
      | Some r \<Rightarrow>
          (let m = mr_mem r; changed = content_changed p m
           in if \<exists>v. expected = Some v \<and> m_version m \<noteq> v
              then (db, Inl (VersionConflict i (the expected) (m_version m)))
              else case consult_governance_pre_write env (patched_memory p m) of
                Inl e \<Rightarrow> (db, Inl e)
              | Inr _ \<Rightarrow>
                  (let db1 = (if changed then archive_memory_insert_only (stamp_of env now) ''in_place_edit'' i db else db)
                   in case update_by_id i (\<lambda>s. s\<lparr>mr_mem := (patched_memory p (mr_mem s))\<lparr>
                                 m_updated_at := stamp_of env now, m_version := m_version (mr_mem s) + 1\<rparr>\<rparr>) db1 of
                        Inl e \<Rightarrow> (db, Inl UniqueConflict)
                      | Inr db2 \<Rightarrow> (db2, Inr (True, changed)))))"

definition update_memory :: "'t store_env \<Rightarrow> 't \<Rightarrow> string \<Rightarrow> patch \<Rightarrow> mem_db \<Rightarrow> (bool \<times> bool) store_result" where
  "update_memory env now i p db = update_with_expected_version env now i (p\<lparr>pt_source_uri := None\<rparr>) None db"

section \<open>The fold loop\<close>

abbreviation unfolded :: "observation list \<Rightarrow> observation list" where
  "unfolded obs \<equiv> filter (\<lambda>o'. \<not> ob_folded o') obs"

definition mark_folded :: "string \<Rightarrow> observation list \<Rightarrow> observation list" where
  "mark_folded i obs = update_where (\<lambda>o'. \<not> ob_folded o' \<and> ob_memory_id o' = i) (\<lambda>o'. o'\<lparr>ob_folded := True\<rparr>) obs"

lemma unfolded_mark:
  "filter (\<lambda>o'. \<not> ob_folded o' \<and> p (ob_memory_id o')) (mark_folded i obs) =
     filter (\<lambda>o'. \<not> ob_folded o' \<and> ob_memory_id o' \<noteq> i \<and> p (ob_memory_id o')) obs"
  by (induction obs) (auto simp: mark_folded_def update_where_def)

lemma fold_group_ledger: "snd (fold_group env now s w i x) = mark_folded i (snd x)"
  by (cases x) (simp add: fold_group_def mark_folded_def Let_def)

lemma fold_groups_ledger:
  "unfolded (snd (fold (fold_group env now s w) is x)) = filter (\<lambda>o'. ob_memory_id o' \<notin> set is) (unfolded (snd x))"
proof (induction "is" arbitrary: x)
  case (Cons i "is")
  then show ?case using unfolded_mark [of "\<lambda>j. j \<notin> set is" i "snd x"] by (simp add: fold_group_ledger)
qed simp

lemma agenda_in_ledger: "i \<in> set (fold_agenda obs) \<Longrightarrow> i \<in> ob_memory_id ` set (unfolded obs)"
  unfolding fold_agenda_def by (drule in_set_takeD) simp

lemma fold_chunk_shrinks:
  assumes "fold_agenda obs \<noteq> []"
  shows "length (unfolded (snd (fold (fold_group env now s w) (fold_agenda obs) (db, obs)))) < length (unfolded obs)"
proof -
  obtain i where i: "i \<in> set (fold_agenda obs)" using assms by (cases "fold_agenda obs") auto
  then obtain o' where o': "o' \<in> set (unfolded obs)" "ob_memory_id o' = i" using agenda_in_ledger by fastforce
  have "length (filter (\<lambda>o'. ob_memory_id o' \<notin> set (fold_agenda obs)) (unfolded obs)) < length (unfolded obs)"
    using o' i by (intro length_filter_less) auto
  then show ?thesis by (simp add: fold_groups_ledger)
qed

text \<open>The loop ends after a chunk that was not full. The result is the number of memories folded.\<close>

function fold_loop :: "'t store_env \<Rightarrow> 't \<Rightarrow> int \<Rightarrow> int \<Rightarrow> nat \<Rightarrow> mem_db \<times> observation list \<Rightarrow> (mem_db \<times> observation list) \<times> nat" where
  "fold_loop env now s w acc (db, obs) =
     (let agenda = fold_agenda obs; x = fold (fold_group env now s w) agenda (db, obs); n = length agenda
      in if n = 0 then (x, acc) else if n < fold_chunk_memories then (x, acc + n)
         else fold_loop env now s w (acc + n) x)"
  by pat_completeness auto
termination
  by (relation "measure (\<lambda>(_, _, _, _, _, _, obs). length (unfolded obs))")
    (auto intro!: fold_chunk_shrinks simp: split: prod.splits, metis fold_chunk_shrinks snd_conv)

declare fold_loop.simps [simp del]

definition fold_recall_accesses ::
  "'t store_env \<Rightarrow> 't \<Rightarrow> int \<Rightarrow> int \<Rightarrow> mem_db \<times> observation list \<Rightarrow> (mem_db \<times> observation list) \<times> nat" where
  "fold_recall_accesses env now short_extend mid_extend x =
     (if unfolded (snd x) = [] then (x, 0) else fold_loop env now short_extend mid_extend 0 x)"

section \<open>Archiving and deleting\<close>

text \<open>The core without a transaction of its own; every caller rolls back on an error.\<close>

definition archive_memory_core :: "string \<Rightarrow> string \<Rightarrow> string option \<Rightarrow> mem_db \<Rightarrow> store_error + (mem_db \<times> bool)" where
  "archive_memory_core now i reason db =
     (case find_row i db of
        None \<Rightarrow> Inr (db, False)
      | Some r \<Rightarrow>
          (let db1 = archive_put (archived_copy now (value_or ''archive'' reason) r) db
           in case delete_rows (\<lambda>s. row_id s = i) (delete_standard i db1) of
                Inl e \<Rightarrow> Inl e | Inr (db2, n) \<Rightarrow> Inr (db2, n > 0)))"

definition archive_memory :: "'t store_env \<Rightarrow> 't \<Rightarrow> string \<Rightarrow> string option \<Rightarrow> mem_db \<Rightarrow> bool store_result" where
  "archive_memory env now i reason db = in_transaction db (archive_memory_core (stamp_of env now) i reason db)"

text \<open>Outside a transaction: the cleanup of the namespace standard stays when the deletion fails.\<close>

definition delete_memory :: "'t store_env \<Rightarrow> string \<Rightarrow> mem_db \<Rightarrow> bool store_result" where
  "delete_memory env i db =
     (if se_stopped env then (db, Inl StRecordStopped)
      else let db1 = delete_standard i db
           in case delete_rows (\<lambda>s. row_id s = i) db1 of
                Inl e \<Rightarrow> (db1, Inl e) | Inr (db2, n) \<Rightarrow> (db2, Inr (n > 0)))"

text \<open>Append and archive: the patched candidate becomes a new row under a fresh id.\<close>

definition superseding_memory :: "string \<Rightarrow> string \<Rightarrow> patch \<Rightarrow> edit_source \<Rightarrow> memory \<Rightarrow> memory" where
  "superseding_memory now new_id p source existing =
     (let m = patched_memory p existing;
          md = (case m_metadata m of
                  JObj o' \<Rightarrow> JObj (bt_insert ''superseded_id'' (JStr (m_id existing))
                               (bt_insert ''edit_source'' (JStr (edit_source_as_str source)) o'))
                | v \<Rightarrow> v)
      in m\<lparr>m_id := new_id, m_metadata := md, m_created_at := now, m_updated_at := now, m_access_count := 0,
           m_last_accessed_at := None, m_version := 1\<rparr>)"

record supersede_result =
  sr_archived_id :: string
  sr_new_id :: string

definition update_with_archive_on_supersede ::
  "'t store_env \<Rightarrow> 't \<Rightarrow> string \<Rightarrow> string \<Rightarrow> patch \<Rightarrow> int option \<Rightarrow> edit_source \<Rightarrow> mem_db \<Rightarrow> supersede_result store_result" where
  "update_with_archive_on_supersede env now new_id i p expected source db =
     (case find_row i db of
        None \<Rightarrow> (db, Inl (StoreNotFound i))
      | Some r \<Rightarrow>
          (let m = mr_mem r; new = superseding_memory (stamp_of env now) new_id p source m
           in if \<exists>v. expected = Some v \<and> m_version m \<noteq> v
              then (db, Inl (VersionConflict i (the expected) (m_version m)))
              else case consult_governance_pre_write env new of
                Inl e \<Rightarrow> (db, Inl e)
              | Inr _ \<Rightarrow>
                  (case archive_memory_core (stamp_of env now) i (Some ''superseded'') db of
                     Inl e \<Rightarrow> (db, Inl e)
                   | Inr (db1, False) \<Rightarrow> (db, Inl (ArchiveSupersedeFailed i))
                   | Inr (db1, True) \<Rightarrow>
                       (case insert_memory env now new db1 of
                          (_, Inl e) \<Rightarrow> (db, Inl e)
                        | (db2, Inr _) \<Rightarrow> (db2, Inr \<lparr>sr_archived_id = i, sr_new_id = new_id\<rparr>)))))"

section \<open>Collecting expired rows\<close>

definition gc_chunk_rows :: nat where
  "gc_chunk_rows = 500"

definition expired :: "string \<Rightarrow> mem_row \<Rightarrow> bool" where
  "expired now r = (case m_expires_at (mr_mem r) of None \<Rightarrow> False | Some e \<Rightarrow> e < now)"

definition gc_doomed :: "string \<Rightarrow> mem_db \<Rightarrow> mem_row list" where
  "gc_doomed now db = take gc_chunk_rows (filter (expired now) (md_rows db))"

text \<open>One chunk: a copy into the archive, or a tombstone for a row that is dropped for good, then the
  deletion.\<close>

definition gc_chunk :: "bool \<Rightarrow> string \<Rightarrow> mem_db \<Rightarrow> store_error + (mem_db \<times> nat)" where
  "gc_chunk archive now db =
     (let doomed = gc_doomed now db;
          db1 = (if archive then archive_rows now ''ttl_expired'' doomed db else fold (record_tombstone now) doomed db)
      in delete_rows (\<lambda>r. row_id r \<in> row_id ` set doomed) db1)"

lemma archive_rows_keeps [simp]:
  "md_rows (archive_rows now reason rs db) = md_rows db"
  "md_standards (archive_rows now reason rs db) = md_standards db"
  "md_tombstones (archive_rows now reason rs db) = md_tombstones db"
  unfolding archive_rows_def by (induction rs arbitrary: db) (simp_all add: archive_put_def)

lemma record_tombstones_keep [simp]:
  "md_rows (fold (record_tombstone now) rs db) = md_rows db"
  "md_standards (fold (record_tombstone now) rs db) = md_standards db"
  "md_archive (fold (record_tombstone now) rs db) = md_archive db"
  by (induction rs arbitrary: db) (simp_all add: record_tombstone_def)

lemma gc_chunk_rows_after:
  assumes "gc_chunk archive now db = Inr (db', n)"
  shows "md_rows db' = delete_where (\<lambda>r. row_id r \<in> row_id ` set (gc_doomed now db)) (md_rows db)"
    and "n = count_where (\<lambda>r. row_id r \<in> row_id ` set (gc_doomed now db)) (md_rows db)"
  using assms by (auto simp: gc_chunk_def delete_rows_def Let_def split: if_splits)

lemma gc_chunk_shrinks:
  assumes "gc_chunk archive now db = Inr (db', n)" and "0 < n"
  shows "count_where (expired now) (md_rows db') < count_where (expired now) (md_rows db)"
proof -
  let ?d = "gc_doomed now db"
  have "?d \<noteq> []" using gc_chunk_rows_after(2) [OF assms(1)] assms(2) by (auto simp: count_where_def)
  then have h: "hd ?d \<in> set ?d" by simp
  then have h': "hd ?d \<in> set (filter (expired now) (md_rows db))"
    unfolding gc_doomed_def by (rule in_set_takeD)
  have "filter (expired now) (md_rows db') = filter (\<lambda>r. row_id r \<notin> row_id ` set ?d) (filter (expired now) (md_rows db))"
    unfolding gc_chunk_rows_after(1) [OF assms(1)] by (auto simp: delete_where_def intro: filter_cong)
  moreover have "length (filter (\<lambda>r. row_id r \<notin> row_id ` set ?d) (filter (expired now) (md_rows db))) <
      length (filter (expired now) (md_rows db))"
    using h h' by (intro length_filter_less) blast+
  ultimately show ?thesis by (simp add: count_where_def)
qed

text \<open>A failing chunk is rolled back and ends the run; the chunks before it stay.\<close>

function gc_loop :: "bool \<Rightarrow> string \<Rightarrow> nat \<Rightarrow> mem_db \<Rightarrow> nat store_result" where
  "gc_loop archive now acc db =
     (case gc_chunk archive now db of
        Inl e \<Rightarrow> (db, Inl e)
      | Inr (db', n) \<Rightarrow> if n < gc_chunk_rows then (db', Inr (acc + n)) else gc_loop archive now (acc + n) db')"
  by pat_completeness auto
termination
  by (relation "measure (\<lambda>(_, now, _, db). count_where (expired now) (md_rows db))")
    (auto intro!: gc_chunk_shrinks simp: gc_chunk_rows_def)

declare gc_loop.simps [simp del]

definition gc :: "'t store_env \<Rightarrow> 't \<Rightarrow> bool \<Rightarrow> mem_db \<Rightarrow> nat store_result" where
  "gc env now archive db =
     (case gc_loop archive (stamp_of env now) 0 db of
        (db', Inl e) \<Rightarrow> (db', Inl e)
      | (db', Inr n) \<Rightarrow>
          (db'\<lparr>md_standards := delete_where (\<lambda>s. find_row (snd s) db' = None) (md_standards db')\<rparr>, Inr n))"

definition gc_if_needed :: "'t store_env \<Rightarrow> 't \<Rightarrow> bool \<Rightarrow> mem_db \<Rightarrow> nat store_result" where
  "gc_if_needed env now archive db =
     (if \<exists>r \<in> set (md_rows db). expired (stamp_of env now) r then gc env now archive db else (db, Inr 0))"

section \<open>Evicting for space\<close>

text \<open>\<^verbatim>\<open>length\<close> of SQLite counts the characters of a text up to the first null, not its bytes.\<close>

definition utf8_length :: "string \<Rightarrow> int" where
  "utf8_length s = int (length (filter (\<lambda>c. \<not> (128 \<le> (of_char c :: nat) \<and> (of_char c :: nat) < 192))
     (takeWhile (\<lambda>c. c \<noteq> CHR 0x00) s)))"

definition row_bytes :: "'t store_env \<Rightarrow> mem_row \<Rightarrow> int" where
  "row_bytes env r = utf8_length (m_title (mr_mem r)) + utf8_length (m_content (mr_mem r)) +
     utf8_length (se_json_text env (m_metadata (mr_mem r)))"

definition namespace_corpus_bytes :: "'t store_env \<Rightarrow> string \<Rightarrow> mem_db \<Rightarrow> int" where
  "namespace_corpus_bytes env namespace db =
     sum_list (map (row_bytes env) (filter (\<lambda>r. m_namespace (mr_mem r) = namespace) (md_rows db)))"

definition eviction_key :: "mem_row \<Rightarrow> nat \<times> int \<times> int \<times> string list" where
  "eviction_key r = (tier_rank (m_tier (mr_mem r)), m_priority (mr_mem r), m_access_count (mr_mem r),
     (case m_last_accessed_at (mr_mem r) of None \<Rightarrow> [] | Some l \<Rightarrow> [l]))"

definition next_victim :: "string \<Rightarrow> mem_db \<Rightarrow> mem_row option" where
  "next_victim namespace db =
     (case order_limit eviction_key 1 (filter (\<lambda>r. m_namespace (mr_mem r) = namespace) (md_rows db)) of
        [] \<Rightarrow> None | r # _ \<Rightarrow> Some r)"

definition state_only :: "'e + ('s \<times> 'a) \<Rightarrow> 'e + 's" where
  "state_only x = (case x of Inl e \<Rightarrow> Inl e | Inr (s, _) \<Rightarrow> Inr s)"

lemma state_only_Inr: "state_only x = Inr s \<longleftrightarrow> (\<exists>v. x = Inr (s, v))"
  by (auto simp: state_only_def split: sum.split)

definition evict_row :: "bool \<Rightarrow> string \<Rightarrow> mem_row \<Rightarrow> mem_db \<Rightarrow> store_error + mem_db" where
  "evict_row archive now r db =
     (if archive then state_only (archive_memory_core now (row_id r) (Some ''size_gc'') db)
      else state_only (delete_rows (\<lambda>s. row_id s = row_id r) (record_tombstone now r (delete_standard (row_id r) db))))"

lemma delete_rows_length: "delete_rows p db = Inr (db', n) \<Longrightarrow> md_rows db' = delete_where p (md_rows db)"
  by (auto simp: delete_rows_def Let_def split: if_splits)

lemma evict_row_rows:
  assumes "evict_row archive now r db = Inr db'" and "r \<in> set (md_rows db)"
  shows "md_rows db' = delete_where (\<lambda>s. row_id s = row_id r) (md_rows db)"
proof -
  have "find_row (row_id r) db \<noteq> None" using assms(2) by (auto simp: find_row_def select_by_None_iff)
  then show ?thesis using assms
    by (auto simp: evict_row_def archive_memory_core_def archive_put_def delete_standard_def record_tombstone_def Let_def
        state_only_Inr dest!: delete_rows_length split: if_splits option.splits sum.splits)
qed

lemma next_victim_in: "next_victim namespace db = Some r \<Longrightarrow> r \<in> set (md_rows db) \<and> m_namespace (mr_mem r) = namespace"
  using set_order_limit_subset [of eviction_key 1 "filter (\<lambda>r. m_namespace (mr_mem r) = namespace) (md_rows db)"]
  by (auto simp: next_victim_def split: list.splits)

function size_gc_loop :: "'t store_env \<Rightarrow> bool \<Rightarrow> string \<Rightarrow> string \<Rightarrow> int \<Rightarrow> nat \<Rightarrow> int \<Rightarrow> mem_db \<Rightarrow> nat store_result" where
  "size_gc_loop env archive now namespace cap evicted corpus db =
     (if corpus \<le> cap then (db, Inr evicted)
      else case next_victim namespace db of
        None \<Rightarrow> (db, Inr evicted)
      | Some r \<Rightarrow>
          (case evict_row archive now r db of
             Inl e \<Rightarrow> (db, Inl e)
           | Inr db' \<Rightarrow> size_gc_loop env archive now namespace cap (evicted + 1) (corpus - row_bytes env r) db'))"
  by pat_completeness auto
termination
proof (relation "measure (\<lambda>(_, _, _, _, _, _, _, db). length (md_rows db))", simp, clarsimp)
  fix archive now namespace and r :: mem_row and db db' :: mem_db
  assume v: "next_victim namespace db = Some r" and e: "evict_row archive now r db = Inr db'"
  show "length (md_rows db') < length (md_rows db)"
    using next_victim_in [OF v] evict_row_rows [OF e] by (auto simp: delete_where_def intro: length_filter_less)
qed

declare size_gc_loop.simps [simp del]

definition size_gc :: "'t store_env \<Rightarrow> 't \<Rightarrow> string \<Rightarrow> int \<Rightarrow> bool \<Rightarrow> mem_db \<Rightarrow> nat store_result" where
  "size_gc env now namespace max_corpus_bytes archive db =
     (if max_corpus_bytes \<le> 0 then (db, Inr 0)
      else size_gc_loop env archive (stamp_of env now) namespace max_corpus_bytes 0
             (namespace_corpus_bytes env namespace db) db)"

section \<open>Forgetting\<close>

definition forget_matches :: "string option \<Rightarrow> (mem_row \<Rightarrow> bool) option \<Rightarrow> tier option \<Rightarrow> mem_row \<Rightarrow> bool" where
  "forget_matches namespace pat tr r \<longleftrightarrow>
     (case namespace of None \<Rightarrow> True | Some ns \<Rightarrow> m_namespace (mr_mem r) = ns) \<and>
     (case tr of None \<Rightarrow> True | Some t \<Rightarrow> m_tier (mr_mem r) = t) \<and>
     (case pat of None \<Rightarrow> True | Some matches \<Rightarrow> matches r)"

definition forget ::
  "'t store_env \<Rightarrow> 't \<Rightarrow> string option \<Rightarrow> (mem_row \<Rightarrow> bool) option \<Rightarrow> tier option \<Rightarrow> bool \<Rightarrow> mem_db \<Rightarrow> nat store_result" where
  "forget env now namespace pat tr archive db =
     (if pat = None \<and> namespace = None \<and> tr = None then (db, Inl InvalidArgument)
      else let victims = filter (forget_matches namespace pat tr) (md_rows db);
               db1 = (if archive then archive_rows (stamp_of env now) ''forget'' victims db else db);
               db2 = fold (record_tombstone (stamp_of env now)) victims db1
           in in_transaction db (delete_rows (forget_matches namespace pat tr) db2))"

section \<open>Restoring and purging\<close>

definition load_archived_as_memory :: "archived_row \<Rightarrow> memory" where
  "load_archived_as_memory a =
     (mr_mem (ar_row a))\<lparr>m_tier := value_or (m_tier (mr_mem (ar_row a))) (ar_original_tier a),
       m_expires_at := coalesce (ar_original_expires_at a) (m_expires_at (mr_mem (ar_row a))),
       m_lifecycle_state := Open, m_cid := None\<rparr>"

definition restored_cid_stamp :: "'t store_env \<Rightarrow> archived_row \<Rightarrow> memory \<Rightarrow> cid_stamp" where
  "restored_cid_stamp env a candidate =
     stamp_cid env (metadata_agent candidate) (m_namespace candidate) (m_title candidate)
       (memory_kind_as_str (m_memory_kind candidate)) (m_created_at candidate) (m_content (mr_mem (ar_row a)))"

definition restored_row :: "string \<Rightarrow> cid_stamp \<Rightarrow> archived_row \<Rightarrow> mem_row" where
  "restored_row now stamp a =
     (ar_row a)\<lparr>mr_mem := (mr_mem (ar_row a))\<lparr>m_tier := value_or Long (ar_original_tier a), m_updated_at := now,
                   m_expires_at := ar_original_expires_at a, m_cid := Some (cs_cid stamp)\<rparr>,
                mr_genesis := Some (cs_genesis stamp), mr_kind_provenance := None\<rparr>"

definition validated :: "'t store_env \<Rightarrow> archived_row \<Rightarrow> archived_row" where
  "validated env a =
     (if se_metadata_ok env (m_metadata (mr_mem (ar_row a))) then a
      else a\<lparr>ar_row := (ar_row a)\<lparr>mr_mem := (mr_mem (ar_row a))\<lparr>m_metadata := JObj []\<rparr>\<rparr>\<rparr>)"

definition restore_row :: "'t store_env \<Rightarrow> 't \<Rightarrow> string \<Rightarrow> archived_row \<Rightarrow> mem_db \<Rightarrow> store_error + (mem_db \<times> bool)" where
  "restore_row env now i archived db =
     (if find_row i db \<noteq> None then Inl (RestoreCollision i)
      else let a = validated env archived; candidate = load_archived_as_memory a
           in case consult_governance_pre_write env candidate of
                Inl e \<Rightarrow> Inl e
              | Inr _ \<Rightarrow>
                  (case plain_insert (restored_row (stamp_of env now) (restored_cid_stamp env a candidate) a) db of
                     Inl e \<Rightarrow> Inl e
                   | Inr (db1, _) \<Rightarrow>
                       Inr (db1\<lparr>md_archive := delete_where (\<lambda>b. archived_id b = i) (md_archive db1)\<rparr>, True)))"

definition restore_archived_memory :: "'t store_env \<Rightarrow> 't \<Rightarrow> string \<Rightarrow> mem_db \<Rightarrow> bool store_result" where
  "restore_archived_memory env now i db =
     (case select_by archived_id i (md_archive db) of
        None \<Rightarrow> (db, Inr False)
      | Some a \<Rightarrow> in_transaction db (restore_row env now i a db))"

text \<open>The owner clause of the caller-scoped variants: the author, the addressee, or nobody.\<close>

definition sql_null :: "json option \<Rightarrow> bool" where
  "sql_null v \<longleftrightarrow> v = None \<or> v = Some JNull"

definition owned_by :: "string \<Rightarrow> memory \<Rightarrow> bool" where
  "owned_by caller m \<longleftrightarrow>
     json_text_field ''agent_id'' m = Some caller \<or> json_text_field ''target_agent_id'' m = Some caller \<or>
     sql_null (json_get ''agent_id'' (m_metadata m)) \<or> json_text_field ''agent_id'' m = Some []"

definition restore_archived_for_caller :: "'t store_env \<Rightarrow> 't \<Rightarrow> string \<Rightarrow> string \<Rightarrow> mem_db \<Rightarrow> bool store_result" where
  "restore_archived_for_caller env now i caller db =
     (case select_by archived_id i (md_archive db) of
        None \<Rightarrow> (db, Inr False)
      | Some a \<Rightarrow>
          if owned_by caller (mr_mem (ar_row a)) then in_transaction db (restore_row env now i a db) else (db, Inr False))"

definition archive_memory_for_caller ::
  "'t store_env \<Rightarrow> 't \<Rightarrow> string \<Rightarrow> string option \<Rightarrow> string \<Rightarrow> mem_db \<Rightarrow> bool store_result" where
  "archive_memory_for_caller env now i reason caller db =
     (case find_row i db of
        None \<Rightarrow> (db, Inr False)
      | Some r \<Rightarrow>
          if owned_by caller (mr_mem r) then in_transaction db (archive_memory_core (stamp_of env now) i reason db)
          else (db, Inr False))"

definition archived_before :: "'t store_env \<Rightarrow> 't \<Rightarrow> int option \<Rightarrow> archived_row \<Rightarrow> bool" where
  "archived_before env now older_than_days a =
     (case older_than_days of
        None \<Rightarrow> True
      | Some days \<Rightarrow> ar_archived_at a < to_rfc3339 (se_chrono env) (add_seconds (se_chrono env) now (- 86400 * days)))"

definition purge_where :: "(archived_row \<Rightarrow> bool) \<Rightarrow> mem_db \<Rightarrow> nat store_result" where
  "purge_where p db = (db\<lparr>md_archive := delete_where p (md_archive db)\<rparr>, Inr (count_where p (md_archive db)))"

definition purge_archive :: "'t store_env \<Rightarrow> 't \<Rightarrow> int option \<Rightarrow> mem_db \<Rightarrow> nat store_result" where
  "purge_archive env now older_than_days db =
     (if \<exists>d. older_than_days = Some d \<and> d < 0 then (db, Inl InvalidArgument)
      else purge_where (archived_before env now older_than_days) db)"

definition purge_archive_for_caller :: "'t store_env \<Rightarrow> 't \<Rightarrow> string \<Rightarrow> int option \<Rightarrow> mem_db \<Rightarrow> nat store_result" where
  "purge_archive_for_caller env now caller older_than_days db =
     (if \<exists>d. older_than_days = Some d \<and> d < 0 then (db, Inl InvalidArgument)
      else purge_where (\<lambda>a. archived_before env now older_than_days a \<and>
             (json_text_field ''agent_id'' (mr_mem (ar_row a)) = Some caller \<or>
              json_text_field ''target_agent_id'' (mr_mem (ar_row a)) = Some caller)) db)"

definition auto_purge_archive :: "'t store_env \<Rightarrow> 't \<Rightarrow> int option \<Rightarrow> mem_db \<Rightarrow> nat store_result" where
  "auto_purge_archive env now max_days db =
     (case max_days of
        Some days \<Rightarrow> if days > 0 then purge_archive env now (Some days) db else (db, Inr 0)
      | None \<Rightarrow> (db, Inr 0))"

section \<open>Undoing an edit\<close>

record undo_outcome =
  uo_applied :: bool
  uo_id :: string
  uo_before_version :: int
  uo_after_version :: "int option"
  uo_before_title :: string
  uo_after_title :: string
  uo_before_content :: string
  uo_after_content :: string

definition undo_patch :: "memory \<Rightarrow> patch" where
  "undo_patch m =
     \<lparr>pt_title = Some (m_title m), pt_content = Some (m_content m), pt_tier = Some (m_tier m),
      pt_namespace = Some (m_namespace m), pt_tags = Some (m_tags m), pt_priority = Some (m_priority m),
      pt_confidence = Some (m_confidence m), pt_expires_at = m_expires_at m, pt_metadata = Some (m_metadata m),
      pt_source_uri = m_source_uri m\<rparr>"

definition undo_in_place_edit ::
  "'t store_env \<Rightarrow> 't \<Rightarrow> string \<Rightarrow> string option \<Rightarrow> bool \<Rightarrow> mem_db \<Rightarrow> undo_outcome store_result" where
  "undo_in_place_edit env now i caller dry_run db =
     (case find_row i db of
        None \<Rightarrow> (db, Inl (StoreNotFound i))
      | Some r \<Rightarrow>
          (let live = mr_mem r;
               snapshot = find (\<lambda>a. archived_id a = i \<and> ar_reason a = ''in_place_edit'') (md_archive db);
               snap = (case snapshot of None \<Rightarrow> live | Some a \<Rightarrow> mr_mem (ar_row a));
               outcome = (\<lambda>applied. \<lparr>uo_applied = applied, uo_id = i, uo_before_version = m_version live,
                 uo_after_version = (if applied then Some (m_version live + 1) else None),
                 uo_before_title = m_title live, uo_after_title = m_title snap,
                 uo_before_content = m_content live, uo_after_content = m_content snap\<rparr>)
           in if \<exists>c. caller = Some c \<and> (metadata_agent live \<noteq> c \<or> metadata_agent snap \<noteq> c)
              then (db, Inl PermissionDenied)
              else if snapshot = None \<or> dry_run then (db, Inr (outcome False))
              else case update_with_expected_version env now i (undo_patch snap) (Some (m_version live)) db of
                     (db', Inl e) \<Rightarrow> (db', Inl e)
                   | (db', Inr (found, _)) \<Rightarrow> if found then (db', Inr (outcome True)) else (db', Inl (StoreNotFound i))))"

section \<open>Inbound rows\<close>

definition insert_if_newer :: "'t store_env \<Rightarrow> 't \<Rightarrow> memory \<Rightarrow> mem_db \<Rightarrow> string store_result" where
  "insert_if_newer env now m db =
     (if se_stopped env then (db, Inl StRecordStopped)
      else case consult_governance_pre_write env m of
             Inl e \<Rightarrow> (db, Inl e)
           | Inr _ \<Rightarrow>
               if memory_is_tombstoned (m_id m) db then (db, Inr (m_id m))
               else in_transaction db (upsert_statement newer_row (fresh_row env now (stored_form env m)) db))"

definition attest_created_at_skew_secs :: int where
  "attest_created_at_skew_secs = 300"

definition overwrite_full_row_by_id :: "'t store_env \<Rightarrow> 't \<Rightarrow> memory \<Rightarrow> mem_db \<Rightarrow> store_error + mem_db" where
  "overwrite_full_row_by_id env now m db =
     update_by_id (m_id m) (\<lambda>r. r\<lparr>mr_mem := m\<lparr>m_expires_at := effective_expires_at (se_chrono env) now m,
                                              m_cid := m_cid (mr_mem r)\<rparr>,
                                 mr_mentioned := extract_mentioned_entity_id m\<rparr>)
       (archive_memory_insert_only (stamp_of env now) ''federation_merge'' (m_id m) db)"

definition merge_inbound :: "'t store_env \<Rightarrow> 't \<Rightarrow> memory \<Rightarrow> mem_db \<Rightarrow> string store_result" where
  "merge_inbound env now inbound db =
     (case get_memory (m_id inbound) db of
        None \<Rightarrow> insert_if_newer env now inbound db
      | Some existing \<Rightarrow>
          (let prepared = clamp_inbound_updated_at (se_chrono env) (sanitize_inbound_attestation inbound)
                 (stamp_of env now) attest_created_at_skew_secs;
               merged = merge_memory existing prepared
           in case overwrite_full_row_by_id env now merged db of
                Inl e \<Rightarrow> (db, Inl e)
              | Inr db' \<Rightarrow> (db', Inr (m_id merged))))"

end
