(* ===== verification/StoreLaws.thy ===== *)
theory StoreLaws
  imports MemoryStore
begin

text \<open>
  The laws of the memory store: the operations as instances of two contracts, one that keeps the
  integrity constraints of the tables and one that also leaves the database alone when it fails, and the
  steps of the store interface, local and inbound, along which the constraints hold.
\<close>

named_theorems store_simps \<open>the effect of the statements on the tables\<close>

section \<open>Integrity\<close>

definition store_ok :: "mem_db \<Rightarrow> bool" where
  "store_ok db \<longleftrightarrow>
     keys_unique row_id (md_rows db) \<and> keys_unique row_slot (md_rows db) \<and>
     keys_unique archived_id (md_archive db) \<and> keys_unique ts_memory_id (md_tombstones db) \<and>
     (\<forall>r \<in> set (md_rows db). \<forall>p. mr_atom_of r = Some p \<longrightarrow> p \<in> row_id ` set (md_rows db))"

locale store_operation =
  fixes run :: "mem_db \<Rightarrow> 'a store_result"
  assumes keeps_ok: "store_ok db \<Longrightarrow> store_ok (fst (run db))"

locale atomic_operation = store_operation +
  assumes failure_rolls_back: "snd (run db) = Inl e \<Longrightarrow> fst (run db) = db"
begin

lemma change_is_success: "fst (run db) \<noteq> db \<Longrightarrow> \<exists>v. snd (run db) = Inr v"
  using failure_rolls_back by (cases "snd (run db)") auto

end

lemma store_ok_rows:
  "store_ok (db\<lparr>md_archive := a\<rparr>) \<longleftrightarrow> store_ok (db\<lparr>md_archive := []\<rparr>) \<and> keys_unique archived_id a"
  "store_ok (db\<lparr>md_standards := s\<rparr>) \<longleftrightarrow> store_ok db"
  by (auto simp: store_ok_def)

lemma find_row_in: "store_ok db \<Longrightarrow> find_row i db = Some r \<longleftrightarrow> r \<in> set (md_rows db) \<and> row_id r = i"
  unfolding find_row_def by (rule select_by_unique) (simp add: store_ok_def)

lemma find_row_SomeD: "find_row i db = Some r \<Longrightarrow> r \<in> set (md_rows db) \<and> row_id r = i"
  unfolding find_row_def by (rule select_by_SomeD)

lemma find_row_None: "find_row i db = None \<longleftrightarrow> i \<notin> row_id ` set (md_rows db)"
  by (simp add: find_row_def select_by_None_iff)

lemma find_slot_SomeD: "find_slot s db = Some r \<Longrightarrow> r \<in> set (md_rows db) \<and> row_slot r = s"
  unfolding find_slot_def by (rule select_by_SomeD)

lemma find_slot_None: "find_slot s db = None \<longleftrightarrow> s \<notin> row_slot ` set (md_rows db)"
  by (simp add: find_slot_def select_by_None_iff)

lemma keys_unique_update_one:
  assumes "keys_unique key t" and "\<forall>s \<in> set t. p s \<longrightarrow> s = r" and "\<forall>s \<in> set t. \<not> p s \<longrightarrow> key s \<noteq> key (f r)"
  shows "keys_unique key (update_where p f t)"
  using assms
proof (induction t)
  case (Cons s t)
  have t: "s \<notin> set t" "\<forall>u \<in> set t. key u \<noteq> key s" using Cons.prems(1) by (auto simp: keys_unique_def image_iff)
  have IH: "keys_unique key (update_where p f t)" using Cons by (simp add: keys_unique_def)
  have "key (if p s then f s else s) \<noteq> key (if p u then f u else u)" if u: "u \<in> set t" for u
  proof -
    have "s \<noteq> u" using t(1) u by blast
    then consider "p s" "\<not> p u" "s = r" | "\<not> p s" "p u" "u = r" | "\<not> p s" "\<not> p u"
      using Cons.prems(2) u by fastforce
    then show ?thesis
    proof cases
      case 1
      then have "key u \<noteq> key (f s)" using Cons.prems(3) u by simp
      then show ?thesis using 1 by simp
    next
      case 2
      then show ?thesis using Cons.prems(3) by simp
    next
      case 3
      then show ?thesis using t(2) u by auto
    qed
  qed
  then have "key (if p s then f s else s) \<notin> set (map key (update_where p f t))"
    unfolding update_where_def set_map image_image by blast
  moreover have "map key (update_where p f (s # t)) = key (if p s then f s else s) # map key (update_where p f t)"
    by (simp add: update_where_def)
  ultimately show ?case using IH by (simp only: keys_unique_def distinct.simps not_False_eq_True simp_thms)
qed (simp add: update_where_def)

lemma plain_insert_ok:
  assumes "store_ok db" and "plain_insert r db = Inr (db', i)"
  shows "store_ok db'"
  using assms by (auto simp: plain_insert_def store_ok_def keys_unique_def find_row_None find_slot_None
    split: if_splits option.splits)

lemma update_where_ok:
  assumes "store_ok db" and "\<And>r. row_id (f r) = row_id r" and "\<And>r. mr_atom_of (f r) = mr_atom_of r"
    and "keys_unique row_slot (update_where p f (md_rows db))"
  shows "store_ok (db\<lparr>md_rows := update_where p f (md_rows db)\<rparr>)"
proof -
  have ids: "map row_id (update_where p f (md_rows db)) = map row_id (md_rows db)"
    by (simp add: update_where_def assms(2))
  then have "row_id ` set (update_where p f (md_rows db)) = row_id ` set (md_rows db)" by (metis list.set_map)
  moreover have "\<forall>r \<in> set (update_where p f (md_rows db)). \<exists>s \<in> set (md_rows db). mr_atom_of r = mr_atom_of s"
    by (auto simp: update_where_def assms(3))
  ultimately show ?thesis using assms(1,4) ids by (fastforce simp: store_ok_def keys_unique_def)
qed

lemma update_rows_ok:
  assumes "store_ok db" and "\<And>r. row_id (f r) = row_id r" and "\<And>r. mr_atom_of (f r) = mr_atom_of r"
    and "\<And>r. m_title (mr_mem (f r)) = m_title (mr_mem r)" and "\<And>r. m_namespace (mr_mem (f r)) = m_namespace (mr_mem r)"
  shows "store_ok (db\<lparr>md_rows := update_where p f (md_rows db)\<rparr>)"
proof -
  have "map row_slot (update_where p f (md_rows db)) = map row_slot (md_rows db)"
    using assms(4,5) by (simp add: update_where_def)
  then show ?thesis using assms(1-3) by (intro update_where_ok) (simp_all add: store_ok_def keys_unique_def)
qed

lemma update_row_ok:
  assumes "store_ok db" and "\<And>m. m_id (f m) = m_id m" and "\<And>m. m_title (f m) = m_title m"
    and "\<And>m. m_namespace (f m) = m_namespace m"
  shows "store_ok (update_row i f db)"
  unfolding update_row_def using assms by (intro update_rows_ok) simp_all

lemma upsert_statement_ok:
  assumes "store_ok db" and "\<And>r s. row_id (merge r s) = row_id r" and "\<And>r s. mr_atom_of (merge r s) = mr_atom_of r"
    and "\<And>r s. m_title (mr_mem (merge r s)) = m_title (mr_mem r)"
    and "\<And>r s. m_namespace (mr_mem (merge r s)) = m_namespace (mr_mem r)"
    and "upsert_statement merge r db = Inr (db', i)"
  shows "store_ok db'"
proof (cases "find_slot (row_slot r) db")
  case None
  then show ?thesis using assms(1,6) plain_insert_ok by (simp add: upsert_statement_def)
next
  case (Some old)
  have "store_ok (db\<lparr>md_rows := update_where (\<lambda>s. row_slot s = row_slot r) (\<lambda>s. merge s r) (md_rows db)\<rparr>)"
    using assms(1-5) by (intro update_rows_ok)
  then show ?thesis using assms(6) Some by (simp add: upsert_statement_def)
qed

lemma update_by_id_ok:
  assumes "store_ok db" and "\<And>r. row_id r = i \<Longrightarrow> row_id (f r) = i" and "\<And>r. mr_atom_of (f r) = mr_atom_of r"
    and "update_by_id i f db = Inr db'"
  shows "store_ok db'"
proof (cases "find_row i db")
  case None
  then show ?thesis using assms(1,4) by (simp add: update_by_id_def)
next
  case (Some r)
  note r = find_row_SomeD [OF Some]
  have free: "\<forall>s \<in> set (md_rows db). row_id s \<noteq> i \<longrightarrow> row_slot s \<noteq> row_slot (f r)"
    and db': "db' = db\<lparr>md_rows := update_where (\<lambda>s. row_id s = i) f (md_rows db)\<rparr>"
    using assms(4) Some by (auto simp: update_by_id_def split: if_splits)
  have uniq: "s \<in> set (md_rows db) \<and> row_id s = i \<longleftrightarrow> s = r" for s
    using find_row_in [OF assms(1), of i s] Some by auto
  have slots: "keys_unique row_slot (md_rows db)" using assms(1) by (simp add: store_ok_def)
  have "keys_unique row_slot (update_where (\<lambda>s. row_id s = i) f (md_rows db))"
    using slots uniq free by (intro keys_unique_update_one [of _ _ _ r]) auto
  moreover have "map row_id (update_where (\<lambda>s. row_id s = i) f (md_rows db)) = map row_id (md_rows db)"
    using assms(2) by (simp add: update_where_def)
  moreover from this have "row_id ` set (update_where (\<lambda>s. row_id s = i) f (md_rows db)) = row_id ` set (md_rows db)"
    by (metis list.set_map)
  moreover have "\<forall>s \<in> set (update_where (\<lambda>s. row_id s = i) f (md_rows db)). \<exists>t \<in> set (md_rows db). mr_atom_of s = mr_atom_of t"
    by (auto simp: update_where_def assms(3))
  ultimately show ?thesis using assms(1) unfolding db' by (fastforce simp: store_ok_def keys_unique_def)
qed

lemma delete_rows_ok:
  assumes "store_ok db" and "delete_rows p db = Inr (db', n)"
  shows "store_ok db'"
proof -
  have db': "db' = db\<lparr>md_rows := delete_where p (md_rows db)\<rparr>"
    and fk: "\<forall>r \<in> set (delete_where p (md_rows db)). \<forall>i \<in> row_id ` set (filter p (md_rows db)). mr_atom_of r \<noteq> Some i"
    using assms(2) by (auto simp: delete_rows_def Let_def split: if_splits)
  have "p' \<in> row_id ` set (delete_where p (md_rows db))"
    if "r \<in> set (delete_where p (md_rows db))" "mr_atom_of r = Some p'" for r p'
  proof -
    have "r \<in> set (md_rows db)" using that(1) by (simp add: delete_where_def)
    then have "p' \<in> row_id ` set (md_rows db)" using assms(1) that(2) by (auto simp: store_ok_def)
    moreover have "p' \<notin> row_id ` set (filter p (md_rows db))" using fk that by blast
    ultimately show ?thesis by (auto simp: delete_where_def)
  qed
  then show ?thesis using assms(1) unfolding db' by (simp add: store_ok_def keys_unique_delete)
qed

lemma archive_put_ok: "store_ok db \<Longrightarrow> store_ok (archive_put a db)"
  by (auto simp: archive_put_def store_ok_def keys_unique_def delete_where_def distinct_map_filter)

lemma archive_rows_ok: "store_ok db \<Longrightarrow> store_ok (archive_rows now reason rs db)"
  unfolding archive_rows_def by (induction rs arbitrary: db) (simp_all add: archive_put_ok)

lemma archive_insert_only_ok: "store_ok db \<Longrightarrow> store_ok (archive_memory_insert_only now reason i db)"
  by (simp add: archive_memory_insert_only_def archive_put_ok split: option.split)

lemma delete_standard_ok: "store_ok db \<Longrightarrow> store_ok (delete_standard i db)"
  by (simp add: delete_standard_def store_ok_rows)

lemma record_tombstone_ok: "store_ok db \<Longrightarrow> store_ok (record_tombstone now r db)"
  by (auto simp: record_tombstone_def store_ok_def keys_unique_def)

lemma record_tombstones_ok: "store_ok db \<Longrightarrow> store_ok (fold (record_tombstone now) rs db)"
  by (induction rs arbitrary: db) (simp_all add: record_tombstone_ok)

lemma purge_ok: "store_ok db \<Longrightarrow> store_ok (db\<lparr>md_archive := delete_where p (md_archive db)\<rparr>)"
  by (simp add: store_ok_def keys_unique_delete)

lemma in_transaction_ok: "store_ok db \<Longrightarrow> (\<And>db' v. x = Inr (db', v) \<Longrightarrow> store_ok db') \<Longrightarrow> store_ok (fst (in_transaction db x))"
  by (auto simp: in_transaction_def split: sum.split)

lemma in_transaction_fails: "snd (in_transaction db x) = Inl e \<Longrightarrow> fst (in_transaction db x) = db"
  by (auto simp: in_transaction_def split: sum.splits)

section \<open>Every operation keeps the constraints\<close>

lemma upsert_row_keeps:
  "row_id (upsert_row r s) = row_id r" "mr_atom_of (upsert_row r s) = mr_atom_of r"
  "m_title (mr_mem (upsert_row r s)) = m_title (mr_mem r)" "m_namespace (mr_mem (upsert_row r s)) = m_namespace (mr_mem r)"
  by (simp_all add: upsert_row_def upsert_memory_def)

lemma newer_row_keeps:
  "row_id (newer_row r s) = row_id r" "mr_atom_of (newer_row r s) = mr_atom_of r"
  "m_title (mr_mem (newer_row r s)) = m_title (mr_mem r)" "m_namespace (mr_mem (newer_row r s)) = m_namespace (mr_mem r)"
  by (simp_all add: newer_row_def newer_memory_def Let_def)

lemma access_keeps:
  "m_id (bump_memory t s w m) = m_id m" "m_id (promote_memory t m) = m_id m" "m_id (prioritise_memory m) = m_id m"
  "m_id (fold_bump n t s w m) = m_id m"
  "m_title (bump_memory t s w m) = m_title m" "m_title (promote_memory t m) = m_title m"
  "m_title (prioritise_memory m) = m_title m" "m_title (fold_bump n t s w m) = m_title m"
  "m_namespace (bump_memory t s w m) = m_namespace m" "m_namespace (promote_memory t m) = m_namespace m"
  "m_namespace (prioritise_memory m) = m_namespace m" "m_namespace (fold_bump n t s w m) = m_namespace m"
  by (simp_all add: bump_memory_def promote_memory_def prioritise_memory_def fold_bump_def)

interpretation insert_memory: atomic_operation "insert_memory env now m" for env now m
proof
  show "store_ok db \<Longrightarrow> store_ok (fst (insert_memory env now m db))" for db
    by (auto simp: insert_memory_def upsert_row_keeps intro!: in_transaction_ok elim!: upsert_statement_ok [rotated 5] split: sum.split)
  show "snd (insert_memory env now m db) = Inl e \<Longrightarrow> fst (insert_memory env now m db) = db" for db e
    by (auto simp: insert_memory_def in_transaction_fails split: sum.splits if_splits)
qed

lemma conflict_of_violation_Inr [simp]: "conflict_of_violation m x = Inr v \<longleftrightarrow> x = Inr v"
  by (simp add: conflict_of_violation_def split: sum.split)

interpretation insert_with_conflict: atomic_operation "insert_with_conflict env now mode m" for env now mode m
proof
  show "store_ok db \<Longrightarrow> store_ok (fst (insert_with_conflict env now mode m db))" for db
    using insert_memory.keeps_ok [of db] plain_insert_ok [of db]
    by (auto simp: insert_with_conflict_def intro!: in_transaction_ok split: sum.split option.split conflict_mode.split)
  show "snd (insert_with_conflict env now mode m db) = Inl e \<Longrightarrow> fst (insert_with_conflict env now mode m db) = db" for db e
    by (auto simp: insert_with_conflict_def in_transaction_fails insert_memory.failure_rolls_back
      split: sum.splits option.splits conflict_mode.splits if_splits)
qed

lemma touch_ok: "store_ok db \<Longrightarrow> store_ok (touch env now s w i db)"
  by (simp add: touch_def Let_def update_row_ok access_keeps)

lemma touch_many_ok: "store_ok db \<Longrightarrow> store_ok (fst (touch_many env now ro s w is db))"
proof -
  assume "store_ok db"
  moreover have "store_ok db \<Longrightarrow> store_ok (fold (touch env now s w) is db)"
    by (induction "is" arbitrary: db) (simp_all add: touch_ok)
  ultimately show ?thesis by (simp add: touch_many_def)
qed

lemma fold_group_ok: "store_ok (fst x) \<Longrightarrow> store_ok (fst (fold_group env now s w i x))"
  by (cases x) (simp add: fold_group_def Let_def update_row_ok access_keeps)

lemma fold_groups_ok: "store_ok (fst x) \<Longrightarrow> store_ok (fst (fold (fold_group env now s w) is x))"
  by (induction "is" arbitrary: x) (simp_all add: fold_group_ok)

lemma fold_recall_ok: "store_ok (fst x) \<Longrightarrow> store_ok (fst (fst (fold_recall_accesses env now s w x)))"
proof -
  have "store_ok (fst y) \<Longrightarrow> store_ok (fst (fst (fold_loop env now s w acc y)))" for acc y
  proof (induction env now s w acc y rule: fold_loop.induct)
    case (1 env now s w acc db obs)
    let ?x = "fold (fold_group env now s w) (fold_agenda obs) (db, obs)"
    have x: "store_ok (fst ?x)" using 1(2) by (intro fold_groups_ok) simp
    show ?case
    proof (cases "length (fold_agenda obs) < fold_chunk_memories")
      case True
      then show ?thesis using x 1(2) by (subst fold_loop.simps) (simp add: Let_def)
    next
      case False
      moreover have "store_ok (fst (fst (fold_loop env now s w (acc + length (fold_agenda obs)) ?x)))"
        using 1(1) [OF refl _ refl] x False by (metis fold_chunk_memories_def gr0I prod.collapse zero_less_numeral)
      ultimately show ?thesis using 1(2) by (subst fold_loop.simps) (simp add: Let_def fold_chunk_memories_def)
    qed
  qed
  then show "store_ok (fst x) \<Longrightarrow> ?thesis" by (simp add: fold_recall_accesses_def)
qed

lemma lifecycle_ok:
  "store_ok db \<Longrightarrow> store_ok (fst (set_lifecycle_state env now i state db))"
  by (auto simp: set_lifecycle_state_def Let_def intro!: update_row_ok split: option.split)

lemma dequarantine_ok: "store_ok db \<Longrightarrow> store_ok (fst (dequarantine env now i db))"
  unfolding dequarantine_def Let_def fst_conv by (rule update_rows_ok) simp_all

lemma patched_keeps: "m_id (patched_memory p m) = m_id m"
  by (simp add: patched_memory_def)

interpretation update_with_expected_version: atomic_operation "update_with_expected_version env now i p expected"
  for env now i p expected
proof
  show "store_ok db \<Longrightarrow> store_ok (fst (update_with_expected_version env now i p expected db))" for db
    by (auto simp: update_with_expected_version_def Let_def patched_keeps archive_insert_only_ok
      elim!: update_by_id_ok [rotated 3] split: option.split sum.split)
  show "snd (update_with_expected_version env now i p expected db) = Inl e \<Longrightarrow>
      fst (update_with_expected_version env now i p expected db) = db" for db e
    by (auto simp: update_with_expected_version_def Let_def split: option.splits sum.splits if_splits)
qed

lemma update_not_found:
  "update_with_expected_version env now i p expected db = (db', Inr (False, c)) \<Longrightarrow> db' = db"
  by (auto simp: update_with_expected_version_def Let_def split: option.splits sum.splits if_splits)

lemma archive_no_tx_ok:
  assumes "store_ok db" and "archive_memory_core now i reason db = Inr (db', b)"
  shows "store_ok db'"
proof (cases "find_row i db")
  case (Some r)
  then show ?thesis using assms
    by (auto simp: archive_memory_core_def Let_def dest!: delete_rows_ok [rotated]
      intro: delete_standard_ok archive_put_ok split: sum.splits)
qed (use assms in \<open>simp add: archive_memory_core_def\<close>)

interpretation archive_memory: atomic_operation "archive_memory env now i reason" for env now i reason
  by unfold_locales
    (auto simp: archive_memory_def in_transaction_fails intro!: in_transaction_ok elim: archive_no_tx_ok)

interpretation archive_memory_for_caller: atomic_operation "archive_memory_for_caller env now i reason caller"
  for env now i reason caller
  by unfold_locales
    (auto simp: archive_memory_for_caller_def in_transaction_fails intro!: in_transaction_ok elim: archive_no_tx_ok
      split: option.split option.split_asm if_split_asm)

interpretation delete_memory: store_operation "delete_memory env i" for env i
proof
  fix db assume ok: "store_ok db"
  have "store_ok db'" if "delete_rows p (delete_standard i db) = Inr (db', n)" for p db' n
    using delete_rows_ok [OF delete_standard_ok [OF ok] that] .
  then show "store_ok (fst (delete_memory env i db))"
    using ok by (auto simp: delete_memory_def Let_def delete_standard_ok split: sum.split)
qed

interpretation supersede: atomic_operation "update_with_archive_on_supersede env now new_id i p expected source"
  for env now new_id i p expected source
proof
  fix db
  show "snd (update_with_archive_on_supersede env now new_id i p expected source db) = Inl e \<Longrightarrow>
      fst (update_with_archive_on_supersede env now new_id i p expected source db) = db" for e
    by (auto simp: update_with_archive_on_supersede_def Let_def split: option.splits sum.splits bool.splits prod.splits if_splits)
  assume ok: "store_ok db"
  have "store_ok db2"
    if "archive_memory_core (stamp_of env now) i r db = Inr (db1, b)" "insert_memory env now m db1 = (db2, x)" for r db1 b m db2 x
    using insert_memory.keeps_ok [OF archive_no_tx_ok [OF ok that(1)], of env now m] that(2) by simp
  then show "store_ok (fst (update_with_archive_on_supersede env now new_id i p expected source db))"
    using ok by (auto simp: update_with_archive_on_supersede_def Let_def split: option.split sum.split bool.split prod.split)
qed

lemma gc_chunk_ok:
  assumes "store_ok db" and "gc_chunk archive now db = Inr (db', n)"
  shows "store_ok db'"
  using assms by (auto simp: gc_chunk_def Let_def archive_rows_ok record_tombstones_ok dest!: delete_rows_ok [rotated] split: if_splits)

lemma gc_loop_ok: "store_ok db \<Longrightarrow> store_ok (fst (gc_loop archive now acc db))"
proof (induction archive now acc db rule: gc_loop.induct)
  case (1 archive now acc db)
  show ?case
  proof (cases "gc_chunk archive now db")
    case (Inl e)
    then show ?thesis using 1(2) by (subst gc_loop.simps) simp
  next
    case (Inr x)
    obtain db' n where x: "x = (db', n)" by (cases x)
    have ok: "store_ok db'" using gc_chunk_ok [OF 1(2)] Inr x by simp
    show ?thesis using 1(1) [OF Inr x [symmetric]] ok by (subst gc_loop.simps) (simp add: Inr x)
  qed
qed

interpretation gc: store_operation "gc env now archive" for env now archive
proof
  fix db assume "store_ok db"
  then have "store_ok (fst (gc_loop archive (stamp_of env now) 0 db))" by (rule gc_loop_ok)
  then show "store_ok (fst (gc env now archive db))"
    by (auto simp: gc_def store_ok_rows split: prod.split sum.split)
qed

lemma evict_row_ok: "store_ok db \<Longrightarrow> evict_row archive now r db = Inr db' \<Longrightarrow> store_ok db'"
  by (auto simp: evict_row_def state_only_Inr archive_no_tx_ok delete_standard_ok record_tombstone_ok
      dest!: delete_rows_ok [rotated] split: if_splits)

lemma size_gc_loop_ok: "store_ok db \<Longrightarrow> store_ok (fst (size_gc_loop env archive now ns cap evicted corpus db))"
proof (induction env archive now ns cap evicted corpus db rule: size_gc_loop.induct)
  case (1 env archive now ns cap evicted corpus db)
  show ?case
  proof (cases "corpus \<le> cap \<or> next_victim ns db = None")
    case True
    then show ?thesis using 1(2) by (subst size_gc_loop.simps) auto
  next
    case False
    then obtain r where r: "next_victim ns db = Some r" "\<not> corpus \<le> cap" by auto
    show ?thesis
    proof (cases "evict_row archive now r db")
      case (Inl e)
      then show ?thesis using 1(2) r by (subst size_gc_loop.simps) simp
    next
      case (Inr db')
      then show ?thesis using 1(1) [OF r(2,1) Inr] evict_row_ok [OF 1(2) Inr] r by (subst size_gc_loop.simps) simp
    qed
  qed
qed

interpretation size_gc: store_operation "size_gc env now namespace cap archive" for env now namespace cap archive
  by unfold_locales (simp add: size_gc_def size_gc_loop_ok)

interpretation forget: atomic_operation "forget env now namespace pat tr archive" for env now namespace pat tr archive
proof
  fix db
  show "snd (forget env now namespace pat tr archive db) = Inl e \<Longrightarrow> fst (forget env now namespace pat tr archive db) = db" for e
    by (auto simp: forget_def Let_def in_transaction_def split: sum.splits if_splits)
  assume ok: "store_ok db"
  let ?v = "filter (forget_matches namespace pat tr) (md_rows db)"
  let ?d = "fold (record_tombstone (stamp_of env now)) ?v (if archive then archive_rows (stamp_of env now) ''forget'' ?v db else db)"
  have "store_ok ?d" using ok by (simp add: record_tombstones_ok archive_rows_ok)
  then have "store_ok db'" if "delete_rows (forget_matches namespace pat tr) ?d = Inr (db', n)" for db' n
    using delete_rows_ok that by blast
  then show "store_ok (fst (forget env now namespace pat tr archive db))"
    using ok by (auto simp: forget_def Let_def in_transaction_def split: sum.split)
qed

lemma restore_row_ok:
  assumes "store_ok db" and "restore_row env now i a db = Inr (db', b)"
  shows "store_ok db'"
  using assms by (auto simp: restore_row_def Let_def dest!: plain_insert_ok [rotated] intro: purge_ok split: if_splits sum.splits)

interpretation restore_archived_memory: atomic_operation "restore_archived_memory env now i" for env now i
  by unfold_locales
    (auto simp: restore_archived_memory_def in_transaction_fails intro!: in_transaction_ok elim: restore_row_ok split: option.split option.split_asm)

interpretation restore_archived_for_caller: atomic_operation "restore_archived_for_caller env now i caller" for env now i caller
  by unfold_locales
    (auto simp: restore_archived_for_caller_def in_transaction_fails intro!: in_transaction_ok elim: restore_row_ok
      split: option.split option.split_asm if_split_asm)

interpretation purge_archive: atomic_operation "purge_archive env now days" for env now days
  by unfold_locales (auto simp: purge_archive_def purge_where_def purge_ok split: if_splits)

interpretation purge_archive_for_caller: atomic_operation "purge_archive_for_caller env now caller days" for env now caller days
  by unfold_locales (auto simp: purge_archive_for_caller_def purge_where_def purge_ok split: if_splits)

interpretation undo_in_place_edit: atomic_operation "undo_in_place_edit env now i caller dry_run" for env now i caller dry_run
proof
  fix db
  show "store_ok db \<Longrightarrow> store_ok (fst (undo_in_place_edit env now i caller dry_run db))"
    using update_with_expected_version.keeps_ok [of db env now i]
    by (auto simp: undo_in_place_edit_def Let_def split: option.split prod.split sum.split) (metis fst_conv)+
  show "snd (undo_in_place_edit env now i caller dry_run db) = Inl e \<Longrightarrow> fst (undo_in_place_edit env now i caller dry_run db) = db" for e
    using update_with_expected_version.failure_rolls_back [of env now i] update_not_found [of env now i]
    by (auto simp: undo_in_place_edit_def Let_def split: option.splits prod.splits sum.splits if_splits) (metis fst_conv snd_conv)+
qed

interpretation insert_if_newer: atomic_operation "insert_if_newer env now m" for env now m
proof
  show "store_ok db \<Longrightarrow> store_ok (fst (insert_if_newer env now m db))" for db
    by (auto simp: insert_if_newer_def newer_row_keeps intro!: in_transaction_ok elim!: upsert_statement_ok [rotated 5] split: sum.split)
  show "snd (insert_if_newer env now m db) = Inl e \<Longrightarrow> fst (insert_if_newer env now m db) = db" for db e
    by (auto simp: insert_if_newer_def in_transaction_fails split: sum.splits if_splits)
qed

interpretation merge_inbound: atomic_operation "merge_inbound env now m" for env now m
proof
  fix db
  show "snd (merge_inbound env now m db) = Inl e \<Longrightarrow> fst (merge_inbound env now m db) = db" for e
    by (auto simp: merge_inbound_def Let_def insert_if_newer.failure_rolls_back split: option.splits sum.splits)
  assume "store_ok db"
  then show "store_ok (fst (merge_inbound env now m db))"
    using insert_if_newer.keeps_ok [of db env now m]
    by (auto simp: merge_inbound_def Let_def overwrite_full_row_by_id_def archive_insert_only_ok
      elim!: update_by_id_ok [rotated 3] split: option.split sum.split)
qed

section \<open>Steps of the store\<close>

text \<open>One call of the store interface, whatever its result: the local calls, and the two calls that apply a
  row received from a peer. The gates of the environment and the time may differ from call to call. The
  identifier a superseding row is minted under is new, and the redaction of secrets leaves identifiers
  alone.\<close>

definition redact_keeps_id :: "'t store_env \<Rightarrow> bool" where
  "redact_keeps_id env \<longleftrightarrow> (\<forall>m m'. se_redact env m = Some m' \<longrightarrow> m_id m' = m_id m)"

inductive local_step :: "'t chrono \<Rightarrow> mem_db \<Rightarrow> mem_db \<Rightarrow> bool" for ch where
  by_insert: "se_chrono env = ch \<Longrightarrow> local_step ch db (fst (insert_with_conflict env now mode m db))"
| by_touch: "se_chrono env = ch \<Longrightarrow> local_step ch db (fst (touch_many env now ro s w is db))"
| by_fold: "se_chrono env = ch \<Longrightarrow> local_step ch db (fst (fst (fold_recall_accesses env now s w (db, obs))))"
| by_lifecycle: "se_chrono env = ch \<Longrightarrow> local_step ch db (fst (set_lifecycle_state env now i state db))"
| by_dequarantine: "se_chrono env = ch \<Longrightarrow> local_step ch db (fst (dequarantine env now i db))"
| by_update: "se_chrono env = ch \<Longrightarrow> local_step ch db (fst (update_with_expected_version env now i p expected db))"
| by_supersede: "se_chrono env = ch \<Longrightarrow> redact_keeps_id env \<Longrightarrow> find_row new_id db = None \<Longrightarrow>
    local_step ch db (fst (update_with_archive_on_supersede env now new_id i p expected source db))"
| by_undo: "se_chrono env = ch \<Longrightarrow> local_step ch db (fst (undo_in_place_edit env now i caller dry_run db))"
| by_archive: "se_chrono env = ch \<Longrightarrow> local_step ch db (fst (archive_memory env now i reason db))"
| by_delete: "se_chrono env = ch \<Longrightarrow> local_step ch db (fst (delete_memory env i db))"
| by_forget: "se_chrono env = ch \<Longrightarrow> local_step ch db (fst (forget env now ns pat tr archive db))"
| by_gc: "se_chrono env = ch \<Longrightarrow> local_step ch db (fst (gc env now archive db))"
| by_size_gc: "se_chrono env = ch \<Longrightarrow> local_step ch db (fst (size_gc env now namespace cap archive db))"
| by_restore: "se_chrono env = ch \<Longrightarrow> local_step ch db (fst (restore_archived_memory env now i db))"
| by_purge: "se_chrono env = ch \<Longrightarrow> local_step ch db (fst (purge_archive env now days db))"

inductive inbound_step :: "'t chrono \<Rightarrow> mem_db \<Rightarrow> mem_db \<Rightarrow> bool" for ch where
  by_newer: "se_chrono env = ch \<Longrightarrow> redact_keeps_id env \<Longrightarrow> inbound_step ch db (fst (insert_if_newer env now m db))"
| by_merge: "se_chrono env = ch \<Longrightarrow> redact_keeps_id env \<Longrightarrow> inbound_step ch db (fst (merge_inbound env now m db))"

definition store_step :: "'t chrono \<Rightarrow> mem_db \<Rightarrow> mem_db \<Rightarrow> bool" where
  "store_step ch db db' \<longleftrightarrow> local_step ch db db' \<or> inbound_step ch db db'"

lemma local_step_ok: "local_step ch db db' \<Longrightarrow> store_ok db \<Longrightarrow> store_ok db'"
  by (induction rule: local_step.induct)
    (simp_all add: insert_with_conflict.keeps_ok touch_many_ok fold_recall_ok lifecycle_ok dequarantine_ok
      update_with_expected_version.keeps_ok supersede.keeps_ok undo_in_place_edit.keeps_ok archive_memory.keeps_ok
      delete_memory.keeps_ok forget.keeps_ok gc.keeps_ok size_gc.keeps_ok restore_archived_memory.keeps_ok purge_archive.keeps_ok)

lemma inbound_step_ok: "inbound_step ch db db' \<Longrightarrow> store_ok db \<Longrightarrow> store_ok db'"
  by (induction rule: inbound_step.induct) (simp_all add: insert_if_newer.keeps_ok merge_inbound.keeps_ok)

lemma store_steps_ok: "(store_step ch)\<^sup>*\<^sup>* db db' \<Longrightarrow> store_ok db \<Longrightarrow> store_ok db'"
  by (induction rule: rtranclp_induct) (auto simp: store_step_def local_step_ok inbound_step_ok)

text \<open>Every history of store calls, local and inbound in any order, with any results, keeps the integrity of
  the store: no two live rows share an id or a title within a namespace, no two archived rows or
  tombstones share an id, and every atom has its parent among the live rows.\<close>
theorem store_integrity:
  assumes "(store_step ch)\<^sup>*\<^sup>* db db'" and "store_ok db"
  shows "store_ok db'"
  using assms by (rule store_steps_ok)

section \<open>A concrete store\<close>

definition demo_env :: "nat store_env" where
  "demo_env = \<lparr>se_chrono = unary_chrono, se_crypto = demo_crypto, se_screen = (\<lambda>s. None), se_blake3_hex = (\<lambda>x. x),
     se_node = [], se_stopped = False, se_pre_write = (\<lambda>m. None), se_redact = (\<lambda>m. None),
     se_metadata_ok = (\<lambda>v. True), se_json_text = (\<lambda>v. [])\<rparr>"

definition demo_mem :: "string \<Rightarrow> string \<Rightarrow> string \<Rightarrow> memory" where
  "demo_mem i title content =
     \<lparr>m_id = i, m_tier = Long, m_namespace = ''ops'', m_title = title, m_content = content,
      m_tags = [], m_priority = 5, m_confidence = Finite 1, m_source = ''user'',
      m_access_count = 0, m_created_at = ''x'', m_updated_at = ''x'',
      m_last_accessed_at = None, m_expires_at = None, m_metadata = JObj [],
      m_reflection_depth = 0, m_memory_kind = Observation, m_entity_id = None,
      m_persona_version = None, m_citations = [], m_source_uri = None, m_source_span = None,
      m_confidence_source = CallerProvided, m_confidence_signals = None,
      m_confidence_decayed_at = None, m_version = 1, m_lifecycle_state = Open, m_cid = None\<rparr>"

definition empty_db :: mem_db where
  "empty_db = \<lparr>md_rows = [], md_archive = [], md_standards = [], md_tombstones = []\<rparr>"

lemma empty_db_ok: "store_ok empty_db"
  by (simp add: store_ok_def empty_db_def keys_unique_def)

definition demo_db :: mem_db where
  "demo_db = fst (insert_with_conflict demo_env 2 CmMerge (demo_mem ''a'' ''t'' ''old'') empty_db)"

lemma demo_db_rows: "md_rows demo_db = [local_row demo_env 2 (demo_mem ''a'' ''t'' ''old'')]"
  by (simp add: demo_db_def insert_with_conflict_def insert_memory_def demo_env_def consult_governance_pre_write_def
      in_transaction_def upsert_statement_def find_slot_def plain_insert_def find_row_def empty_db_def select_by_def
      stored_form_def local_row_def fresh_row_def Let_def)

theorem store_integrity_witness: "store_ok demo_db \<and> md_rows demo_db \<noteq> []"
proof -
  have "local_step unary_chrono empty_db demo_db"
    unfolding demo_db_def by (rule local_step.by_insert) (simp add: demo_env_def)
  then have "(store_step unary_chrono)\<^sup>*\<^sup>* empty_db demo_db" by (simp add: store_step_def r_into_rtranclp)
  then show ?thesis using store_integrity [of unary_chrono empty_db demo_db] empty_db_ok by (simp add: demo_db_rows)
qed

end
