(* ===== verification/StoreSafety.thy ===== *)
theory StoreSafety
  imports StoreLaws
begin

text \<open>
  What the memory store of \<^verbatim>\<open>src/storage/mod.rs\<close> promises to its callers: an optimistic update never
  overwrites an edit it has not seen, an archived row comes back as it was, the collector removes exactly
  the expired rows, and a forgotten row is not pushed back by a peer. At the end, the places where the
  code and its documents part.
\<close>

section \<open>How the rows move\<close>

text \<open>What a client reads before it edits. Access counts, expiry, tier and priority are left out: the
  bookkeeping of accesses moves them without a new version.\<close>

definition edit_view ::
  "memory \<Rightarrow> (string \<times> string \<times> string) \<times> (string list \<times> f64 \<times> json) \<times> (string \<times> memory_kind \<times> string option \<times> lifecycle_state)" where
  "edit_view m = ((m_title m, m_namespace m, m_content m), (m_tags m, m_confidence m, m_metadata m),
     (m_source m, m_memory_kind m, m_source_uri m, m_lifecycle_state m))"

definition edit_moves :: "memory \<Rightarrow> memory \<Rightarrow> bool" where
  "edit_moves m n \<longleftrightarrow> m_version m < m_version n \<or> m_version m = m_version n \<and> edit_view m = edit_view n"

abbreviation live_ids :: "mem_db \<Rightarrow> string set" where
  "live_ids db \<equiv> row_id ` set (md_rows db)"

text \<open>Every row afterwards has one of the new ids or is a move of the row that had its id before.\<close>

definition rows_move :: "string set \<Rightarrow> mem_db \<Rightarrow> mem_db \<Rightarrow> bool" where
  "rows_move new db db' \<longleftrightarrow>
     (\<forall>s \<in> set (md_rows db'). row_id s \<in> new \<or>
        (\<exists>r \<in> set (md_rows db). row_id r = row_id s \<and> edit_moves (mr_mem r) (mr_mem s)))"

lemma edit_moves_refl [simp]: "edit_moves m m"
  by (simp add: edit_moves_def)

lemma edit_moves_trans: "edit_moves a b \<Longrightarrow> edit_moves b c \<Longrightarrow> edit_moves a c"
  by (auto simp: edit_moves_def)

lemma rows_move_refl [simp]: "rows_move new db db"
  by (auto simp: rows_move_def)

lemma rows_move_trans:
  assumes "rows_move new a b" and "rows_move new b c"
  shows "rows_move new a c"
  unfolding rows_move_def
proof
  fix s assume "s \<in> set (md_rows c)"
  then consider "row_id s \<in> new" | r where "r \<in> set (md_rows b)" "row_id r = row_id s" "edit_moves (mr_mem r) (mr_mem s)"
    using assms(2) unfolding rows_move_def by blast
  then show "row_id s \<in> new \<or> (\<exists>r \<in> set (md_rows a). row_id r = row_id s \<and> edit_moves (mr_mem r) (mr_mem s))"
  proof cases
    case 2
    then show ?thesis using assms(1) edit_moves_trans [OF _ 2(3)] unfolding rows_move_def by (metis (no_types, lifting))
  qed simp
qed

lemma rows_move_mono: "rows_move new a b \<Longrightarrow> new \<subseteq> new' \<Longrightarrow> rows_move new' a b"
  by (auto simp: rows_move_def)

lemma rows_move_subset: "set (md_rows db') \<subseteq> set (md_rows db) \<Longrightarrow> rows_move new db db'"
  by (auto simp: rows_move_def)

lemma rows_move_same: "md_rows db = md_rows a \<Longrightarrow> rows_move new db b \<longleftrightarrow> rows_move new a b"
  by (simp add: rows_move_def)

lemma rows_move_update:
  assumes "\<And>r. p r \<Longrightarrow> row_id (f r) = row_id r \<and> edit_moves (mr_mem r) (mr_mem (f r))"
    and "md_rows db' = update_where p f (md_rows db)"
  shows "rows_move new db db'"
  using assms(1) by (auto simp: rows_move_def assms(2) update_where_def)

lemma rows_move_step:
  assumes "rows_move (- live_ids db) db db'" and "store_ok db" and "find_row i db = Some r" and "find_row i db' = Some s"
  shows "edit_moves (mr_mem r) (mr_mem s)"
proof -
  have s: "s \<in> set (md_rows db')" "row_id s = i" using find_row_SomeD [OF assms(4)] by simp_all
  have r: "r \<in> set (md_rows db)" "row_id r = i" using find_row_SomeD [OF assms(3)] by simp_all
  obtain q where q: "q \<in> set (md_rows db)" "row_id q = i" "edit_moves (mr_mem q) (mr_mem s)"
    using assms(1) s r unfolding rows_move_def by (metis ComplD image_eqI)
  moreover have "q = r" using find_row_in [OF assms(2), of i] q(1,2) assms(3) by (metis option.inject)
  ultimately show ?thesis by simp
qed

section \<open>Every local operation moves the rows\<close>

lemma access_moves:
  "edit_moves m (bump_memory t s w m)" "edit_moves m (promote_memory t m)" "edit_moves m (prioritise_memory m)"
  "edit_moves m (fold_bump n t s w m)"
  by (simp_all add: edit_moves_def edit_view_def bump_memory_def promote_memory_def prioritise_memory_def fold_bump_def)

lemma update_row_moves:
  assumes "\<And>m. m_id (f m) = m_id m" and "\<And>m. edit_moves m (f m)"
  shows "rows_move new db (update_row i f db)"
  by (rule rows_move_update [where p = "\<lambda>r. row_id r = i" and f = "\<lambda>r. r\<lparr>mr_mem := f (mr_mem r)\<rparr>"])
    (simp_all add: assms update_row_def)

lemma touch_moves: "rows_move new db (touch env now s w i db)"
  unfolding touch_def Let_def
  by (rule rows_move_trans [OF rows_move_trans [OF update_row_moves update_row_moves] update_row_moves])
    (simp_all add: access_keeps access_moves)

lemma rows_move_fold:
  assumes "\<And>i x. rows_move new (rows x) (rows (f i x))"
  shows "rows_move new (rows x) (rows (fold f is x))"
proof (induction "is" arbitrary: x)
  case (Cons i "is")
  show ?case using rows_move_trans [OF assms Cons.IH] by simp
qed simp

lemma touch_many_moves: "rows_move new db (fst (touch_many env now ro s w is db))"
  using rows_move_fold [where rows = "\<lambda>x. x" and f = "touch env now s w", OF touch_moves]
  by (simp add: touch_many_def)

lemma fold_group_moves: "rows_move new (fst x) (fst (fold_group env now s w i x))"
proof -
  have "rows_move new (fst x) (update_row i (promote_memory t) (update_row i (fold_bump n tm sx mx) (fst x)))" for t n tm sx mx
    by (rule rows_move_trans [OF update_row_moves update_row_moves]) (simp_all add: access_keeps access_moves)
  then show ?thesis by (cases x) (simp add: fold_group_def Let_def)
qed

lemma fold_groups_move: "rows_move new (fst x) (fst (fold (fold_group env now s w) is x))"
  by (rule rows_move_fold [where rows = fst, OF fold_group_moves])

lemma fold_loop_moves: "rows_move new (fst y) (fst (fst (fold_loop env now s w acc y)))"
proof (induction env now s w acc y rule: fold_loop.induct)
  case (1 env now s w acc db obs)
  let ?x = "fold (fold_group env now s w) (fold_agenda obs) (db, obs)"
  have x: "rows_move new db (fst ?x)" using fold_groups_move [of new "(db, obs)"] by simp
  show ?case
  proof (cases "length (fold_agenda obs) < fold_chunk_memories")
    case True
    then show ?thesis using x by (subst fold_loop.simps) (simp add: Let_def)
  next
    case False
    moreover have "rows_move new (fst ?x) (fst (fst (fold_loop env now s w (acc + length (fold_agenda obs)) ?x)))"
      using 1 [OF refl _ refl] False by (metis fold_chunk_memories_def gr0I prod.collapse zero_less_numeral)
    ultimately show ?thesis using rows_move_trans [OF x]
      by (subst fold_loop.simps) (simp add: Let_def fold_chunk_memories_def)
  qed
qed

lemma fold_recall_moves: "rows_move new db (fst (fst (fold_recall_accesses env now s w (db, obs))))"
  using fold_loop_moves [of new "(db, obs)" env now s w 0] by (simp add: fold_recall_accesses_def)

lemma lifecycle_moves: "rows_move new db (fst (set_lifecycle_state env now i state db))"
  by (auto simp: set_lifecycle_state_def Let_def edit_moves_def intro!: update_row_moves split: option.split)

lemma dequarantine_moves: "rows_move new db (fst (dequarantine env now i db))"
  unfolding dequarantine_def Let_def fst_conv
  by (rule rows_move_update [where p = "\<lambda>r. row_id r = i \<and> m_lifecycle_state (mr_mem r) = Quarantined"])
    (auto simp: edit_moves_def)

lemma update_by_id_rows:
  assumes "update_by_id i f db = Inr db'"
  shows "md_rows db' = update_where (\<lambda>s. row_id s = i) f (md_rows db)"
proof (cases "find_row i db")
  case None
  then have "db' = db" using assms by (simp add: update_by_id_def)
  moreover have "\<forall>s \<in> set (md_rows db). row_id s \<noteq> i" using None by (auto simp: find_row_None)
  ultimately show ?thesis by (simp add: update_where_def map_idI)
next
  case (Some r)
  then show ?thesis using assms by (auto simp: update_by_id_def split: if_splits)
qed

lemma insert_only_rows [simp]: "md_rows (archive_memory_insert_only now reason i db) = md_rows db"
  by (simp add: archive_memory_insert_only_def archive_put_def split: option.split)

lemma update_moves: "rows_move new db (fst (update_with_expected_version env now i p expected db))"
proof -
  let ?f = "\<lambda>s. s\<lparr>mr_mem := (patched_memory p (mr_mem s))\<lparr>m_updated_at := stamp_of env now, m_version := m_version (mr_mem s) + 1\<rparr>\<rparr>"
  have "rows_move new db b" if "update_by_id i ?f a = Inr b" "md_rows a = md_rows db" for a b
    using update_by_id_rows [OF that(1)] that(2)
    by (intro rows_move_update [where p = "\<lambda>s. row_id s = i" and f = ?f]) (auto simp: edit_moves_def patched_keeps)
  then show ?thesis by (auto simp: update_with_expected_version_def Let_def split: option.split sum.split)
qed

lemma undo_moves: "rows_move new db (fst (undo_in_place_edit env now i caller dry_run db))"
  using update_moves [of new db env now i]
  by (auto simp: undo_in_place_edit_def Let_def split: option.split prod.split sum.split) (metis fst_conv)+

lemma rows_move_snoc: "row_id r \<notin> live_ids db \<Longrightarrow> md_rows db' = md_rows db @ [r] \<Longrightarrow> rows_move ({row_id r} - live_ids db) db db'"
  unfolding rows_move_def using edit_moves_refl by fastforce

lemma plain_insert_rows:
  "plain_insert r db = Inr (db', v) \<Longrightarrow>
     db' = db\<lparr>md_rows := md_rows db @ [r]\<rparr> \<and> row_id r \<notin> live_ids db \<and> row_slot r \<notin> row_slot ` set (md_rows db)"
  by (auto simp: plain_insert_def find_row_None find_slot_None split: if_splits)

lemma plain_insert_moves: "plain_insert r db = Inr (db', v) \<Longrightarrow> rows_move ({row_id r} - live_ids db) db db'"
  by (drule plain_insert_rows) (simp add: rows_move_snoc)

lemma upsert_statement_moves:
  assumes "upsert_statement upsert_row r db = Inr (db', v)"
  shows "rows_move ({row_id r} - live_ids db) db db'"
proof (cases "find_slot (row_slot r) db")
  case None
  then show ?thesis using assms by (auto simp: upsert_statement_def intro: plain_insert_moves)
next
  case (Some old)
  then show ?thesis using assms
    by (intro rows_move_update [where p = "\<lambda>s. row_slot s = row_slot r" and f = "\<lambda>s. upsert_row s r"])
      (auto simp: upsert_statement_def upsert_row_keeps edit_moves_def upsert_row_def upsert_memory_def)
qed

lemma in_transaction_moves: "(\<And>db' v. x = Inr (db', v) \<Longrightarrow> rows_move new db db') \<Longrightarrow> rows_move new db (fst (in_transaction db x))"
  by (auto simp: in_transaction_def split: sum.split)

lemma insert_memory_moves:
  "rows_move ({row_id (local_row env now (stored_form env m))} - live_ids db) db (fst (insert_memory env now m db))"
proof -
  have "rows_move ({row_id r} - live_ids db) db (fst (in_transaction db (upsert_statement upsert_row r db)))" for r
    by (rule in_transaction_moves) (rule upsert_statement_moves)
  then show ?thesis by (simp add: insert_memory_def split: sum.split)
qed

lemma insert_moves: "rows_move (- live_ids db) db (fst (insert_with_conflict env now mode m db))"
proof -
  have "rows_move (- live_ids db) db (fst (insert_memory env now m db))" for m
    by (rule rows_move_mono [OF insert_memory_moves]) blast
  moreover have "rows_move (- live_ids db) db (fst (in_transaction db (conflict_of_violation m (plain_insert r db))))" for r
    by (rule in_transaction_moves) (auto intro!: rows_move_mono [OF plain_insert_moves])
  ultimately show ?thesis
    by (auto simp: insert_with_conflict_def split: sum.split option.split conflict_mode.split)
qed

lemma archive_put_rows [simp]: "md_rows (archive_put a db) = md_rows db"
  by (simp add: archive_put_def)

lemma delete_standard_rows [simp]: "md_rows (delete_standard i db) = md_rows db"
  by (simp add: delete_standard_def)

lemma record_tombstone_rows [simp]:
  "md_rows (record_tombstone now r db) = md_rows db" "md_archive (record_tombstone now r db) = md_archive db"
  by (simp_all add: record_tombstone_def)

lemma archive_core_rows:
  assumes "archive_memory_core now i reason db = Inr (db', b)"
  shows "md_rows db' = delete_where (\<lambda>s. row_id s = i) (md_rows db)"
proof (cases "find_row i db")
  case None
  then have "db' = db" using assms by (simp add: archive_memory_core_def)
  moreover have "\<forall>s \<in> set (md_rows db). row_id s \<noteq> i" using None by (auto simp: find_row_None)
  ultimately show ?thesis by (simp add: delete_where_def)
qed (use assms in \<open>auto simp: archive_memory_core_def Let_def dest!: delete_rows_length split: sum.splits\<close>)

lemma archive_moves: "rows_move new db (fst (archive_memory env now i reason db))"
  unfolding archive_memory_def
  by (rule in_transaction_moves) (auto simp: delete_where_def dest!: archive_core_rows intro!: rows_move_subset)

lemma delete_moves: "rows_move new db (fst (delete_memory env i db))"
  by (auto simp: delete_memory_def Let_def delete_where_def dest!: delete_rows_length intro!: rows_move_subset split: sum.split)

lemma purge_moves: "rows_move new db (fst (purge_archive env now days db))"
  by (auto simp: purge_archive_def purge_where_def intro!: rows_move_subset)

lemma restore_row_inserts:
  "restore_row env now i a db = Inr (db', b) \<Longrightarrow> \<exists>r c v. plain_insert r db = Inr (c, v) \<and> md_rows db' = md_rows c"
  unfolding restore_row_def Let_def by (fastforce split: if_split_asm sum.split_asm prod.split_asm)

lemma restore_moves: "rows_move (- live_ids db) db (fst (restore_archived_memory env now i db))"
proof -
  have "rows_move (- live_ids db) db db'" if r: "restore_row env now i a db = Inr (db', b)" for a db' b
  proof -
    obtain r where "row_id r \<notin> live_ids db" "md_rows db' = md_rows db @ [r]"
      using restore_row_inserts [OF r] by (auto dest!: plain_insert_rows)
    then show ?thesis using rows_move_mono [OF rows_move_snoc] by (metis Compl_eq_Diff_UNIV Diff_mono subset_UNIV subset_refl)
  qed
  then show ?thesis
    by (auto simp: restore_archived_memory_def intro!: in_transaction_moves split: option.split)
qed

lemma forget_moves: "rows_move new db (fst (forget env now ns pat tr archive db))"
  by (auto simp: forget_def Let_def delete_where_def in_transaction_def dest!: delete_rows_length
    intro!: rows_move_subset split: sum.split)

lemma gc_loop_subset: "set (md_rows (fst (gc_loop archive now acc db))) \<subseteq> set (md_rows db)"
proof (induction archive now acc db rule: gc_loop.induct)
  case (1 archive now acc db)
  show ?case
  proof (cases "gc_chunk archive now db")
    case (Inl e)
    then show ?thesis by (subst gc_loop.simps) simp
  next
    case (Inr x)
    obtain db' n where x: "x = (db', n)" by (cases x)
    have "set (md_rows db') \<subseteq> set (md_rows db)"
      using gc_chunk_rows_after(1) [of archive now db db' n] Inr x by (simp add: delete_where_def)
    then show ?thesis using 1 [OF Inr x [symmetric]] by (subst gc_loop.simps) (auto simp: Inr x)
  qed
qed

lemma gc_moves: "rows_move new db (fst (gc env now archive db))"
  using gc_loop_subset [of archive "stamp_of env now" 0 db]
  by (intro rows_move_subset) (cases "gc_loop archive (stamp_of env now) 0 db", simp add: gc_def split: sum.split)

lemma size_gc_loop_subset: "set (md_rows (fst (size_gc_loop env archive now ns cap evicted corpus db))) \<subseteq> set (md_rows db)"
proof (induction env archive now ns cap evicted corpus db rule: size_gc_loop.induct)
  case (1 env archive now ns cap evicted corpus db)
  show ?case
  proof (cases "corpus \<le> cap \<or> next_victim ns db = None")
    case True
    then show ?thesis by (subst size_gc_loop.simps) auto
  next
    case False
    then obtain r where r: "next_victim ns db = Some r" "\<not> corpus \<le> cap" by auto
    show ?thesis
    proof (cases "evict_row archive now r db")
      case (Inl e)
      then show ?thesis using r by (subst size_gc_loop.simps) simp
    next
      case (Inr db')
      have "set (md_rows db') \<subseteq> set (md_rows db)"
        using evict_row_rows [OF Inr] next_victim_in [OF r(1)] by (simp add: delete_where_def)
      then show ?thesis using 1 [OF r(2,1) Inr] r Inr by (subst size_gc_loop.simps) auto
    qed
  qed
qed

lemma size_gc_moves: "rows_move new db (fst (size_gc env now namespace cap archive db))"
  by (intro rows_move_subset) (simp add: size_gc_def size_gc_loop_subset)

lemma superseding_id: "redact_keeps_id env \<Longrightarrow> row_id (local_row env now (stored_form env (superseding_memory t new_id p source m))) = new_id"
  by (auto simp: redact_keeps_id_def local_row_def fresh_row_def stored_form_def superseding_memory_def Let_def split: option.split)

lemma supersede_moves:
  assumes "redact_keeps_id env" and "find_row new_id db = None"
  shows "rows_move (- live_ids db) db (fst (update_with_archive_on_supersede env now new_id i p expected source db))"
proof -
  let ?new = "\<lambda>m. superseding_memory (stamp_of env now) new_id p source m"
  have "rows_move (- live_ids db) db b"
    if a: "archive_memory_core t i rs db = Inr (a, ok)" and b: "insert_memory env now (?new m) a = (b, v)" for t rs a ok m b v
  proof (rule rows_move_trans)
    show "rows_move (- live_ids db) db a"
      using archive_core_rows [OF a] by (auto simp: delete_where_def intro!: rows_move_subset)
    have "rows_move ({new_id} - live_ids a) a b"
      using insert_memory_moves [of env now "?new m" a] b superseding_id [OF assms(1)] by simp
    then show "rows_move (- live_ids db) a b"
      using assms(2) by (auto simp: find_row_None intro: rows_move_mono)
  qed
  then show ?thesis
    by (auto simp: update_with_archive_on_supersede_def Let_def split: option.split sum.split bool.split prod.split)
qed

lemmas operation_moves = insert_moves touch_many_moves fold_recall_moves lifecycle_moves dequarantine_moves update_moves
  supersede_moves undo_moves archive_moves delete_moves forget_moves gc_moves size_gc_moves restore_moves purge_moves

lemma local_step_moves: "local_step ch db db' \<Longrightarrow> rows_move (- live_ids db) db db'"
  by (induction rule: local_step.induct) (simp_all add: operation_moves)

section \<open>Optimistic updates\<close>

text \<open>A local step after which the row is still there.\<close>

definition live_step :: "'t chrono \<Rightarrow> string \<Rightarrow> mem_db \<Rightarrow> mem_db \<Rightarrow> bool" where
  "live_step ch i db db' \<longleftrightarrow> local_step ch db db' \<and> find_row i db' \<noteq> None"

lemma live_steps_move:
  assumes "(live_step ch i)\<^sup>*\<^sup>* db db'" and "store_ok db" and "find_row i db = Some r"
  shows "store_ok db' \<and> (\<exists>s. find_row i db' = Some s \<and> edit_moves (mr_mem r) (mr_mem s))"
  using assms(1)
proof (induction rule: rtranclp_induct)
  case base
  then show ?case using assms(2,3) by simp
next
  case (step a b)
  then obtain s where s: "find_row i a = Some s" "edit_moves (mr_mem r) (mr_mem s)" "store_ok a" by blast
  have ab: "local_step ch a b" and live: "find_row i b \<noteq> None" using step(2) by (simp_all add: live_step_def)
  obtain t where t: "find_row i b = Some t" using live by blast
  have "edit_moves (mr_mem s) (mr_mem t)"
    using rows_move_step [OF local_step_moves [OF ab] s(3,1) t] .
  then show ?case using t s(2) edit_moves_trans local_step_ok [OF ab s(3)] by blast
qed

definition edited_row :: "'t store_env \<Rightarrow> 't \<Rightarrow> patch \<Rightarrow> mem_row \<Rightarrow> mem_row" where
  "edited_row env now p s = s\<lparr>mr_mem := (patched_memory p (mr_mem s))\<lparr>
     m_updated_at := stamp_of env now, m_version := m_version (mr_mem s) + 1\<rparr>\<rparr>"

lemma edited_row_id [simp]: "row_id (edited_row env now p s) = row_id s"
  by (simp add: edited_row_def patched_memory_def)

lemma find_row_edited:
  "find_row j (db\<lparr>md_rows := update_where (\<lambda>s. row_id s = i) (edited_row env now p) (md_rows db)\<rparr>) =
     (if j = i then map_option (edited_row env now p) (find_row i db) else find_row j db)"
proof -
  have "find_row j (db\<lparr>md_rows := update_where (\<lambda>s. row_id s = i) (edited_row env now p) (md_rows db)\<rparr>) =
      map_option (\<lambda>r. if row_id r = i then edited_row env now p r else r) (find_row j db)"
    unfolding find_row_def by (simp add: select_by_update)
  then show ?thesis by (cases "find_row j db") (auto dest: find_row_SomeD)
qed

text \<open>The update that succeeds: it found the row at the expected version, and every other row is as it was.\<close>

lemma update_succeeds:
  assumes "update_with_expected_version env now i p (Some v) db = (db', Inr (True, changed))"
  shows "\<exists>s. find_row i db = Some s \<and> m_version (mr_mem s) = v \<and> changed = content_changed p (mr_mem s) \<and>
    md_archive db' = md_archive (if changed then archive_put (archived_copy (stamp_of env now) ''in_place_edit'' s) db else db) \<and>
    (\<forall>j. find_row j db' = (if j = i then Some (edited_row env now p s) else find_row j db))"
proof -
  obtain s where s: "find_row i db = Some s" "m_version (mr_mem s) = v"
    using assms by (auto simp: update_with_expected_version_def Let_def split: option.splits if_splits)
  define db1 where "db1 = (if content_changed p (mr_mem s) then archive_put (archived_copy (stamp_of env now) ''in_place_edit'' s) db else db)"
  have rows: "md_rows db1 = md_rows db" by (simp add: db1_def)
  then have s1: "find_row i db1 = Some s" using s(1) by (simp add: find_row_def)
  have "update_by_id i (edited_row env now p) db1 = Inr db'" and c: "changed = content_changed p (mr_mem s)"
    using assms s unfolding update_with_expected_version_def Let_def edited_row_def db1_def
    by (auto simp: archive_memory_insert_only_def split: if_split_asm sum.split_asm)
  then have db': "db' = db1\<lparr>md_rows := update_where (\<lambda>s. row_id s = i) (edited_row env now p) (md_rows db1)\<rparr>"
    using s1 by (simp add: update_by_id_def split: if_split_asm)
  have "find_row j db' = (if j = i then Some (edited_row env now p s) else find_row j db)" for j
    using find_row_edited [of j i env now p db1] s1 rows db' by (simp add: find_row_def)
  then show ?thesis using s c db' by (auto simp: db1_def)
qed

lemma select_archive_put: "select_by archived_id (archived_id a) (md_archive (archive_put a db)) = Some a"
proof -
  have "select_by archived_id (archived_id a) (delete_where (\<lambda>b. archived_id b = archived_id a) (md_archive db)) = None"
    by (auto simp: select_by_None_iff delete_where_def)
  then show ?thesis by (simp add: archive_put_def table_simps)
qed

lemma archived_copy_id [simp]: "archived_id (archived_copy now reason r) = row_id r"
  by (simp add: archived_copy_def)

lemma content_changed_view: "edit_view m = edit_view n \<Longrightarrow> content_changed p m = content_changed p n"
  by (simp add: content_changed_def edit_view_def)


section \<open>Archiving and restoring\<close>

lemma archive_succeeds:
  assumes "archive_memory env now i reason db = (db', Inr True)"
  shows "\<exists>r. find_row i db = Some r \<and> md_rows db' = delete_where (\<lambda>s. row_id s = i) (md_rows db) \<and>
    md_archive db' = md_archive (archive_put (archived_copy (stamp_of env now) (value_or ''archive'' reason) r) db) \<and>
    md_standards db' = delete_where (\<lambda>s. snd s = i) (md_standards db) \<and> md_tombstones db' = md_tombstones db"
proof -
  have c: "archive_memory_core (stamp_of env now) i reason db = Inr (db', True)"
    using assms by (auto simp: archive_memory_def in_transaction_def split: sum.splits)
  then obtain r n where r: "find_row i db = Some r"
    "delete_rows (\<lambda>s. row_id s = i) (delete_standard i (archive_put (archived_copy (stamp_of env now) (value_or ''archive'' reason) r) db)) = Inr (db', n)"
    by (auto simp: archive_memory_core_def Let_def split: option.splits sum.splits)
  then show ?thesis by (auto simp: delete_rows_def Let_def delete_standard_def archive_put_def split: if_splits)
qed

lemma deleted_slot_free:
  assumes "store_ok db" and "find_row i db = Some r"
  shows "row_slot r \<notin> row_slot ` set (delete_where (\<lambda>s. row_id s = i) (md_rows db))"
proof
  assume "row_slot r \<in> row_slot ` set (delete_where (\<lambda>s. row_id s = i) (md_rows db))"
  then obtain s where s: "s \<in> set (md_rows db)" "row_id s \<noteq> i" "row_slot s = row_slot r"
    by (auto simp: delete_where_def)
  have r: "r \<in> set (md_rows db)" "row_id r = i" using find_row_SomeD [OF assms(2)] by simp_all
  have "distinct (map row_slot (md_rows db))" using assms(1) by (simp add: store_ok_def keys_unique_def)
  then have "s = r" using s(1,3) r(1) by (simp add: distinct_map inj_on_def)
  then show False using s(2) r(2) by simp
qed

lemma parent_survives:
  assumes "store_ok db" and "find_row i db = Some r" and "mr_atom_of r = Some p" and "p \<noteq> i"
  shows "p \<in> row_id ` set (delete_where (\<lambda>s. row_id s = i) (md_rows db))"
proof -
  have "r \<in> set (md_rows db)" using find_row_SomeD [OF assms(2)] by simp
  then obtain s where "s \<in> set (md_rows db)" "row_id s = p" using assms(1,3) by (fastforce simp: store_ok_def)
  then show ?thesis using assms(4) by (auto simp: delete_where_def)
qed

text \<open>What a row is after the round trip: the time of the restore, a content identifier minted anew and no
  provenance column.\<close>

definition revived_row :: "'t store_env \<Rightarrow> 't \<Rightarrow> mem_row \<Rightarrow> mem_row" where
  "revived_row env now r =
     (let stamp = stamp_memory_cid env (mr_mem r)
      in r\<lparr>mr_mem := (mr_mem r)\<lparr>m_updated_at := stamp_of env now, m_cid := Some (cs_cid stamp)\<rparr>,
           mr_genesis := Some (cs_genesis stamp), mr_kind_provenance := None\<rparr>)"

lemma restored_copy:
  assumes "se_metadata_ok env (m_metadata (mr_mem r))" and "a = archived_copy t reason r"
  shows "restored_row (stamp_of env now) (restored_cid_stamp env (validated env a) (load_archived_as_memory (validated env a)))
    (validated env a) = revived_row env now r"
  using assms by (simp add: validated_def restored_row_def restored_cid_stamp_def load_archived_as_memory_def archived_copy_def
    revived_row_def stamp_memory_cid_def metadata_agent_def value_or_def coalesce_def Let_def)

lemma revived_row_keeps [simp]:
  "row_id (revived_row env now r) = row_id r" "m_title (mr_mem (revived_row env now r)) = m_title (mr_mem r)"
  "m_namespace (mr_mem (revived_row env now r)) = m_namespace (mr_mem r)" "mr_atom_of (revived_row env now r) = mr_atom_of r"
  by (simp_all add: revived_row_def Let_def)

lemma restore_succeeds:
  assumes "select_by archived_id i (md_archive db) = Some (archived_copy t reason r)"
    and "se_metadata_ok env (m_metadata (mr_mem r))" and "i \<notin> live_ids db" and "row_slot r \<notin> row_slot ` set (md_rows db)"
    and "row_id r = i" and "\<And>p. mr_atom_of r = Some p \<Longrightarrow> p = i \<or> p \<in> live_ids db"
    and "se_pre_write env (load_archived_as_memory (archived_copy t reason r)) = None"
  shows "restore_archived_memory env now i db =
    (db\<lparr>md_rows := md_rows db @ [revived_row env now r], md_archive := delete_where (\<lambda>b. archived_id b = i) (md_archive db)\<rparr>, Inr True)"
proof -
  let ?a = "archived_copy t reason r"
  have val: "validated env ?a = ?a" using assms(2) by (simp add: validated_def archived_copy_def)
  have "find_row i db = None" "find_slot (row_slot r) db = None" using assms(3,4) by (simp_all add: find_row_None find_slot_None)
  moreover have "(case mr_atom_of r of None \<Rightarrow> False | Some p \<Rightarrow> p \<noteq> i \<and> find_row p db = None) = False"
    using assms(6) by (auto simp: find_row_None split: option.split)
  ultimately have "plain_insert (revived_row env now r) db = Inr (db\<lparr>md_rows := md_rows db @ [revived_row env now r]\<rparr>, i)"
    using assms(5) by (simp add: plain_insert_def split: option.splits)
  then have "restore_row env now i ?a db =
    Inr (db\<lparr>md_rows := md_rows db @ [revived_row env now r], md_archive := delete_where (\<lambda>b. archived_id b = i) (md_archive db)\<rparr>, True)"
    using assms(7) restored_copy [OF assms(2) refl, of now t reason] val \<open>find_row i db = None\<close>
    by (simp add: restore_row_def Let_def consult_governance_pre_write_def)
  then show ?thesis using assms(1) by (simp add: restore_archived_memory_def in_transaction_def)
qed

lemma archive_then_restore:
  assumes "store_ok db" and "find_row i db = Some r" and "archive_memory env now i reason db = (db1, Inr True)"
    and "se_metadata_ok env' (m_metadata (mr_mem r))"
    and "se_pre_write env' (load_archived_as_memory (archived_copy (stamp_of env now) (value_or ''archive'' reason) r)) = None"
  shows "\<exists>db2. restore_archived_memory env' now' i db1 = (db2, Inr True) \<and> find_row i db2 = Some (revived_row env' now' r) \<and>
    (\<forall>j. j \<noteq> i \<longrightarrow> find_row j db2 = find_row j db) \<and>
    md_archive db2 = delete_where (\<lambda>a. archived_id a = i) (md_archive db) \<and>
    md_standards db2 = delete_where (\<lambda>s. snd s = i) (md_standards db) \<and> md_tombstones db2 = md_tombstones db"
proof -
  let ?c = "archived_copy (stamp_of env now) (value_or ''archive'' reason) r"
  have id: "row_id r = i" using find_row_SomeD [OF assms(2)] by simp
  have db1: "md_rows db1 = delete_where (\<lambda>s. row_id s = i) (md_rows db)" "md_archive db1 = md_archive (archive_put ?c db)"
    "md_standards db1 = delete_where (\<lambda>s. snd s = i) (md_standards db)" "md_tombstones db1 = md_tombstones db"
    using archive_succeeds [OF assms(3)] assms(2) by auto
  have gone: "i \<notin> live_ids db1" by (auto simp: db1(1) delete_where_def)
  have sel: "select_by archived_id i (md_archive db1) = Some ?c" using select_archive_put [of ?c db] id db1(2) by simp
  let ?db2 = "db1\<lparr>md_rows := md_rows db1 @ [revived_row env' now' r], md_archive := delete_where (\<lambda>b. archived_id b = i) (md_archive db1)\<rparr>"
  have res: "restore_archived_memory env' now' i db1 = (?db2, Inr True)"
  proof (rule restore_succeeds [OF sel assms(4) gone _ id _ assms(5)])
    show "row_slot r \<notin> row_slot ` set (md_rows db1)" using deleted_slot_free [OF assms(1,2)] by (simp add: db1(1))
    show "p = i \<or> p \<in> live_ids db1" if "mr_atom_of r = Some p" for p
      using parent_survives [OF assms(1,2) that] by (auto simp: db1(1))
  qed
  have other: "find_row j db1 = find_row j db" if "j \<noteq> i" for j
    using that assms(1) by (auto simp: find_row_def db1(1) select_by_delete store_ok_def split: option.split dest: select_by_SomeD)
  have "find_row j ?db2 = (case find_row j db1 of None \<Rightarrow> if i = j then Some (revived_row env' now' r) else None | Some s \<Rightarrow> Some s)" for j
    using id by (simp add: find_row_def table_simps split: option.split)
  moreover have "find_row i db1 = None" using gone by (simp add: find_row_None)
  moreover have "md_archive ?db2 = delete_where (\<lambda>a. archived_id a = i) (md_archive db)"
    using id by (simp add: db1(2) archive_put_def delete_where_def)
  ultimately show ?thesis using res other db1(3,4) by (auto split: option.split)
qed

text \<open>C37: a row that was archived comes back. In a store whose constraints hold, the restore that follows an
  archival succeeds when the hook lets the row pass and its metadata are valid. The row is found under its
  identifier with every column as it was, except that its update time is the time of the restore; its content
  identifier and its genesis column are the old ones if they were still those of its present text (the restore
  mints them again), and the property says nothing of the kind's provenance column. The other rows are
  untouched, the archive is as it was before without any older copy of the row, and a namespace standard that
  named the row stays gone.\<close>

theorem archived_row_comes_back:
  assumes "store_ok db" and "find_row i db = Some r" and "archive_memory env now i reason db = (db1, Inr True)"
    and "se_metadata_ok env' (m_metadata (mr_mem r))"
    and "se_pre_write env' (load_archived_as_memory (archived_copy (stamp_of env now) (value_or ''archive'' reason) r)) = None"
  shows "\<exists>db2 cid genesis provenance. restore_archived_memory env' now' i db1 = (db2, Inr True) \<and>
    find_row i db2 = Some (r\<lparr>mr_mem := (mr_mem r)\<lparr>m_updated_at := stamp_of env' now', m_cid := cid\<rparr>,
      mr_genesis := genesis, mr_kind_provenance := provenance\<rparr>) \<and>
    (let minted = stamp_memory_cid env' (mr_mem r)
     in m_cid (mr_mem r) = Some (cs_cid minted) \<and> mr_genesis r = Some (cs_genesis minted) \<longrightarrow>
       cid = m_cid (mr_mem r) \<and> genesis = mr_genesis r) \<and>
    (\<forall>j. j \<noteq> i \<longrightarrow> find_row j db2 = find_row j db) \<and>
    md_archive db2 = delete_where (\<lambda>a. archived_id a = i) (md_archive db) \<and>
    md_standards db2 = delete_where (\<lambda>s. snd s = i) (md_standards db) \<and> md_tombstones db2 = md_tombstones db"
proof -
  let ?m = "stamp_memory_cid env' (mr_mem r)"
  have "revived_row env' now' r = r\<lparr>mr_mem := (mr_mem r)\<lparr>m_updated_at := stamp_of env' now', m_cid := Some (cs_cid ?m)\<rparr>,
      mr_genesis := Some (cs_genesis ?m), mr_kind_provenance := None\<rparr>"
    by (simp add: revived_row_def Let_def)
  with archive_then_restore [OF assms, of now'] show ?thesis
    by (elim exE conjE, intro exI conjI) (assumption | simp add: Let_def)+
qed

section \<open>Collecting\<close>

lemma fold_archive_put:
  "select_by archived_id k (md_archive (archive_rows now reason rs db)) =
     (case select_by row_id k (rev rs) of
        Some r \<Rightarrow> Some (archived_copy now reason r) | None \<Rightarrow> select_by archived_id k (md_archive db))"
proof (induction rs arbitrary: db)
  case (Cons r rs)
  let ?db = "archive_put (archived_copy now reason r) db"
  have "archive_rows now reason (r # rs) db = archive_rows now reason rs ?db" by (simp add: archive_rows_def)
  moreover have "select_by archived_id k (md_archive ?db) =
      (if row_id r = k then Some (archived_copy now reason r) else select_by archived_id k (md_archive db))"
  proof (cases "row_id r = k")
    case True
    then show ?thesis using select_archive_put [of "archived_copy now reason r" db] by simp
  next
    case False
    have "select_by archived_id k (delete_where (\<lambda>b. archived_id b = row_id r) t) = select_by archived_id k t" for t
      using False by (induction t) (auto simp: table_simps delete_where_def)
    then show ?thesis using False by (simp add: archive_put_def table_simps split: option.split)
  qed
  ultimately show ?case using Cons.IH [of ?db] by (simp add: table_simps split: option.split)
qed (simp add: archive_rows_def table_simps)

lemma tombstones_after:
  "ts_memory_id ` set (md_tombstones (fold (record_tombstone now) rs db)) = ts_memory_id ` set (md_tombstones db) \<union> row_id ` set rs"
  by (induction rs arbitrary: db) (auto simp: record_tombstone_def)

text \<open>The effect of a collection of some rows: they are gone from the table, and either the archive holds a copy
  of each or its identifier is on the list of the forgotten.\<close>

definition archive_entry :: "string \<Rightarrow> mem_db \<Rightarrow> archived_row option" where
  "archive_entry k db = select_by archived_id k (md_archive db)"

definition collected :: "bool \<Rightarrow> string \<Rightarrow> mem_row set \<Rightarrow> mem_db \<Rightarrow> mem_db \<Rightarrow> bool" where
  "collected archive now R db db' \<longleftrightarrow>
     md_rows db' = filter (\<lambda>r. r \<notin> R) (md_rows db) \<and> md_standards db' = md_standards db \<and>
     (if archive
      then md_tombstones db' = md_tombstones db \<and>
        (\<forall>k. archive_entry k db' =
          (case find_row k db of
             Some r \<Rightarrow> if r \<in> R then Some (archived_copy now ''ttl_expired'' r) else archive_entry k db
           | None \<Rightarrow> archive_entry k db))
      else md_archive db' = md_archive db \<and>
        ts_memory_id ` set (md_tombstones db') = ts_memory_id ` set (md_tombstones db) \<union> row_id ` R)"

lemma filter_unique_rows:
  assumes "store_ok db" and "R \<subseteq> set (md_rows db)"
  shows "filter (\<lambda>r. row_id r \<notin> row_id ` R) (md_rows db) = filter (\<lambda>r. r \<notin> R) (md_rows db)"
proof (rule filter_cong [OF refl])
  fix r assume "r \<in> set (md_rows db)"
  moreover have "inj_on row_id (set (md_rows db))" using assms(1) by (simp add: store_ok_def keys_unique_def distinct_map)
  ultimately show "(row_id r \<notin> row_id ` R) = (r \<notin> R)" using assms(2) by (auto dest: inj_onD)
qed

lemma find_row_filter:
  assumes "store_ok db" and "md_rows db' = filter (\<lambda>r. r \<notin> R) (md_rows db)"
  shows "find_row k db' = (case find_row k db of Some r \<Rightarrow> if r \<in> R then None else Some r | None \<Rightarrow> None)"
  using select_by_delete [of row_id "md_rows db" k "\<lambda>r. r \<in> R"] assms
  by (simp add: find_row_def store_ok_def delete_where_def split: option.split)

lemma collected_trans:
  assumes "store_ok db" and "collected archive now R db db1" and "collected archive now Q db1 db2"
  shows "collected archive now (R \<union> Q) db db2"
proof -
  have rows: "md_rows db1 = filter (\<lambda>r. r \<notin> R) (md_rows db)" using assms(2) by (simp add: collected_def)
  note f = find_row_filter [OF assms(1) rows]
  show ?thesis
  proof (cases archive)
    case True
    have "archive_entry k db2 = (case find_row k db of
        Some r \<Rightarrow> if r \<in> R \<union> Q then Some (archived_copy now ''ttl_expired'' r) else archive_entry k db
      | None \<Rightarrow> archive_entry k db)" for k
      using assms(2,3) True f [of k] by (auto simp: collected_def split: option.splits if_splits)
    then show ?thesis using assms(2,3) True by (auto simp: collected_def intro: filter_cong)
  next
    case False
    then show ?thesis using assms(2,3) by (auto simp: collected_def image_Un intro: filter_cong)
  qed
qed

text \<open>No row is an atom of an expired one: the case the foreign key lets through.\<close>

definition no_expired_parent :: "string \<Rightarrow> mem_db \<Rightarrow> bool" where
  "no_expired_parent now db \<longleftrightarrow>
     (\<forall>r \<in> set (md_rows db). \<forall>s \<in> set (md_rows db). mr_atom_of r = Some (row_id s) \<longrightarrow> \<not> expired now s)"

lemma select_in_part:
  assumes "store_ok db" and "set d \<subseteq> set (md_rows db)"
  shows "select_by row_id k d = (case find_row k db of Some r \<Rightarrow> if r \<in> set d then Some r else None | None \<Rightarrow> None)"
proof (cases "select_by row_id k d")
  case None
  then have "k \<notin> row_id ` set d" by (simp add: select_by_None_iff)
  then show ?thesis using None by (auto split: option.split dest: find_row_SomeD)
next
  case (Some r)
  then have "r \<in> set d" "find_row k db = Some r"
    using select_by_SomeD [OF Some] assms by (auto simp: find_row_in)
  then show ?thesis using Some by simp
qed

lemma doomed_rows:
  "set (gc_doomed now db) \<subseteq> set (filter (expired now) (md_rows db))"
  "length (gc_doomed now db) < gc_chunk_rows \<Longrightarrow> gc_doomed now db = filter (expired now) (md_rows db)"
  by (auto simp: gc_doomed_def dest: in_set_takeD)

lemma gc_chunk_collects:
  assumes "store_ok db" and "no_expired_parent now db"
  shows "\<exists>db'. gc_chunk archive now db = Inr (db', length (gc_doomed now db)) \<and> collected archive now (set (gc_doomed now db)) db db'"
proof -
  let ?d = "gc_doomed now db" and ?p = "\<lambda>r. row_id r \<in> row_id ` set (gc_doomed now db)"
  let ?db1 = "if archive then archive_rows now ''ttl_expired'' ?d db else fold (record_tombstone now) ?d db"
  have sub: "set ?d \<subseteq> set (md_rows db)" and ex: "\<forall>r \<in> set ?d. expired now r" using doomed_rows(1) [of now db] by auto
  have rows: "md_rows ?db1 = md_rows db" "md_standards ?db1 = md_standards db" by simp_all
  have del: "delete_where ?p (md_rows db) = filter (\<lambda>r. r \<notin> set ?d) (md_rows db)"
    using filter_unique_rows [OF assms(1) sub] by (simp add: delete_where_def)
  have inj: "inj_on row_id (set (md_rows db))" using assms(1) by (simp add: store_ok_def keys_unique_def distinct_map)
  have gone: "filter ?p (md_rows db) = filter (\<lambda>r. r \<in> set ?d) (md_rows db)"
    using inj sub by (intro filter_cong [OF refl]) (auto dest: inj_onD)
  have dist: "distinct (md_rows db)" using assms(1) by (simp add: store_ok_def keys_unique_def distinct_map)
  then have "distinct ?d" by (simp add: gc_doomed_def distinct_take)
  then have "count_where ?p (md_rows db) = length ?d"
    using dist sub gone by (metis count_where_def distinct_card distinct_filter inf.absorb2 inf_set_def set_filter Int_def)
  moreover have "\<not> (\<exists>r \<in> set (delete_where ?p (md_rows db)). \<exists>i \<in> row_id ` set (filter ?p (md_rows db)). mr_atom_of r = Some i)"
    using assms(2) sub ex gone by (auto simp: no_expired_parent_def delete_where_def)
  ultimately have chunk: "gc_chunk archive now db = Inr (?db1\<lparr>md_rows := delete_where ?p (md_rows db)\<rparr>, length ?d)"
    unfolding gc_chunk_def delete_rows_def Let_def rows(1) by simp
  have lookup: "select_by row_id k (rev ?d) = (case find_row k db of Some r \<Rightarrow> if r \<in> set ?d then Some r else None | None \<Rightarrow> None)" for k
    using select_in_part [OF assms(1), of "rev ?d" k] sub by (simp only: set_rev)
  have "collected archive now (set ?d) db (?db1\<lparr>md_rows := delete_where ?p (md_rows db)\<rparr>)"
    using del fold_archive_put [of _ now "''ttl_expired''" ?d db] lookup tombstones_after [of now ?d db]
    by (auto simp: collected_def archive_entry_def split: option.split)
  then show ?thesis using chunk by blast
qed

lemma doomed_count:
  assumes "store_ok db"
  shows "length (gc_doomed now db) + count_where (expired now) (filter (\<lambda>r. r \<notin> set (gc_doomed now db)) (md_rows db)) =
    count_where (expired now) (md_rows db)"
proof -
  let ?e = "filter (expired now) (md_rows db)"
  have "distinct ?e" using assms by (simp add: store_ok_def keys_unique_def distinct_map)
  then have "distinct (take gc_chunk_rows ?e @ drop gc_chunk_rows ?e)" by simp
  then have d: "set (take gc_chunk_rows ?e) \<inter> set (drop gc_chunk_rows ?e) = {}" unfolding distinct_append by blast
  have "filter (\<lambda>r. r \<notin> set (take gc_chunk_rows ?e)) (take gc_chunk_rows ?e @ drop gc_chunk_rows ?e) = drop gc_chunk_rows ?e"
    unfolding filter_append using d by (simp add: filter_id_conv disjoint_iff) blast
  then have "filter (\<lambda>r. r \<notin> set (take gc_chunk_rows ?e)) ?e = drop gc_chunk_rows ?e" by simp
  moreover have "filter (expired now) (filter (\<lambda>r. r \<notin> set (gc_doomed now db)) (md_rows db)) =
      filter (\<lambda>r. r \<notin> set (take gc_chunk_rows ?e)) ?e"
    by (simp add: gc_doomed_def conj_commute)
  ultimately show ?thesis by (simp add: count_where_def gc_doomed_def)
qed

lemma gc_loop_collects:
  assumes "store_ok db" and "no_expired_parent now db"
  shows "\<exists>db'. gc_loop archive now acc db = (db', Inr (acc + count_where (expired now) (md_rows db))) \<and>
    collected archive now (set (filter (expired now) (md_rows db))) db db'"
  using assms
proof (induction archive now acc db rule: gc_loop.induct)
  case (1 archive now acc db)
  let ?d = "gc_doomed now db"
  obtain db1 where c: "gc_chunk archive now db = Inr (db1, length ?d)" and col: "collected archive now (set ?d) db db1"
    using gc_chunk_collects [OF 1(2,3)] by blast
  show ?case
  proof (cases "length ?d < gc_chunk_rows")
    case True
    then show ?thesis using c col doomed_rows(2) [OF True] by (subst gc_loop.simps) (simp add: count_where_def)
  next
    case False
    have rows: "md_rows db1 = filter (\<lambda>r. r \<notin> set ?d) (md_rows db)" using col by (simp add: collected_def)
    have par: "no_expired_parent now db1" using 1(3) by (auto simp: no_expired_parent_def rows)
    obtain db2 where l: "gc_loop archive now (acc + length ?d) db1 = (db2, Inr (acc + length ?d + count_where (expired now) (md_rows db1)))"
      and col2: "collected archive now (set (filter (expired now) (md_rows db1))) db1 db2"
      using 1(1) [OF c refl False gc_chunk_ok [OF 1(2) c] par] by blast
    have "set ?d \<union> set (filter (expired now) (md_rows db1)) = set (filter (expired now) (md_rows db))"
      using doomed_rows(1) [of now db] by (auto simp: rows)
    moreover have "length ?d + count_where (expired now) (md_rows db1) = count_where (expired now) (md_rows db)"
      using doomed_count [OF 1(2), of now] by (simp add: rows)
    ultimately show ?thesis using c False l collected_trans [OF 1(2) col col2]
      by (subst gc_loop.simps) (simp add: add.assoc)
  qed
qed


section \<open>Forgetting\<close>

lemma newer_insert_ids:
  assumes "redact_keeps_id env"
  shows "live_ids (fst (insert_if_newer env now m db)) \<subseteq> live_ids db \<union> (if memory_is_tombstoned (m_id m) db then {} else {m_id m})"
    and "md_tombstones (fst (insert_if_newer env now m db)) = md_tombstones db"
proof -
  let ?r = "fresh_row env now (stored_form env m)"
  have id: "row_id ?r = m_id m"
    using assms by (auto simp: redact_keeps_id_def fresh_row_def stored_form_def Let_def split: option.split)
  have "live_ids db' \<subseteq> live_ids db \<union> {m_id m} \<and> md_tombstones db' = md_tombstones db"
    if "upsert_statement newer_row ?r db = Inr (db', v)" for db' v
    using that id by (auto simp: upsert_statement_def update_where_def newer_row_keeps dest!: plain_insert_rows split: option.splits)
  then show "live_ids (fst (insert_if_newer env now m db)) \<subseteq> live_ids db \<union> (if memory_is_tombstoned (m_id m) db then {} else {m_id m})"
      "md_tombstones (fst (insert_if_newer env now m db)) = md_tombstones db"
    by (auto simp: insert_if_newer_def in_transaction_def split: sum.splits)
qed

lemma overwrite_ids:
  assumes "overwrite_full_row_by_id env now m db = Inr db'"
  shows "live_ids db' = live_ids db" and "md_tombstones db' = md_tombstones db"
proof -
  show "live_ids db' = live_ids db"
  proof -
    have "map row_id (md_rows db') = map row_id (md_rows db)"
      using update_by_id_rows [OF assms [unfolded overwrite_full_row_by_id_def]] by (simp add: update_where_def)
    then show ?thesis by (metis list.set_map)
  qed
  show "md_tombstones db' = md_tombstones db"
    using assms by (auto simp: overwrite_full_row_by_id_def update_by_id_def archive_memory_insert_only_def archive_put_def
      split: option.splits if_splits)
qed

lemma newer_keeps_forgotten:
  assumes "redact_keeps_id env" and "memory_is_tombstoned i db" and "i \<notin> live_ids db"
  shows "memory_is_tombstoned i (fst (insert_if_newer env now m db)) \<and> i \<notin> live_ids (fst (insert_if_newer env now m db))"
proof -
  have "i \<notin> live_ids db \<union> (if memory_is_tombstoned (m_id m) db then {} else {m_id m})" using assms(2,3) by auto
  then have "i \<notin> live_ids (fst (insert_if_newer env now m db))" using newer_insert_ids(1) [OF assms(1)] by blast
  then show ?thesis using assms(2) newer_insert_ids(2) [OF assms(1)] by (simp add: memory_is_tombstoned_def)
qed

lemma inbound_step_ids:
  assumes "inbound_step ch db db'" and "memory_is_tombstoned i db" and "i \<notin> live_ids db"
  shows "memory_is_tombstoned i db' \<and> i \<notin> live_ids db'"
  using assms
proof (induction rule: inbound_step.induct)
  case (by_newer env db now m)
  show ?case using newer_keeps_forgotten [OF by_newer(2-4)] .
next
  case (by_merge env db now m)
  show ?case
  proof (cases "get_memory (m_id m) db")
    case None
    then show ?thesis using newer_keeps_forgotten [OF by_merge(2-4)] by (simp add: merge_inbound_def)
  next
    case (Some existing)
    have "fst (merge_inbound env now m db) = db \<or> (\<exists>x. overwrite_full_row_by_id env now x db = Inr (fst (merge_inbound env now m db)))"
      by (auto simp: merge_inbound_def Let_def Some split: sum.split)
    then show ?thesis
    proof (elim disjE exE)
      fix x assume "overwrite_full_row_by_id env now x db = Inr (fst (merge_inbound env now m db))"
      note overwrite_ids [OF this]
      then show ?thesis using by_merge(3,4) by (simp only: memory_is_tombstoned_def simp_thms)
    qed (use by_merge(3,4) in simp)
  qed
qed

lemma inbound_steps_ids:
  assumes "(inbound_step ch)\<^sup>*\<^sup>* db db'"
  shows "memory_is_tombstoned i db \<Longrightarrow> i \<notin> live_ids db \<Longrightarrow> memory_is_tombstoned i db' \<and> i \<notin> live_ids db'"
  using assms by (induction rule: rtranclp_induct) (simp, metis inbound_step_ids)

text \<open>C39: a forgotten row is not pushed back. After a successful call of \<^verbatim>\<open>forget\<close>, no row that matched it is
  in the store, and no sequence of rows received from peers, whatever their content and order and whichever
  of the two inbound paths they take, brings its identifier back.\<close>

theorem forgotten_stays_forgotten:
  assumes "forget env now namespace pat tr archive db = (db1, Inr n)"
    and "r \<in> set (md_rows db)" and "forget_matches namespace pat tr r" and "store_ok db"
    and "(inbound_step ch)\<^sup>*\<^sup>* db1 db2"
  shows "find_row (row_id r) db2 = None"
proof -
  let ?v = "filter (forget_matches namespace pat tr) (md_rows db)"
  let ?a = "if archive then archive_rows (stamp_of env now) ''forget'' ?v db else db"
  have "delete_rows (forget_matches namespace pat tr) (fold (record_tombstone (stamp_of env now)) ?v ?a) = Inr (db1, n)"
    using assms(1) unfolding forget_def Let_def in_transaction_def by (simp split: if_split_asm sum.split_asm prod.split_asm)
  then have rows: "md_rows db1 = delete_where (forget_matches namespace pat tr) (md_rows db)"
    and tomb: "md_tombstones db1 = md_tombstones (fold (record_tombstone (stamp_of env now)) ?v ?a)"
    by (simp_all add: delete_rows_def Let_def split: if_split_asm) auto
  have ts: "ts_memory_id ` set (md_tombstones db1) = ts_memory_id ` set (md_tombstones db) \<union> row_id ` set ?v"
    using tombstones_after [of "stamp_of env now" ?v ?a] by (simp add: tomb)
  have "inj_on row_id (set (md_rows db))" using assms(4) by (simp add: store_ok_def keys_unique_def distinct_map)
  then have "row_id r \<notin> live_ids db1" using assms(2,3) by (auto simp: rows delete_where_def dest: inj_onD)
  moreover have "memory_is_tombstoned (row_id r) db1" using assms(2,3) by (simp add: memory_is_tombstoned_def ts)
  ultimately have "memory_is_tombstoned (row_id r) db2 \<and> row_id r \<notin> live_ids db2"
    using inbound_steps_ids [OF assms(5)] by blast
  then show ?thesis by (simp add: find_row_None)
qed

section \<open>On a concrete store\<close>

definition demo_patch :: patch where
  "demo_patch = \<lparr>pt_title = None, pt_content = Some ''new'', pt_tier = None, pt_namespace = None, pt_tags = None,
     pt_priority = None, pt_confidence = None, pt_expires_at = None, pt_metadata = None, pt_source_uri = None\<rparr>"

lemma demo_row: "find_row ''a'' demo_db = Some (local_row demo_env 2 (demo_mem ''a'' ''t'' ''old''))"
  by (simp add: find_row_def demo_db_rows select_by_def local_row_def fresh_row_def demo_mem_def Let_def)

lemma demo_db_ok: "store_ok demo_db"
  unfolding demo_db_def by (rule insert_with_conflict.keeps_ok [OF empty_db_ok])

lemma local_row_sel [simp]:
  "row_id (local_row env now m) = m_id m" "m_version (mr_mem (local_row env now m)) = 1"
  "m_content (mr_mem (local_row env now m)) = m_content m" "m_title (mr_mem (local_row env now m)) = m_title m"
  "m_namespace (mr_mem (local_row env now m)) = m_namespace m" "mr_atom_of (local_row env now m) = None"
  by (simp_all add: local_row_def fresh_row_def Let_def)

lemma demo_env_open [simp]:
  "se_stopped demo_env = False" "consult_governance_pre_write demo_env m = Inr ()" "se_pre_write demo_env m = None"
  "se_metadata_ok demo_env v" "redact_keeps_id demo_env" "stored_form demo_env m = m" "se_chrono demo_env = unary_chrono"
  by (simp_all add: demo_env_def consult_governance_pre_write_def redact_keeps_id_def stored_form_def)

lemma demo_update: "snd (update_with_expected_version demo_env 3 ''a'' demo_patch (Some 1) demo_db) = Inr (True, True)"
  by (simp add: update_with_expected_version_def demo_row Let_def content_changed_def demo_patch_def value_or_def demo_mem_def
    archive_memory_insert_only_def update_by_id_def find_row_def demo_db_rows archive_put_def select_by_def)


lemma demo_archive: "snd (archive_memory demo_env 3 ''a'' None demo_db) = Inr True"
  by (simp add: archive_memory_def archive_memory_core_def demo_row in_transaction_def delete_rows_def delete_standard_def
    archive_put_def Let_def demo_db_rows delete_where_def count_where_def demo_mem_def)

theorem archived_row_comes_back_witness:
  "\<exists>db2. restore_archived_memory demo_env 4 ''a'' (fst (archive_memory demo_env 3 ''a'' None demo_db)) = (db2, Inr True)"
proof -
  let ?a = "archive_memory demo_env 3 ''a'' None demo_db"
  have "?a = (fst ?a, Inr True)" using demo_archive by (simp add: prod_eq_iff)
  from archived_row_comes_back [OF demo_db_ok demo_row this, of demo_env 4] show ?thesis by auto
qed

definition expiring_db :: mem_db where
  "expiring_db = demo_db\<lparr>md_rows := map (\<lambda>r. r\<lparr>mr_mem := (mr_mem r)\<lparr>m_expires_at := Some ''x''\<rparr>\<rparr>) (md_rows demo_db)\<rparr>"

lemma expiring_db_ok: "store_ok expiring_db"
  using demo_db_ok by (simp add: expiring_db_def store_ok_def keys_unique_def demo_db_rows)


theorem forgotten_stays_forgotten_witness:
  "find_row ''a'' (fst (merge_inbound demo_env 5 (demo_mem ''a'' ''t'' ''again'') (fst (forget demo_env 3 (Some ''ops'') None None False demo_db)))) = None"
proof -
  let ?f = "forget demo_env 3 (Some ''ops'') None None False demo_db" and ?r = "local_row demo_env 2 (demo_mem ''a'' ''t'' ''old'')"
  have "snd ?f = Inr 1"
    by (simp add: forget_def Let_def in_transaction_def delete_rows_def demo_db_rows forget_matches_def demo_mem_def
      delete_where_def count_where_def)
  then have f: "?f = (fst ?f, Inr 1)" by (simp add: prod_eq_iff)
  have "(inbound_step unary_chrono)\<^sup>*\<^sup>* (fst ?f) (fst (merge_inbound demo_env 5 (demo_mem ''a'' ''t'' ''again'') (fst ?f)))"
    by (rule r_into_rtranclp, rule inbound_step.by_merge) simp_all
  from forgotten_stays_forgotten [OF f _ _ demo_db_ok this, of ?r] show ?thesis
    by (simp add: demo_db_rows forget_matches_def demo_mem_def)
qed

section \<open>Where the code and its documents part\<close>

text \<open>One expired row with a surviving atom blocks the collector: the deletion violates the foreign key, and
  no expired row goes.\<close>

lemma gc_blocked_by_atom:
  assumes "r \<in> set (md_rows db)" and "s \<in> set (md_rows db)" and "mr_atom_of r = Some (row_id s)"
    and "expired (stamp_of env now) s" and "\<not> expired (stamp_of env now) r" and "store_ok db"
    and "count_where (expired (stamp_of env now)) (md_rows db) < gc_chunk_rows"
  shows "gc env now archive db = (db, Inl (StoreSql ForeignKeyViolation))"
proof -
  let ?now = "stamp_of env now"
  have d: "gc_doomed ?now db = filter (expired ?now) (md_rows db)" using assms(7) by (simp add: gc_doomed_def count_where_def)
  have "r \<in> set (filter (\<lambda>q. row_id q \<notin> row_id ` set (gc_doomed ?now db)) (md_rows db))"
    using filter_unique_rows [OF assms(6), of "set (gc_doomed ?now db)"] assms(1,5) by (simp add: d)
  moreover have "row_id s \<in> row_id ` set (filter (\<lambda>q. row_id q \<in> row_id ` set (gc_doomed ?now db)) (md_rows db))"
    using assms(2,4) by (auto simp: d)
  ultimately have "\<exists>q \<in> set (delete_where (\<lambda>q. row_id q \<in> row_id ` set (gc_doomed ?now db)) (md_rows db)).
      \<exists>i \<in> row_id ` set (filter (\<lambda>q. row_id q \<in> row_id ` set (gc_doomed ?now db)) (md_rows db)). mr_atom_of q = Some i"
    using assms(3) unfolding delete_where_def by blast
  moreover have "md_rows (if archive then archive_rows ?now reason rs db else fold (record_tombstone ?now) rs db) = md_rows db" for reason rs
    by simp
  ultimately have "gc_chunk archive ?now db = Inl (StoreSql ForeignKeyViolation)"
    unfolding gc_chunk_def delete_rows_def Let_def by (simp only: if_True)
  then show ?thesis by (simp add: gc_def gc_loop.simps)
qed

text \<open>The inbound merge onto an existing row asks neither the record stop nor the pre-write hook.\<close>

lemma merge_ignores_gates:
  "get_memory (m_id m) db \<noteq> None \<Longrightarrow>
     merge_inbound (env\<lparr>se_stopped := stopped, se_pre_write := hook\<rparr>) now m db = merge_inbound env now m db"
  by (auto simp: merge_inbound_def overwrite_full_row_by_id_def)

text \<open>The inbound upsert replaces the text and keeps the version, so an optimistic update that names the
  version read before it goes through.\<close>

definition peer_edit :: memory where
  "peer_edit = (demo_mem ''b'' ''t'' ''theirs'')\<lparr>m_updated_at := ''xx''\<rparr>"

lemma demo_db_eq:
  "demo_db = \<lparr>md_rows = [local_row demo_env 2 (demo_mem ''a'' ''t'' ''old'')], md_archive = [], md_standards = [], md_tombstones = []\<rparr>"
  by (simp add: demo_db_def insert_with_conflict_def insert_memory_def in_transaction_def upsert_statement_def find_slot_def
      plain_insert_def find_row_def empty_db_def select_by_def)

lemma demo_mem_sel [simp]:
  "m_id (demo_mem i t c) = i" "m_title (demo_mem i t c) = t" "m_namespace (demo_mem i t c) = ''ops''"
  "m_content (demo_mem i t c) = c" "m_updated_at (demo_mem i t c) = ''x''" "m_version (demo_mem i t c) = 1"
  by (simp_all add: demo_mem_def)

lemma fresh_row_sel [simp]:
  "row_id (fresh_row env now m) = m_id m" "m_version (mr_mem (fresh_row env now m)) = m_version m"
  "m_content (mr_mem (fresh_row env now m)) = m_content m" "m_title (mr_mem (fresh_row env now m)) = m_title m"
  "m_namespace (mr_mem (fresh_row env now m)) = m_namespace m" "m_updated_at (mr_mem (fresh_row env now m)) = m_updated_at m"
  "m_updated_at (mr_mem (local_row env now m)) = m_updated_at m"
  by (simp_all add: local_row_def fresh_row_def Let_def)

lemma peer_edit_applied:
  "insert_if_newer demo_env 3 peer_edit demo_db =
     (demo_db\<lparr>md_rows := [newer_row (local_row demo_env 2 (demo_mem ''a'' ''t'' ''old'')) (fresh_row demo_env 3 peer_edit)]\<rparr>, Inr ''a'')"
  by (simp add: insert_if_newer_def memory_is_tombstoned_def demo_db_eq peer_edit_def in_transaction_def upsert_statement_def
    find_slot_def select_by_def update_where_def)

lemma peer_edit_row:
  "m_content (mr_mem (newer_row (local_row demo_env 2 (demo_mem ''a'' ''t'' ''old'')) (fresh_row demo_env 3 peer_edit))) = ''theirs''"
  "m_version (mr_mem (newer_row (local_row demo_env 2 (demo_mem ''a'' ''t'' ''old'')) (fresh_row demo_env 3 peer_edit))) = 1"
  by (simp_all add: newer_row_def newer_memory_def incoming_wins_def Let_def peer_edit_def)

lemma inbound_edit_lost:
  "map_option m_content (get_memory ''a'' (fst (insert_if_newer demo_env 3 peer_edit demo_db))) = Some ''theirs'' \<and>
   snd (update_with_expected_version demo_env 4 ''a'' demo_patch (Some 1) (fst (insert_if_newer demo_env 3 peer_edit demo_db))) = Inr (True, True)"
  by (simp add: peer_edit_applied get_memory_def find_row_def select_by_def newer_row_keeps peer_edit_row
    update_with_expected_version_def Let_def content_changed_def demo_patch_def value_or_def archive_memory_insert_only_def
    archive_put_def update_by_id_def)

text \<open>A forget without archiving leaves the snapshots of earlier edits in the archive, and a restore brings
  the old text back.\<close>

definition forgotten_db :: mem_db where
  "forgotten_db = fst (forget demo_env 4 (Some ''ops'') None None False
     (fst (update_with_expected_version demo_env 3 ''a'' demo_patch (Some 1) demo_db)))"

lemma edited_demo_db:
  "fst (update_with_expected_version demo_env 3 ''a'' demo_patch (Some 1) demo_db) =
     demo_db\<lparr>md_rows := [edited_row demo_env 3 demo_patch (local_row demo_env 2 (demo_mem ''a'' ''t'' ''old''))],
       md_archive := [archived_copy (stamp_of demo_env 3) ''in_place_edit'' (local_row demo_env 2 (demo_mem ''a'' ''t'' ''old''))]\<rparr>"
  by (simp add: update_with_expected_version_def find_row_def select_by_def demo_db_eq Let_def content_changed_def demo_patch_def
    value_or_def archive_memory_insert_only_def archive_put_def update_by_id_def update_where_def delete_where_def edited_row_def)

lemma forgotten_db_eq:
  "md_rows forgotten_db = []"
  "md_archive forgotten_db = [archived_copy (stamp_of demo_env 3) ''in_place_edit'' (local_row demo_env 2 (demo_mem ''a'' ''t'' ''old''))]"
  unfolding forgotten_db_def edited_demo_db
  by (simp_all add: forget_def Let_def in_transaction_def delete_rows_def forget_matches_def edited_row_def patched_memory_def
    demo_patch_def value_or_def delete_where_def)

lemma snapshot_survives_forget:
  "find_row ''a'' forgotten_db = None \<and>
   map_option m_content (get_memory ''a'' (fst (restore_archived_memory demo_env 5 ''a'' forgotten_db))) = Some ''old''"
proof -
  let ?r = "local_row demo_env 2 (demo_mem ''a'' ''t'' ''old'')"
  have sel: "select_by archived_id ''a'' (md_archive forgotten_db) = Some (archived_copy (stamp_of demo_env 3) ''in_place_edit'' ?r)"
    by (simp add: forgotten_db_eq select_by_def)
  have "restore_archived_memory demo_env 5 ''a'' forgotten_db =
      (forgotten_db\<lparr>md_rows := md_rows forgotten_db @ [revived_row demo_env 5 ?r],
         md_archive := delete_where (\<lambda>b. archived_id b = ''a'') (md_archive forgotten_db)\<rparr>, Inr True)"
    by (rule restore_succeeds [OF sel]) (simp_all add: forgotten_db_eq)
  then show ?thesis by (simp add: find_row_def get_memory_def forgotten_db_eq select_by_def revived_row_def Let_def)
qed

end
