(* ===== verification/Spec2Isabelle.thy ===== *)
theory Spec2Isabelle
  imports Prelude Actions Signing Signals Checkpoints Routines Json Memory Clock Crdt Cycle Links
    Quorum Sequencer Replay Quotas
    Chain SignedEvents AuditReport Revisions
    Text Glob Hooks Permissions Policy Capability Governance Approvals AgentRules Deferred AgentGate
    MemoryRow MemoryStore StoreLaws StoreSafety SecretScreen
begin

text \<open>
  A verification library for the core of ai-memory, an agent memory service written in Rust
  (sources under \<^verbatim>\<open>src/src/\<close>): a store of memory rows that agents write and read through MCP, HTTP and a
  command line, that replicates between peers, that asks a governance layer before it writes, and that
  signs and hash-links what it did. Modelled are the state and the operations of that core; the surfaces
  that only parse requests and call it are not.

  \<^bold>\<open>The parts and how they interact.\<close> A local write of a memory passes the pre-write hook of the rule engine
  (\<open>AgentGate\<close>, over the rules of \<open>AgentRules\<close>), the namespace policy (\<open>Governance\<close>, with the permission rules of
  \<open>Permissions\<close>, the hooks of \<open>Hooks\<close> and the tokens of \<open>Capability\<close>), the daily quota (\<open>Quotas\<close>) and the secret
  screen (\<open>SecretScreen\<close>), lands in the store (\<open>MemoryStore\<close>) and is sent to the peers in a store round
  (\<open>Quorum\<close>). A policy that asks for approval leaves a pending row (\<open>Approvals\<close>). A row that comes from a peer is
  prepared and merged (\<open>Crdt\<close>, on the clocks of \<open>Clock\<close>), after its signature and nonce were checked (\<open>Signing\<close>,
  \<open>Replay\<close>). Refusals and decisions go to the audit table, directly (\<open>SignedEvents\<close>) or through a queue with a
  journal (\<open>Deferred\<close>). Agents coordinate through actions, signals, checkpoints and routines.

  \<^bold>\<open>Theories and sources.\<close>
  \<^item> \<open>Prelude\<close>, \<open>Json\<close>, \<open>Text\<close>, \<open>Chain\<close>: tables as lists of rows with their SQL statements, ordered maps and JSON
    values, text operations of the standard library, hash-linked tables. No file of the source.
  \<^item> \<open>Actions\<close>: \<^verbatim>\<open>models/action.rs\<close>, \<^verbatim>\<open>actions/mod.rs\<close>. \<open>coord_db\<close> holds the three tables; one definition per
    operation; \<open>coord_step\<close> is any call by anybody. \<open>Signals\<close>, \<open>Checkpoints\<close>, \<open>Routines\<close>: the other
    coordination tables, \<^verbatim>\<open>signals\<close>, \<^verbatim>\<open>checkpoints\<close>, \<^verbatim>\<open>routines\<close> and their models.
  \<^item> \<open>Signing\<close>: \<^verbatim>\<open>identity/sign.rs\<close>, \<^verbatim>\<open>identity/verify.rs\<close>, \<^verbatim>\<open>identity/keypair.rs\<close>. \<open>Replay\<close>: \<^verbatim>\<open>identity/replay.rs\<close>.
  \<^item> \<open>Memory\<close>: the row and vocabularies of \<^verbatim>\<open>models/memory.rs\<close>. \<open>Clock\<close>, \<open>Crdt\<close>: \<^verbatim>\<open>models/link.rs\<close> (clocks),
    \<^verbatim>\<open>models/crdt_primitives.rs\<close>, \<^verbatim>\<open>models/crdt_merge.rs\<close> and the preparation of inbound rows.
  \<^item> \<open>MemoryRow\<close>, \<open>MemoryStore\<close>: \<^verbatim>\<open>identity/cid.rs\<close> and the sqlite store of \<^verbatim>\<open>storage/mod.rs\<close>; \<open>mem_db\<close> holds live
    rows, archive, tombstones and standards. \<open>StoreLaws\<close> states its contracts, \<open>StoreSafety\<close> what it promises.
  \<^item> \<open>SecretScreen\<close>: \<^verbatim>\<open>secret_screen.rs\<close>. \<open>Links\<close>, \<open>Cycle\<close>: the links of \<^verbatim>\<open>storage/mod.rs\<close> and \<^verbatim>\<open>kg/cycle_check.rs\<close>.
  \<^item> \<open>Quorum\<close>: \<^verbatim>\<open>replication.rs\<close>, \<^verbatim>\<open>federation/quorum.rs\<close>, the store round of \<^verbatim>\<open>federation/sync.rs\<close>. \<open>Sequencer\<close>:
    \<^verbatim>\<open>sequencer.rs\<close>. \<open>Quotas\<close>: \<^verbatim>\<open>quotas.rs\<close>.
  \<^item> \<open>SignedEvents\<close>, \<open>AuditReport\<close>: \<^verbatim>\<open>signed_events.rs\<close>, \<^verbatim>\<open>governance/audit.rs\<close>. \<open>Revisions\<close>: \<^verbatim>\<open>revisions.rs\<close>.
  \<^item> \<open>Glob\<close>, \<open>Permissions\<close>, \<open>Policy\<close>, \<open>Governance\<close>, \<open>Approvals\<close>: \<^verbatim>\<open>governance/mod.rs\<close>, \<^verbatim>\<open>models/namespace.rs\<close>,
    \<^verbatim>\<open>governance/refusal.rs\<close>, and the gate and queue of \<^verbatim>\<open>storage/mod.rs\<close>. \<open>Hooks\<close>: \<^verbatim>\<open>hooks/\<close>. \<open>Capability\<close>:
    \<^verbatim>\<open>governance/capability.rs\<close>.
  \<^item> \<open>AgentRules\<close>, \<open>Deferred\<close>, \<open>AgentGate\<close>: \<^verbatim>\<open>governance/agent_action.rs\<close>, \<^verbatim>\<open>rules_store.rs\<close>, \<^verbatim>\<open>deferred_audit.rs\<close>,
    \<^verbatim>\<open>policy_version.rs\<close>, \<^verbatim>\<open>rule_cache.rs\<close>, \<^verbatim>\<open>wire_check.rs\<close> and the hooks of \<^verbatim>\<open>daemon_runtime.rs\<close>.

  \<^bold>\<open>Conventions.\<close> A handler takes the database and returns the one it leaves with its result; a failed
  transaction returns the database it started from. Errors are values of a sum. A column holds a typed value
  or, where decoding matters, its text. Text is the list of its bytes. Integers the code only compares are
  unbounded; where a sum can overflow (\<open>Quotas\<close>, the counters of \<open>Crdt\<close>) saturation is written out. What is not
  in the repository is a parameter: hashes and signatures (\<open>crypto\<close>), the JSON and CBOR libraries (\<open>codec\<close>), the
  clock, identifiers drawn at random, subprocesses and disks. A hypothesis on one of them states documented
  behaviour - a parser undoes its printer, an identifier is fresh, a hash has 32 bytes - and a collision of
  a hash is always a disjunct that names the two inputs, never an assumption.

  \<^bold>\<open>Interfaces.\<close> \<open>keyed_store\<close> (insertion and lookup in a keyed table) is interpreted on actions, checkpoints,
  routines, runs and signals; \<open>wire_enum\<close> (words of an enumeration) on every vocabulary; \<open>replicated\<close> (a merge
  that is a semilattice on what readers see) on clocks and memory rows; \<open>hash_chain\<close> on the audit table and the
  revision ledger; \<open>quorum_system\<close> on majorities; \<open>store_operation\<close> and \<open>atomic_operation\<close> on every operation of
  the store that changes it.

  \<^bold>\<open>What the theorems show.\<close> Invariants of tables under any calls (coordination, pending rows, policy version,
  quotas, links); finality (terminal actions, resolutions, decisions, expiries); exactness of decisions
  (rules, governance gate, capability tokens, store round, cycle gate, glob matcher) against a
  declarative reading; convergence of replicas and bounds on what a peer can overwrite; exclusion by
  leases; total order of committed slots; replay windows as refinements of a history window; detection of
  edits of signed tables; survival of the deferred journal; optimistic updates, archive round trip,
  collection and forgetting of the store; absence of access keys in stored rows. Each such theorem says in
  the text above it under which events it holds. The last sections of several theories show, as lemmas on
  the same definitions, where code and comments part.

  \<^bold>\<open>Bounds and termination.\<close> The loops of the source are structural recursions or functions with a measure; the
  fold loop, the collectors and the token scanner terminate by the rows or bytes left. The cycle walk takes
  the hop ceiling of the source as its bound, and its theorem says what it decides at the ceiling. The glob
  matcher and the private-key scan backtrack and are partial functions: the first is proved to return
  always, the second on texts with at most one block (it does not return on two). The store round returns
  when its event stream ends; the sweep settles rows in infinite runs in which it recurs.

  \<^bold>\<open>Not modelled.\<close> The MCP, HTTP and command-line surfaces, configuration, boot and tasks, transport, metrics and
  migrations, which only call the core; the Postgres backend, a second implementation of the store;
  full-text and ranked search, embeddings, vector indexes and scores, which are floating-point or library
  code; everything a language model decides (curation, atomisation, synthesis); encryption at rest;
  concurrent writers between two statements of one call. Inside the modelled files: log output, metrics and
  the wording of most errors.
\<close>

end
